(* ===== verification/TS_Prelude.thy ===== *)
theory TS_Prelude
  imports Main
begin

text \<open>
  Shared vocabulary of the development: the named theorem collections, the option operators
  of TypeScript (\<open>a ?? b\<close> on a defined or undefined value), decimal rendering of counters, and
  JavaScript's insertion-ordered \<open>Set\<close> and \<open>Map\<close> with the laws their clients rely on, stated
  as locales and interpreted on the list models.

  Strings are HOL's \<open>string\<close>, so every model that takes one ranges over JavaScript strings whose
  code units are below 256. \<open>undefined\<close> and an absent field are both \<open>None\<close>.
\<close>

named_theorems js_coll \<open>laws of insertion-ordered collections\<close>
named_theorems ts_ops \<open>unfolding of small TypeScript operators\<close>

section \<open>Undefined values\<close>

text \<open>\<open>nullish a b\<close> is \<open>a ?? b\<close> with a defined right operand; \<open>or_else a b\<close> when the right
  operand may itself be undefined.\<close>

definition nullish :: "'a option \<Rightarrow> 'a \<Rightarrow> 'a" where
  "nullish a b = (case a of None \<Rightarrow> b | Some x \<Rightarrow> x)"

definition or_else :: "'a option \<Rightarrow> 'a option \<Rightarrow> 'a option" where
  "or_else a b = (case a of None \<Rightarrow> b | Some x \<Rightarrow> Some x)"

lemma nullish_simps [simp, ts_ops]: "nullish None b = b" "nullish (Some x) b = x"
  by (simp_all add: nullish_def)

lemma or_else_simps [simp, ts_ops]: "or_else None b = b" "or_else (Some x) b = Some x"
  by (simp_all add: or_else_def)

lemma or_else_SomeE:
  assumes "or_else a b = Some x"
  obtains "a = Some x" | "a = None" "b = Some x"
  using assms by (cases a) auto

section \<open>Decimal rendering\<close>

definition digit_char :: "nat \<Rightarrow> char" where
  "digit_char d = ''0123456789'' ! d"

fun show_nat :: "nat \<Rightarrow> string" where
  "show_nat n = (if n < 10 then [digit_char n] else show_nat (n div 10) @ [digit_char (n mod 10)])"

declare show_nat.simps [simp del]

lemma digit_char_inj: "a < 10 \<Longrightarrow> b < 10 \<Longrightarrow> digit_char a = digit_char b \<Longrightarrow> a = b"
  using nth_eq_iff_index_eq [of "''0123456789''" a b] by (simp add: digit_char_def)

lemma show_nat_nonempty [simp]: "show_nat n \<noteq> []"
  by (subst show_nat.simps) simp

lemma show_nat_inj: "show_nat m = show_nat n \<Longrightarrow> m = n"
proof (induction m arbitrary: n rule: show_nat.induct)
  case (1 m)
  show ?case
  proof (cases "m < 10")
    case True
    with "1.prems" show ?thesis
      by (cases "n < 10")
        (auto simp: show_nat.simps [of m] show_nat.simps [of n] Cons_eq_append_conv intro: digit_char_inj)
  next
    case False
    with "1.prems" have n: "\<not> n < 10"
      by (auto simp: show_nat.simps [of m] show_nat.simps [of n])
    with False "1.prems" have "show_nat (m div 10) = show_nat (n div 10)"
      and "digit_char (m mod 10) = digit_char (n mod 10)"
      by (simp_all add: show_nat.simps [of m] show_nat.simps [of n])
    with "1.IH" [OF False] have "m div 10 = n div 10" "m mod 10 = n mod 10"
      by (auto intro: digit_char_inj)
    then show ?thesis by (metis div_mult_mod_eq)
  qed
qed

lemma digit_char_digit: "k < 10 \<Longrightarrow> digit_char k \<in> set ''0123456789''"
proof -
  assume "k < 10"
  then have "k \<in> {0, 1, 2, 3, 4, 5, 6, 7, 8, 9}" by auto
  then show ?thesis by (auto simp: digit_char_def)
qed

lemma set_show_nat: "set (show_nat n) \<subseteq> set ''0123456789''"
proof (induction n rule: show_nat.induct)
  case (1 n)
  then show ?case using digit_char_digit [of "n mod 10"] by (subst show_nat.simps) auto
qed

section \<open>Insertion-ordered sets\<close>

text \<open>
  A JavaScript \<open>Set\<close> iterates in insertion order and ignores a second insertion: a list
  without duplicates whose new elements go to the end.
\<close>

definition set_add :: "'a \<Rightarrow> 'a list \<Rightarrow> 'a list" where
  "set_add x xs = (if x \<in> set xs then xs else xs @ [x])"

definition set_del :: "'a \<Rightarrow> 'a list \<Rightarrow> 'a list" where
  "set_del x xs = filter (\<lambda>y. y \<noteq> x) xs"

text \<open>\<open>new Set(xs)\<close>, and adding every element of a list to a set.\<close>

definition set_add_all :: "'a list \<Rightarrow> 'a list \<Rightarrow> 'a list" where
  "set_add_all ys xs = fold set_add ys xs"

abbreviation set_of_list :: "'a list \<Rightarrow> 'a list" where
  "set_of_list ys \<equiv> set_add_all ys []"

lemma set_set_add [simp, js_coll]: "set (set_add x xs) = insert x (set xs)"
  by (auto simp: set_add_def)

lemma distinct_set_add [simp, js_coll]: "distinct (set_add x xs) = distinct xs"
  by (auto simp: set_add_def)

lemma set_set_del [simp, js_coll]: "set (set_del x xs) = set xs - {x}"
  by (auto simp: set_del_def)

lemma distinct_set_del [intro, js_coll]: "distinct xs \<Longrightarrow> distinct (set_del x xs)"
  by (simp add: set_del_def)

lemma set_set_add_all [simp, js_coll]: "set (set_add_all ys xs) = set xs \<union> set ys"
  unfolding set_add_all_def by (induction ys arbitrary: xs) auto

lemma distinct_set_add_all [simp, js_coll]: "distinct (set_add_all ys xs) = distinct xs"
  unfolding set_add_all_def by (induction ys arbitrary: xs) auto

lemma set_add_all_Nil [simp]: "set_add_all [] xs = xs"
  by (simp add: set_add_all_def)

lemma set_add_all_Cons: "set_add_all (y # ys) xs = set_add_all ys (set_add y xs)"
  by (simp add: set_add_all_def)

lemma set_add_all_append: "set_add_all (ys @ zs) xs = set_add_all zs (set_add_all ys xs)"
  by (simp add: set_add_all_def)

lemma set_add_all_prefix: "\<exists>zs. set_add_all ys xs = xs @ zs \<and> set zs = set ys - set xs"
proof (induction ys arbitrary: xs)
  case Nil
  show ?case by simp
next
  case (Cons y ys)
  from Cons.IH [of "set_add y xs"] obtain zs where
    "set_add_all ys (set_add y xs) = set_add y xs @ zs" "set zs = set ys - set (set_add y xs)"
    by blast
  then show ?case
    by (cases "y \<in> set xs") (auto simp: set_add_all_Cons set_add_def)
qed

lemma set_add_all_distinct:
  "distinct (xs @ ys) \<Longrightarrow> set_add_all ys xs = xs @ ys"
  by (induction ys arbitrary: xs) (auto simp: set_add_all_Cons set_add_def)

section \<open>Stable sorting\<close>

text \<open>
  \<open>Array.prototype.sort\<close> is stable: for a total preorder \<open>le\<close> (\<open>compare a b <= 0\<close>) every stable
  sort gives the list this insertion sort gives.
\<close>

fun insert_by :: "('a \<Rightarrow> 'a \<Rightarrow> bool) \<Rightarrow> 'a \<Rightarrow> 'a list \<Rightarrow> 'a list" where
  "insert_by le x [] = [x]"
| "insert_by le x (y # ys) = (if le x y then x # y # ys else y # insert_by le x ys)"

definition sort_by :: "('a \<Rightarrow> 'a \<Rightarrow> bool) \<Rightarrow> 'a list \<Rightarrow> 'a list" where
  "sort_by le xs = foldr (insert_by le) xs []"

lemma sort_by_simps [simp]: "sort_by le [] = []" "sort_by le (x # xs) = insert_by le x (sort_by le xs)"
  by (simp_all add: sort_by_def)

lemma set_insert_by [simp]: "set (insert_by le x xs) = insert x (set xs)"
  by (induction xs) auto

lemma length_insert_by [simp]: "length (insert_by le x xs) = Suc (length xs)"
  by (induction xs) auto

lemma distinct_insert_by [simp]: "distinct (insert_by le x xs) \<longleftrightarrow> x \<notin> set xs \<and> distinct xs"
  by (induction xs) auto

lemma set_sort_by [simp]: "set (sort_by le xs) = set xs"
  by (induction xs) auto

lemma length_sort_by [simp]: "length (sort_by le xs) = length xs"
  by (induction xs) auto

lemma distinct_sort_by [simp]: "distinct (sort_by le xs) = distinct xs"
  by (induction xs) auto

lemma sorted_wrt_insert_by:
  assumes "\<And>x y. le x y \<or> le y x" and "\<And>x y z. le x y \<Longrightarrow> le y z \<Longrightarrow> le x z"
  shows "sorted_wrt le xs \<Longrightarrow> sorted_wrt le (insert_by le x xs)"
proof (induction xs)
  case (Cons y ys)
  show ?case
  proof (cases "le x y")
    case True
    with Cons.prems show ?thesis by (auto intro: assms(2))
  next
    case False
    with assms(1) have "le y x" by blast
    with False Cons show ?thesis by auto
  qed
qed simp

lemma sorted_wrt_sort_by:
  assumes "\<And>x y. le x y \<or> le y x" and "\<And>x y z. le x y \<Longrightarrow> le y z \<Longrightarrow> le x z"
  shows "sorted_wrt le (sort_by le xs)"
  by (induction xs) (simp_all add: sorted_wrt_insert_by [OF assms])

section \<open>Insertion-ordered maps\<close>

text \<open>
  A JavaScript \<open>Map\<close>: an association list with distinct keys. Setting a present key keeps its
  position; a new key goes to the end.
\<close>

type_synonym ('k, 'v) jsmap = "('k \<times> 'v) list"

abbreviation map_get :: "('k, 'v) jsmap \<Rightarrow> 'k \<Rightarrow> 'v option" where
  "map_get \<equiv> map_of"

fun map_set :: "'k \<Rightarrow> 'v \<Rightarrow> ('k, 'v) jsmap \<Rightarrow> ('k, 'v) jsmap" where
  "map_set k v [] = [(k, v)]"
| "map_set k v ((k', v') # m) = (if k' = k then (k, v) # m else (k', v') # map_set k v m)"

definition map_del :: "'k \<Rightarrow> ('k, 'v) jsmap \<Rightarrow> ('k, 'v) jsmap" where
  "map_del k m = filter (\<lambda>(k', _). k' \<noteq> k) m"

definition map_keys :: "('k, 'v) jsmap \<Rightarrow> 'k list" where
  "map_keys m = map fst m"

definition map_wf :: "('k, 'v) jsmap \<Rightarrow> bool" where
  "map_wf m = distinct (map_keys m)"

lemma map_get_set [simp, js_coll]: "map_get (map_set k v m) = (map_get m)(k \<mapsto> v)"
  by (induction k v m rule: map_set.induct) (auto simp: fun_eq_iff)

lemma map_get_del [simp, js_coll]: "map_get (map_del k m) = (map_get m)(k := None)"
  unfolding map_del_def by (induction m) (auto simp: fun_eq_iff)

lemma map_keys_set [simp, js_coll]: "map_keys (map_set k v m) = set_add k (map_keys m)"
  by (induction k v m rule: map_set.induct) (auto simp: map_keys_def set_add_def)

lemma map_keys_del [simp, js_coll]: "map_keys (map_del k m) = set_del k (map_keys m)"
  by (induction m) (auto simp: map_keys_def map_del_def set_del_def)

lemma map_wf_Nil [simp, js_coll]: "map_wf []"
  by (simp add: map_wf_def map_keys_def)

lemma map_wf_set [simp, js_coll]: "map_wf (map_set k v m) = map_wf m"
  by (simp add: map_wf_def)

lemma map_wf_del [intro, js_coll]: "map_wf m \<Longrightarrow> map_wf (map_del k m)"
  by (auto simp: map_wf_def)

lemma map_keys_iff: "k \<in> set (map_keys m) \<longleftrightarrow> (\<exists>v. map_get m k = Some v)"
  by (induction m) (auto simp: map_keys_def)

text \<open>The interface clients of a \<open>Map\<close> use, and what it promises them.\<close>

locale js_map =
  fixes empty :: 'm
    and get :: "'m \<Rightarrow> 'k \<Rightarrow> 'v option"
    and put :: "'k \<Rightarrow> 'v \<Rightarrow> 'm \<Rightarrow> 'm"
    and del :: "'k \<Rightarrow> 'm \<Rightarrow> 'm"
    and keys :: "'m \<Rightarrow> 'k list"
  assumes get_empty: "get empty k = None"
    and get_put: "get (put k v m) k' = (if k' = k then Some v else get m k')"
    and get_del: "get (del k m) k' = (if k' = k then None else get m k')"
    and keys_empty: "keys empty = []"
    and keys_put: "keys (put k v m) = (if k \<in> set (keys m) then keys m else keys m @ [k])"
    and keys_get: "k \<in> set (keys m) \<longleftrightarrow> get m k \<noteq> None"
begin

definition put_all :: "('k \<times> 'v) list \<Rightarrow> 'm \<Rightarrow> 'm" where
  "put_all kvs m = fold (\<lambda>(k, v). put k v) kvs m"

lemma put_all_simps: "put_all [] m = m" "put_all ((k, v) # kvs) m = put_all kvs (put k v m)"
  by (simp_all add: put_all_def)

text \<open>The last write to a key wins.\<close>

lemma get_put_all: "get (put_all kvs m) k = or_else (map_of (rev kvs) k) (get m k)"
proof (induction kvs arbitrary: m)
  case Nil
  then show ?case by (simp add: put_all_simps)
next
  case (Cons kv kvs)
  obtain k' v where kv: "kv = (k', v)" by fastforce
  show ?case
    by (cases "map_of (rev kvs) k")
      (auto simp: kv put_all_simps Cons.IH get_put map_add_def or_else_def split: option.splits)
qed

text \<open>Keys keep the order of their first insertion.\<close>

lemma keys_put_all: "keys (put_all kvs m) = set_add_all (map fst kvs) (keys m)"
  by (induction kvs arbitrary: m) (auto simp: put_all_simps keys_put set_add_all_Cons set_add_def)

lemma distinct_keys_put_all: "distinct (keys (put_all kvs empty))"
  by (simp add: keys_put_all keys_empty)

end

interpretation alist_map: js_map "[]" map_get map_set map_del map_keys
  by unfold_locales (auto simp: map_keys_iff map_keys_def [of "[]"] set_add_def)

end
