(* ===== verification/App_Reset.thy ===== *)
theory App_Reset
  imports TS_Prelude
begin

text \<open>
  The app reset policy (\<open>app-reset.ts\<close>): its data, its resolution from configuration
  (\<open>resolveAppResetPolicy\<close>), the action a policy implies (\<open>appResetAction\<close>) and the relation
  \<open>satisfies\<close> between the state a device is in and the state a file wants. The Node
  functions of \<open>node:path\<close> the module calls are modelled for POSIX paths, with the working
  directory as an argument.
\<close>

section \<open>POSIX paths\<close>

fun split_slash :: "string \<Rightarrow> string list" where
  "split_slash [] = [[]]"
| "split_slash (c # cs) =
     (if c = CHR ''/'' then [] # split_slash cs
      else (case split_slash cs of [] \<Rightarrow> [[c]] | s # ss \<Rightarrow> (c # s) # ss))"

definition path_is_absolute :: "string \<Rightarrow> bool" where
  "path_is_absolute p = (case p of [] \<Rightarrow> False | c # _ \<Rightarrow> c = CHR ''/'')"

text \<open>Node's \<open>normalizeString\<close> on the segments of an absolute path, last segment first.\<close>

fun normalize_segments :: "string list \<Rightarrow> string list \<Rightarrow> string list" where
  "normalize_segments acc [] = rev acc"
| "normalize_segments acc (s # ss) =
     (if s = [] \<or> s = ''.'' then normalize_segments acc ss
      else if s = ''..'' then normalize_segments (tl acc) ss
      else normalize_segments (s # acc) ss)"

fun join_slash :: "string list \<Rightarrow> string" where
  "join_slash [] = []"
| "join_slash [s] = s"
| "join_slash (s # ss) = s @ ''/'' @ join_slash ss"

definition path_resolve :: "string \<Rightarrow> string \<Rightarrow> string \<Rightarrow> string" where
  "path_resolve cwd root p =
     (let full = (if path_is_absolute p then p
                  else if path_is_absolute root then root @ ''/'' @ p
                  else cwd @ ''/'' @ root @ ''/'' @ p)
      in ''/'' @ join_slash (normalize_segments [] (split_slash full)))"

definition path_basename :: "string \<Rightarrow> string" where
  "path_basename p = (case rev (filter (\<lambda>s. s \<noteq> []) (split_slash p)) of [] \<Rightarrow> [] | s # _ \<Rightarrow> s)"

section \<open>Policies\<close>

datatype reset_mode = Clear | Restart | Warm | No_Reset
datatype reset_scope = File_Scope | Test_Scope

text \<open>The configured values, with \<open>'auto'\<close>.\<close>

datatype reset_mode_config = Auto_Mode | Mode reset_mode
datatype reset_scope_config = Auto_Scope | Scope reset_scope

record reset_policy =
  mode :: reset_mode
  scope :: reset_scope
  app_state :: "string option"

record reset_capabilities =
  hooks_detected :: "bool option"
  is_physical :: "bool option"

record prepared_state =
  prep_policy :: reset_policy
  prepared_at :: int
  duration_ms :: int
  prep_source :: string

text \<open>The keys of \<open>TapsmithConfig\<close> the resolution reads.\<close>

record reset_config =
  app_reset :: "reset_mode_config option"
  app_reset_scope :: "reset_scope_config option"
  reset_app_deep_link :: "string option"
  root_dir :: string

text \<open>JavaScript truthiness of an optional boolean and of an optional string.\<close>

definition truthy_bool :: "bool option \<Rightarrow> bool" where
  "truthy_bool b = (b = Some True)"

definition truthy_string :: "string option \<Rightarrow> bool" where
  "truthy_string s = (case s of None \<Rightarrow> False | Some t \<Rightarrow> t \<noteq> [])"

definition resolve_app_reset_policy ::
  "string \<Rightarrow> string option \<Rightarrow> reset_config \<Rightarrow> reset_capabilities \<Rightarrow> reset_policy" where
  "resolve_app_reset_policy cwd scope_app_state config caps =
     (let warm_available = truthy_bool (hooks_detected caps) \<or> truthy_string (reset_app_deep_link config);
          md = (case nullish (app_reset config) Auto_Mode of
                  Auto_Mode \<Rightarrow> if warm_available then Warm else Clear
                | Mode m \<Rightarrow> m);
          sc = (case nullish (app_reset_scope config) Auto_Scope of
                  Auto_Scope \<Rightarrow> File_Scope
                | Scope s \<Rightarrow> s)
      in \<lparr> mode = md, scope = sc,
           app_state = map_option (\<lambda>s. if s = [] then []
                                       else if path_is_absolute s then s
                                       else path_resolve cwd (root_dir config) s) scope_app_state \<rparr>)"

datatype reset_action = Act_Restore string | Act_Clear | Act_Restart | Act_Warm | Act_None

fun mode_action :: "reset_mode \<Rightarrow> reset_action" where
  "mode_action Clear = Act_Clear"
| "mode_action Restart = Act_Restart"
| "mode_action Warm = Act_Warm"
| "mode_action No_Reset = Act_None"

definition app_reset_action :: "reset_policy \<Rightarrow> reset_action" where
  "app_reset_action p =
     (case app_state p of
        Some s \<Rightarrow> if s = [] then Act_Clear else Act_Restore s
      | None \<Rightarrow> mode_action (mode p))"

fun action_satisfies :: "reset_action \<Rightarrow> reset_action \<Rightarrow> bool" where
  "action_satisfies h (Act_Restore a) = (case h of Act_Restore b \<Rightarrow> b = a | _ \<Rightarrow> False)"
| "action_satisfies (Act_Restore _) w = (w = Act_None)"
| "action_satisfies h Act_None = True"
| "action_satisfies Act_Clear w = True"
| "action_satisfies h w = (h = w)"

definition satisfies :: "reset_policy \<Rightarrow> reset_policy \<Rightarrow> bool" where
  "satisfies have_p want_p = action_satisfies (app_reset_action have_p) (app_reset_action want_p)"

definition app_reset_policy_equals :: "reset_policy option \<Rightarrow> reset_policy option \<Rightarrow> bool" where
  "app_reset_policy_equals a b =
     (case (a, b) of
        (Some p, Some q) \<Rightarrow> mode p = mode q \<and> scope p = scope q \<and> app_state p = app_state q
      | (None, None) \<Rightarrow> True
      | _ \<Rightarrow> False)"

fun mode_name :: "reset_action \<Rightarrow> string" where
  "mode_name (Act_Restore a) = ''restore''"
| "mode_name Act_Clear = ''clear''"
| "mode_name Act_Restart = ''restart''"
| "mode_name Act_Warm = ''warm''"
| "mode_name Act_None = ''none''"

definition describe_action :: "reset_policy \<Rightarrow> string" where
  "describe_action p =
     (case app_reset_action p of
        Act_Restore a \<Rightarrow> ''App reset (restore '' @ path_basename a @ '')''
      | act \<Rightarrow> ''App reset ('' @ mode_name act @ '')'')"

section \<open>Lemmas\<close>

lemma path_resolve_absolute: "path_is_absolute (path_resolve cwd root p)"
  by (simp add: path_resolve_def path_is_absolute_def Let_def)

lemma resolve_simps [simp]:
  "app_reset config = Some (Mode m) \<Longrightarrow> mode (resolve_app_reset_policy cwd s config caps) = m"
  "app_state (resolve_app_reset_policy cwd None config caps) = None"
  by (simp_all add: resolve_app_reset_policy_def Let_def)

lemma action_satisfies_refl: "action_satisfies a a"
  by (cases a) auto

lemma action_satisfies_trans: "action_satisfies a b \<Longrightarrow> action_satisfies b c \<Longrightarrow> action_satisfies a c"
  by (cases a; cases b; cases c) auto

lemma satisfies_refl: "satisfies p p"
  by (simp add: satisfies_def action_satisfies_refl)

lemma satisfies_trans: "satisfies p q \<Longrightarrow> satisfies q r \<Longrightarrow> satisfies p r"
  by (auto simp: satisfies_def intro: action_satisfies_trans)

text \<open>
  What a client of the policies (the readiness machine, the candidate choice) may assume of the
  satisfaction relation: it is a preorder with a weakest request.
\<close>

locale satisfaction =
  fixes sat :: "'p \<Rightarrow> 'p \<Rightarrow> bool"
    and weakest :: 'p
  assumes sat_refl: "sat p p"
    and sat_trans: "sat p q \<Longrightarrow> sat q r \<Longrightarrow> sat p r"
    and sat_weakest: "sat p weakest"
begin

text \<open>A device prepared for one request serves every request that one satisfies.\<close>

lemma sat_mono: "sat p q \<Longrightarrow> {r. sat q r} \<subseteq> {r. sat p r}"
  by (auto intro: sat_trans)

lemma sat_eq_requests: "{r. sat p r} = {r. sat q r} \<longleftrightarrow> sat p q \<and> sat q p"
  using sat_mono sat_refl by blast

end

interpretation policy: satisfaction satisfies
  "\<lparr> mode = No_Reset, scope = File_Scope, app_state = None \<rparr>"
proof unfold_locales
  fix p
  show "satisfies p \<lparr> mode = No_Reset, scope = File_Scope, app_state = None \<rparr>"
    by (cases "app_reset_action p") (auto simp: satisfies_def app_reset_action_def)
qed (auto intro: satisfies_refl satisfies_trans)

lemma restore_served_only_by_same_archive:
  "app_state want = Some a \<Longrightarrow> a \<noteq> [] \<Longrightarrow> satisfies hav want \<longleftrightarrow> app_state hav = Some a"
  by (auto simp: satisfies_def app_reset_action_def split: option.splits reset_action.splits
      elim: mode_action.elims)

end
