(* ===== verification/Device_Readiness.thy ===== *)
theory Device_Readiness
  imports App_Reset
begin

text \<open>
  The per-worker readiness machine of UI mode (\<open>ui-mode/device-readiness.ts\<close>): state, events,
  commands and the \<open>handle\<close> method with its helpers \<open>nextId\<close>, \<open>reconcileCandidate\<close> and
  \<open>arm\<close>; its wire view; and the timer discipline of \<open>executeReadinessCommands\<close>
  (\<open>ui-mode/ui-server.ts\<close>), which together give the closed system whose reachable states the
  hold property ranges over.
\<close>

section \<open>State, events and commands\<close>

datatype stale_reason = Mcp_Tool | Mirror_Gesture | Target_Changed | Validation_Failed
  | Run_Stopped | Run_Failed | Manual

datatype unprepared_reason = Speculation_Off | No_Candidate | Grace | Cancelled | Startup

datatype readiness_state =
    Initializing
  | Running "string option"
  | Unprepared unprepared_reason
  | Preparing (prepare_id: string) (target: reset_policy) (for_file: "string option")
      (started_at: int) (detail: "string option")
  | Ready (ready_policy: reset_policy) (ready_for_file: "string option") (ready_at: int)
      (ready_duration: int) (ready_prepare_id: string) (ready_source: "string option")
  | Stale stale_reason int "reset_policy option"
  | Error string int nat
  | Retired

record candidate =
  cand_file :: string
  cand_project :: "string option"
  cand_policy :: reset_policy

datatype readiness_event =
    Worker_Ready "reset_policy option"
  | Dispatch string reset_policy
  | File_Done
  | Run_Ended bool bool                    \<comment> \<open>stopped, failed\<close>
  | Grace_Elapsed string
  | Prepared string reset_policy int int "prepared_state option"
  | Prepare_Failed string string bool      \<comment> \<open>prepareId, message, cancelled\<close>
  | Progress "string option"
  | Invalidate stale_reason
  | Candidate_Changed
  | Preferences_Changed
  | Prepare_Now
  | Worker_Retired
  | Worker_Respawning
  | Worker_Recycled

datatype readiness_command =
    Send_Prepare string reset_policy "string option" "string option"
  | Send_Cancel_Prepare string
  | Start_Timer string int
  | Clear_Timer string
  | Broadcast

text \<open>
  The environment's answers while one event is handled. \<open>now\<close> is called at most twice, so it
  is a function of the call's number; every other function is called at most once.
\<close>

record readiness_env =
  env_now :: "nat \<Rightarrow> int"
  speculation_enabled :: bool
  next_cand :: "candidate option"
  grace_ms :: int
  recently_interacted :: bool

definition interaction_hold_ms :: int where "interaction_hold_ms = 2000"
definition target_changed_grace_ms :: int where "target_changed_grace_ms = 1000"
definition max_prepare_attempts :: nat where "max_prepare_attempts = 3"
definition retry_backoff_ms :: "int list" where "retry_backoff_ms = [5000, 10000, 20000]"

record device_readiness =
  worker_id :: nat
  rstate :: readiness_state
  seq :: nat
  error_attempts :: nat

definition new_device_readiness :: "nat \<Rightarrow> device_readiness" where
  "new_device_readiness w = \<lparr> worker_id = w, rstate = Initializing, seq = 0, error_attempts = 0 \<rparr>"

definition timer_id :: "device_readiness \<Rightarrow> string" where
  "timer_id r = ''readiness-'' @ show_nat (worker_id r)"

definition prepare_name :: "nat \<Rightarrow> nat \<Rightarrow> string" where
  "prepare_name w n = show_nat w @ ''-'' @ show_nat n"

definition next_id :: "device_readiness \<Rightarrow> string \<times> device_readiness" where
  "next_id r = (prepare_name (worker_id r) (Suc (seq r)), r\<lparr> seq := Suc (seq r) \<rparr>)"

section \<open>Operations\<close>

definition prepared_for :: "device_readiness \<Rightarrow> reset_policy \<Rightarrow> prepared_state option" where
  "prepared_for r want_p =
     (case rstate r of
        Ready p _ t d _ src \<Rightarrow>
          if satisfies p want_p
          then Some \<lparr> prep_policy = p, prepared_at = t, duration_ms = d,
                      prep_source = nullish src ''background preparation'' \<rparr>
          else None
      | _ \<Rightarrow> None)"

definition reconcile_candidate ::
  "readiness_env \<Rightarrow> nat \<Rightarrow> device_readiness \<Rightarrow> device_readiness \<times> readiness_command list" where
  "reconcile_candidate e k r =
     (case rstate r of
        Ready p _ _ _ _ _ \<Rightarrow>
          (case next_cand e of
             None \<Rightarrow> (r, [])
           | Some c \<Rightarrow>
               if satisfies p (cand_policy c) then (r, [])
               else (r\<lparr> rstate := Stale Target_Changed (env_now e k) (Some p) \<rparr>,
                     [Broadcast, Start_Timer (timer_id r) target_changed_grace_ms]))
      | _ \<Rightarrow> (r, []))"

definition arm :: "readiness_env \<Rightarrow> bool \<Rightarrow> device_readiness \<Rightarrow> device_readiness \<times> readiness_command list" where
  "arm e force r =
     (if \<not> force \<and> \<not> speculation_enabled e
      then (r\<lparr> rstate := Unprepared Speculation_Off \<rparr>, [Broadcast])
      else (case next_cand e of
              None \<Rightarrow> (r\<lparr> rstate := Unprepared No_Candidate \<rparr>, [Broadcast])
            | Some c \<Rightarrow>
                if \<not> force \<and> recently_interacted e
                then (r\<lparr> rstate := Unprepared Grace \<rparr>,
                      [Broadcast, Start_Timer (timer_id r) interaction_hold_ms])
                else (let (pid, r1) = next_id r in
                      (r1\<lparr> rstate := Preparing pid (cand_policy c) (Some (cand_file c)) (env_now e 0) None \<rparr>,
                       [Send_Prepare pid (cand_policy c) (Some (cand_file c)) (cand_project c), Broadcast]))))"

definition cancel_if_preparing :: "readiness_state \<Rightarrow> readiness_command list" where
  "cancel_if_preparing s = (case s of Preparing p _ _ _ _ \<Rightarrow> [Send_Cancel_Prepare p] | _ \<Rightarrow> [])"

definition prepend :: "'c list \<Rightarrow> 'r \<times> 'c list \<Rightarrow> 'r \<times> 'c list" where
  "prepend cs x = (fst x, cs @ snd x)"

definition backoff_delay :: "nat \<Rightarrow> int" where
  "backoff_delay n = retry_backoff_ms ! min (n - 1) (length retry_backoff_ms - 1)"

fun handle :: "readiness_env \<Rightarrow> readiness_event \<Rightarrow> device_readiness \<Rightarrow> device_readiness \<times> readiness_command list" where
  "handle e (Worker_Ready ip) r =
     (let r0 = r\<lparr> error_attempts := 0 \<rparr> in
      case ip of
        Some p \<Rightarrow>
          (let (pid, r1) = next_id r0;
               r2 = r1\<lparr> rstate := Ready p None (env_now e 0) 0 pid (Some ''startup launch'') \<rparr>
           in prepend [Broadcast] (reconcile_candidate e 1 r2))
      | None \<Rightarrow> prepend [Broadcast] (arm e False (r0\<lparr> rstate := Unprepared Startup \<rparr>)))"
| "handle e (Dispatch f w) r =
     (r\<lparr> rstate := Running (Some f) \<rparr>,
      [Clear_Timer (timer_id r)] @ cancel_if_preparing (rstate r) @ [Broadcast])"
| "handle e File_Done r = (r, [])"
| "handle e (Run_Ended stopped failed) r =
     (case rstate r of
        Retired \<Rightarrow> (r, [])
      | Ready _ _ _ _ _ _ \<Rightarrow> (r, [])
      | Preparing _ _ _ _ _ \<Rightarrow> (r, [])
      | _ \<Rightarrow>
          if stopped \<or> failed
          then (r\<lparr> rstate := Stale (if stopped then Run_Stopped else Run_Failed) (env_now e 0) None \<rparr>,
                [Clear_Timer (timer_id r), Broadcast])
          else (r\<lparr> rstate := Unprepared Grace \<rparr>, [Broadcast, Start_Timer (timer_id r) (grace_ms e)]))"
| "handle e (Grace_Elapsed t) r =
     (if t \<noteq> timer_id r then (r, [])
      else (case rstate r of
              Running _ \<Rightarrow> (r, [])
            | Preparing _ _ _ _ _ \<Rightarrow> (r, [])
            | Ready _ _ _ _ _ _ \<Rightarrow> (r, [])
            | Retired \<Rightarrow> (r, [])
            | Initializing \<Rightarrow> (r, [])
            | _ \<Rightarrow> arm e False r))"
| "handle e (Prepared pid p st d sat) r =
     (case rstate r of
        Preparing q _ ff _ _ \<Rightarrow>
          if q \<noteq> pid then (r, [])
          else (r\<lparr> error_attempts := 0,
                   rstate := Ready p ff
                     (case sat of Some ps \<Rightarrow> prepared_at ps | None \<Rightarrow> st + d)
                     (case sat of Some ps \<Rightarrow> duration_ms ps | None \<Rightarrow> d)
                     pid
                     (map_option prep_source sat) \<rparr>,
                [Broadcast])
      | _ \<Rightarrow> (r, []))"
| "handle e (Prepare_Failed pid msg cancelled) r =
     (case rstate r of
        Preparing q _ _ _ _ \<Rightarrow>
          if q \<noteq> pid then (r, [])
          else if cancelled then (r\<lparr> rstate := Unprepared Cancelled \<rparr>, [Broadcast])
          else (let n = Suc (error_attempts r) in
                (r\<lparr> error_attempts := n, rstate := Error msg (env_now e 0) n \<rparr>,
                 [Broadcast] @ (if n < max_prepare_attempts then [Start_Timer (timer_id r) (backoff_delay n)] else [])))
      | _ \<Rightarrow> (r, []))"
| "handle e (Progress d) r =
     (case rstate r of
        Preparing p t f sa _ \<Rightarrow> (r\<lparr> rstate := Preparing p t f sa d \<rparr>, [Broadcast])
      | _ \<Rightarrow> (r, []))"
| "handle e (Invalidate reason) r =
     (case rstate r of
        Running _ \<Rightarrow> (r, [])
      | Retired \<Rightarrow> (r, [])
      | Initializing \<Rightarrow> (r, [])
      | s \<Rightarrow> (r\<lparr> rstate := Stale reason (env_now e 0) (case s of Ready p _ _ _ _ _ \<Rightarrow> Some p | _ \<Rightarrow> None) \<rparr>,
             cancel_if_preparing s @ [Broadcast, Start_Timer (timer_id r) (grace_ms e)]))"
| "handle e Candidate_Changed r =
     (case rstate r of
        Ready _ _ _ _ _ _ \<Rightarrow> reconcile_candidate e 0 r
      | Unprepared why \<Rightarrow> if why \<noteq> Grace then arm e False r else (r, [])
      | Stale why _ _ \<Rightarrow> if why = Run_Stopped \<or> why = Run_Failed then arm e False r else (r, [])
      | _ \<Rightarrow> (r, []))"
| "handle e Preferences_Changed r =
     (if \<not> speculation_enabled e
      then (case rstate r of
              Preparing p _ _ _ _ \<Rightarrow>
                (r\<lparr> rstate := Unprepared Speculation_Off \<rparr>, [Send_Cancel_Prepare p, Broadcast])
            | Unprepared _ \<Rightarrow> (r\<lparr> rstate := Unprepared Speculation_Off \<rparr>, [Clear_Timer (timer_id r), Broadcast])
            | Stale _ _ _ \<Rightarrow> (r\<lparr> rstate := Unprepared Speculation_Off \<rparr>, [Clear_Timer (timer_id r), Broadcast])
            | Error _ _ _ \<Rightarrow> (r\<lparr> rstate := Unprepared Speculation_Off \<rparr>, [Clear_Timer (timer_id r), Broadcast])
            | _ \<Rightarrow> (r, []))
      else (case rstate r of
              Unprepared _ \<Rightarrow> arm e False r
            | Stale _ _ _ \<Rightarrow> arm e False r
            | Error _ _ _ \<Rightarrow> arm e False r
            | _ \<Rightarrow> (r, [])))"
| "handle e Prepare_Now r =
     (case rstate r of
        Running _ \<Rightarrow> (r, [])
      | Preparing _ _ _ _ _ \<Rightarrow> (r, [])
      | Retired \<Rightarrow> (r, [])
      | Initializing \<Rightarrow> (r, [])
      | _ \<Rightarrow> arm e True r)"
| "handle e Worker_Retired r =
     (r\<lparr> rstate := Retired \<rparr>,
      [Clear_Timer (timer_id r)] @ cancel_if_preparing (rstate r) @ [Broadcast])"
| "handle e Worker_Respawning r = (r\<lparr> rstate := Initializing \<rparr>, [Broadcast])"
| "handle e Worker_Recycled r = (r, [])"

section \<open>Wire view\<close>

datatype worker_readiness =
    W_Initializing
  | W_Running "string option"
  | W_Unprepared unprepared_reason
  | W_Preparing reset_policy "string option" int "string option"
  | W_Ready reset_policy "string option" int int
  | W_Stale stale_reason int
  | W_Error string nat
  | W_Retired

fun to_wire_readiness :: "readiness_state \<Rightarrow> worker_readiness" where
  "to_wire_readiness Initializing = W_Initializing"
| "to_wire_readiness (Running f) = W_Running f"
| "to_wire_readiness (Unprepared why) = W_Unprepared why"
| "to_wire_readiness (Preparing _ t f sa d) = W_Preparing t f sa d"
| "to_wire_readiness (Ready p f t d _ _) = W_Ready p f t d"
| "to_wire_readiness (Stale why since _) = W_Stale why since"
| "to_wire_readiness (Error m _ n) = W_Error m n"
| "to_wire_readiness Retired = W_Retired"

section \<open>The closed system: the machine and its timer\<close>

text \<open>
  \<open>executeReadinessCommands\<close> keeps one timer per timer id: starting replaces a pending one,
  clearing drops it, and a fired timer is forgotten before \<open>grace-elapsed\<close> is handled.
\<close>

record ui_worker =
  readiness :: device_readiness
  pending :: "(string \<times> int) option"

fun exec_timer_command :: "(string \<times> int) option \<Rightarrow> readiness_command \<Rightarrow> (string \<times> int) option" where
  "exec_timer_command p (Start_Timer t ms) = Some (t, ms)"
| "exec_timer_command p (Clear_Timer t) =
     (case p of Some (t', _) \<Rightarrow> if t' = t then None else p | None \<Rightarrow> None)"
| "exec_timer_command p _ = p"

definition exec_timers :: "(string \<times> int) option \<Rightarrow> readiness_command list \<Rightarrow> (string \<times> int) option" where
  "exec_timers p cs = foldl exec_timer_command p cs"

text \<open>
  The two reasons \<open>ui-server.ts\<close> invalidates with are the only ones the environment raises.
\<close>

inductive ui_step :: "ui_worker \<Rightarrow> readiness_event \<Rightarrow> readiness_command list \<Rightarrow> ui_worker \<Rightarrow> bool" where
  event: "(\<And>t. ev \<noteq> Grace_Elapsed t) \<Longrightarrow>
          (\<And>why. ev = Invalidate why \<Longrightarrow> why = Mcp_Tool \<or> why = Mirror_Gesture) \<Longrightarrow>
          handle e ev (readiness s) = (r, cs) \<Longrightarrow>
          ui_step s ev cs \<lparr> readiness = r, pending = exec_timers (pending s) cs \<rparr>"
| fire: "pending s = Some (t, ms) \<Longrightarrow>
         handle e (Grace_Elapsed t) (readiness s) = (r, cs) \<Longrightarrow>
         ui_step s (Grace_Elapsed t) cs \<lparr> readiness = r, pending = exec_timers None cs \<rparr>"

inductive ui_run :: "ui_worker \<Rightarrow> (readiness_event \<times> readiness_command list) list \<Rightarrow> ui_worker \<Rightarrow> bool" where
  start: "ui_run s [] s"
| step: "ui_run s tr t \<Longrightarrow> ui_step t ev cs u \<Longrightarrow> ui_run s (tr @ [(ev, cs)]) u"

definition new_ui_worker :: "nat \<Rightarrow> ui_worker" where
  "new_ui_worker w = \<lparr> readiness = new_device_readiness w, pending = None \<rparr>"

definition sent_ids_of :: "readiness_command list \<Rightarrow> string list" where
  "sent_ids_of cs = List.map_filter (\<lambda>c. case c of Send_Prepare p _ _ _ \<Rightarrow> Some p | _ \<Rightarrow> None) cs"

definition sent_ids :: "(readiness_event \<times> readiness_command list) list \<Rightarrow> string list" where
  "sent_ids tr = concat (map (\<lambda>(ev, cs). sent_ids_of cs) tr)"

text \<open>A device whose run was stopped or failed, kept for inspection.\<close>

definition held :: "device_readiness \<Rightarrow> bool" where
  "held r = (case rstate r of Stale why _ _ \<Rightarrow> why = Run_Stopped \<or> why = Run_Failed | _ \<Rightarrow> False)"

section \<open>Lemmas on the handlers\<close>

lemmas handler_defs = arm_def reconcile_candidate_def next_id_def prepend_def cancel_if_preparing_def Let_def
lemmas handler_splits = option.splits readiness_state.splits if_splits prod.splits

lemma sent_ids_of_simps [simp]:
  "sent_ids_of [] = []"
  "sent_ids_of (c # cs) = (case c of Send_Prepare p _ _ _ \<Rightarrow> p # sent_ids_of cs | _ \<Rightarrow> sent_ids_of cs)"
  "sent_ids_of (cs @ ds) = sent_ids_of cs @ sent_ids_of ds"
  by (auto simp: sent_ids_of_def map_filter_def split: readiness_command.splits)

lemma sent_ids_simps [simp]:
  "sent_ids [] = []" "sent_ids (tr @ [(ev, cs)]) = sent_ids tr @ sent_ids_of cs"
  by (simp_all add: sent_ids_def)

lemma prepare_name_inj: "prepare_name w m = prepare_name w n \<Longrightarrow> m = n"
  by (auto simp: prepare_name_def intro: show_nat_inj)

lemma handle_worker_id [simp]: "worker_id (fst (handle e ev r)) = worker_id r"
  by (cases ev) (auto simp: handler_defs split: handler_splits)

lemma handle_timer_id [simp]: "timer_id (fst (handle e ev r)) = timer_id r"
  by (simp add: timer_id_def)

text \<open>An event either keeps the sequence number and sends no preparation, or the one it sends
  carries the new number.\<close>

lemma handle_seq:
  "seq r \<le> seq (fst (handle e ev r)) \<and>
   (sent_ids_of (snd (handle e ev r)) = [] \<or>
    sent_ids_of (snd (handle e ev r)) = [prepare_name (worker_id r) (seq (fst (handle e ev r)))] \<and>
    seq r < seq (fst (handle e ev r)))"
  by (cases ev) (auto simp: handler_defs split: handler_splits)

definition preparing_id :: "device_readiness \<Rightarrow> string option" where
  "preparing_id r = (case rstate r of Preparing p _ _ _ _ \<Rightarrow> Some p | _ \<Rightarrow> None)"

lemma handle_preparing:
  assumes "preparing_id (fst (handle e ev r)) = Some p"
  shows "preparing_id r = Some p \<and> seq (fst (handle e ev r)) = seq r \<and> sent_ids_of (snd (handle e ev r)) = [] \<or>
         sent_ids_of (snd (handle e ev r)) = [p] \<and> p = prepare_name (worker_id r) (seq (fst (handle e ev r)))"
  using assms
  by (cases ev) (auto simp: handler_defs preparing_id_def split: handler_splits)

text \<open>From here on the handler is unfolded only on request.\<close>

declare handle.simps [simp del]

end
