(* ===== verification/Readiness_Safety.thy ===== *)
theory Readiness_Safety
  imports Device_Readiness
begin

text \<open>
  Properties of the readiness machine: identity of preparations over whole runs, cancellation,
  the hold after a stopped or failed run, the effect of the speculation preference, and the
  retry schedule. Everything about runs rests on the one-step lemmas of \<open>Device_Readiness\<close>.
\<close>

section \<open>Runs\<close>

lemma ui_step_handle:
  assumes "ui_step s ev cs s'"
  obtains e where "handle e ev (readiness s) = (readiness s', cs)"
  using assms by (cases rule: ui_step.cases) auto

lemma ui_run_worker_id: "ui_run s tr t \<Longrightarrow> worker_id (readiness t) = worker_id (readiness s)"
proof (induction rule: ui_run.induct)
  case (step s tr t ev cs u)
  from step.hyps(2) obtain e where "handle e ev (readiness t) = (readiness u, cs)"
    by (rule ui_step_handle)
  with handle_worker_id [of e ev "readiness t"] step.IH show ?case by simp
qed simp

definition ids_invariant :: "nat \<Rightarrow> (readiness_event \<times> readiness_command list) list \<Rightarrow> device_readiness \<Rightarrow> bool" where
  "ids_invariant w tr r \<longleftrightarrow>
     distinct (sent_ids tr) \<and>
     (\<forall>p \<in> set (sent_ids tr). \<exists>n \<le> seq r. p = prepare_name w n) \<and>
     (\<forall>p. preparing_id r = Some p \<longrightarrow> sent_ids tr \<noteq> [] \<and> p = last (sent_ids tr))"

lemma ids_invariant_step:
  assumes inv: "ids_invariant w tr r" and w: "worker_id r = w"
    and h: "handle e ev r = (r', cs)"
  shows "ids_invariant w (tr @ [(ev, cs)]) r'"
proof -
  from handle_seq [of r e ev] have le: "seq r \<le> seq r'"
    and sent: "sent_ids_of cs = [] \<or> sent_ids_of cs = [prepare_name w (seq r')] \<and> seq r < seq r'"
    by (simp_all add: h w)
  from inv have old: "distinct (sent_ids tr)" "\<forall>p \<in> set (sent_ids tr). \<exists>n \<le> seq r. p = prepare_name w n"
    and cur: "\<forall>p. preparing_id r = Some p \<longrightarrow> sent_ids tr \<noteq> [] \<and> p = last (sent_ids tr)"
    by (auto simp: ids_invariant_def)
  have fresh: "prepare_name w (seq r') \<notin> set (sent_ids tr)" if "seq r < seq r'"
    using old(2) that prepare_name_inj by (metis leD)
  have cur': "sent_ids (tr @ [(ev, cs)]) \<noteq> [] \<and> p = last (sent_ids (tr @ [(ev, cs)]))"
    if "preparing_id r' = Some p" for p
    using handle_preparing [of e ev r p] that cur by (auto simp: h)
  have names: "\<exists>n \<le> seq r'. p = prepare_name w n" if "p \<in> set (sent_ids (tr @ [(ev, cs)]))" for p
  proof -
    from that sent consider "p \<in> set (sent_ids tr)" | "p = prepare_name w (seq r')" by auto
    then show ?thesis using old(2) le by cases (blast intro: order_trans)+
  qed
  have "distinct (sent_ids (tr @ [(ev, cs)]))"
    using old(1) sent fresh by auto
  with names cur' show ?thesis by (auto simp: ids_invariant_def)
qed

lemma ui_run_ids: "ui_run s tr t \<Longrightarrow> s = new_ui_worker w \<Longrightarrow> ids_invariant w tr (readiness t)"
proof (induction rule: ui_run.induct)
  case (start s)
  then show ?case
    by (simp add: ids_invariant_def new_ui_worker_def new_device_readiness_def preparing_id_def)
next
  case (step s tr t ev cs u)
  from step.hyps(2) obtain e where h: "handle e ev (readiness t) = (readiness u, cs)"
    by (rule ui_step_handle)
  from ui_run_worker_id [OF step.hyps(1)] step.prems have "worker_id (readiness t) = w"
    by (simp add: new_ui_worker_def new_device_readiness_def)
  with step.IH [OF step.prems] h show ?case by (auto intro: ids_invariant_step)
qed

text \<open>The timer a held device would be reset by is never pending.\<close>

definition hold_invariant :: "ui_worker \<Rightarrow> bool" where
  "hold_invariant s \<longleftrightarrow>
     (held (readiness s) \<longrightarrow> pending s = None) \<and>
     (\<forall>t ms. pending s = Some (t, ms) \<longrightarrow> t = timer_id (readiness s))"

lemma handle_started_timers:
  "Start_Timer t ms \<in> set (snd (handle e ev r)) \<Longrightarrow> t = timer_id r"
  by (cases ev) (auto simp: handle.simps handler_defs timer_id_def split: handler_splits)

lemma exec_timers_simps [simp]:
  "exec_timers p [] = p" "exec_timers p (c # cs) = exec_timers (exec_timer_command p c) cs"
  by (simp_all add: exec_timers_def)

lemma exec_timers_id:
  "exec_timers p cs = Some (t, ms) \<Longrightarrow> p = Some (t, ms) \<or> Start_Timer t ms \<in> set cs"
proof (induction cs arbitrary: p)
  case (Cons c cs)
  then have "exec_timer_command p c = Some (t, ms) \<or> Start_Timer t ms \<in> set cs" by simp
  then show ?case by (cases c) (auto split: option.splits if_splits prod.splits)
qed simp

lemma handle_held:
  assumes "held (fst (handle e ev r))"
    and "\<And>why. ev = Invalidate why \<Longrightarrow> why = Mcp_Tool \<or> why = Mirror_Gesture"
  shows "held r \<and> snd (handle e ev r) = [] \<or> snd (handle e ev r) = [Clear_Timer (timer_id r), Broadcast]"
  using assms
  by (cases ev) (auto simp: handle.simps handler_defs held_def split: handler_splits)

lemma hold_invariant_step:
  assumes "ui_step s ev cs s'" and "hold_invariant s"
  shows "hold_invariant s'"
  using assms
proof (cases rule: ui_step.cases)
  case (event e r)
  have h: "fst (handle e ev (readiness s)) = r" "snd (handle e ev (readiness s)) = cs"
    by (simp_all add: event)
  have tid: "timer_id r = timer_id (readiness s)"
    using handle_timer_id [of e ev "readiness s"] by (simp add: h)
  have "exec_timers (pending s) cs = None" if "held r"
  proof -
    from handle_held [of e ev "readiness s"] that event(3)
    consider "held (readiness s)" "cs = []" | "cs = [Clear_Timer (timer_id (readiness s)), Broadcast]"
      by (auto simp: h)
    then show ?thesis
      using \<open>hold_invariant s\<close> by cases (auto simp: hold_invariant_def split: option.splits)
  qed
  moreover have "t = timer_id r" if "exec_timers (pending s) cs = Some (t, ms)" for t ms
    using exec_timers_id [OF that] handle_started_timers [of t ms e ev "readiness s"] \<open>hold_invariant s\<close>
    by (auto simp: h tid hold_invariant_def)
  ultimately show ?thesis by (simp add: event hold_invariant_def)
next
  case (fire t ms e r)
  have h: "fst (handle e (Grace_Elapsed t) (readiness s)) = r" "snd (handle e (Grace_Elapsed t) (readiness s)) = cs"
    by (simp_all add: fire)
  have "\<not> held (readiness s)" using fire \<open>hold_invariant s\<close> by (auto simp: hold_invariant_def)
  then have "exec_timers None cs = None" if "held r"
    using handle_held [of e "Grace_Elapsed t" "readiness s"] that by (auto simp: h)
  moreover have "t' = timer_id r" if "exec_timers None cs = Some (t', ms')" for t' ms'
    using exec_timers_id [OF that] handle_started_timers [of t' ms' e "Grace_Elapsed t" "readiness s"]
      handle_timer_id [of e "Grace_Elapsed t" "readiness s"]
    by (auto simp: h)
  ultimately show ?thesis by (simp add: fire hold_invariant_def)
qed

lemma ui_run_hold: "ui_run s tr t \<Longrightarrow> hold_invariant s \<Longrightarrow> hold_invariant t"
  by (induction rule: ui_run.induct) (auto intro: hold_invariant_step)

lemma new_ui_worker_hold: "hold_invariant (new_ui_worker w)"
  by (simp add: hold_invariant_def new_ui_worker_def new_device_readiness_def held_def)

lemma handle_send_held:
  assumes "held r" and "sent_ids_of (snd (handle e ev r)) \<noteq> []" and "\<And>t. ev \<noteq> Grace_Elapsed t"
  shows "ev \<in> {Candidate_Changed, Preferences_Changed, Prepare_Now} \<or> (\<exists>ip. ev = Worker_Ready ip)"
  using assms by (cases ev) (auto simp: handle.simps handler_defs held_def split: handler_splits)

section \<open>Playing a list of events\<close>

text \<open>An executable run, for the witnesses: events with the environment's answers to each.\<close>

fun play :: "ui_worker \<Rightarrow> (readiness_env \<times> readiness_event) list \<Rightarrow>
             (readiness_event \<times> readiness_command list) list \<times> ui_worker" where
  "play s [] = ([], s)"
| "play s ((e, ev) # evs) =
     (let (r, cs) = handle e ev (readiness s);
          (tr, t) = play \<lparr> readiness = r, pending = exec_timers (pending s) cs \<rparr> evs
      in ((ev, cs) # tr, t))"

definition raised :: "readiness_event \<Rightarrow> bool" where
  "raised ev = (case ev of Grace_Elapsed _ \<Rightarrow> False
                | Invalidate why \<Rightarrow> why = Mcp_Tool \<or> why = Mirror_Gesture
                | _ \<Rightarrow> True)"

lemma play_run:
  "ui_run s0 tr0 s \<Longrightarrow> list_all (\<lambda>(e, ev). raised ev) evs \<Longrightarrow> play s evs = (tr, t) \<Longrightarrow>
   ui_run s0 (tr0 @ tr) t"
proof (induction s evs arbitrary: tr0 tr rule: play.induct)
  case (2 s e ev evs)
  obtain r cs where h: "handle e ev (readiness s) = (r, cs)" by fastforce
  obtain tr' where p: "play \<lparr> readiness = r, pending = exec_timers (pending s) cs \<rparr> evs = (tr', t)"
    and tr: "tr = (ev, cs) # tr'"
    using "2.prems"(3) by (auto simp: h split: prod.splits)
  have "ui_step s ev cs \<lparr> readiness = r, pending = exec_timers (pending s) cs \<rparr>"
    using "2.prems"(2) h by (intro ui_step.event) (auto simp: raised_def split: readiness_event.splits)
  with "2.prems"(1) have "ui_run s0 (tr0 @ [(ev, cs)]) \<lparr> readiness = r, pending = exec_timers (pending s) cs \<rparr>"
    by (rule ui_run.step)
  from "2.IH" [OF h [symmetric] refl this _ p] "2.prems"(2) tr show ?case by simp
qed simp

lemmas play_new = play_run [OF ui_run.start, simplified]

definition demo_policy :: reset_policy where
  "demo_policy = \<lparr> mode = Clear, scope = File_Scope, app_state = None \<rparr>"

definition demo_env :: readiness_env where
  "demo_env = \<lparr> env_now = (\<lambda>_. 0), speculation_enabled = True,
     next_cand = Some \<lparr> cand_file = ''a.ts'', cand_project = None, cand_policy = demo_policy \<rparr>,
     grace_ms = 5000, recently_interacted = False \<rparr>"

section \<open>Properties\<close>

text \<open>
  A late answer of a superseded preparation never acts: once the machine has sent a newer
  preparation, a \<open>prepared\<close> or \<open>prepare-failed\<close> message of any earlier one, arriving at any
  later point of any run, leaves the state as it is and causes no command.
\<close>

theorem superseded_preparation_ignored:
  assumes "ui_run (new_ui_worker w) tr s" and "p \<in> set (butlast (sent_ids tr))"
  shows "handle e (Prepared p q st d sat) (readiness s) = (readiness s, []) \<and>
         handle e (Prepare_Failed p msg cancelled) (readiness s) = (readiness s, [])"
proof -
  from ui_run_ids [OF assms(1) refl] have inv: "ids_invariant w tr (readiness s)" .
  have "preparing_id (readiness s) \<noteq> Some p"
  proof
    assume "preparing_id (readiness s) = Some p"
    with inv have "p = last (sent_ids tr)" "sent_ids tr \<noteq> []" "distinct (sent_ids tr)"
      by (auto simp: ids_invariant_def)
    with assms(2) show False
      by (metis append_butlast_last_id distinct_append disjoint_iff list.set_intros(1))
  qed
  then show ?thesis
    by (auto simp: handle.simps preparing_id_def split: readiness_state.splits)
qed

theorem superseded_preparation_ignored_witness:
  "let (tr, s) = play (new_ui_worker 0)
         [(demo_env, Worker_Ready None), (demo_env, Invalidate Mcp_Tool), (demo_env, Prepare_Now)]
   in handle demo_env (Prepared ''0-1'' demo_policy 0 0 None) (readiness s) = (readiness s, [])"
proof -
  obtain tr s where p: "play (new_ui_worker 0)
      [(demo_env, Worker_Ready None), (demo_env, Invalidate Mcp_Tool), (demo_env, Prepare_Now)] = (tr, s)"
    by fastforce
  have run: "ui_run (new_ui_worker 0) tr s"
    by (rule play_new [OF _ p]) (simp add: raised_def)
  have "sent_ids tr = [''0-1'', ''0-2'']"
    using p by (auto simp: new_ui_worker_def new_device_readiness_def demo_env_def handle.simps handler_defs
        sent_ids_def prepare_name_def show_nat.simps digit_char_def)
  then have "''0-1'' \<in> set (butlast (sent_ids tr))" by simp
  from superseded_preparation_ignored [OF run this] show ?thesis unfolding p by simp
qed

text \<open>
  An abandoned preparation is always cancelled: an event other than the worker's restart
  (\<open>worker-ready\<close>, \<open>worker-respawning\<close>) after which the machine is no longer in the preparation
  \<open>p\<close> either is the answer to \<open>p\<close> itself or makes the machine send the cancellation of \<open>p\<close>.
\<close>

theorem abandoned_preparation_cancelled:
  assumes "preparing_id r = Some p" and "preparing_id (fst (handle e ev r)) \<noteq> Some p"
    and "\<And>ip. ev \<noteq> Worker_Ready ip" and "ev \<noteq> Worker_Respawning"
  shows "Send_Cancel_Prepare p \<in> set (snd (handle e ev r)) \<or>
         (\<exists>q st d sat. ev = Prepared p q st d sat) \<or> (\<exists>msg c. ev = Prepare_Failed p msg c)"
  using assms
  by (cases ev) (auto simp: handle.simps handler_defs preparing_id_def split: handler_splits)

theorem abandoned_preparation_cancelled_witness:
  "Send_Cancel_Prepare ''0-1'' \<in>
     set (snd (handle demo_env (Dispatch ''a.ts'' demo_policy)
       ((new_device_readiness 0)\<lparr> rstate := Preparing ''0-1'' demo_policy None 0 None \<rparr>)))"
  (is "_ \<in> set (snd (handle _ _ ?r))")
proof -
  have "preparing_id ?r = Some ''0-1''"
    and "preparing_id (fst (handle demo_env (Dispatch ''a.ts'' demo_policy) ?r)) \<noteq> Some ''0-1''"
    by (simp_all add: preparing_id_def handle.simps)
  from abandoned_preparation_cancelled [OF this] show ?thesis by simp
qed



text \<open>
  The hold is lost to a mirror gesture: touching the mirrored device after a stopped or failed
  run starts the grace timer, and when it fires with no further gesture the device is reset in
  the background although nobody moved on to another target.
\<close>

theorem gesture_ends_hold:
  assumes "held r" and "speculation_enabled e'" and "next_cand e' = Some c" and "\<not> recently_interacted e'"
  shows "case handle e (Invalidate Mirror_Gesture) r of
           (r1, cs1) \<Rightarrow> Start_Timer (timer_id r) (grace_ms e) \<in> set cs1 \<and>
             (case handle e' (Grace_Elapsed (timer_id r)) r1 of
                (r2, cs2) \<Rightarrow> sent_ids_of cs2 \<noteq> [])"
  using assms
  by (auto simp: handle.simps handler_defs held_def timer_id_def split: handler_splits)

theorem gesture_ends_hold_witness:
  "let r = (new_device_readiness 0)\<lparr> rstate := Stale Run_Failed 0 None \<rparr>;
       (r1, cs1) = handle demo_env (Invalidate Mirror_Gesture) r;
       (r2, cs2) = handle demo_env (Grace_Elapsed (timer_id r)) r1
   in sent_ids_of cs2 \<noteq> []"
  using gesture_ends_hold [of "(new_device_readiness 0)\<lparr> rstate := Stale Run_Failed 0 None \<rparr>" demo_env
      "\<lparr> cand_file = ''a.ts'', cand_project = None, cand_policy = demo_policy \<rparr>" demo_env]
  by (auto simp: held_def demo_env_def Let_def split: prod.splits)

text \<open>
  With speculation off, only an explicit request prepares: no other event sends a preparation,
  whatever state the machine is in.
\<close>

theorem speculation_off_sends_nothing:
  assumes "\<not> speculation_enabled e" and "sent_ids_of (snd (handle e ev r)) \<noteq> []"
  shows "ev = Prepare_Now"
  using assms by (cases ev) (auto simp: handle.simps handler_defs split: handler_splits)

theorem speculation_off_sends_nothing_witness:
  "let e = demo_env\<lparr> speculation_enabled := False \<rparr>;
       r = (new_device_readiness 0)\<lparr> rstate := Unprepared Startup \<rparr>
   in sent_ids_of (snd (handle e Prepare_Now r)) \<noteq> [] \<and> Prepare_Now = Prepare_Now"
  using speculation_off_sends_nothing [of "demo_env\<lparr> speculation_enabled := False \<rparr>" Prepare_Now
      "(new_device_readiness 0)\<lparr> rstate := Unprepared Startup \<rparr>"]
  by (simp add: handle.simps handler_defs demo_env_def new_device_readiness_def)

text \<open>
  A ready device stays ready only for a candidate it satisfies: after \<open>candidate-changed\<close>, or
  the worker coming up with a startup policy, a machine in state ready satisfies the likely-next
  file's policy, and every weaker one.
\<close>

theorem ready_satisfies_candidate:
  assumes "ev = Candidate_Changed \<or> ev = Worker_Ready ip"
    and "rstate (fst (handle e ev r)) = Ready p f t d i src"
    and "next_cand e = Some c" and "satisfies (cand_policy c) q"
  shows "satisfies p q"
proof -
  have "satisfies p (cand_policy c)"
    using assms(1,2,3) by (auto simp: handle.simps handler_defs split: handler_splits)
  then show ?thesis using assms(4) by (rule policy.sat_trans)
qed

theorem ready_satisfies_candidate_witness:
  "rstate (fst (handle demo_env (Worker_Ready (Some demo_policy)) (new_device_readiness 0))) =
     Ready demo_policy None 0 0 ''0-1'' (Some ''startup launch'') \<and> satisfies demo_policy demo_policy"
proof -
  have r: "rstate (fst (handle demo_env (Worker_Ready (Some demo_policy)) (new_device_readiness 0))) =
     Ready demo_policy None 0 0 ''0-1'' (Some ''startup launch'')"
    by (simp add: handle.simps handler_defs demo_env_def satisfies_refl new_device_readiness_def
        prepare_name_def show_nat.simps digit_char_def)
  from ready_satisfies_candidate [OF disjI2 [OF refl] r, of _ demo_policy] r show ?thesis
    by (simp add: demo_env_def satisfies_refl)
qed

text \<open>
  A failing preparation is retried after 5 s and then 10 s and not again: the n-th failure in a
  row starts a timer exactly when n is below \<open>MAX_PREPARE_ATTEMPTS\<close>, so the third entry of
  \<open>RETRY_BACKOFF_MS\<close> is never used.
\<close>

theorem failed_preparation_backoff:
  assumes "preparing_id r = Some p"
  shows "snd (handle e (Prepare_Failed p msg False) r) =
           (if error_attempts r = 0 then [Broadcast, Start_Timer (timer_id r) 5000]
            else if error_attempts r = 1 then [Broadcast, Start_Timer (timer_id r) 10000]
            else [Broadcast])"
  using assms
  by (cases "error_attempts r"; cases "error_attempts r - 1")
    (auto simp: handle.simps preparing_id_def Let_def max_prepare_attempts_def backoff_delay_def retry_backoff_ms_def
      split: readiness_state.splits)

theorem failed_preparation_backoff_witness:
  "snd (handle demo_env (Prepare_Failed ''0-1'' ''boom'' False)
     \<lparr> worker_id = 0, rstate = Preparing ''0-1'' demo_policy None 0 None, seq = 1, error_attempts = 2 \<rparr>) = [Broadcast]"
  using failed_preparation_backoff [of "\<lparr> worker_id = 0, rstate = Preparing ''0-1'' demo_policy None 0 None,
      seq = 1, error_attempts = 2 \<rparr>" "''0-1''"]
  by (simp add: preparing_id_def)

end
