(* ===== verification/Claim_Names.thy ===== *)
theory Claim_Names
  imports TS_Prelude
begin

text \<open>
  The file name a device's claim is kept under (\<open>claimFile\<close> of \<open>device-claims.ts\<close>): JavaScript's
  \<open>encodeURIComponent\<close> on code units below 256, leading dots escaped. Decoding a name gives the
  device back, so two devices never share a file, and no name is hidden or leaves the directory.
\<close>

definition hex_digit :: "nat \<Rightarrow> char" where
  "hex_digit d = ''0123456789ABCDEF'' ! d"

definition hex_value :: "char \<Rightarrow> nat" where
  "hex_value c = length (takeWhile (\<lambda>x. x \<noteq> c) ''0123456789ABCDEF'')"

definition percent_byte :: "nat \<Rightarrow> string" where
  "percent_byte b = [CHR ''%'', hex_digit (b div 16), hex_digit (b mod 16)]"

definition uri_unreserved :: "char \<Rightarrow> bool" where
  "uri_unreserved c \<longleftrightarrow>
     c \<in> set ''ABCDEFGHIJKLMNOPQRSTUVWXYZabcdefghijklmnopqrstuvwxyz0123456789-_.!~*()'' \<or> c = CHR 0x27"

text \<open>The bytes of a code unit's UTF-8 form, percent-encoded unless unreserved.\<close>

definition encode_uri_char :: "char \<Rightarrow> string" where
  "encode_uri_char c =
     (if uri_unreserved c then [c]
      else let n = of_char c :: nat in
        if n < 128 then percent_byte n
        else percent_byte (192 + n div 64) @ percent_byte (128 + n mod 64))"

definition encode_uri_component :: "string \<Rightarrow> string" where
  "encode_uri_component s = concat (map encode_uri_char s)"

definition claim_name :: "string \<Rightarrow> string" where
  "claim_name device =
     (let e = encode_uri_component device
      in concat (map (\<lambda>_. ''%2E'') (takeWhile (\<lambda>c. c = CHR ''.'') e)) @ dropWhile (\<lambda>c. c = CHR ''.'') e)"

definition claim_file :: "string \<Rightarrow> string" where
  "claim_file device = claim_name device @ ''.json''"

section \<open>Decoding\<close>

fun percent_decode :: "string \<Rightarrow> nat list" where
  "percent_decode [] = []"
| "percent_decode (c # s) =
     (if c = CHR ''%'' then
        (case s of h # l # r \<Rightarrow> (16 * hex_value h + hex_value l) # percent_decode r | _ \<Rightarrow> [])
      else of_char c # percent_decode s)"

fun utf8_decode :: "nat list \<Rightarrow> string" where
  "utf8_decode [] = []"
| "utf8_decode (b # bs) =
     (if b < 128 then char_of b # utf8_decode bs
      else (case bs of b' # r \<Rightarrow> char_of (64 * (b - 192) + (b' - 128)) # utf8_decode r | [] \<Rightarrow> []))"

definition decode_uri :: "string \<Rightarrow> string" where
  "decode_uri s = utf8_decode (percent_decode s)"

definition utf8_bytes :: "char \<Rightarrow> nat list" where
  "utf8_bytes c = (let n = of_char c in if n < 128 then [n] else [192 + n div 64, 128 + n mod 64])"

lemma hex_value_digit [simp]: "d < 16 \<Longrightarrow> hex_value (hex_digit d) = d"
proof -
  assume "d < 16"
  then have "d \<in> set [0..<16]" by simp
  moreover have "list_all (\<lambda>d. hex_value (hex_digit d) = d) [0..<16]"
    by (simp add: hex_value_def hex_digit_def upt_rec)
  ultimately show ?thesis by (simp add: list_all_iff)
qed

lemma div16_bound: "b < 256 \<Longrightarrow> (b::nat) div 16 < 16"
  by simp

lemma percent_decode_byte: "b < 256 \<Longrightarrow> percent_decode (percent_byte b @ s) = b # percent_decode s"
  by (simp add: percent_byte_def div16_bound)

lemma unreserved_below_128: "uri_unreserved c \<Longrightarrow> (of_char c :: nat) < 128"
  by (auto simp: uri_unreserved_def)

lemma percent_and_slash_reserved: "\<not> uri_unreserved (CHR ''%'')" "\<not> uri_unreserved (CHR ''/'')"
  by (simp_all add: uri_unreserved_def)

lemma of_char_less_256: "(of_char c :: nat) < 256"
  by simp

lemma byte_bounds: "n < 256 \<Longrightarrow> 192 + n div 64 < 256" "128 + n mod 64 < 256" for n :: nat
  by arith+


lemma percent_decode_char: "percent_decode (encode_uri_char c @ s) = utf8_bytes c @ percent_decode s"
proof (cases "uri_unreserved c")
  case True
  then have "c \<noteq> CHR ''%''" using percent_and_slash_reserved by metis
  with True show ?thesis by (simp add: encode_uri_char_def utf8_bytes_def unreserved_below_128)
next
  case False
  show ?thesis
    using False byte_bounds(1) [OF of_char_less_256 [of c]] byte_bounds(2) [of "of_char c"]
    by (cases "(of_char c :: nat) < 128")
      (simp_all add: encode_uri_char_def utf8_bytes_def Let_def percent_decode_byte)
qed

lemma percent_decode_encode:
  "percent_decode (encode_uri_component s @ t) = concat (map utf8_bytes s) @ percent_decode t"
  by (induction s) (simp_all add: encode_uri_component_def percent_decode_char)

lemma utf8_decode_bytes: "utf8_decode (utf8_bytes c @ bs) = c # utf8_decode bs"
proof (cases "(of_char c :: nat) < 128")
  case False
  have "64 * ((of_char c :: nat) div 64) + of_char c mod 64 = of_char c" by simp
  with False show ?thesis by (simp add: utf8_bytes_def Let_def)
qed (simp add: utf8_bytes_def)

lemma utf8_decode_all: "utf8_decode (concat (map utf8_bytes s)) = s"
  by (induction s) (simp_all add: utf8_decode_bytes)

lemma percent_decode_dots:
  "percent_decode (concat (map (\<lambda>_. ''%2E'') ds) @ s) = map (\<lambda>_. 46) ds @ percent_decode s"
proof (induction ds)
  case (Cons d ds)
  have "''%2E'' = percent_byte 46" by (simp add: percent_byte_def hex_digit_def)
  with Cons percent_decode_byte [of 46] show ?case by simp
qed simp

lemma percent_decode_plain_dots:
  "list_all (\<lambda>c. c = CHR ''.'') ds \<Longrightarrow> percent_decode (ds @ s) = map (\<lambda>_. 46) ds @ percent_decode s"
  by (induction ds) auto

lemma percent_decode_claim_name: "percent_decode (claim_name d) = percent_decode (encode_uri_component d)"
proof -
  define e where "e = encode_uri_component d"
  define ds where "ds = takeWhile (\<lambda>c. c = CHR ''.'') e"
  define rest where "rest = dropWhile (\<lambda>c. c = CHR ''.'') e"
  have dots: "list_all (\<lambda>c. c = CHR ''.'') ds"
    by (auto simp: ds_def list_all_iff dest: set_takeWhileD)
  have "percent_decode (claim_name d) = map (\<lambda>_. 46) ds @ percent_decode rest"
    by (simp add: claim_name_def Let_def e_def ds_def rest_def percent_decode_dots)
  also have "\<dots> = percent_decode (ds @ rest)" by (simp add: percent_decode_plain_dots [OF dots])
  also have "ds @ rest = e" by (simp add: ds_def rest_def)
  finally show ?thesis by (simp add: e_def)
qed

lemma decode_claim_name: "decode_uri (claim_name d) = d"
  using percent_decode_encode [of d "[]"]
  by (simp add: decode_uri_def percent_decode_claim_name utf8_decode_all)

lemma claim_file_inj: "claim_file d = claim_file d' \<Longrightarrow> d = d'"
  by (metis append_same_eq claim_file_def decode_claim_name)

lemma claim_file_eq_iff [simp]: "claim_file d = claim_file d' \<longleftrightarrow> d = d'"
  by (auto dest: claim_file_inj)

lemma hex_digit_not_slash: "d < 16 \<Longrightarrow> hex_digit d \<noteq> CHR ''/''"
proof -
  assume "d < 16"
  then have "hex_digit d \<in> set ''0123456789ABCDEF''"
    unfolding hex_digit_def by (intro nth_mem) simp
  then show ?thesis by auto
qed

lemma percent_byte_no_slash: "b < 256 \<Longrightarrow> CHR ''/'' \<notin> set (percent_byte b)"
  using hex_digit_not_slash [of "b div 16"] hex_digit_not_slash [of "b mod 16"] div16_bound [of b]
  by (auto simp: percent_byte_def)

lemma encode_uri_char_no_slash: "CHR ''/'' \<notin> set (encode_uri_char c)"
proof (cases "uri_unreserved c")
  case True
  then have "c \<noteq> CHR ''/''" using percent_and_slash_reserved by metis
  with True show ?thesis by (simp add: encode_uri_char_def)
next
  case False
  then show ?thesis
    using byte_bounds(1) [OF of_char_less_256 [of c]] byte_bounds(2) [of "of_char c"]
    by (cases "(of_char c :: nat) < 128")
      (simp_all add: encode_uri_char_def Let_def percent_byte_no_slash)
qed

lemma claim_name_no_slash: "CHR ''/'' \<notin> set (claim_name d)"
proof -
  have "CHR ''/'' \<notin> set (encode_uri_component d)"
    using encode_uri_char_no_slash by (auto simp: encode_uri_component_def)
  then show ?thesis
    by (auto simp: claim_name_def Let_def dest: set_takeWhileD set_dropWhileD)
qed

lemma claim_name_not_hidden: "claim_name d \<noteq> CHR ''.'' # s"
proof
  assume eq: "claim_name d = CHR ''.'' # s"
  define e where "e = encode_uri_component d"
  show False
  proof (cases "takeWhile (\<lambda>c. c = CHR ''.'') e")
    case Nil
    then have "dropWhile (\<lambda>c. c = CHR ''.'') e = CHR ''.'' # s"
      using eq by (simp add: claim_name_def Let_def e_def)
    then show False using hd_dropWhile [of "\<lambda>c. c = CHR ''.''" e] by auto
  next
    case (Cons x xs)
    then show False using eq by (simp add: claim_name_def Let_def e_def)
  qed
qed

text \<open>
  C7. Every device has a claim file of its own that stays inside the registry directory: the name
  decodes to the device, so it is unique to it; it holds no path separator; and it does not start
  with a dot, so it is neither hidden nor a relative segment.
\<close>

theorem claim_file_own_name:
  "decode_uri (claim_name d) = d \<and>
   (claim_file d = claim_file d' \<longleftrightarrow> d = d') \<and>
   CHR ''/'' \<notin> set (claim_file d) \<and>
   (hd (claim_file d) = CHR ''.'' \<longleftrightarrow> d = [])"
proof (cases "d = []")
  case True
  then show ?thesis
    using decode_claim_name [of d] claim_name_no_slash [of d] claim_file_eq_iff [of d d']
    by (simp add: claim_file_def claim_name_def encode_uri_component_def del: claim_file_eq_iff)
next
  case False
  have "claim_name d \<noteq> []"
    using decode_claim_name [of d] False by (auto simp: decode_uri_def)
  then have "hd (claim_file d) \<noteq> CHR ''.''"
    using claim_name_not_hidden [of d] by (cases "claim_name d") (auto simp: claim_file_def)
  then show ?thesis
    using decode_claim_name [of d] claim_name_no_slash [of d] claim_file_eq_iff [of d d']
    by (simp add: claim_file_def False del: claim_file_eq_iff)
qed

end
