(* ===== verification/Device_Claims.thy ===== *)
theory Device_Claims
  imports Claim_Names
begin

text \<open>
  Machine-wide device claims (\<open>device-claims.ts\<close>): the records, the validation of what is read
  from a claim file, liveness, and the registry operations \<open>claimDevice\<close>, \<open>releaseDeviceClaim\<close>,
  \<open>releaseSessionClaims\<close>, \<open>listDeviceClaims\<close> and their callers. The registry is the directory's
  content by file name; what the operating system answers (which pids run, their start tokens,
  whether a file can be written) is the record \<open>claim_world\<close>. Each operation runs under the
  registry lock, so it is one step on the registry.
\<close>

section \<open>Data\<close>

text \<open>JSON values as \<open>JSON.parse\<close> returns them; a number is an integer or not.\<close>

datatype json = J_Null | J_Bool bool | J_Int int | J_Frac string | J_Str string
  | J_Arr "json list" | J_Obj "(string \<times> json) list"

record session_identity =
  sess_id :: string
  sess_pid :: int
  sess_start_token :: "string option"
  sess_command :: string
  sess_project :: string
  sess_started_at :: string

record process_ref =
  ref_pid :: int
  ref_token :: "string option"

record device_claim =
  claim_device_id :: string
  claim_session :: session_identity
  claimant_pid :: json
  holders :: "process_ref list option"
  daemon_address :: "string option"
  daemon_addresses :: "string list option"
  claimed_at :: string

datatype claim_result = Claimed bool | Refused device_claim

record claim_world =
  my_pid :: int
  pid_alive :: "int \<Rightarrow> bool"
  start_token :: "int \<Rightarrow> string option"
  files_writable :: bool
  now_iso :: string
  locale_le :: "string \<Rightarrow> string \<Rightarrow> bool"    \<comment> \<open>\<open>a.localeCompare(b) <= 0\<close>\<close>

datatype file_content = Parsed json | Unparsable

type_synonym registry = "(string, file_content) jsmap"

section \<open>Validation\<close>

definition obj_get :: "json \<Rightarrow> string \<Rightarrow> json option" where
  "obj_get v k = (case v of J_Obj fs \<Rightarrow> map_of fs k | _ \<Rightarrow> None)"

fun as_string :: "json option \<Rightarrow> string option" where
  "as_string (Some (J_Str s)) = Some s"
| "as_string _ = None"

fun as_positive_int :: "json option \<Rightarrow> int option" where
  "as_positive_int (Some (J_Int n)) = (if n > 0 then Some n else None)"
| "as_positive_int _ = None"

text \<open>\<open>v === undefined || typeof v === 'string'\<close>, giving the field when it passes.\<close>

fun opt_string :: "json option \<Rightarrow> string option option" where
  "opt_string None = Some None"
| "opt_string (Some (J_Str s)) = Some (Some s)"
| "opt_string _ = None"

fun all_some :: "'a option list \<Rightarrow> 'a list option" where
  "all_some [] = Some []"
| "all_some (None # _) = None"
| "all_some (Some x # xs) = map_option ((#) x) (all_some xs)"

definition decode_session :: "json \<Rightarrow> session_identity option" where
  "decode_session v =
     (case (as_string (obj_get v ''id''), as_positive_int (obj_get v ''pid''), as_string (obj_get v ''command''),
            as_string (obj_get v ''project''), as_string (obj_get v ''startedAt''), opt_string (obj_get v ''startToken'')) of
        (Some i, Some p, Some c, Some pr, Some st, Some tok) \<Rightarrow>
          if i = [] then None
          else Some \<lparr> sess_id = i, sess_pid = p, sess_start_token = tok, sess_command = c,
                      sess_project = pr, sess_started_at = st \<rparr>
      | _ \<Rightarrow> None)"

definition decode_process_ref :: "json \<Rightarrow> process_ref option" where
  "decode_process_ref v =
     (case (as_positive_int (obj_get v ''pid''), opt_string (obj_get v ''startToken'')) of
        (Some p, Some tok) \<Rightarrow> Some \<lparr> ref_pid = p, ref_token = tok \<rparr>
      | _ \<Rightarrow> None)"

fun opt_list :: "(json \<Rightarrow> 'a option) \<Rightarrow> json option \<Rightarrow> 'a list option option" where
  "opt_list f None = Some None"
| "opt_list f (Some (J_Arr vs)) = map_option Some (all_some (map f vs))"
| "opt_list f _ = None"

definition is_number :: "json option \<Rightarrow> bool" where
  "is_number v = (case v of Some (J_Int _) \<Rightarrow> True | Some (J_Frac _) \<Rightarrow> True | _ \<Rightarrow> False)"

definition decode_claim :: "json \<Rightarrow> device_claim option" where
  "decode_claim v =
     (case (as_string (obj_get v ''device''), Option.bind (obj_get v ''session'') decode_session,
            as_string (obj_get v ''claimedAt''), opt_string (obj_get v ''daemonAddress''),
            opt_list (\<lambda>a. as_string (Some a)) (obj_get v ''daemonAddresses''),
            opt_list decode_process_ref (obj_get v ''holders'')) of
        (Some d, Some s, Some at, Some addr, Some addrs, Some hs) \<Rightarrow>
          if is_number (obj_get v ''claimantPid'')
          then Some \<lparr> claim_device_id = d, claim_session = s, claimant_pid = the (obj_get v ''claimantPid''),
                      holders = hs, daemon_address = addr, daemon_addresses = addrs, claimed_at = at \<rparr>
          else None
      | _ \<Rightarrow> None)"

section \<open>Encoding (\<open>JSON.stringify\<close>, which drops undefined fields)\<close>

definition opt_field :: "string \<Rightarrow> json option \<Rightarrow> (string \<times> json) list" where
  "opt_field k v = (case v of None \<Rightarrow> [] | Some j \<Rightarrow> [(k, j)])"

definition encode_session :: "session_identity \<Rightarrow> json" where
  "encode_session s = J_Obj
     ([(''id'', J_Str (sess_id s)), (''pid'', J_Int (sess_pid s)), (''command'', J_Str (sess_command s)),
       (''project'', J_Str (sess_project s)), (''startedAt'', J_Str (sess_started_at s))]
      @ opt_field ''startToken'' (map_option J_Str (sess_start_token s)))"

definition encode_process_ref :: "process_ref \<Rightarrow> json" where
  "encode_process_ref r = J_Obj
     ((''pid'', J_Int (ref_pid r)) # opt_field ''startToken'' (map_option J_Str (ref_token r)))"

definition encode_claim :: "device_claim \<Rightarrow> json" where
  "encode_claim c = J_Obj
     ([(''device'', J_Str (claim_device_id c)), (''session'', encode_session (claim_session c)),
       (''claimantPid'', claimant_pid c)]
      @ opt_field ''holders'' (map_option (\<lambda>hs. J_Arr (map encode_process_ref hs)) (holders c))
      @ opt_field ''daemonAddress'' (map_option J_Str (daemon_address c))
      @ opt_field ''daemonAddresses'' (map_option (\<lambda>xs. J_Arr (map J_Str xs)) (daemon_addresses c))
      @ [(''claimedAt'', J_Str (claimed_at c))])"

definition valid_session :: "session_identity \<Rightarrow> bool" where
  "valid_session s \<longleftrightarrow> sess_id s \<noteq> [] \<and> sess_pid s > 0"

definition valid_claim :: "device_claim \<Rightarrow> bool" where
  "valid_claim c \<longleftrightarrow> valid_session (claim_session c) \<and> is_number (Some (claimant_pid c)) \<and>
     (\<forall>h \<in> set (nullish (holders c) []). ref_pid h > 0)"

section \<open>Liveness\<close>

definition process_is_live :: "claim_world \<Rightarrow> int \<Rightarrow> string option \<Rightarrow> bool" where
  "process_is_live w pid token =
     (if \<not> pid_alive w pid then False
      else (case token of
              None \<Rightarrow> True
            | Some t \<Rightarrow> (case start_token w pid of None \<Rightarrow> True | Some now \<Rightarrow> now = t)))"

definition ref_is_live :: "claim_world \<Rightarrow> process_ref \<Rightarrow> bool" where
  "ref_is_live w r = process_is_live w (ref_pid r) (ref_token r)"

definition claim_is_live :: "claim_world \<Rightarrow> device_claim \<Rightarrow> bool" where
  "claim_is_live w c =
     (case holders c of
        Some (h # hs) \<Rightarrow> list_ex (ref_is_live w) (h # hs)
      | _ \<Rightarrow> process_is_live w (sess_pid (claim_session c)) (sess_start_token (claim_session c)))"

definition this_process :: "claim_world \<Rightarrow> process_ref" where
  "this_process w = \<lparr> ref_pid = my_pid w, ref_token = start_token w (my_pid w) \<rparr>"

section \<open>Registry\<close>

definition read_claim :: "registry \<Rightarrow> string \<Rightarrow> device_claim option" where
  "read_claim reg f = (case map_get reg f of Some (Parsed v) \<Rightarrow> decode_claim v | _ \<Rightarrow> None)"

definition write_claim :: "claim_world \<Rightarrow> string \<Rightarrow> device_claim \<Rightarrow> registry \<Rightarrow> registry" where
  "write_claim w f c reg = (if files_writable w then map_set f (Parsed (encode_claim c)) reg else reg)"

definition remove_claim :: "claim_world \<Rightarrow> string \<Rightarrow> registry \<Rightarrow> registry" where
  "remove_claim w f reg = (if files_writable w then map_del f reg else reg)"

definition addresses_of :: "device_claim option \<Rightarrow> string list" where
  "addresses_of c =
     (case c of
        None \<Rightarrow> []
      | Some c \<Rightarrow> set_of_list (nullish (daemon_addresses c) [] @
                    (case daemon_address c of Some a \<Rightarrow> if a = [] then [] else [a] | None \<Rightarrow> [])))"

definition claim_device ::
  "claim_world \<Rightarrow> session_identity \<Rightarrow> string option \<Rightarrow> string \<Rightarrow> registry \<Rightarrow> claim_result \<times> registry" where
  "claim_device w session addr device reg =
     (let f = claim_file device;
          existing = read_claim reg f;
          same = (case existing of Some c \<Rightarrow> sess_id (claim_session c) = sess_id session | None \<Rightarrow> False)
      in case existing of
           Some c \<Rightarrow>
             if \<not> same \<and> claim_is_live w c then (Refused c, reg)
             else
               (let me = this_process w;
                    others = (if same then filter (\<lambda>h. ref_pid h \<noteq> ref_pid me \<and> ref_is_live w h) (nullish (holders c) [])
                              else [])
                in (Claimed (\<not> same),
                    write_claim w f
                      \<lparr> claim_device_id = device, claim_session = session,
                        claimant_pid = (if same then claimant_pid c else J_Int (my_pid w)),
                        holders = Some (others @ [me]),
                        daemon_address = or_else addr (if same then daemon_address c else None),
                        daemon_addresses = Some (set_of_list ((if same then addresses_of existing else []) @
                           (case addr of Some a \<Rightarrow> if a = [] then [] else [a] | None \<Rightarrow> []))),
                        claimed_at = (if same then claimed_at c else now_iso w) \<rparr> reg))
         | None \<Rightarrow>
             (Claimed True,
              write_claim w f
                \<lparr> claim_device_id = device, claim_session = session, claimant_pid = J_Int (my_pid w),
                  holders = Some [this_process w], daemon_address = addr,
                  daemon_addresses = Some (case addr of Some a \<Rightarrow> if a = [] then [] else [a] | None \<Rightarrow> []),
                  claimed_at = now_iso w \<rparr> reg))"

definition release_device_claim ::
  "claim_world \<Rightarrow> session_identity \<Rightarrow> string \<Rightarrow> registry \<Rightarrow> registry" where
  "release_device_claim w session device reg =
     (let f = claim_file device in
      case read_claim reg f of
        None \<Rightarrow> reg
      | Some c \<Rightarrow>
          if sess_id (claim_session c) \<noteq> sess_id session then reg
          else (let remaining = filter (\<lambda>h. ref_pid h \<noteq> my_pid w \<and> ref_is_live w h) (nullish (holders c) [])
                in if remaining \<noteq> [] then write_claim w f (c\<lparr> holders := Some remaining \<rparr>) reg
                   else remove_claim w f reg))"

definition ends_with_json :: "string \<Rightarrow> bool" where
  "ends_with_json f = (drop (length f - 5) f = ''.json'')"

definition release_session_claims :: "claim_world \<Rightarrow> string \<Rightarrow> registry \<Rightarrow> registry" where
  "release_session_claims w sid reg =
     fold (\<lambda>f r. case read_claim r f of
                   Some c \<Rightarrow> if sess_id (claim_session c) = sid then remove_claim w f r else r
                 | None \<Rightarrow> r)
       (filter ends_with_json (map_keys reg)) reg"

text \<open>Every recorded claim with its liveness, sorted by device.\<close>

definition list_device_claims :: "claim_world \<Rightarrow> registry \<Rightarrow> (device_claim \<times> bool) list" where
  "list_device_claims w reg =
     sort_by (\<lambda>a b. locale_le w (claim_device_id (fst a)) (claim_device_id (fst b)))
       (List.map_filter (\<lambda>f. map_option (\<lambda>c. (c, claim_is_live w c)) (read_claim reg f))
         (filter ends_with_json (map_keys reg)))"

definition devices_held_by_this_process :: "claim_world \<Rightarrow> session_identity \<Rightarrow> registry \<Rightarrow> string list" where
  "devices_held_by_this_process w session reg =
     set_of_list (map (claim_device_id \<circ> fst)
       (filter (\<lambda>(c, _). sess_id (claim_session c) = sess_id session \<and>
                  list_ex (\<lambda>h. ref_pid h = my_pid w) (nullish (holders c) []))
         (list_device_claims w reg)))"

definition held_elsewhere :: "claim_world \<Rightarrow> session_identity \<Rightarrow> registry \<Rightarrow> (string, device_claim) jsmap" where
  "held_elsewhere w session reg =
     fold (\<lambda>(c, live) m. if \<not> live \<or> sess_id (claim_session c) = sess_id session then m
                         else map_set (claim_device_id c) c m)
       (list_device_claims w reg) []"

definition devices_held_elsewhere :: "claim_world \<Rightarrow> session_identity \<Rightarrow> registry \<Rightarrow> string list" where
  "devices_held_elsewhere w session reg = map_keys (held_elsewhere w session reg)"

definition without_held_devices ::
  "claim_world \<Rightarrow> session_identity \<Rightarrow> string list \<Rightarrow> registry \<Rightarrow> string list \<times> device_claim list" where
  "without_held_devices w session candidates reg =
     (let elsewhere = held_elsewhere w session reg
      in (filter (\<lambda>d. map_get elsewhere d = None) candidates,
          List.map_filter (map_get elsewhere) candidates))"

section \<open>Claiming from a list of candidates\<close>

text \<open>The two loops, over any claim operation that says whether it succeeded.\<close>

fun claim_first :: "('d \<Rightarrow> 's \<Rightarrow> 'h option \<times> 's) \<Rightarrow> 'd list \<Rightarrow> 's \<Rightarrow> 'd option \<times> 's" where
  "claim_first claim [] s = (None, s)"
| "claim_first claim (d # ds) s =
     (case claim d s of (None, s') \<Rightarrow> (Some d, s') | (Some _, s') \<Rightarrow> claim_first claim ds s')"

fun claim_loop :: "('d \<Rightarrow> 's \<Rightarrow> 'h option \<times> 's) \<Rightarrow> nat \<Rightarrow> 'd list \<Rightarrow> 'h list \<Rightarrow> 'd list \<Rightarrow> 's \<Rightarrow> ('d list \<times> 'h list) \<times> 's" where
  "claim_loop claim n claimed held [] s = ((claimed, held), s)"
| "claim_loop claim n claimed held (d # ds) s =
     (if length claimed \<ge> n then ((claimed, held), s)
      else (case claim d s of
              (None, s') \<Rightarrow> claim_loop claim n (claimed @ [d]) held ds s'
            | (Some h, s') \<Rightarrow> claim_loop claim n claimed (held @ [h]) ds s'))"

text \<open>\<open>claimDevice\<close> as such an operation: \<open>None\<close> is success, \<open>Some holder\<close> a refusal.\<close>

definition claim_op :: "claim_world \<Rightarrow> session_identity \<Rightarrow> string \<Rightarrow> registry \<Rightarrow> device_claim option \<times> registry" where
  "claim_op w session d reg =
     (case claim_device w session None d reg of
        (Claimed _, reg') \<Rightarrow> (None, reg')
      | (Refused c, reg') \<Rightarrow> (Some c, reg'))"

definition claim_first_free :: "claim_world \<Rightarrow> session_identity \<Rightarrow> string list \<Rightarrow> registry \<Rightarrow> string option \<times> registry" where
  "claim_first_free w session candidates reg = claim_first (claim_op w session) candidates reg"

definition claim_up_to ::
  "claim_world \<Rightarrow> session_identity \<Rightarrow> string list \<Rightarrow> nat \<Rightarrow> registry \<Rightarrow> (string list \<times> device_claim list) \<times> registry" where
  "claim_up_to w session candidates n reg = claim_loop (claim_op w session) n [] [] candidates reg"

section \<open>Daemon addresses\<close>

text \<open>The part after the last colon, and the part before it with one bracket stripped at each end.\<close>

definition address_port :: "string \<Rightarrow> string" where
  "address_port a = rev (takeWhile (\<lambda>c. c \<noteq> CHR '':'') (rev a))"

definition strip_brackets :: "string \<Rightarrow> string" where
  "strip_brackets h =
     (let h1 = (case h of c # cs \<Rightarrow> if c = CHR ''['' then cs else h | [] \<Rightarrow> h)
      in case rev h1 of c # cs \<Rightarrow> if c = CHR '']'' then rev cs else h1 | [] \<Rightarrow> h1)"

definition normalize_address :: "string \<Rightarrow> string" where
  "normalize_address a =
     (let port = address_port a;
          host = strip_brackets (take (length a - length port - 1) a);
          loopback = host = [] \<or> host = ''localhost'' \<or> host = ''::1'' \<or> take 4 host = ''127.''
      in (if loopback then ''loopback'' else host) @ '':'' @ port)"

definition daemon_claims_elsewhere ::
  "claim_world \<Rightarrow> session_identity \<Rightarrow> string \<Rightarrow> registry \<Rightarrow> device_claim list" where
  "daemon_claims_elsewhere w session address reg =
     filter (\<lambda>c. list_ex (\<lambda>a. normalize_address a = normalize_address address) (addresses_of (Some c)))
       (map snd (held_elsewhere w session reg))"

text \<open>\<open>activeDevice\<close> is asked only when some claim matches; \<open>None\<close> is a failed or empty answer.\<close>

definition daemon_driver_elsewhere ::
  "claim_world \<Rightarrow> session_identity \<Rightarrow> string \<Rightarrow> string option \<Rightarrow> registry \<Rightarrow> device_claim option" where
  "daemon_driver_elsewhere w session address active reg =
     (case daemon_claims_elsewhere w session address reg of
        [] \<Rightarrow> None
      | c # cs \<Rightarrow> (case active of
                     None \<Rightarrow> None
                   | Some d \<Rightarrow> find (\<lambda>c. claim_device_id c = d) (c # cs)))"

end
