(* ===== verification/Claim_Store.thy ===== *)
theory Claim_Store
  imports Device_Claims
begin

text \<open>
  What the registry promises the operations on it: a claim written is the claim read back
  (encoding and validation round trip), and each device's claim is independent of the others'.
  The promises are locales, interpreted on the registry of \<open>Device_Claims\<close>; the loops over
  candidates (\<open>claimFirstFree\<close>, \<open>claimUpTo\<close>) are proved from them alone.
\<close>

section \<open>Validation and the round trip\<close>

lemma all_some_map: "(\<And>x. x \<in> set xs \<Longrightarrow> f (g x) = Some x) \<Longrightarrow> all_some (map f (map g xs)) = Some xs"
  by (induction xs) auto

lemma all_some_SomeD: "all_some ys = Some xs \<Longrightarrow> x \<in> set xs \<Longrightarrow> Some x \<in> set ys"
  by (induction ys arbitrary: xs rule: all_some.induct) (auto simp: set_ConsD)

lemma as_positive_int_Some: "as_positive_int v = Some n \<longleftrightarrow> v = Some (J_Int n) \<and> n > 0"
  by (cases v rule: as_positive_int.cases) auto

lemma decode_process_ref_pos: "decode_process_ref v = Some r \<Longrightarrow> ref_pid r > 0"
  by (auto simp: decode_process_ref_def as_positive_int_Some split: option.splits)

lemma decode_session_valid: "decode_session v = Some s \<Longrightarrow> valid_session s"
  by (auto simp: decode_session_def valid_session_def as_positive_int_Some split: option.splits if_splits)

lemma opt_list_pos:
  assumes "opt_list decode_process_ref v = Some hs" and "h \<in> set (nullish hs [])"
  shows "ref_pid h > 0"
proof (cases v)
  case (Some j)
  with assms show ?thesis
    by (cases j) (auto dest!: all_some_SomeD dest: decode_process_ref_pos [OF sym])
qed (use assms in auto)

text \<open>What validation lets through is valid.\<close>

lemma decode_claim_valid:
  assumes "decode_claim v = Some c" shows "valid_claim c"
proof -
  from assms have "is_number (obj_get v ''claimantPid'')"
    by (auto simp: decode_claim_def split: option.splits if_splits)
  then obtain n where n: "obj_get v ''claimantPid'' = Some n" "is_number (Some n)"
    by (auto simp: is_number_def split: option.splits)
  from assms obtain s hs where "decode_session s = Some (claim_session c)"
    and "opt_list decode_process_ref hs = Some (holders c)" and "claimant_pid c = n"
    by (auto simp: decode_claim_def n split: option.splits if_splits bind_splits)
  with n(2) show ?thesis
    by (auto simp: valid_claim_def dest: decode_session_valid opt_list_pos)
qed

lemma obj_get_simps [simp]:
  "obj_get (J_Obj ((k, v) # fs)) k' = (if k = k' then Some v else obj_get (J_Obj fs) k')"
  "obj_get (J_Obj []) k' = None"
  "obj_get (J_Obj (opt_field k w @ fs)) k' = (if k = k' \<and> w \<noteq> None then w else obj_get (J_Obj fs) k')"
  "obj_get (J_Obj (opt_field k w)) k' = (if k = k' then w else None)"
  by (auto simp: obj_get_def opt_field_def split: option.splits)

lemma decode_encode_process_ref: "ref_pid r > 0 \<Longrightarrow> decode_process_ref (encode_process_ref r) = Some r"
  by (cases "ref_token r") (auto simp: decode_process_ref_def encode_process_ref_def)

lemma decode_encode_session: "valid_session s \<Longrightarrow> decode_session (encode_session s) = Some s"
  by (cases "sess_start_token s") (auto simp: decode_session_def encode_session_def valid_session_def)

lemma opt_string_map [simp]: "opt_string (map_option J_Str s) = Some s"
  by (cases s) auto

lemma opt_list_encode:
  "(\<And>x. x \<in> set (nullish xs []) \<Longrightarrow> f (g x) = Some x) \<Longrightarrow>
   opt_list f (map_option (\<lambda>ys. J_Arr (map g ys)) xs) = Some xs"
  using all_some_map [of "nullish xs []" f g] by (cases xs) auto

lemma decode_encode_claim:
  assumes "valid_claim c"
  shows "decode_claim (encode_claim c) = Some c"
proof -
  have hs: "opt_list decode_process_ref
      (map_option (\<lambda>hs. J_Arr (map encode_process_ref hs)) (holders c)) = Some (holders c)"
    using assms by (intro opt_list_encode decode_encode_process_ref) (auto simp: valid_claim_def)
  have addrs: "opt_list (\<lambda>a. as_string (Some a)) (map_option (\<lambda>xs. J_Arr (map J_Str xs)) (daemon_addresses c)) =
      Some (daemon_addresses c)"
    by (intro opt_list_encode) auto
  have sess: "decode_session (encode_session (claim_session c)) = Some (claim_session c)"
    using assms by (simp add: valid_claim_def decode_encode_session)
  have num: "is_number (Some (claimant_pid c))" using assms by (simp add: valid_claim_def)
  from hs addrs sess num show ?thesis
    unfolding decode_claim_def encode_claim_def
    by (simp only: append.simps obj_get_simps if_True if_False) simp
qed

text \<open>
  Exactly the valid claims are read back as written: decoding a claim's JSON gives the claim
  if and only if the session has an id and a positive pid, the claimant is a number and every
  holder has a positive pid, which is what every claim this program builds satisfies.
\<close>

theorem claim_roundtrip: "decode_claim (encode_claim c) = Some c \<longleftrightarrow> valid_claim c"
  using decode_encode_claim decode_claim_valid by blast

section \<open>The store\<close>

locale claim_store =
  fixes rd :: "'r \<Rightarrow> 'd \<Rightarrow> 'c option"
    and wr :: "'d \<Rightarrow> 'c \<Rightarrow> 'r \<Rightarrow> 'r"
    and rm :: "'d \<Rightarrow> 'r \<Rightarrow> 'r"
    and ok :: "'c \<Rightarrow> bool"
  assumes rd_wr: "ok c \<Longrightarrow> rd (wr d c r) d' = (if d' = d then Some c else rd r d')"
    and rd_rm: "rd (rm d r) d' = (if d' = d then None else rd r d')"
    and rd_ok: "rd r d = Some c \<Longrightarrow> ok c"
begin

lemma rd_wr_same: "ok c \<Longrightarrow> rd (wr d c r) d = Some c"
  and rd_wr_other: "ok c \<Longrightarrow> d' \<noteq> d \<Longrightarrow> rd (wr d c r) d' = rd r d'"
  and rd_rm_other: "d' \<noteq> d \<Longrightarrow> rd (rm d r) d' = rd r d'"
  by (simp_all add: rd_wr rd_rm)

text \<open>Updating a device's claim in place touches no other device.\<close>

lemma rd_modify:
  "rd r d = Some c \<Longrightarrow> (ok c \<Longrightarrow> ok (f c)) \<Longrightarrow>
   rd (wr d (f c) r) d' = (if d' = d then Some (f c) else rd r d')"
  using rd_ok rd_wr by blast

end

definition claim_of :: "registry \<Rightarrow> string \<Rightarrow> device_claim option" where
  "claim_of reg d = read_claim reg (claim_file d)"

interpretation store: claim_store claim_of
  "\<lambda>d c. map_set (claim_file d) (Parsed (encode_claim c))"
  "\<lambda>d. map_del (claim_file d)" valid_claim
proof unfold_locales
  fix r d c
  show "claim_of r d = Some c \<Longrightarrow> valid_claim c"
    by (auto simp: claim_of_def read_claim_def dest: decode_claim_valid split: option.splits file_content.splits)
next
  fix c r and d d' :: string
  assume "valid_claim c"
  then show "claim_of (map_set (claim_file d) (Parsed (encode_claim c)) r) d' = (if d' = d then Some c else claim_of r d')"
    by (simp add: claim_of_def read_claim_def decode_encode_claim)
next
  fix r and d d' :: string
  show "claim_of (map_del (claim_file d) r) d' = (if d' = d then None else claim_of r d')"
    by (simp add: claim_of_def read_claim_def)
qed

end
