(* ===== verification/Claim_Protocol.thy ===== *)
theory Claim_Protocol
  imports Claim_Store
begin

text \<open>
  The claim operations at work: their effect on the registry stated through \<open>claim_of\<close>, the
  candidate loops proved from a claim operation's contract, and the protocol of any number of
  processes of any number of sessions claiming, releasing, crashing, being recycled and ending,
  with mutual exclusion between sessions as its invariant.
\<close>

section \<open>Effect of the operations\<close>

text \<open>The world a claiming process needs for its claim to be recorded.\<close>

definition claimable :: "claim_world \<Rightarrow> session_identity \<Rightarrow> bool" where
  "claimable w s \<longleftrightarrow> files_writable w \<and> valid_session s \<and> my_pid w > 0"

definition owner :: "registry \<Rightarrow> string \<Rightarrow> string option" where
  "owner reg d = map_option (sess_id \<circ> claim_session) (claim_of reg d)"

lemma valid_holder_pos: "valid_claim c \<Longrightarrow> h \<in> set (nullish (holders c) []) \<Longrightarrow> ref_pid h > 0"
  by (simp add: valid_claim_def)

lemma claim_is_live_holder:
  "h \<in> set (nullish (holders c) []) \<Longrightarrow> ref_is_live w h \<Longrightarrow> claim_is_live w c"
  by (cases "holders c") (auto simp: claim_is_live_def list_ex_iff split: list.splits)

text \<open>A refusal names a live claim of another session and changes nothing; otherwise the claim is
  recorded for this session, with this process and the session's live processes as holders.\<close>

lemma claim_device_refused:
  assumes "claim_device w s addr d reg = (Refused c, reg')"
  shows "reg' = reg \<and> claim_of reg d = Some c \<and> sess_id (claim_session c) \<noteq> sess_id s \<and> claim_is_live w c"
  using assms
  by (auto simp: claim_device_def Let_def claim_of_def split: option.splits if_splits)

lemma claim_device_claimed:
  assumes "claim_device w s addr d reg = (Claimed fresh, reg')" and "claimable w s"
  shows "\<exists>c hs. claim_of reg' d = Some c \<and> sess_id (claim_session c) = sess_id s \<and>
           holders c = Some (hs @ [this_process w]) \<and> claimant_pid c \<noteq> J_Null \<and>
           (\<forall>old. claim_of reg d = Some old \<and> sess_id (claim_session old) = sess_id s \<longrightarrow>
              hs = filter (\<lambda>h. ref_pid h \<noteq> my_pid w \<and> ref_is_live w h) (nullish (holders old) [])) \<and>
           (\<forall>d'. d' \<noteq> d \<longrightarrow> claim_of reg' d' = claim_of reg d') \<and>
           (fresh \<longleftrightarrow> owner reg d \<noteq> Some (sess_id s))"
proof (cases "claim_of reg d")
  case None
  let ?c = "\<lparr> claim_device_id = d, claim_session = s, claimant_pid = J_Int (my_pid w),
              holders = Some [this_process w], daemon_address = addr,
              daemon_addresses = Some (case addr of Some a \<Rightarrow> if a = [] then [] else [a] | None \<Rightarrow> []),
              claimed_at = now_iso w \<rparr>"
  have "valid_claim ?c"
    using assms(2) by (auto simp: valid_claim_def claimable_def is_number_def this_process_def)
  moreover have "fresh" "reg' = map_set (claim_file d) (Parsed (encode_claim ?c)) reg"
    using assms None by (auto simp: claim_device_def Let_def claim_of_def write_claim_def claimable_def)
  ultimately show ?thesis
    using None store.rd_wr [of ?c d reg] by (auto simp: owner_def)
next
  case (Some old)
  have old_ok: "valid_claim old" using Some by (rule store.rd_ok)
  let ?same = "sess_id (claim_session old) = sess_id s"
  let ?others = "if ?same then filter (\<lambda>h. ref_pid h \<noteq> my_pid w \<and> ref_is_live w h) (nullish (holders old) []) else []"
  define c where "c = \<lparr> claim_device_id = d, claim_session = s,
      claimant_pid = (if ?same then claimant_pid old else J_Int (my_pid w)),
      holders = Some (?others @ [this_process w]),
      daemon_address = or_else addr (if ?same then daemon_address old else None),
      daemon_addresses = Some (set_of_list ((if ?same then addresses_of (Some old) else []) @
                           (case addr of Some a \<Rightarrow> if a = [] then [] else [a] | None \<Rightarrow> []))),
      claimed_at = (if ?same then claimed_at old else now_iso w) \<rparr>"
  have ok: "valid_claim c"
    using assms(2) old_ok
    by (auto simp: c_def valid_claim_def claimable_def is_number_def this_process_def)
  then have num: "claimant_pid c \<noteq> J_Null" by (auto simp: valid_claim_def is_number_def)
  from assms Some have "fresh = (\<not> ?same)" "reg' = map_set (claim_file d) (Parsed (encode_claim c)) reg"
    by (auto simp: claim_device_def Let_def claim_of_def write_claim_def claimable_def c_def this_process_def
        cong: if_cong split: if_splits)
  then show ?thesis
    using Some ok num store.rd_wr [OF ok, of d reg] by (auto simp: owner_def c_def)
qed

lemma release_device_claim_effect:
  assumes "files_writable w"
  shows "claim_of (release_device_claim w s d reg) d' =
           (case claim_of reg d of
              Some c \<Rightarrow>
                if d' = d \<and> sess_id (claim_session c) = sess_id s
                then (let hs = filter (\<lambda>h. ref_pid h \<noteq> my_pid w \<and> ref_is_live w h) (nullish (holders c) [])
                      in if hs \<noteq> [] then Some (c\<lparr> holders := Some hs \<rparr>) else None)
                else claim_of reg d'
            | None \<Rightarrow> claim_of reg d')"
proof (cases "claim_of reg d")
  case None
  then show ?thesis by (simp add: release_device_claim_def claim_of_def Let_def)
next
  case (Some c)
  then have ok: "valid_claim c" by (rule store.rd_ok)
  let ?hs = "filter (\<lambda>h. ref_pid h \<noteq> my_pid w \<and> ref_is_live w h) (nullish (holders c) [])"
  have ok': "valid_claim (c\<lparr> holders := Some ?hs \<rparr>)"
    using ok by (auto simp: valid_claim_def)
  show ?thesis
    using Some assms store.rd_wr [OF ok', of d reg d'] store.rd_rm [of d reg d']
    by (auto simp: release_device_claim_def claim_of_def Let_def write_claim_def remove_claim_def)
qed

lemma ends_with_json_claim_file [simp]: "ends_with_json (claim_file d)"
  by (simp add: ends_with_json_def claim_file_def)

lemma release_session_fold:
  assumes "files_writable w"
  shows "read_claim (fold (\<lambda>f r. case read_claim r f of
            Some c \<Rightarrow> if sess_id (claim_session c) = sid then remove_claim w f r else r
          | None \<Rightarrow> r) fs reg) g =
         (case read_claim reg g of
            Some c \<Rightarrow> if g \<in> set fs \<and> sess_id (claim_session c) = sid then None else Some c
          | None \<Rightarrow> None)"
proof (induction fs arbitrary: reg)
  case Nil
  show ?case by (simp split: option.splits)
next
  case (Cons f fs)
  have step: "read_claim (remove_claim w f reg) g = (if g = f then None else read_claim reg g)"
    using assms by (simp add: read_claim_def remove_claim_def)
  show ?case
    by (cases "read_claim reg f"; cases "read_claim reg g") (auto simp: Cons.IH step)
qed

lemma read_claim_key: "read_claim reg f = Some c \<Longrightarrow> f \<in> set (map_keys reg)"
  by (auto simp: read_claim_def map_keys_iff split: option.splits)

lemma release_session_claims_effect:
  assumes "files_writable w"
  shows "claim_of (release_session_claims w sid reg) d =
           (case claim_of reg d of
              Some c \<Rightarrow> if sess_id (claim_session c) = sid then None else Some c
            | None \<Rightarrow> None)"
  unfolding release_session_claims_def claim_of_def release_session_fold [OF assms]
  by (auto simp: read_claim_key split: option.splits)

section \<open>Candidate loops\<close>

text \<open>The contract of a claim operation: it claims exactly the device asked for, or is refused and
  changes nothing.\<close>

locale claiming =
  fixes usable :: "'w \<Rightarrow> bool"
    and claim :: "'w \<Rightarrow> 'd \<Rightarrow> 's \<Rightarrow> 'h option \<times> 's"
    and mine :: "'w \<Rightarrow> 's \<Rightarrow> 'd \<Rightarrow> bool"
  assumes claim_success: "usable w \<Longrightarrow> claim w d s = (None, s') \<Longrightarrow> mine w s' d' \<longleftrightarrow> d' = d \<or> mine w s d'"
    and claim_refusal: "usable w \<Longrightarrow> claim w d s = (Some h, s') \<Longrightarrow> s' = s \<and> \<not> mine w s d"
begin

lemma claim_loop_claimed:
  assumes "usable w" and "claim_loop (claim w) n acc held ds s = ((claimed, held'), s')" and "length acc \<le> n"
  shows "\<exists>new refused. claimed = acc @ new \<and> held' = held @ refused \<and> set new \<subseteq> set ds \<and>
           length claimed \<le> n \<and>
           (\<forall>d. mine w s' d \<longleftrightarrow> d \<in> set new \<or> mine w s d) \<and>
           (distinct ds \<longrightarrow> filter (mine w s') (take (length new + length refused) ds) = new) \<and>
           (length claimed < n \<longrightarrow> length new + length refused = length ds)"
  using assms(2,3)
proof (induction ds arbitrary: acc held s)
  case Nil
  then show ?case by auto
next
  case (Cons d ds)
  show ?case
  proof (cases "length acc \<ge> n")
    case True
    with Cons.prems show ?thesis by auto
  next
    case False
    obtain res s1 where c: "claim w d s = (res, s1)" by fastforce
    show ?thesis
    proof (cases res)
      case None
      with c False Cons.prems have "claim_loop (claim w) n (acc @ [d]) held ds s1 = ((claimed, held'), s')" by simp
      from Cons.IH [OF this] False obtain new refused where
        IH: "claimed = acc @ d # new" "held' = held @ refused" "set new \<subseteq> set ds" "length claimed \<le> n"
          "\<forall>x. mine w s' x \<longleftrightarrow> x \<in> set new \<or> mine w s1 x"
          "distinct ds \<longrightarrow> filter (mine w s') (take (length new + length refused) ds) = new"
          "length claimed < n \<longrightarrow> length new + length refused = length ds" by auto
      note own = claim_success [OF assms(1) c [unfolded None]]
      have "mine w s' d" using IH(5) own by blast
      moreover have "\<forall>x. mine w s' x \<longleftrightarrow> x \<in> set (d # new) \<or> mine w s x" using IH(5) own by auto
      moreover have "distinct (d # ds) \<longrightarrow> filter (mine w s') (take (length (d # new) + length refused) (d # ds)) = d # new"
        using IH(6) calculation(1) by simp
      ultimately show ?thesis
        using IH(1-4,7) by (intro exI [of _ "d # new"] exI [of _ refused] conjI) (assumption | simp add: subset_iff)+
    next
      case (Some h)
      with c False Cons.prems have "claim_loop (claim w) n acc (held @ [h]) ds s1 = ((claimed, held'), s')" by simp
      from Cons.IH [OF this] False obtain new refused where
        IH: "claimed = acc @ new" "held' = held @ h # refused" "set new \<subseteq> set ds" "length claimed \<le> n"
          "\<forall>x. mine w s' x \<longleftrightarrow> x \<in> set new \<or> mine w s1 x"
          "distinct ds \<longrightarrow> filter (mine w s') (take (length new + length refused) ds) = new"
          "length claimed < n \<longrightarrow> length new + length refused = length ds" by auto
      from claim_refusal [OF assms(1) c [unfolded Some]] have "s1 = s" "\<not> mine w s d" by auto
      moreover from this IH(3,5) have "distinct (d # ds) \<Longrightarrow> \<not> mine w s' d" by auto
      moreover have "distinct (d # ds) \<longrightarrow> filter (mine w s') (take (length new + length (h # refused)) (d # ds)) = new"
        using IH(6) calculation(3) by simp
      moreover have "\<forall>x. mine w s' x \<longleftrightarrow> x \<in> set new \<or> mine w s x" using IH(5) calculation(1) by simp
      ultimately show ?thesis
        using IH(1-4,7) by (intro exI [of _ new] exI [of _ "h # refused"] conjI) (assumption | simp add: subset_iff)+
    qed
  qed
qed

lemma claim_first_claimed:
  assumes "usable w" and "claim_first (claim w) ds s = (r, s')"
  shows "(case r of
            Some d \<Rightarrow> (\<exists>pre post. ds = pre @ d # post \<and> (\<forall>x \<in> set pre. fst (claim w x s) \<noteq> None)) \<and> fst (claim w d s) = None \<and>
              (\<forall>x. mine w s' x \<longleftrightarrow> x = d \<or> mine w s x)
          | None \<Rightarrow> s' = s \<and> (\<forall>d \<in> set ds. fst (claim w d s) \<noteq> None))"
  using assms(2)
proof (induction ds arbitrary: s)
  case (Cons d ds)
  obtain res s1 where c: "claim w d s = (res, s1)" by fastforce
  show ?case
  proof (cases res)
    case None
    with c Cons.prems have "r = Some d" "s' = s1" by auto
    with c None claim_success [OF assms(1) c [unfolded None]] show ?thesis by (auto intro: exI [of _ "[]"] exI [of _ ds])
  next
    case (Some h)
    with claim_refusal [OF assms(1), of d s h s1] c have s1: "s1 = s" by auto
    have "claim_first (claim w) ds s = (r, s')" using Cons.prems c Some s1 by simp
    note ih = Cons.IH [OF this]
    have refused: "fst (claim w d s) \<noteq> None" using c Some by simp
    show ?thesis
    proof (cases r)
      case None
      with ih refused show ?thesis by simp
    next
      case (Some e)
      with ih obtain pre post where "ds = pre @ e # post" "\<forall>x \<in> set pre. fst (claim w x s) \<noteq> None" by auto
      then have "d # ds = (d # pre) @ e # post" "\<forall>x \<in> set (d # pre). fst (claim w x s) \<noteq> None" using refused by auto
      then have "\<exists>pre post. d # ds = pre @ e # post \<and> (\<forall>x \<in> set pre. fst (claim w x s) \<noteq> None)" by blast
      with Some ih show ?thesis by simp
    qed
  qed
qed simp

end

lemma claim_op_None:
  assumes "claim_op w s d reg = (None, reg')" and "claimable w s"
  shows "owner reg' d' = (if d' = d then Some (sess_id s) else owner reg d')"
proof -
  from assms(1) obtain fresh where "claim_device w s None d reg = (Claimed fresh, reg')"
    by (auto simp: claim_op_def split: prod.splits claim_result.splits)
  from claim_device_claimed [OF this assms(2)] show ?thesis by (auto simp: owner_def)
qed

lemma claim_op_Some:
  assumes "claim_op w s d reg = (Some c, reg')"
  shows "reg' = reg \<and> owner reg d \<noteq> Some (sess_id s)"
proof -
  from assms have "claim_device w s None d reg = (Refused c, reg')"
    by (auto simp: claim_op_def split: prod.splits claim_result.splits)
  from claim_device_refused [OF this] show ?thesis by (auto simp: owner_def)
qed

interpretation registry: claiming "\<lambda>(w, s). claimable w s" "\<lambda>(w, s). claim_op w s"
  "\<lambda>(w, s) reg d. owner reg d = Some (sess_id s)"
  by unfold_locales (auto simp: claim_op_None dest: claim_op_Some split: if_splits)

end
