(* ===== verification/Claim_Safety.thy ===== *)
theory Claim_Safety
  imports Claim_Protocol
begin

text \<open>
  Any number of processes, each of one session, using the claim registry at the same time: what a
  process holds, and the proof that two live sessions never hold one device together.
\<close>

section \<open>The system\<close>

text \<open>
  \<open>procs\<close> is what runs now, with each process's true start token; \<open>proc_session\<close> the session a
  process belongs to; \<open>driving\<close> records who was told it may drive which device and has not given
  it back. It is a ghost: no operation reads it.
\<close>

record claims_system =
  procs :: "int \<rightharpoonup> string"
  proc_session :: "int \<Rightarrow> session_identity"
  claims :: registry
  driving :: "(string \<times> int) set"

text \<open>
  What the operating system may answer a process \<open>p\<close>: a pid is alive exactly when it runs, and a
  start token is either unreadable or the process's own.
\<close>

definition world_of :: "claims_system \<Rightarrow> int \<Rightarrow> claim_world \<Rightarrow> bool" where
  "world_of sys p w \<longleftrightarrow>
     my_pid w = p \<and> files_writable w \<and>
     (\<forall>q. pid_alive w q \<longleftrightarrow> procs sys q \<noteq> None) \<and>
     (\<forall>q. start_token w q = None \<or> start_token w q = procs sys q)"

inductive claim_step :: "claims_system \<Rightarrow> claims_system \<Rightarrow> bool" where
  claim: "procs sys p \<noteq> None \<Longrightarrow> world_of sys p w \<Longrightarrow>
     claim_device w (proc_session sys p) addr d (claims sys) = (Claimed fresh, reg) \<Longrightarrow>
     claim_step sys (sys\<lparr> claims := reg, driving := insert (d, p) (driving sys) \<rparr>)"
| refuse: "procs sys p \<noteq> None \<Longrightarrow> world_of sys p w \<Longrightarrow>
     claim_device w (proc_session sys p) addr d (claims sys) = (Refused c, reg) \<Longrightarrow>
     claim_step sys (sys\<lparr> claims := reg \<rparr>)"
| release: "procs sys p \<noteq> None \<Longrightarrow> world_of sys p w \<Longrightarrow>
     claim_step sys (sys\<lparr> claims := release_device_claim w (proc_session sys p) d (claims sys),
                          driving := driving sys - {(d, p)} \<rparr>)"
| root_exit: "procs sys p \<noteq> None \<Longrightarrow> world_of sys p w \<Longrightarrow> sid = sess_id (proc_session sys p) \<Longrightarrow>
     claim_step sys (sys\<lparr> procs := (procs sys)(p := None),
                          claims := release_session_claims w sid (claims sys),
                          driving := {(d, q) \<in> driving sys. sess_id (proc_session sys q) \<noteq> sid} \<rparr>)"
| crash: "claim_step sys (sys\<lparr> procs := (procs sys)(p := None),
                          driving := {(d, q) \<in> driving sys. q \<noteq> p} \<rparr>)"
| spawn: "procs sys p = None \<Longrightarrow> p > 0 \<Longrightarrow> valid_session s \<Longrightarrow>
     claim_step sys (sys\<lparr> procs := (procs sys)(p \<mapsto> t), proc_session := (proc_session sys)(p := s) \<rparr>)"

inductive claims_reachable :: "claims_system \<Rightarrow> bool" where
  start: "procs sys = Map.empty \<Longrightarrow> driving sys = {} \<Longrightarrow> claims_reachable sys"
| step: "claims_reachable sys \<Longrightarrow> claim_step sys sys' \<Longrightarrow> claims_reachable sys'"

section \<open>The invariant\<close>

text \<open>
  Whoever drives a device runs, and the device's claim is its session's and lists the process as
  a holder with its own token (or none).
\<close>

definition holds_claim :: "claims_system \<Rightarrow> string \<Rightarrow> int \<Rightarrow> bool" where
  "holds_claim sys d p \<longleftrightarrow>
     (\<exists>t c h. procs sys p = Some t \<and> claim_of (claims sys) d = Some c \<and>
        sess_id (claim_session c) = sess_id (proc_session sys p) \<and>
        h \<in> set (nullish (holders c) []) \<and> ref_pid h = p \<and> (ref_token h = None \<or> ref_token h = Some t))"

definition claims_invariant :: "claims_system \<Rightarrow> bool" where
  "claims_invariant sys \<longleftrightarrow>
     (\<forall>p. procs sys p \<noteq> None \<longrightarrow> p > 0 \<and> valid_session (proc_session sys p)) \<and>
     (\<forall>(d, p) \<in> driving sys. holds_claim sys d p)"

lemma claims_invariantD:
  assumes "claims_invariant sys"
  shows "procs sys p \<noteq> None \<Longrightarrow> p > 0" "procs sys p \<noteq> None \<Longrightarrow> valid_session (proc_session sys p)"
    and "(d, p) \<in> driving sys \<Longrightarrow> holds_claim sys d p"
  using assms by (auto simp: claims_invariant_def)

text \<open>A process that runs is live to every other, by pid and by its own token.\<close>

lemma own_ref_live:
  assumes "world_of sys q w" and "procs sys (ref_pid h) = Some t"
    and "ref_token h = None \<or> ref_token h = Some t"
  shows "ref_is_live w h"
  using assms
  by (auto simp: world_of_def ref_is_live_def process_is_live_def split: option.splits)
    (metis option.inject option.distinct(1))+

lemma claimable_world:
  assumes "claims_invariant sys" and "procs sys p \<noteq> None" and "world_of sys p w"
  shows "claimable w (proc_session sys p)"
  using assms claims_invariantD(1,2) by (auto simp: claimable_def world_of_def)

text \<open>Nobody of another session drives a device a claim succeeds on.\<close>

lemma claimed_same_session:
  assumes inv: "claims_invariant sys" and run: "procs sys p \<noteq> None" and w: "world_of sys p w"
    and ok: "claim_device w (proc_session sys p) addr d (claims sys) = (Claimed fresh, reg)"
    and q: "(d, q) \<in> driving sys"
  shows "sess_id (proc_session sys q) = sess_id (proc_session sys p)"
proof (rule ccontr)
  assume neq: "\<not> ?thesis"
  from claims_invariantD(3) [OF inv q] obtain t c h where
    c: "claim_of (claims sys) d = Some c" "sess_id (claim_session c) = sess_id (proc_session sys q)"
    and h: "h \<in> set (nullish (holders c) [])" "ref_pid h = q" "procs sys q = Some t"
      "ref_token h = None \<or> ref_token h = Some t"
    by (auto simp: holds_claim_def)
  from own_ref_live [OF w, of h t] h have "claim_is_live w c"
    by (auto intro: claim_is_live_holder)
  with c neq have "claim_device w (proc_session sys p) addr d (claims sys) = (Refused c, claims sys)"
    by (simp add: claim_device_def claim_of_def Let_def)
  with ok show False by simp
qed

lemma claim_keeps_holders:
  assumes inv: "claims_invariant sys" and run: "procs sys p \<noteq> None" and w: "world_of sys p w"
    and ok: "claim_device w (proc_session sys p) addr d (claims sys) = (Claimed fresh, reg)"
    and q: "(d', q) \<in> insert (d, p) (driving sys)"
  shows "holds_claim (sys\<lparr> claims := reg, driving := D \<rparr>) d' q"
proof -
  from claim_device_claimed [OF ok claimable_world [OF inv run w]] obtain c hs where
    c: "claim_of reg d = Some c" "sess_id (claim_session c) = sess_id (proc_session sys p)"
      "holders c = Some (hs @ [this_process w])"
    and same: "\<forall>old. claim_of (claims sys) d = Some old \<and>
        sess_id (claim_session old) = sess_id (proc_session sys p) \<longrightarrow>
        hs = filter (\<lambda>h. ref_pid h \<noteq> my_pid w \<and> ref_is_live w h) (nullish (holders old) [])"
    and other: "\<forall>d'. d' \<noteq> d \<longrightarrow> claim_of reg d' = claim_of (claims sys) d'"
    by auto
  show ?thesis
  proof (cases "d' = d")
    case False
    with q claims_invariantD(3) [OF inv, of d' q] other show ?thesis
      by (auto simp: holds_claim_def)
  next
    case True
    show ?thesis
    proof (cases "q = p")
      case True
      obtain t where "procs sys p = Some t" using run by auto
      with w have "ref_pid (this_process w) = p"
        "ref_token (this_process w) = None \<or> ref_token (this_process w) = Some t"
        by (auto simp: this_process_def world_of_def)
      with c True \<open>d' = d\<close> \<open>procs sys p = Some t\<close> show ?thesis
        by (force simp: holds_claim_def)
    next
      case False
      with q True have drv: "(d, q) \<in> driving sys" by simp
      from claims_invariantD(3) [OF inv drv] obtain t old h where
        old: "claim_of (claims sys) d = Some old" "sess_id (claim_session old) = sess_id (proc_session sys q)"
        and h: "h \<in> set (nullish (holders old) [])" "ref_pid h = q" "procs sys q = Some t"
          "ref_token h = None \<or> ref_token h = Some t"
        by (auto simp: holds_claim_def)
      have "h \<in> set hs"
        using same old claimed_same_session [OF inv run w ok drv] h own_ref_live [OF w, of h t] False w
        by (auto simp: world_of_def)
      with c h True claimed_same_session [OF inv run w ok drv] show ?thesis
        by (auto simp: holds_claim_def)
    qed
  qed
qed

lemma release_keeps_holders:
  assumes inv: "claims_invariant sys" and w: "world_of sys p w"
    and q: "(d', q) \<in> driving sys - {(d, p)}"
  shows "holds_claim (sys\<lparr> claims := release_device_claim w (proc_session sys p) d (claims sys), driving := D \<rparr>) d' q"
proof -
  from q claims_invariantD(3) [OF inv, of d' q] obtain t c h where
    c: "claim_of (claims sys) d' = Some c" "sess_id (claim_session c) = sess_id (proc_session sys q)"
    and h: "h \<in> set (nullish (holders c) [])" "ref_pid h = q" "procs sys q = Some t"
      "ref_token h = None \<or> ref_token h = Some t"
    by (auto simp: holds_claim_def)
  have live: "ref_is_live w h" using own_ref_live [OF w, of h t] h by auto
  have fw: "files_writable w" "my_pid w = p" using w by (auto simp: world_of_def)
  show ?thesis
  proof (cases "d' = d \<and> sess_id (claim_session c) = sess_id (proc_session sys p)")
    case False
    then have "claim_of (release_device_claim w (proc_session sys p) d (claims sys)) d' = Some c"
      using c release_device_claim_effect [OF fw(1), of "proc_session sys p" d "claims sys" d']
      by (auto split: option.splits)
    with c h show ?thesis by (auto simp: holds_claim_def)
  next
    case True
    with q h have "q \<noteq> p" by auto
    let ?hs = "filter (\<lambda>h. ref_pid h \<noteq> my_pid w \<and> ref_is_live w h) (nullish (holders c) [])"
    have mem: "h \<in> set ?hs" using h live \<open>q \<noteq> p\<close> fw by auto
    then have "?hs \<noteq> []" by (metis empty_iff empty_set)
    then have "claim_of (release_device_claim w (proc_session sys p) d (claims sys)) d' = Some (c\<lparr> holders := Some ?hs \<rparr>)"
      using c True release_device_claim_effect [OF fw(1), of "proc_session sys p" d "claims sys" d']
      by (auto simp: Let_def)
    with c h mem show ?thesis by (auto simp: holds_claim_def)
  qed
qed

lemma root_exit_keeps_holders:
  assumes inv: "claims_invariant sys" and w: "world_of sys p w"
    and q: "(d, q) \<in> driving sys" "sess_id (proc_session sys q) \<noteq> sid" and sid: "sid = sess_id (proc_session sys p)"
  shows "holds_claim (sys\<lparr> procs := (procs sys)(p := None),
           claims := release_session_claims w sid (claims sys), driving := D \<rparr>) d q"
proof -
  have "q \<noteq> p" using q(2) sid by auto
  moreover have "files_writable w" using w by (simp add: world_of_def)
  ultimately show ?thesis
    using claims_invariantD(3) [OF inv q(1)] q(2)
    by (auto simp: holds_claim_def release_session_claims_effect)
qed

lemma claim_step_invariant:
  assumes "claim_step sys sys'" and "claims_invariant sys"
  shows "claims_invariant sys'"
  using assms
proof (cases rule: claim_step.cases)
  case (claim p w addr d fresh reg)
  have "\<forall>(d', q) \<in> driving sys'. holds_claim sys' d' q"
    using claim_keeps_holders [OF \<open>claims_invariant sys\<close> claim(2,3,4)] claim(1) by auto
  then show ?thesis
    using assms(2) claim(1) by (auto simp: claims_invariant_def)
next
  case (refuse p w addr d c reg)
  with claim_device_refused have "reg = claims sys" by blast
  with refuse(1) assms(2) show ?thesis by (auto simp: claims_invariant_def holds_claim_def)
next
  case (release p w d)
  have "\<forall>(d', q) \<in> driving sys'. holds_claim sys' d' q"
    using release_keeps_holders [OF \<open>claims_invariant sys\<close> release(3)] release(1) by auto
  then show ?thesis
    using assms(2) release(1) by (auto simp: claims_invariant_def)
next
  case (root_exit p w sid)
  have "\<forall>(d', q) \<in> driving sys'. holds_claim sys' d' q"
    using root_exit_keeps_holders [OF \<open>claims_invariant sys\<close> root_exit(3) _ _ root_exit(4)] root_exit(1) by auto
  then show ?thesis
    using assms(2) root_exit(1) by (auto simp: claims_invariant_def)
next
  case (crash p)
  with assms(2) show ?thesis by (force simp: claims_invariant_def holds_claim_def)
next
  case (spawn p s t)
  with assms(2) show ?thesis by (force simp: claims_invariant_def holds_claim_def)
qed

lemma claims_reachable_invariant: "claims_reachable sys \<Longrightarrow> claims_invariant sys"
proof (induction rule: claims_reachable.induct)
  case (start sys)
  then show ?case by (simp add: claims_invariant_def)
next
  case (step sys sys')
  then show ?case by (blast intro: claim_step_invariant)
qed

section \<open>Properties\<close>

text \<open>A one-process system, for the witnesses.\<close>

definition demo_session :: session_identity where
  "demo_session = \<lparr> sess_id = ''s1'', sess_pid = 7, sess_start_token = None, sess_command = ''tapsmith test'',
     sess_project = ''/app'', sess_started_at = ''t0'' \<rparr>"

definition demo_world :: claim_world where
  "demo_world = \<lparr> my_pid = 7, pid_alive = (\<lambda>p. p = 7), start_token = (\<lambda>_. None), files_writable = True,
     now_iso = ''t1'', locale_le = (\<lambda>_ _. True) \<rparr>"

definition demo_system :: claims_system where
  "demo_system = \<lparr> procs = Map.empty, proc_session = (\<lambda>_. demo_session), claims = [], driving = {} \<rparr>"

definition demo_running :: claims_system where
  "demo_running = demo_system\<lparr> procs := [7 \<mapsto> ''k''], proc_session := (proc_session demo_system)(7 := demo_session) \<rparr>"

definition demo_claimed :: claims_system where
  "demo_claimed = demo_running\<lparr> claims := snd (claim_device demo_world demo_session None ''emu'' []),
     driving := {(''emu'', 7)} \<rparr>"

lemma demo_claimed_reachable: "claims_reachable demo_claimed"
proof -
  have "claims_reachable demo_system"
    by (rule claims_reachable.start) (simp_all add: demo_system_def)
  moreover have "claim_step demo_system demo_running"
    using claim_step.spawn [of demo_system 7 demo_session "''k''"]
    by (simp add: demo_running_def demo_system_def valid_session_def demo_session_def)
  moreover have "claim_step demo_running
      (demo_running\<lparr> claims := snd (claim_device demo_world demo_session None ''emu'' []),
                     driving := insert (''emu'', 7) (driving demo_running) \<rparr>)"
    by (rule claim_step.claim [where w = demo_world and p = 7 and addr = None and fresh = True])
      (auto simp: demo_running_def demo_system_def world_of_def demo_world_def claim_device_def Let_def read_claim_def)
  ultimately show ?thesis
    unfolding demo_claimed_def by (auto simp: demo_running_def demo_system_def intro: claims_reachable.step)
qed





text \<open>
  Provisioning claims the first \<open>count\<close> devices it can have: \<open>claimUpTo\<close> tries its candidates in
  order until it has that many, returns those it got (no more than asked for) with one holder for each
  it was refused, and afterwards the session owns exactly those beside what it owned before; when it
  returns fewer, every candidate was tried.
\<close>

theorem claim_up_to_claims_exactly:
  assumes "claimable w s" and "distinct candidates" and "claim_up_to w s candidates n reg = ((claimed, held), reg')"
  shows "length claimed \<le> n \<and>
         filter (\<lambda>d. owner reg' d = Some (sess_id s)) (take (length claimed + length held) candidates) = claimed \<and>
         (\<forall>d. owner reg' d = Some (sess_id s) \<longleftrightarrow> d \<in> set claimed \<or> owner reg d = Some (sess_id s)) \<and>
         (length claimed < n \<longrightarrow> length claimed + length held = length candidates)"
  using registry.claim_loop_claimed [of "(w, s)" n "[]" "[]" candidates reg claimed held reg'] assms
  by (auto simp: claim_up_to_def)

theorem claim_up_to_claims_exactly_witness:
  "\<exists>claimed held reg. claim_up_to demo_world demo_session [''a'', ''b''] 1 [] = ((claimed, held), reg) \<and>
     claimed = [''a''] \<and> owner reg ''a'' = Some ''s1''"
proof -
  obtain claimed held reg where
    r: "claim_up_to demo_world demo_session [''a'', ''b''] 1 [] = ((claimed, held), reg)"
    by (metis prod.exhaust_sel)
  have "claimable demo_world demo_session"
    by (simp add: claimable_def demo_world_def demo_session_def valid_session_def)
  note c = claim_up_to_claims_exactly [OF this _ r]
  have "claimed = [''a'']"
    using r by (auto simp: claim_up_to_def claim_op_def claim_device_def Let_def read_claim_def)
  with c r show ?thesis by (auto simp: demo_session_def)
qed

text \<open>
  Auto-pick takes the first candidate it can have: \<open>claimFirstFree\<close> claims, for this session and
  nothing else, the first candidate whose claim is not refused, every candidate before it being refused;
  or it changes nothing because all are refused.
\<close>

theorem claim_first_free_claims_one:
  assumes "claimable w s" and "claim_first_free w s candidates reg = (r, reg')"
  shows "case r of
           Some d \<Rightarrow> (\<exists>pre post. candidates = pre @ d # post \<and> (\<forall>x \<in> set pre. fst (claim_op w s x reg) \<noteq> None)) \<and>
             fst (claim_op w s d reg) = None \<and>
             (\<forall>x. owner reg' x = Some (sess_id s) \<longleftrightarrow> x = d \<or> owner reg x = Some (sess_id s))
         | None \<Rightarrow> reg' = reg \<and> (\<forall>d \<in> set candidates. fst (claim_op w s d reg) \<noteq> None)"
  using registry.claim_first_claimed [of "(w, s)" candidates reg r reg'] assms
  by (auto simp: claim_first_free_def split: option.splits)

theorem claim_first_free_claims_one_witness:
  "fst (claim_first_free demo_world demo_session [''a'', ''b''] []) = Some ''a'' \<and> ''a'' \<in> set [''a'', ''b'']"
proof -
  have ok: "claimable demo_world demo_session"
    by (simp add: claimable_def demo_world_def demo_session_def valid_session_def)
  obtain reg where r: "claim_first_free demo_world demo_session [''a'', ''b''] [] = (Some ''a'', reg)"
    by (simp add: claim_first_free_def claim_op_def claim_device_def Let_def read_claim_def)
  from claim_first_free_claims_one [OF ok r] r show ?thesis by auto
qed

end
