(* ===== verification/Device_Groups.thy ===== *)
theory Device_Groups
  imports TS_Prelude
begin

text \<open>
  Device groups: the validation and normalisation of \<open>use.devices\<close> and the assignment of
  devices to group members (\<open>config.ts\<close>), and the identity of the device target a project runs
  on: its signature, the group its bucket shares and the serials it pins (\<open>project.ts\<close>).
\<close>

section \<open>Validation of \<open>devices\<close> (\<open>config.ts\<close>)\<close>

text \<open>What a config file may hold under \<open>devices\<close>: \<open>Raw_Other\<close> and \<open>Bad_Entry\<close> stand for values of
  any other shape; a member's \<open>device\<close> is absent, a string, or something else.\<close>

datatype raw_device = No_Device | Device string | Not_A_String
datatype raw_entry = Raw_Entry (raw_name: string) (raw_device: raw_device) | Bad_Entry
datatype raw_devices = Raw_Int int | Raw_Fraction | Raw_List "raw_entry list" | Raw_Other

datatype devices_error =
    Not_Positive_Or_Array
  | Too_Large_Count int
  | Too_Many_Members nat
  | Entry_Without_Name nat
  | Entry_Name_Chars nat string
  | Entry_Name_Used nat string
  | Entry_Device_Empty nat
  | Entry_Device_Used nat string

definition max_device_group_size :: nat where
  "max_device_group_size = 10"

text \<open>\<open>String.prototype.trim() === ''\<close> on code units below 256.\<close>

definition js_space :: "char \<Rightarrow> bool" where
  "js_space c \<longleftrightarrow> (of_char c :: nat) \<in> {9, 10, 11, 12, 13, 32, 160}"

definition js_blank :: "string \<Rightarrow> bool" where
  "js_blank s = list_all js_space s"

definition member_name_char :: "char \<Rightarrow> bool" where
  "member_name_char c \<longleftrightarrow>
     (let n = of_char c :: nat in
      65 \<le> n \<and> n \<le> 90 \<or> 97 \<le> n \<and> n \<le> 122 \<or> 48 \<le> n \<and> n \<le> 57 \<or> n = 95 \<or> n = 45)"

fun validate_entries :: "nat \<Rightarrow> string list \<Rightarrow> string list \<Rightarrow> raw_entry list \<Rightarrow> devices_error + unit" where
  "validate_entries i names serials [] = Inr ()"
| "validate_entries i names serials (Bad_Entry # es) = Inl (Entry_Without_Name i)"
| "validate_entries i names serials (Raw_Entry n dev # es) =
     (if js_blank n then Inl (Entry_Without_Name i)
      else if \<not> list_all member_name_char n then Inl (Entry_Name_Chars i n)
      else if n \<in> set names then Inl (Entry_Name_Used i n)
      else (case dev of
              No_Device \<Rightarrow> validate_entries (Suc i) (set_add n names) serials es
            | Not_A_String \<Rightarrow> Inl (Entry_Device_Empty i)
            | Device s \<Rightarrow>
                if js_blank s then Inl (Entry_Device_Empty i)
                else if s \<in> set serials then Inl (Entry_Device_Used i s)
                else validate_entries (Suc i) (set_add n names) (set_add s serials) es))"

fun validate_devices_option :: "raw_devices option \<Rightarrow> devices_error + unit" where
  "validate_devices_option None = Inr ()"
| "validate_devices_option (Some Raw_Fraction) = Inl Not_Positive_Or_Array"
| "validate_devices_option (Some (Raw_Int n)) =
     (if n < 1 then Inl Not_Positive_Or_Array
      else if n > int max_device_group_size then Inl (Too_Large_Count n)
      else Inr ())"
| "validate_devices_option (Some Raw_Other) = Inl Not_Positive_Or_Array"
| "validate_devices_option (Some (Raw_List es)) =
     (if es = [] then Inl Not_Positive_Or_Array
      else if length es > max_device_group_size then Inl (Too_Many_Members (length es))
      else validate_entries 0 [] [] es)"

section \<open>Groups (\<open>config.ts\<close>)\<close>

record group_entry =
  entry_name :: string
  entry_device :: "string option"

datatype devices_option = Dev_Count nat | Dev_List "group_entry list"

text \<open>The value a validated \<open>devices\<close> has.\<close>

fun entry_of_raw :: "raw_entry \<Rightarrow> group_entry" where
  "entry_of_raw (Raw_Entry n dev) =
     \<lparr> entry_name = n, entry_device = (case dev of Device s \<Rightarrow> Some s | _ \<Rightarrow> None) \<rparr>"
| "entry_of_raw Bad_Entry = \<lparr> entry_name = [], entry_device = None \<rparr>"

fun devices_of_raw :: "raw_devices option \<Rightarrow> devices_option option" where
  "devices_of_raw (Some (Raw_Int n)) = Some (Dev_Count (nat n))"
| "devices_of_raw (Some (Raw_List es)) = Some (Dev_List (map entry_of_raw es))"
| "devices_of_raw _ = None"

definition default_device_name :: "nat \<Rightarrow> string" where
  "default_device_name i = ''device-'' @ show_nat (Suc i)"

text \<open>A non-empty string, or undefined: what a truthiness test leaves of an optional string.\<close>

definition truthy :: "string option \<Rightarrow> string option" where
  "truthy s = (case s of Some t \<Rightarrow> if t = [] then None else Some t | None \<Rightarrow> None)"

definition resolve_device_group :: "devices_option option \<Rightarrow> string option \<Rightarrow> group_entry list" where
  "resolve_device_group devices device =
     (let entries = (case devices of
            None \<Rightarrow> [\<lparr> entry_name = default_device_name 0, entry_device = None \<rparr>]
          | Some (Dev_Count n) \<Rightarrow>
              map (\<lambda>i. \<lparr> entry_name = default_device_name i, entry_device = None \<rparr>) [0..<n]
          | Some (Dev_List es) \<Rightarrow>
              map (\<lambda>e. \<lparr> entry_name = entry_name e, entry_device = truthy (entry_device e) \<rparr>) es)
      in case entries of
           [] \<Rightarrow> []
         | e # es \<Rightarrow>
             if entry_device e = None \<and> truthy device \<noteq> None
             then e\<lparr> entry_device := device \<rparr> # es else entries)"

definition primary_device_pin :: "devices_option option \<Rightarrow> string option \<Rightarrow> string option" where
  "primary_device_pin devices device =
     (case resolve_device_group devices device of [] \<Rightarrow> None | e # _ \<Rightarrow> entry_device e)"

definition group_pins :: "group_entry list \<Rightarrow> string list" where
  "group_pins g = List.map_filter (\<lambda>e. truthy (entry_device e)) g"

definition pinned_device_serials :: "devices_option option \<Rightarrow> string option \<Rightarrow> string list" where
  "pinned_device_serials devices device = group_pins (resolve_device_group devices device)"

definition device_group_size :: "devices_option option \<Rightarrow> nat" where
  "device_group_size devices =
     (case devices of None \<Rightarrow> 1 | Some (Dev_Count n) \<Rightarrow> n | Some (Dev_List es) \<Rightarrow> length es)"

definition device_group_names :: "devices_option option \<Rightarrow> string option \<Rightarrow> string list option" where
  "device_group_names devices device =
     (if device_group_size devices \<le> 1 then None
      else Some (map entry_name (resolve_device_group devices device)))"

text \<open>The loop of \<open>assignGroupMemberDevices\<close>: pinned members keep their device, the others take the
  free devices in order. An empty string counts as a pin here (\<open>member.device ?? \<dots>\<close>).\<close>

fun assign_members :: "group_entry list \<Rightarrow> string list \<Rightarrow> string list option" where
  "assign_members [] free = Some []"
| "assign_members (e # es) free =
     (case entry_device e of
        Some d \<Rightarrow> map_option ((#) d) (assign_members es free)
      | None \<Rightarrow> (case free of
                   [] \<Rightarrow> None
                 | f # fs \<Rightarrow> map_option ((#) f) (assign_members es fs)))"

definition assign_group_member_devices ::
  "group_entry list \<Rightarrow> string option \<Rightarrow> string list \<Rightarrow> string list option" where
  "assign_group_member_devices members primary pool =
     assign_members (tl members)
       (filter (\<lambda>s. Some s \<noteq> primary \<and> s \<notin> set (group_pins members)) pool)"

section \<open>Device targets (\<open>project.ts\<close>)\<close>

text \<open>The keys of an effective config that identify its device target.\<close>

record target_config =
  platform :: "string option"
  simulator :: "string option"
  device_pin :: "string option"
  package :: "string option"
  app :: "string option"
  ios_xctestrun :: "string option"
  avd :: "string option"
  apk :: "string option"
  device_strategy :: "string option"
  launch_emulators :: bool
  devices :: "devices_option option"

fun join_with :: "string \<Rightarrow> string list \<Rightarrow> string" where
  "join_with sep [] = []"
| "join_with sep [s] = s"
| "join_with sep (s # ss) = s @ sep @ join_with sep ss"

definition device_signature :: "target_config \<Rightarrow> string" where
  "device_signature c =
     join_with ''|''
       (if nullish (platform c) ''android'' = ''ios''
        then [''ios'', nullish (simulator c) [], nullish (device_pin c) [], nullish (package c) [],
              nullish (app c) [], nullish (ios_xctestrun c) []]
        else [''android'', nullish (avd c) [], nullish (device_pin c) [], nullish (package c) [],
              nullish (apk c) [], nullish (device_strategy c) [], if launch_emulators c then ''1'' else ''0''])"

definition entry_label :: "group_entry \<Rightarrow> string" where
  "entry_label e = entry_name e @ (case truthy (entry_device e) of None \<Rightarrow> [] | Some d \<Rightarrow> ''@'' @ d)"

definition device_group_signature :: "devices_option option \<Rightarrow> string option \<Rightarrow> string" where
  "device_group_signature devs dev =
     (if device_group_size devs \<le> 1 then []
      else ''devices='' @ join_with '','' (map entry_label (resolve_device_group devs dev)))"

definition describe_group :: "group_entry list \<Rightarrow> string" where
  "describe_group g = join_with '', '' (map entry_label g)"

text \<open>A project as the device target functions see it: its name and effective config.\<close>

type_synonym target_project = "string \<times> target_config"

definition project_size :: "target_project \<Rightarrow> nat" where
  "project_size p = device_group_size (devices (snd p))"

definition project_group :: "target_project \<Rightarrow> group_entry list" where
  "project_group p = resolve_device_group (devices (snd p)) (device_pin (snd p))"

fun largest_project :: "target_project \<Rightarrow> target_project list \<Rightarrow> target_project" where
  "largest_project best [] = best"
| "largest_project best (p # ps) =
     largest_project (if project_size p > project_size best then p else best) ps"

fun group_compatible :: "group_entry list \<Rightarrow> group_entry list \<Rightarrow> bool" where
  "group_compatible shared [] = True"
| "group_compatible [] (e # own) = False"
| "group_compatible (s # shared) (e # own) =
     (entry_name s = entry_name e \<and>
      (entry_device e = None \<or> entry_device s = None \<or> entry_device e = entry_device s) \<and>
      group_compatible shared own)"

datatype target_error = No_Projects | Incompatible_Groups string string string string

definition shared_device_group :: "target_project list \<Rightarrow> target_error + (target_config \<times> group_entry list)" where
  "shared_device_group projects =
     (case projects of
        [] \<Rightarrow> Inl No_Projects
      | p0 # _ \<Rightarrow>
          (let largest = largest_project p0 projects;
               shared = project_group largest
           in case find (\<lambda>p. p \<noteq> largest \<and> project_size p > 1 \<and> \<not> group_compatible shared (project_group p)) projects of
                Some p \<Rightarrow> Inl (Incompatible_Groups (fst largest) (fst p) (describe_group shared) (describe_group (project_group p)))
              | None \<Rightarrow> Inr (snd largest, shared)))"

definition config_pins :: "target_config \<Rightarrow> string list" where
  "config_pins c = pinned_device_serials (devices c) (device_pin c)"

text \<open>A bucket has a project, so \<open>projects[0]\<close> exists in \<open>bucketGroup\<close>.\<close>

definition bucket_group :: "target_project list \<Rightarrow> group_entry list" where
  "bucket_group projects =
     (case shared_device_group projects of
        Inr (c, _) \<Rightarrow> resolve_device_group (devices c) (device_pin c)
      | Inl _ \<Rightarrow> (case projects of [] \<Rightarrow> [] | p # _ \<Rightarrow> project_group p))"

definition bucket_pins :: "target_project list \<Rightarrow> string list" where
  "bucket_pins projects =
     (case shared_device_group projects of
        Inr (c, _) \<Rightarrow> config_pins c
      | Inl _ \<Rightarrow> set_of_list (concat (map (\<lambda>p. config_pins (snd p)) projects)))"

section \<open>Lemmas\<close>

lemma truthy_simps [simp]: "truthy None = None" "truthy (Some s) = (if s = [] then None else Some s)"
  by (simp_all add: truthy_def)

lemma truthy_SomeD: "truthy s = Some t \<Longrightarrow> s = Some t \<and> t \<noteq> []"
  by (auto simp: truthy_def split: option.splits if_splits)

lemma default_device_name_inj: "default_device_name i = default_device_name j \<longleftrightarrow> i = j"
  by (auto simp: default_device_name_def dest: show_nat_inj)

lemma group_pins_simps [simp]:
  "group_pins [] = []"
  "group_pins (e # es) = (case truthy (entry_device e) of None \<Rightarrow> group_pins es | Some d \<Rightarrow> d # group_pins es)"
  by (cases "entry_device e"; auto simp: group_pins_def map_filter_def)+

lemma group_pins_append [simp]: "group_pins (es @ fs) = group_pins es @ group_pins fs"
  by (induction es) (auto split: option.splits)

lemma group_pins_undefined [simp]:
  "group_pins (map (\<lambda>i. \<lparr> entry_name = f i, entry_device = None \<rparr>) xs) = []"
  by (induction xs) auto

text \<open>What accepted entries look like: distinct names and pins, none of them blank or among those seen.\<close>

lemma validate_entries_ok:
  assumes "validate_entries i names serials es = Inr ()"
  shows "distinct (map raw_name es) \<and> set (map raw_name es) \<inter> set names = {} \<and> [] \<notin> set (map raw_name es) \<and>
         distinct (group_pins (map entry_of_raw es)) \<and> set (group_pins (map entry_of_raw es)) \<inter> set serials = {} \<and>
         map (entry_name \<circ> entry_of_raw) es = map raw_name es \<and>
         (\<forall>e \<in> set es. entry_device (entry_of_raw e) \<noteq> Some [])"
  using assms
proof (induction i names serials es rule: validate_entries.induct)
  case (3 i names serials n dev es)
  from "3.prems" have n: "\<not> js_blank n" "list_all member_name_char n" "n \<notin> set names"
    by (auto split: if_splits)
  then have nn: "n \<noteq> []" by (auto simp: js_blank_def)
  show ?case
  proof (cases dev)
    case No_Device
    with n "3.prems" have "validate_entries (Suc i) (set_add n names) serials es = Inr ()" by simp
    from "3.IH"(1) [OF n(1) _ n(3) No_Device this] n No_Device nn show ?thesis by auto
  next
    case (Device s)
    with n "3.prems" have s: "\<not> js_blank s" "s \<notin> set serials"
      and rest: "validate_entries (Suc i) (set_add n names) (set_add s serials) es = Inr ()"
      by (auto split: if_splits)
    then have "s \<noteq> []" by (auto simp: js_blank_def)
    with "3.IH"(2) [OF n(1) _ n(3) Device s rest] n nn Device s show ?thesis by (auto simp: truthy_def)
  next
    case Not_A_String
    with n "3.prems" show ?thesis by simp
  qed
qed auto

lemma resolve_group_names:
  "map entry_name (resolve_device_group devs dev) =
     (case devs of None \<Rightarrow> [default_device_name 0]
      | Some (Dev_Count n) \<Rightarrow> map default_device_name [0..<n]
      | Some (Dev_List es) \<Rightarrow> map entry_name es)"
  by (auto simp: resolve_device_group_def Let_def comp_def split: option.splits devices_option.splits list.splits)

end
