(* ===== verification/Group_Safety.thy ===== *)
theory Group_Safety
  imports Device_Groups
begin

text \<open>
  Properties of device groups: what validation guarantees of the resolved group and what it does
  not (a root pin on a later member's device), the assignment of devices to members, the group
  projects of one target share, and when two device signatures agree.
\<close>

section \<open>Resolved groups\<close>

lemma resolve_group_pins:
  "group_pins (resolve_device_group devs dev) =
     (let pins = (case devs of Some (Dev_List es) \<Rightarrow> group_pins es | _ \<Rightarrow> []);
          first = (case devs of
                     None \<Rightarrow> True
                   | Some (Dev_Count n) \<Rightarrow> n > 0
                   | Some (Dev_List es) \<Rightarrow> (case es of [] \<Rightarrow> False | e # _ \<Rightarrow> truthy (entry_device e) = None))
      in case truthy dev of
           Some d \<Rightarrow> if first then d # pins else pins
         | None \<Rightarrow> pins)"
proof -
  have norm: "group_pins (map (\<lambda>e. \<lparr> entry_name = entry_name e, entry_device = truthy (entry_device e) \<rparr>) es) = group_pins es"
    for es :: "group_entry list"
    by (induction es) (auto simp: truthy_def split: option.splits)
  have upt: "[0..<n] = 0 # [1..<n]" if "n > 0" for n using that by (simp add: upt_rec)
  show ?thesis
  proof (cases devs)
    case None
    then show ?thesis by (cases dev) (auto simp: resolve_device_group_def)
  next
    case (Some d)
    show ?thesis
    proof (cases d)
      case (Dev_Count n)
      with Some show ?thesis
        by (cases "n > 0"; cases dev) (auto simp: resolve_device_group_def upt)
    next
      case (Dev_List es)
      then show ?thesis
        using norm by (cases es; cases dev) (auto simp: Some resolve_device_group_def Let_def truthy_def split: option.splits)
    qed
  qed
qed

lemma length_resolve_group: "length (resolve_device_group devs dev) = device_group_size devs"
proof -
  have "length (map entry_name (resolve_device_group devs dev)) = device_group_size devs"
    unfolding resolve_group_names by (auto simp: device_group_size_def split: option.splits devices_option.splits)
  then show ?thesis by simp
qed

lemma default_device_name_nonempty [simp]:
  "default_device_name i \<noteq> []" "[] \<noteq> default_device_name i"
  by (simp_all add: default_device_name_def)

text \<open>
  A validated \<open>devices\<close> value resolves to a well-formed group: between one and ten members with
  distinct non-empty names, and pins that are distinct unless the root \<open>device\<close> names the device a
  member of the list already pins.
\<close>

theorem validated_group_well_formed:
  fixes dev :: "string option"
  assumes "validate_devices_option raw = Inr ()"
  defines "g \<equiv> resolve_device_group (devices_of_raw raw) dev"
  shows "1 \<le> length g \<and> length g \<le> max_device_group_size \<and>
         distinct (map entry_name g) \<and> [] \<notin> set (map entry_name g) \<and>
         ((\<forall>d. truthy dev = Some d \<longrightarrow> d \<notin> set (pinned_device_serials (devices_of_raw raw) None)) \<longrightarrow>
            distinct (group_pins g))"
proof -
  have names: "map entry_name g = (case devices_of_raw raw of None \<Rightarrow> [default_device_name 0]
      | Some (Dev_Count n) \<Rightarrow> map default_device_name [0..<n]
      | Some (Dev_List es) \<Rightarrow> map entry_name es)"
    unfolding g_def by (rule resolve_group_names)
  have len: "length g = device_group_size (devices_of_raw raw)"
    unfolding g_def by (rule length_resolve_group)
  have dn: "distinct (map default_device_name xs)" if "distinct xs" for xs
    using that by (auto simp: distinct_map inj_on_def default_device_name_inj)
  show ?thesis
  proof (cases raw)
    case None
    then show ?thesis using names len
      by (cases dev) (auto simp: g_def device_group_size_def max_device_group_size_def resolve_group_pins)
  next
    case (Some r)
    show ?thesis
    proof (cases r)
      case (Raw_Int n)
      with Some assms(1) have "1 \<le> n" "n \<le> int max_device_group_size" by (auto split: if_splits)
      then show ?thesis using names len dn [of "[0..<nat n]"] Some Raw_Int
        by (cases dev) (auto simp: g_def device_group_size_def resolve_group_pins Let_def)
    next
      case (Raw_List es)
      with Some assms(1) have es: "es \<noteq> []" "length es \<le> max_device_group_size"
        and v: "validate_entries 0 [] [] es = Inr ()" by (auto split: if_splits)
      from validate_entries_ok [OF v] have ok: "distinct (map raw_name es)" "[] \<notin> set (map raw_name es)"
        "distinct (group_pins (map entry_of_raw es))" "map (entry_name \<circ> entry_of_raw) es = map raw_name es"
        by auto
      have pins: "pinned_device_serials (devices_of_raw raw) None = group_pins (map entry_of_raw es)"
        by (simp add: pinned_device_serials_def resolve_group_pins Some Raw_List)
      have "distinct (group_pins g)"
        if "\<forall>d. truthy dev = Some d \<longrightarrow> d \<notin> set (pinned_device_serials (devices_of_raw raw) None)"
        using that ok(3) unfolding pins
        by (auto simp: g_def resolve_group_pins Some Raw_List Let_def split: option.splits)
      moreover have "length g = length es" using len by (simp add: Some Raw_List device_group_size_def)
      moreover have "map entry_name g = map raw_name es" using names ok(4) by (simp add: Some Raw_List)
      moreover have "1 \<le> length es" using es(1) by (cases es) auto
      ultimately show ?thesis using es(2) ok(1,2) by auto
    qed (use Some assms(1) in auto)
  qed
qed

theorem validated_group_well_formed_witness:
  "let g = resolve_device_group (devices_of_raw (Some (Raw_List
             [Raw_Entry ''alice'' No_Device, Raw_Entry ''bob'' (Device ''X'')]))) (Some ''Y'')
   in distinct (map entry_name g) \<and> length g \<le> 10"
proof -
  have "validate_devices_option (Some (Raw_List
      [Raw_Entry ''alice'' No_Device, Raw_Entry ''bob'' (Device ''X'')])) = Inr ()"
    by (simp add: js_blank_def js_space_def member_name_char_def Let_def max_device_group_size_def)
  from validated_group_well_formed [OF this, of "Some ''Y''"] show ?thesis
    by (simp add: max_device_group_size_def)
qed

text \<open>
  Validation does not keep one device from serving two members: a list whose second member pins
  a device is accepted, and with that same device as the root \<open>device\<close> (\<open>--device\<close>) the resolved
  group has two members on it, and so has the assignment of devices to members.
\<close>

theorem root_pin_can_double_a_device:
  fixes d :: string
  assumes "\<not> js_blank d"
  defines "raw \<equiv> Some (Raw_List [Raw_Entry ''alice'' No_Device, Raw_Entry ''bob'' (Device d)])"
  shows "validate_devices_option raw = Inr () \<and>
         group_pins (resolve_device_group (devices_of_raw raw) (Some d)) = [d, d] \<and>
         primary_device_pin (devices_of_raw raw) (Some d) = Some d \<and>
         assign_group_member_devices (resolve_device_group (devices_of_raw raw) (Some d)) (Some d) pool = Some [d]"
proof -
  have "d \<noteq> []" using assms(1) by (auto simp: js_blank_def)
  then show ?thesis
    using assms(1)
    by (simp add: raw_def max_device_group_size_def js_blank_def js_space_def member_name_char_def Let_def
        resolve_device_group_def primary_device_pin_def assign_group_member_devices_def)
qed

theorem root_pin_can_double_a_device_witness:
  "group_pins (resolve_device_group (devices_of_raw
      (Some (Raw_List [Raw_Entry ''alice'' No_Device, Raw_Entry ''bob'' (Device ''X'')]))) (Some ''X'')) = [''X'', ''X'']"
  using root_pin_can_double_a_device [of "''X''"] by (simp add: js_blank_def js_space_def)

section \<open>Assigning members\<close>

lemma assign_members_sound:
  assumes "assign_members es free = Some ds"
    and "distinct free" and "distinct (List.map_filter entry_device es)"
    and "set free \<inter> set (List.map_filter entry_device es) = {}"
  shows "length ds = length es \<and> distinct ds \<and>
         set ds \<subseteq> set (List.map_filter entry_device es) \<union> set free \<and>
         (\<forall>i < length es. \<forall>d. entry_device (es ! i) = Some d \<longrightarrow> ds ! i = d)"
  using assms
proof (induction es free arbitrary: ds rule: assign_members.induct)
  case (1 free)
  then show ?case by simp
next
  case (2 e es free)
  show ?case
  proof (cases "entry_device e")
    case (Some d)
    with "2.prems"(1) obtain ds' where ds: "ds = d # ds'" "assign_members es free = Some ds'" by auto
    have "length ds' = length es \<and> distinct ds' \<and> set ds' \<subseteq> set (List.map_filter entry_device es) \<union> set free \<and>
        (\<forall>i < length es. \<forall>d. entry_device (es ! i) = Some d \<longrightarrow> ds' ! i = d)"
      using "2.prems" Some by (intro "2.IH"(2) [OF Some ds(2)]) (auto simp: map_filter_def)
    with ds Some "2.prems"(3,4) show ?thesis
      by (auto simp: map_filter_def nth_Cons split: nat.splits)
  next
    case None
    with "2.prems"(1) obtain f fs ds' where ds: "free = f # fs" "ds = f # ds'" "assign_members es fs = Some ds'"
      by (auto split: list.splits)
    have "length ds' = length es \<and> distinct ds' \<and> set ds' \<subseteq> set (List.map_filter entry_device es) \<union> set fs \<and>
        (\<forall>i < length es. \<forall>d. entry_device (es ! i) = Some d \<longrightarrow> ds' ! i = d)"
      using "2.prems" None ds by (intro "2.IH"(1) [OF None ds(1) ds(3)]) (auto simp: map_filter_def)
    with ds None "2.prems"(2,4) show ?thesis
      by (auto simp: map_filter_def nth_Cons split: nat.splits)
  qed
qed

text \<open>
  A complete assignment gives every member a device of its own: one per member, all distinct and
  none the primary's, a pinned member on its pin, the others from the pool, provided the group's
  pins are distinct and no member pins the primary's device.
\<close>

theorem assigned_members_distinct:
  assumes "assign_group_member_devices (p # ms) primary pool = Some ds"
    and "distinct pool" and "distinct (List.map_filter entry_device ms)"
    and "\<forall>m \<in> set ms. entry_device m \<noteq> Some []"
    and "\<forall>s. primary = Some s \<longrightarrow> s \<notin> set (group_pins ms)"
  shows "length ds = length ms \<and> distinct ds \<and> (\<forall>s. primary = Some s \<longrightarrow> s \<notin> set ds) \<and>
         set ds \<subseteq> set (group_pins ms) \<union> set pool \<and>
         (\<forall>i < length ms. \<forall>d. entry_device (ms ! i) = Some d \<longrightarrow> ds ! i = d)"
proof -
  have pins: "group_pins ms = List.map_filter entry_device ms"
    using assms(4) by (induction ms) (auto simp: map_filter_def truthy_def split: option.splits)
  let ?free = "filter (\<lambda>s. Some s \<noteq> primary \<and> s \<notin> set (group_pins (p # ms))) pool"
  have "assign_members ms ?free = Some ds"
    using assms(1) by (simp add: assign_group_member_devices_def)
  moreover have "set ?free \<inter> set (List.map_filter entry_device ms) = {}"
    unfolding pins [symmetric] by (auto split: option.splits)
  ultimately have "length ds = length ms \<and> distinct ds \<and>
      set ds \<subseteq> set (List.map_filter entry_device ms) \<union> set ?free \<and>
      (\<forall>i < length ms. \<forall>d. entry_device (ms ! i) = Some d \<longrightarrow> ds ! i = d)"
    using assms(2,3) by (intro assign_members_sound) auto
  then show ?thesis using assms(5) unfolding pins by auto
qed

theorem assigned_members_distinct_witness:
  "let e = (\<lambda>n d. \<lparr> entry_name = n, entry_device = d \<rparr>);
       r = assign_group_member_devices [e ''a'' None, e ''b'' (Some ''X''), e ''c'' None] (Some ''P'') [''P'', ''X'', ''Q'']
   in r = Some [''X'', ''Q''] \<and> distinct (the r)"
proof -
  let ?ms = "[\<lparr> entry_name = ''b'', entry_device = Some ''X'' \<rparr>, \<lparr> entry_name = ''c'', entry_device = None \<rparr>]"
  have r: "assign_group_member_devices (\<lparr> entry_name = ''a'', entry_device = None \<rparr> # ?ms) (Some ''P'')
      [''P'', ''X'', ''Q''] = Some [''X'', ''Q'']"
    by (simp add: assign_group_member_devices_def)
  from assigned_members_distinct [OF r] show ?thesis by (simp add: r map_filter_def)
qed

section \<open>The shared group of a target\<close>

lemma largest_project_max:
  "p \<in> set (best # ps) \<Longrightarrow> project_size p \<le> project_size (largest_project best ps)"
proof (induction ps arbitrary: best p)
  case (Cons q ps)
  let ?b = "if project_size q > project_size best then q else best"
  have "project_size ?b \<le> project_size (largest_project ?b ps)" using Cons.IH [of ?b ?b] by simp
  moreover have "project_size p \<le> project_size ?b \<or> p \<in> set ps" using Cons.prems by auto
  ultimately show ?case using Cons.IH [of p ?b] by fastforce
qed simp

lemma largest_project_mem: "largest_project best ps \<in> set (best # ps)"
proof (induction ps arbitrary: best)
  case (Cons q ps)
  from Cons.IH [of "if project_size q > project_size best then q else best"] show ?case by auto
qed simp

lemma group_compatible_iff:
  "group_compatible shared own \<longleftrightarrow>
     length own \<le> length shared \<and>
     (\<forall>i < length own. entry_name (own ! i) = entry_name (shared ! i) \<and>
        (entry_device (own ! i) = None \<or> entry_device (shared ! i) = None \<or>
         entry_device (own ! i) = entry_device (shared ! i)))"
  by (induction shared own rule: group_compatible.induct) (auto simp: All_less_Suc2)

text \<open>
  The shared group serves every project of its target: when \<open>sharedDeviceGroup\<close> succeeds, the
  group is as large as any project's, and a project of more than one device is a prefix of it with
  the same names and no conflicting pin, so its members' devices are the group's first ones.
\<close>

theorem shared_group_serves_every_project:
  assumes "shared_device_group projects = Inr (c, shared)" and "p \<in> set projects"
  shows "project_size p \<le> length shared \<and>
         (project_size p > 1 \<longrightarrow>
           map entry_name (project_group p) = take (project_size p) (map entry_name shared) \<and>
           (\<forall>i < project_size p. \<forall>d d'. entry_device (project_group p ! i) = Some d \<longrightarrow>
              entry_device (shared ! i) = Some d' \<longrightarrow> d = d'))"
proof -
  from assms(2) obtain p0 ps where projects: "projects = p0 # ps" by (cases projects) auto
  let ?l = "largest_project p0 projects"
  have shared: "shared = project_group ?l"
    and none: "find (\<lambda>p. p \<noteq> ?l \<and> project_size p > 1 \<and> \<not> group_compatible (project_group ?l) (project_group p)) projects = None"
    using assms(1) by (auto simp: shared_device_group_def projects Let_def split: option.splits if_splits)
  have size: "length (project_group q) = project_size q" for q
    by (simp add: project_group_def project_size_def length_resolve_group)
  have le: "project_size p \<le> project_size ?l"
    using largest_project_max [of p p0 projects] assms(2) by simp
  have comp: "group_compatible shared (project_group p)" if "project_size p > 1"
  proof (cases "p = ?l")
    case True
    then show ?thesis by (simp add: shared group_compatible_iff)
  next
    case False
    with none assms(2) that show ?thesis unfolding shared find_None_iff by blast
  qed
  have "map entry_name (project_group p) = take (project_size p) (map entry_name shared)"
    if "project_size p > 1"
    using comp [OF that] le by (intro nth_equalityI) (auto simp: group_compatible_iff size shared)
  moreover have "d = d'" if "project_size p > 1" "i < project_size p"
    "entry_device (project_group p ! i) = Some d" "entry_device (shared ! i) = Some d'" for i d d'
    using comp [OF that(1)] that(2,3,4) by (auto simp: group_compatible_iff size)
  ultimately show ?thesis using le by (auto simp: size shared)
qed

definition demo_target :: "devices_option option \<Rightarrow> target_config" where
  "demo_target d = \<lparr> platform = None, simulator = None, device_pin = None, package = None, app = None,
     ios_xctestrun = None, avd = None, apk = None, device_strategy = None, launch_emulators = False, devices = d \<rparr>"

theorem shared_group_serves_every_project_witness:
  "let ps = [(''one'', demo_target None), (''two'', demo_target (Some (Dev_Count 2)))]
   in case shared_device_group ps of Inr (c, shared) \<Rightarrow> project_size (ps ! 1) \<le> length shared | Inl _ \<Rightarrow> False"
proof -
  let ?ps = "[(''one'', demo_target None), (''two'', demo_target (Some (Dev_Count 2)))]"
  have r: "shared_device_group ?ps = Inr (demo_target (Some (Dev_Count 2)), project_group (?ps ! 1))"
    by (simp add: shared_device_group_def Let_def project_size_def device_group_size_def demo_target_def)
  from shared_group_serves_every_project [OF r, of "?ps ! 1"] show ?thesis by (simp add: r)
qed

section \<open>Signatures\<close>

lemma join_with_sep_Cons:
  "join_with [k] (s # xs) = (if xs = [] then s else s @ k # join_with [k] xs)"
  by (cases xs) auto

lemma split_sep_unique:
  "k \<notin> set s \<Longrightarrow> k \<notin> set t \<Longrightarrow> s @ k # x = t @ k # y \<Longrightarrow> s = t \<and> x = y"
  by (induction s arbitrary: t) (auto simp: Cons_eq_append_conv)

lemma no_sep_split: "k \<notin> set s \<Longrightarrow> s \<noteq> t @ k # x"
  by auto

lemma join_with_sep_inj:
  "xs \<noteq> [] \<Longrightarrow> ys \<noteq> [] \<Longrightarrow> \<forall>s \<in> set (xs @ ys). k \<notin> set s \<Longrightarrow>
   join_with [k] xs = join_with [k] ys \<Longrightarrow> xs = ys"
proof (induction xs arbitrary: ys)
  case (Cons s xs)
  then obtain u us where ys: "ys = u # us" by (cases ys) auto
  from Cons.prems(3) ys have k: "k \<notin> set s" "k \<notin> set u" by auto
  have eq: "(if xs = [] then s else s @ k # join_with [k] xs) = (if us = [] then u else u @ k # join_with [k] us)"
    using Cons.prems(4) unfolding ys join_with_sep_Cons .
  consider "xs = []" "us = []" | "xs = []" "us \<noteq> []" | "xs \<noteq> []" "us = []" | "xs \<noteq> []" "us \<noteq> []" by blast
  then show ?case
  proof cases
    case 1
    with eq ys show ?thesis by simp
  next
    case 2
    with eq no_sep_split [OF k(1)] show ?thesis by metis
  next
    case 3
    with eq no_sep_split [OF k(2)] show ?thesis by metis
  next
    case 4
    with eq have "s @ k # join_with [k] xs = u @ k # join_with [k] us" by simp
    from split_sep_unique [OF k this] Cons.IH [OF 4] Cons.prems(3) ys show ?thesis by simp
  qed
qed simp

definition bar_free :: "target_config \<Rightarrow> bool" where
  "bar_free c \<longleftrightarrow> (\<forall>s \<in> {simulator c, device_pin c, package c, app c, ios_xctestrun c, avd c, apk c, device_strategy c}.
     CHR ''|'' \<notin> set (nullish s []))"

text \<open>
  Equal signatures mean one device target: two configs without a \<open>|\<close> in their values have the
  same \<open>deviceSignature\<close> only if they name the same platform, the same pinned device and package,
  and agree on the keys that platform selects a device by.
\<close>

theorem device_signature_separates:
  assumes "bar_free c" and "bar_free c'" and "device_signature c = device_signature c'"
  shows "(platform c = Some ''ios'' \<longleftrightarrow> platform c' = Some ''ios'') \<and>
         nullish (device_pin c) [] = nullish (device_pin c') [] \<and>
         nullish (package c) [] = nullish (package c') [] \<and>
         (platform c = Some ''ios'' \<longrightarrow> nullish (simulator c) [] = nullish (simulator c') [] \<and>
            nullish (app c) [] = nullish (app c') [] \<and>
            nullish (ios_xctestrun c) [] = nullish (ios_xctestrun c') []) \<and>
         (platform c \<noteq> Some ''ios'' \<longrightarrow> nullish (avd c) [] = nullish (avd c') [] \<and>
            nullish (apk c) [] = nullish (apk c') [] \<and>
            nullish (device_strategy c) [] = nullish (device_strategy c') [] \<and>
            launch_emulators c = launch_emulators c')"
proof -
  let ?parts = "\<lambda>c. if nullish (platform c) ''android'' = ''ios''
        then [''ios'', nullish (simulator c) [], nullish (device_pin c) [], nullish (package c) [],
              nullish (app c) [], nullish (ios_xctestrun c) []]
        else [''android'', nullish (avd c) [], nullish (device_pin c) [], nullish (package c) [],
              nullish (apk c) [], nullish (device_strategy c) [], if launch_emulators c then ''1'' else ''0'']"
  have ios: "nullish (platform c) ''android'' = ''ios'' \<longleftrightarrow> platform c = Some ''ios''" for c
    by (cases "platform c") auto
  have "?parts c = ?parts c'"
    using assms by (intro join_with_sep_inj) (auto simp: device_signature_def bar_free_def)
  then show ?thesis by (auto simp: ios split: if_splits)
qed

theorem device_signature_separates_witness:
  "bar_free (demo_target None) \<and> nullish (package (demo_target None)) [] = nullish (package (demo_target None)) []"
  using device_signature_separates [of "demo_target None" "demo_target None"]
  by (simp add: bar_free_def demo_target_def)

end
