(* ===== verification/Config_Shape.thy ===== *)
theory Config_Shape
  imports Device_Groups
begin

text \<open>
  The checks a config file passes before anything runs (\<open>config.ts\<close>): the values a module can
  export, the validators of single options, the tables of keys with their checks, and
  \<open>configShapeIssues\<close>, which lists every problem of a config. Issues are kept as data (the path of
  the key and what is expected there) where the code builds a message; the near-miss suggestion in
  the message (a third-party edit distance) is left out.
\<close>

section \<open>Values a config may hold\<close>

text \<open>
  \<open>V_Frac n\<close> is a finite number strictly between \<open>n\<close> and \<open>n + 1\<close>, \<open>V_Object\<close> an object literal with
  its own enumerable string keys in order, \<open>V_Other\<close> any other object (a \<open>Map\<close>, a class instance of
  another kind); none of \<open>V_RegExp\<close>, \<open>V_Function\<close> and \<open>V_Other\<close> has a property the checks read.
\<close>

datatype js_value =
    V_Undefined | V_Null | V_Bool bool
  | V_Int int | V_Frac int | V_NaN | V_Infinite bool
  | V_String string
  | V_Array "js_value list"
  | V_Object "(string \<times> js_value) list"
  | V_RegExp | V_Function | V_Other

type_synonym js_object = "(string \<times> js_value) list"

definition js_get :: "string \<Rightarrow> js_object \<Rightarrow> js_value" where
  "js_get k obj = nullish (map_get obj k) V_Undefined"

text \<open>A spread \<open>{ ...a, ...b }\<close>, and \<open>omitUndefined\<close>.\<close>

definition spread :: "js_object \<Rightarrow> js_object \<Rightarrow> js_object" where
  "spread a b = fold (\<lambda>(k, v). map_set k v) b a"

definition omit_undefined :: "js_object \<Rightarrow> js_object" where
  "omit_undefined obj = filter (\<lambda>(k, v). v \<noteq> V_Undefined) obj"

fun js_truthy :: "js_value \<Rightarrow> bool" where
  "js_truthy V_Undefined = False"
| "js_truthy V_Null = False"
| "js_truthy (V_Bool b) = b"
| "js_truthy (V_Int n) = (n \<noteq> 0)"
| "js_truthy V_NaN = False"
| "js_truthy (V_String s) = (s \<noteq> [])"
| "js_truthy _ = True"

fun is_plain_object :: "js_value \<Rightarrow> bool" where
  "is_plain_object (V_Object _) = True"
| "is_plain_object _ = False"

fun is_regexp :: "js_value \<Rightarrow> bool" where
  "is_regexp V_RegExp = True"
| "is_regexp _ = False"

fun is_string :: "js_value \<Rightarrow> bool" where
  "is_string (V_String _) = True"
| "is_string _ = False"

fun is_boolean :: "js_value \<Rightarrow> bool" where
  "is_boolean (V_Bool _) = True"
| "is_boolean _ = False"

fun is_array :: "js_value \<Rightarrow> bool" where
  "is_array (V_Array _) = True"
| "is_array _ = False"

fun is_string_array :: "js_value \<Rightarrow> bool" where
  "is_string_array (V_Array vs) = list_all is_string vs"
| "is_string_array _ = False"

text \<open>\<open>value == null || value === false || value === ''\<close>.\<close>

fun is_off :: "js_value \<Rightarrow> bool" where
  "is_off V_Undefined = True"
| "is_off V_Null = True"
| "is_off (V_Bool b) = (\<not> b)"
| "is_off (V_String s) = (s = [])"
| "is_off _ = False"

section \<open>Issues\<close>

datatype expected =
    A_String | A_Boolean | Non_Negative_Ms | Positive_Ms | Non_Negative_Integer | Positive_Integer
  | Globs | Reg_Exps | One_Of "string list" | An_Object | Project_Names | A_Reporter | A_Shard
  | An_Array_Of_Projects | A_Project_Object | String_Headers | Non_Empty_String | A_Recording_Mode
  | Strings

datatype issue =
    Must_Be string expected
  | Unknown_Option string
  | Set_On_Project string
  | Root_Only string
  | Unknown_Keys string "string list"
  | Reserved_Args string "string list"
  | Devices_Issue string devices_error
  | Threw_Type_Error

text \<open>The issue of a single-option validator with its key replaced by the full path.\<close>

fun rename_issue :: "nat \<Rightarrow> string \<Rightarrow> issue \<Rightarrow> issue" where
  "rename_issue n name (Must_Be p e) = Must_Be (name @ drop n p) e"
| "rename_issue n name (Unknown_Option p) = Unknown_Option (name @ drop n p)"
| "rename_issue n name (Set_On_Project p) = Set_On_Project (name @ drop n p)"
| "rename_issue n name (Root_Only p) = Root_Only (name @ drop n p)"
| "rename_issue n name (Unknown_Keys p ks) = Unknown_Keys (name @ drop n p) ks"
| "rename_issue n name (Reserved_Args p as) = Reserved_Args (name @ drop n p) as"
| "rename_issue n name (Devices_Issue p e) = Devices_Issue (name @ drop n p) e"
| "rename_issue n name Threw_Type_Error = Threw_Type_Error"

section \<open>Validators of single options\<close>

text \<open>Each throws at the first problem it finds.\<close>

fun raw_device_of :: "js_value \<Rightarrow> raw_device" where
  "raw_device_of V_Undefined = No_Device"
| "raw_device_of (V_String s) = Device s"
| "raw_device_of _ = Not_A_String"

fun raw_entry_of :: "js_value \<Rightarrow> raw_entry" where
  "raw_entry_of (V_Object e) =
     (case js_get ''name'' e of
        V_String n \<Rightarrow> Raw_Entry n (raw_device_of (js_get ''device'' e))
      | _ \<Rightarrow> Bad_Entry)"
| "raw_entry_of _ = Bad_Entry"

fun raw_devices_of :: "js_value \<Rightarrow> raw_devices option" where
  "raw_devices_of V_Undefined = None"
| "raw_devices_of (V_Int n) = Some (Raw_Int n)"
| "raw_devices_of (V_Frac _) = Some Raw_Fraction"
| "raw_devices_of V_NaN = Some Raw_Fraction"
| "raw_devices_of (V_Infinite _) = Some Raw_Fraction"
| "raw_devices_of (V_Array es) = Some (Raw_List (map raw_entry_of es))"
| "raw_devices_of _ = Some Raw_Other"

definition validate_devices :: "js_object \<Rightarrow> issue + unit" where
  "validate_devices raw =
     (case validate_devices_option (raw_devices_of (js_get ''devices'' raw)) of
        Inl e \<Rightarrow> Inl (Devices_Issue ''devices'' e)
      | Inr u \<Rightarrow> Inr u)"

definition is_integer_from :: "int \<Rightarrow> js_value \<Rightarrow> bool" where
  "is_integer_from lo v = (case v of V_Int n \<Rightarrow> lo \<le> n | _ \<Rightarrow> False)"

definition includes_string :: "string list \<Rightarrow> js_value \<Rightarrow> bool" where
  "includes_string ss v = (case v of V_String s \<Rightarrow> s \<in> set ss | _ \<Rightarrow> False)"

definition app_reset_modes :: "string list" where
  "app_reset_modes = [''auto'', ''clear'', ''restart'', ''warm'', ''none'']"

definition app_reset_scopes :: "string list" where
  "app_reset_scopes = [''auto'', ''file'', ''test'']"

definition recording_modes :: "string list" where
  "recording_modes = [''off'', ''on'', ''on-first-retry'', ''on-all-retries'', ''retain-on-failure'',
     ''retain-on-first-failure'', ''retain-on-failure-and-retries'']"

text \<open>\<open>if (value !== undefined && !ok) throw\<close>, and the next check otherwise.\<close>

definition require :: "bool \<Rightarrow> issue \<Rightarrow> issue + unit \<Rightarrow> issue + unit" where
  "require ok i rest = (if ok then rest else Inl i)"

definition validate_app_reset_options :: "js_object \<Rightarrow> issue + unit" where
  "validate_app_reset_options raw =
     (let every = js_get ''appResetColdEvery'' raw; mode = js_get ''appReset'' raw;
          scope = js_get ''appResetScope'' raw
      in require (every = V_Undefined \<or> is_integer_from 0 every) (Must_Be ''appResetColdEvery'' Non_Negative_Integer)
        (require (mode = V_Undefined \<or> includes_string app_reset_modes mode) (Must_Be ''appReset'' (One_Of app_reset_modes))
        (require (scope = V_Undefined \<or> includes_string app_reset_scopes scope) (Must_Be ''appResetScope'' (One_Of app_reset_scopes))
          (Inr ()))))"

text \<open>The \<open>typeof value === 'object'\<close> form of \<open>trace\<close> and \<open>video\<close>, and the mode it holds.\<close>

fun recording_mode_of :: "js_value \<Rightarrow> js_value" where
  "recording_mode_of (V_Object obj) = js_get ''mode'' obj"
| "recording_mode_of V_RegExp = V_Undefined"
| "recording_mode_of V_Other = V_Undefined"
| "recording_mode_of v = v"

definition recording_ok :: "js_value \<Rightarrow> bool" where
  "recording_ok v \<longleftrightarrow> is_off v \<or> is_off (recording_mode_of v) \<or> includes_string recording_modes (recording_mode_of v)"

definition validate_recording_modes :: "js_object \<Rightarrow> issue + unit" where
  "validate_recording_modes raw =
     require (recording_ok (js_get ''trace'' raw)) (Must_Be ''trace'' A_Recording_Mode)
       (require (recording_ok (js_get ''video'' raw)) (Must_Be ''video'' A_Recording_Mode) (Inr ()))"

definition property_of :: "string \<Rightarrow> js_value \<Rightarrow> js_value" where
  "property_of k v = (case v of V_Object obj \<Rightarrow> js_get k obj | _ \<Rightarrow> V_Undefined)"

definition validate_ui_options :: "js_object \<Rightarrow> issue + unit" where
  "validate_ui_options raw =
     (let telemetry = js_get ''telemetry'' raw; ui = js_get ''ui'' raw;
          between = property_of ''prepareBetweenRuns'' ui; delay = property_of ''prepareDelayMs'' ui
      in require (telemetry = V_Undefined \<or> is_boolean telemetry) (Must_Be ''telemetry'' A_Boolean)
        (if ui = V_Undefined then Inr ()
         else if ui = V_Null then Inl Threw_Type_Error
         else require (between = V_Undefined \<or> is_boolean between) (Must_Be ''ui.prepareBetweenRuns'' A_Boolean)
          (require (delay = V_Undefined \<or> is_integer_from 0 delay) (Must_Be ''ui.prepareDelayMs'' Non_Negative_Integer)
            (Inr ()))))"

definition reserved_emulator_args :: "string list" where
  "reserved_emulator_args = [''-avd'', ''-port'', ''-ports'', ''-read-only'']"

fun single_dash :: "string \<Rightarrow> string" where
  "single_dash (a # b # s) = (if a = CHR ''-'' \<and> b = CHR ''-'' then CHR ''-'' # s else a # b # s)"
| "single_dash s = s"

definition reserved_arg :: "string \<Rightarrow> bool" where
  "reserved_arg a \<longleftrightarrow> single_dash a \<in> set reserved_emulator_args \<or> take 1 a = ''@''"

fun strings_of :: "js_value \<Rightarrow> string list" where
  "strings_of (V_Array vs) = concat (map (\<lambda>v. case v of V_String s \<Rightarrow> [s] | _ \<Rightarrow> []) vs)"
| "strings_of _ = []"

text \<open>A value that is an object but not a literal has no key the check below reads.\<close>

fun object_keys :: "js_value \<Rightarrow> js_object option" where
  "object_keys (V_Object obj) = Some obj"
| "object_keys V_RegExp = Some []"
| "object_keys V_Other = Some []"
| "object_keys _ = None"

definition validate_emulator_launch_options :: "js_object \<Rightarrow> issue + unit" where
  "validate_emulator_launch_options raw =
     (let options = js_get ''emulatorLaunchOptions'' raw; name = ''emulatorLaunchOptions''
      in if options = V_Undefined then Inr ()
         else case object_keys options of
           None \<Rightarrow> Inl (Must_Be name An_Object)
         | Some obj \<Rightarrow>
             (let unknown = filter (\<lambda>k. k \<noteq> ''headless'' \<and> k \<noteq> ''args'') (map fst obj);
                  headless = js_get ''headless'' obj; args = js_get ''args'' obj;
                  reserved = filter reserved_arg (strings_of args)
              in require (unknown = []) (Unknown_Keys name unknown)
                (require (headless = V_Undefined \<or> is_boolean headless) (Must_Be (name @ ''.headless'') A_Boolean)
                (require (args = V_Undefined \<or> is_string_array args) (Must_Be (name @ ''.args'') Strings)
                (require (reserved = []) (Reserved_Args (name @ ''.args'') reserved) (Inr ()))))))"

section \<open>Checks of single keys\<close>

text \<open>A check returns the issues of a value; \<open>name\<close> is the key's full path.\<close>

type_synonym key_check = "js_value \<Rightarrow> string \<Rightarrow> issue list"

definition check :: "(js_value \<Rightarrow> bool) \<Rightarrow> expected \<Rightarrow> key_check" where
  "check ok e v name = (if ok v then [] else [Must_Be name e])"

definition optional_string :: key_check where
  "optional_string = check (\<lambda>v. v = V_Null \<or> is_string v) A_String"

fun non_negative_number :: "js_value \<Rightarrow> bool" where
  "non_negative_number (V_Int n) = (n \<ge> 0)"
| "non_negative_number (V_Frac n) = (n \<ge> 0)"
| "non_negative_number _ = False"

fun positive_number :: "js_value \<Rightarrow> bool" where
  "positive_number (V_Int n) = (n > 0)"
| "positive_number (V_Frac n) = (n \<ge> 0)"
| "positive_number _ = False"

definition non_negative_ms :: key_check where "non_negative_ms = check non_negative_number Non_Negative_Ms"
definition positive_ms :: key_check where "positive_ms = check positive_number Positive_Ms"
definition non_negative_integer :: key_check where
  "non_negative_integer = check (is_integer_from 0) Non_Negative_Integer"
definition positive_integer :: key_check where "positive_integer = check (is_integer_from 1) Positive_Integer"
definition globs :: key_check where "globs = check is_string_array Globs"

definition or_off :: "key_check \<Rightarrow> key_check" where
  "or_off inner v name = (if v = V_Null \<or> v = V_Bool False \<or> v = V_String [] then [] else inner v name)"

definition is_reg_exps :: "js_value \<Rightarrow> bool" where
  "is_reg_exps v \<longleftrightarrow> is_regexp v \<or> (case v of V_Array vs \<Rightarrow> list_all is_regexp vs | _ \<Rightarrow> False)"

definition reg_exps :: key_check where "reg_exps = or_off (check is_reg_exps Reg_Exps)"

definition one_of :: "string list \<Rightarrow> key_check" where
  "one_of values = check (includes_string values) (One_Of values)"

text \<open>A reporter name, or \<open>[name]\<close> / \<open>[name, options]\<close>.\<close>

fun is_reporter_description :: "js_value \<Rightarrow> bool" where
  "is_reporter_description (V_String _) = True"
| "is_reporter_description (V_Array [V_String _]) = True"
| "is_reporter_description (V_Array [V_String _, v]) = (v = V_Undefined \<or> is_plain_object v)"
| "is_reporter_description _ = False"

definition is_reporter :: "js_value \<Rightarrow> bool" where
  "is_reporter v \<longleftrightarrow> is_reporter_description v \<or>
     (case v of V_Array vs \<Rightarrow> list_all is_reporter_description vs | _ \<Rightarrow> False)"

definition is_shard :: "js_value \<Rightarrow> bool" where
  "is_shard v = (case v of
       V_Object s \<Rightarrow> (case (js_get ''current'' s, js_get ''total'' s) of
          (V_Int c, V_Int t) \<Rightarrow> 1 \<le> c \<and> c \<le> t | _ \<Rightarrow> False)
     | _ \<Rightarrow> False)"

definition is_string_headers :: "js_value \<Rightarrow> bool" where
  "is_string_headers v = (case v of V_Object h \<Rightarrow> list_all (is_string \<circ> snd) h | _ \<Rightarrow> False)"

definition delegated :: "string \<Rightarrow> (js_object \<Rightarrow> issue + unit) \<Rightarrow> key_check" where
  "delegated key validate v name =
     (case validate [(key, v)] of Inr _ \<Rightarrow> [] | Inl i \<Rightarrow> [rename_issue (length key) name i])"

definition option_object :: "string list \<Rightarrow> key_check option \<Rightarrow> key_check" where
  "option_object known inner v name =
     (case v of
        V_Object obj \<Rightarrow>
          map (\<lambda>k. Unknown_Option (name @ ''.'' @ k)) (filter (\<lambda>k. k \<notin> set known) (map fst obj)) @
          (case inner of None \<Rightarrow> [] | Some c \<Rightarrow> c v name)
      | _ \<Rightarrow> [Must_Be name An_Object])"

definition ui_keys :: "string list" where
  "ui_keys = [''prepareBetweenRuns'', ''prepareDelayMs'']"

definition trace_keys :: "string list" where
  "trace_keys = [''mode'', ''screenshots'', ''snapshots'', ''sources'', ''attachments'', ''network'',
     ''networkHosts'', ''networkIgnoreHosts'', ''networkPassthroughHosts'', ''networkHttpPorts'',
     ''deviceLogs'', ''daemonLogs'']"

definition video_keys :: "string list" where
  "video_keys = [''mode'', ''size'']"

definition recording_option :: "string \<Rightarrow> string list \<Rightarrow> key_check" where
  "recording_option key known v name =
     (let mode_issue = delegated key validate_recording_modes v name
      in if mode_issue \<noteq> [] \<or> \<not> is_plain_object v then mode_issue
         else option_object known None v name)"

section \<open>The tables\<close>

definition root_checks :: "(string \<times> key_check) list" where
  "root_checks =
    [(''platform'', one_of [''android'', ''ios'']),
     (''apk'', optional_string), (''app'', optional_string), (''activity'', optional_string),
     (''timeout'', positive_ms), (''retries'', non_negative_integer),
     (''screenshot'', one_of [''always'', ''only-on-failure'', ''never'']),
     (''testMatch'', globs), (''daemonAddress'', check is_string A_String),
     (''daemonBin'', optional_string), (''device'', optional_string),
     (''devices'', delegated ''devices'' validate_devices),
     (''deviceStrategy'', one_of [''prefer-connected'', ''avd-only'']),
     (''rootDir'', check is_string A_String), (''outputDir'', check is_string A_String),
     (''package'', optional_string), (''agentApk'', optional_string), (''agentTestApk'', optional_string),
     (''iosXctestrun'', optional_string), (''resetAppDeepLink'', optional_string),
     (''resetAppWaitMs'', non_negative_ms),
     (''appReset'', delegated ''appReset'' validate_app_reset_options),
     (''appResetScope'', delegated ''appResetScope'' validate_app_reset_options),
     (''appResetColdEvery'', delegated ''appResetColdEvery'' validate_app_reset_options),
     (''ui'', option_object ui_keys (Some (delegated ''ui'' validate_ui_options))),
     (''telemetry'', check is_boolean A_Boolean),
     (''reducedMotion'', one_of [''reduce'', ''no-preference'']),
     (''typingDelay'', non_negative_ms), (''doubleTapInterval'', positive_ms),
     (''simulator'', optional_string), (''reporter'', or_off (check is_reporter A_Reporter)),
     (''workers'', positive_integer), (''shard'', check is_shard A_Shard),
     (''launchEmulators'', check is_boolean A_Boolean), (''avd'', optional_string),
     (''emulatorLaunchOptions'', delegated ''emulatorLaunchOptions'' validate_emulator_launch_options),
     (''trace'', recording_option ''trace'' trace_keys), (''video'', recording_option ''video'' video_keys),
     (''projects'', check is_array An_Array_Of_Projects), (''baseURL'', optional_string),
     (''extraHTTPHeaders'', check is_string_headers String_Headers),
     (''grep'', reg_exps), (''grepInvert'', reg_exps)]"

text \<open>\<open>USE_CHECKS\<close>: the root's check of every key a project's \<open>use\<close> may set, and \<open>appState\<close>.\<close>

definition use_root_keys :: "string list" where
  "use_root_keys =
    [''timeout'', ''screenshot'', ''retries'', ''trace'', ''video'', ''platform'', ''device'', ''devices'', ''avd'',
     ''simulator'', ''apk'', ''app'', ''package'', ''activity'', ''agentApk'', ''agentTestApk'', ''iosXctestrun'',
     ''deviceStrategy'', ''launchEmulators'', ''resetAppDeepLink'', ''resetAppWaitMs'', ''appReset'',
     ''appResetScope'', ''appResetColdEvery'', ''doubleTapInterval'', ''baseURL'', ''extraHTTPHeaders'']"

definition use_checks :: "(string \<times> key_check) list" where
  "use_checks = map (\<lambda>k. (k, the (map_of root_checks k))) use_root_keys @ [(''appState'', optional_string)]"

definition not_blank_string :: "js_value \<Rightarrow> bool" where
  "not_blank_string v = (case v of V_String s \<Rightarrow> \<not> js_blank s | _ \<Rightarrow> False)"

definition project_checks :: "(string \<times> key_check) list" where
  "project_checks =
    [(''name'', check not_blank_string Non_Empty_String),
     (''testMatch'', globs), (''testIgnore'', globs),
     (''dependencies'', check is_string_array Project_Names),
     (''use'', check is_plain_object An_Object),
     (''workers'', positive_integer), (''grep'', reg_exps), (''grepInvert'', reg_exps)]"

section \<open>\<open>configShapeIssues\<close>\<close>

text \<open>The issues of one entry, and of an object's entries in order.\<close>

definition check_entry ::
  "(string \<times> key_check) list \<Rightarrow> string \<Rightarrow> (string \<Rightarrow> issue) \<Rightarrow> string \<times> js_value \<Rightarrow> issue list" where
  "check_entry checks prefix unknown kv =
     (case map_of checks (fst kv) of
        None \<Rightarrow> [unknown (fst kv)]
      | Some c \<Rightarrow> if snd kv = V_Undefined then [] else c (snd kv) (prefix @ fst kv))"

definition check_keys ::
  "js_object \<Rightarrow> (string \<times> key_check) list \<Rightarrow> string \<Rightarrow> (string \<Rightarrow> issue) \<Rightarrow> issue list" where
  "check_keys obj checks prefix unknown = concat (map (check_entry checks prefix unknown) obj)"

definition unknown_use_key :: "string \<Rightarrow> string \<Rightarrow> issue" where
  "unknown_use_key prefix k =
     (let name = prefix @ ''use.'' @ k
      in if k \<noteq> ''use'' \<and> k \<in> set (map fst project_checks) then Set_On_Project name
         else if k \<in> set (map fst root_checks) then Root_Only name
         else Unknown_Option name)"

definition check_project_use :: "js_object \<Rightarrow> string \<Rightarrow> issue list" where
  "check_project_use use prefix = check_keys use use_checks (prefix @ ''use.'') (unknown_use_key prefix)"

definition project_path :: "nat \<Rightarrow> string" where
  "project_path i = ''projects['' @ show_nat i @ '']''"

definition project_issues :: "nat \<Rightarrow> js_value \<Rightarrow> issue list" where
  "project_issues i project =
     (let prefix = project_path i @ ''.''
      in case project of
           V_Object p \<Rightarrow>
             (if js_get ''name'' p = V_Undefined then [Must_Be (prefix @ ''name'') Non_Empty_String] else []) @
             check_keys p project_checks prefix (\<lambda>k. Unknown_Option (prefix @ k)) @
             (case js_get ''use'' p of V_Object use \<Rightarrow> check_project_use use prefix | _ \<Rightarrow> [])
         | _ \<Rightarrow> [Must_Be (project_path i) A_Project_Object])"

fun projects_issues :: "nat \<Rightarrow> js_value list \<Rightarrow> issue list" where
  "projects_issues i [] = []"
| "projects_issues i (p # ps) = project_issues i p @ projects_issues (Suc i) ps"

definition config_shape_issues :: "js_object \<Rightarrow> issue list" where
  "config_shape_issues config =
     check_keys config root_checks [] Unknown_Option @
     (case js_get ''projects'' config of V_Array ps \<Rightarrow> projects_issues 0 ps | _ \<Rightarrow> [])"

end
