(* ===== verification/Config_Load.thy ===== *)
theory Config_Load
  imports Config_Shape App_Reset
begin

text \<open>
  Building a configuration (\<open>config.ts\<close>): the defaults, \<open>defineConfig\<close>, the load of a config
  module with the root its relative paths are anchored to, and the merge of a project's \<open>use\<close>
  over the root config. The non-enumerable symbols a config carries are fields beside its keys;
  finding and importing the file are the runtime's and not modelled.
\<close>

section \<open>Configurations\<close>

text \<open>\<open>None\<close>: the symbol is not present on the object.\<close>

record config_object =
  config_values :: js_object
  explicit_workers :: "bool option"
  explicit_root_dir :: "bool option"
  config_path :: "string option"

definition plain_config :: "js_object \<Rightarrow> config_object" where
  "plain_config obj = \<lparr> config_values = obj, explicit_workers = None, explicit_root_dir = None, config_path = None \<rparr>"

datatype config_error =
    Invalid "issue list"
  | No_Default_Export
  | Default_Not_An_Object
  | Launch_Options_In_Use

definition default_config :: "string \<Rightarrow> js_object" where
  "default_config cwd =
    [(''timeout'', V_Int 30000), (''retries'', V_Int 0), (''screenshot'', V_String ''only-on-failure''),
     (''testMatch'', V_Array [V_String ''**/*.test.ts'', V_String ''**/*.spec.ts'', V_String ''**/*.tapsmith.ts'']),
     (''daemonAddress'', V_String ''localhost:50051''), (''rootDir'', V_String cwd),
     (''outputDir'', V_String ''tapsmith-results''), (''workers'', V_Int 1),
     (''launchEmulators'', V_Bool False)]"

text \<open>The validators \<open>applyConfigDefaults\<close> runs, in order; the first that throws ends it.\<close>

fun first_error :: "(js_object \<Rightarrow> issue + unit) list \<Rightarrow> js_object \<Rightarrow> config_error + unit" where
  "first_error [] raw = Inr ()"
| "first_error (v # vs) raw = (case v raw of Inl i \<Rightarrow> Inl (Invalid [i]) | Inr _ \<Rightarrow> first_error vs raw)"

definition option_validators :: "(js_object \<Rightarrow> issue + unit) list" where
  "option_validators = [validate_app_reset_options, validate_recording_modes, validate_ui_options,
     validate_emulator_launch_options, validate_devices]"

definition apply_config_defaults :: "js_object \<Rightarrow> js_object \<Rightarrow> config_error + js_object" where
  "apply_config_defaults config raw =
     (let config' = (if js_get ''launchEmulators'' raw = V_Undefined \<and> js_truthy (js_get ''avd'' raw)
                     then map_set ''launchEmulators'' (V_Bool True) config else config)
      in case first_error option_validators raw of Inl e \<Rightarrow> Inl e | Inr _ \<Rightarrow> Inr config')"

definition define_config :: "string \<Rightarrow> js_object \<Rightarrow> config_error + config_object" where
  "define_config cwd overrides =
     (let issues = config_shape_issues overrides; clean = omit_undefined overrides
      in if issues \<noteq> [] then Inl (Invalid issues)
         else case apply_config_defaults (spread (default_config cwd) clean) clean of
           Inl e \<Rightarrow> Inl e
         | Inr merged \<Rightarrow> Inr \<lparr> config_values = merged,
             explicit_workers = Some (js_get ''workers'' clean \<noteq> V_Undefined),
             explicit_root_dir = Some (js_get ''rootDir'' clean \<noteq> V_Undefined), config_path = None \<rparr>)"

section \<open>Loading\<close>

definition raw_has_explicit_workers :: "config_object \<Rightarrow> bool" where
  "raw_has_explicit_workers raw =
     nullish (explicit_workers raw) (js_get ''workers'' (config_values raw) \<noteq> V_Undefined)"

definition raw_has_explicit_root_dir :: "config_object \<Rightarrow> bool" where
  "raw_has_explicit_root_dir raw =
     nullish (explicit_root_dir raw) (js_get ''rootDir'' (config_values raw) \<noteq> V_Undefined)"

text \<open>\<open>path.resolve(root, raw.rootDir)\<close>; the checks made \<open>rootDir\<close> a string.\<close>

definition resolve_root_dir :: "string \<Rightarrow> config_object \<Rightarrow> string \<Rightarrow> string" where
  "resolve_root_dir cwd raw root =
     (case js_get ''rootDir'' (config_values raw) of
        V_String d \<Rightarrow> if raw_has_explicit_root_dir raw \<and> d \<noteq> [] then path_resolve cwd root d else root
      | _ \<Rightarrow> root)"

text \<open>The default export of a module, when it has one.\<close>

datatype default_export = Missing_Export | Not_A_Config | Config_Export config_object

fun config_from_module :: "default_export \<Rightarrow> config_error + config_object" where
  "config_from_module Missing_Export = Inl No_Default_Export"
| "config_from_module Not_A_Config = Inl Default_Not_An_Object"
| "config_from_module (Config_Export c) =
     (let issues = config_shape_issues (config_values c)
      in if issues \<noteq> [] then Inl (Invalid issues) else Inr c)"

definition load_config_file ::
  "string \<Rightarrow> string \<Rightarrow> string \<Rightarrow> default_export \<Rightarrow> config_error + config_object" where
  "load_config_file cwd path root export =
     (case config_from_module export of
        Inl e \<Rightarrow> Inl e
      | Inr original \<Rightarrow>
          (let raw = omit_undefined (config_values original);
               base = map_set ''rootDir'' (V_String (resolve_root_dir cwd original root))
                        (spread (default_config cwd) raw)
           in case apply_config_defaults base raw of
                Inl e \<Rightarrow> Inl e
              | Inr merged \<Rightarrow> Inr \<lparr> config_values = merged,
                  explicit_workers = Some (raw_has_explicit_workers original),
                  explicit_root_dir = Some (raw_has_explicit_root_dir original),
                  config_path = Some path \<rparr>))"

text \<open>The defaults when there is no config file.\<close>

definition load_defaults :: "string \<Rightarrow> string \<Rightarrow> config_object" where
  "load_defaults cwd root = \<lparr> config_values = map_set ''rootDir'' (V_String root) (default_config cwd),
     explicit_workers = Some False, explicit_root_dir = Some False, config_path = None \<rparr>"

section \<open>A project's options\<close>

text \<open>Without \<open>use\<close> the root config itself, symbols and all; a merge is a fresh object without them.\<close>

definition effective_config_for_project ::
  "config_object \<Rightarrow> js_object option \<Rightarrow> config_error + config_object" where
  "effective_config_for_project config use =
     (case use of
        None \<Rightarrow> Inr config
      | Some u \<Rightarrow>
          if ''emulatorLaunchOptions'' \<in> set (map fst u) then Inl Launch_Options_In_Use
          else map_sum id plain_config
                 (apply_config_defaults (spread (config_values config) (omit_undefined u)) u))"

text \<open>The typed view of a config that the device target functions read.\<close>

definition string_key :: "string \<Rightarrow> js_object \<Rightarrow> string option" where
  "string_key k obj = (case js_get k obj of V_String s \<Rightarrow> Some s | _ \<Rightarrow> None)"

definition target_of :: "js_object \<Rightarrow> target_config" where
  "target_of obj = \<lparr> platform = string_key ''platform'' obj, simulator = string_key ''simulator'' obj,
     device_pin = string_key ''device'' obj, package = string_key ''package'' obj, app = string_key ''app'' obj,
     ios_xctestrun = string_key ''iosXctestrun'' obj, avd = string_key ''avd'' obj, apk = string_key ''apk'' obj,
     device_strategy = string_key ''deviceStrategy'' obj,
     launch_emulators = js_truthy (js_get ''launchEmulators'' obj),
     devices = devices_of_raw (raw_devices_of (js_get ''devices'' obj)) \<rparr>"

definition resolve_device_strategy :: "js_object \<Rightarrow> string" where
  "resolve_device_strategy obj =
     (case string_key ''deviceStrategy'' obj of
        Some s \<Rightarrow> if s \<noteq> [] then s
                  else if js_truthy (js_get ''avd'' obj) then ''avd-only'' else ''prefer-connected''
      | None \<Rightarrow> if js_truthy (js_get ''avd'' obj) then ''avd-only'' else ''prefer-connected'')"

text \<open>The keys a single-target session takes from its device target (\<open>USE_KEY_SCOPE\<close>).\<close>

definition target_keys :: "string list" where
  "target_keys = [''platform'', ''device'', ''avd'', ''simulator'', ''apk'', ''app'', ''package'', ''activity'',
     ''agentApk'', ''agentTestApk'', ''iosXctestrun'', ''deviceStrategy'', ''launchEmulators'',
     ''resetAppDeepLink'', ''resetAppWaitMs'', ''doubleTapInterval'']"

definition target_session_config :: "js_object \<Rightarrow> js_object \<Rightarrow> js_object" where
  "target_session_config effective root = fold (\<lambda>k. map_set k (js_get k effective)) target_keys root"

section \<open>Lemmas\<close>

lemma map_get_fold_set:
  "map_get (fold (\<lambda>(k, v). map_set k v) b a) k = or_else (map_of (rev b) k) (map_get a k)"
proof (induction b arbitrary: a)
  case (Cons kv b)
  then show ?case by (cases kv) (auto simp: map_add_def or_else_def split: option.splits)
qed simp

end
