(* ===== verification/Config_Safety.thy ===== *)
theory Config_Safety
  imports Config_Load
begin

text \<open>
  Properties of configurations: what a loaded config guarantees to the code that reads it, that a
  config written with \<open>defineConfig\<close> loads like the same object literal, and that merging the
  \<open>use\<close> of an accepted project never fails and stays within the checks.
\<close>

section \<open>Objects\<close>

lemma set_map_setD: "kv \<in> set (map_set k v m) \<Longrightarrow> kv = (k, v) \<or> kv \<in> set m"
  by (induction k v m rule: map_set.induct) (auto split: if_splits)

lemma set_spreadD: "kv \<in> set (spread a b) \<Longrightarrow> kv \<in> set a \<or> kv \<in> set b"
  unfolding spread_def
proof (induction b arbitrary: a)
  case (Cons x b)
  obtain k v where x: "x = (k, v)" by fastforce
  from Cons.prems have "kv \<in> set (fold (\<lambda>(k, v). map_set k v) b (map_set k v a))" by (simp add: x)
  from Cons.IH [OF this] show ?case by (auto simp: x dest: set_map_setD)
qed simp

lemma map_wf_spread [simp]: "map_wf (spread a b) = map_wf a"
  unfolding spread_def
proof (induction b arbitrary: a)
  case (Cons kv b)
  obtain k v where "kv = (k, v)" by fastforce
  with Cons.IH [of "map_set k v a"] show ?case by simp
qed simp

lemma map_get_omit_undefined:
  "map_wf b \<Longrightarrow> map_get (omit_undefined b) k = (if map_get b k = Some V_Undefined then None else map_get b k)"
proof (induction b)
  case (Cons kv b)
  obtain k' v where kv: "kv = (k', v)" by fastforce
  with Cons.prems have "map_wf b" "map_get b k' = None"
    by (auto simp: map_wf_def map_keys_def map_of_eq_None_iff)
  with Cons.IH show ?case by (auto simp: kv omit_undefined_def)
qed (simp add: omit_undefined_def)

lemma map_wf_omit_undefined: "map_wf b \<Longrightarrow> map_wf (omit_undefined b)"
  by (simp add: map_wf_def map_keys_def omit_undefined_def distinct_map_filter)

lemma js_get_omit_undefined: "map_wf b \<Longrightarrow> js_get k (omit_undefined b) = js_get k b"
  by (auto simp: js_get_def map_get_omit_undefined nullish_def split: option.splits)

lemma map_get_rev: "map_wf b \<Longrightarrow> map_get (rev b) k = map_get b k"
proof (induction b)
  case (Cons kv b)
  obtain k' v where kv: "kv = (k', v)" by fastforce
  with Cons.prems have "map_wf b" "map_get b k' = None"
    by (auto simp: map_wf_def map_keys_def map_of_eq_None_iff)
  with Cons.IH show ?case by (auto simp: kv map_add_def split: option.splits)
qed simp

lemma js_get_spread:
  "map_wf b \<Longrightarrow> js_get k (spread a (omit_undefined b)) = (if js_get k b = V_Undefined then js_get k a else js_get k b)"
  using map_get_omit_undefined [of b k]
  by (auto simp: spread_def js_get_def map_get_fold_set map_get_rev [OF map_wf_omit_undefined] nullish_def or_else_def
      split: option.splits)

lemma js_get_map_set: "js_get k' (map_set k v m) = (if k' = k then v else js_get k' m)"
  by (simp add: js_get_def)

lemma js_get_mem: "js_get k obj \<noteq> V_Undefined \<Longrightarrow> (k, js_get k obj) \<in> set obj"
  by (auto simp: js_get_def nullish_def split: option.splits dest: map_of_SomeD)

section \<open>Checks\<close>

lemma check_keys_Nil_iff:
  "check_keys obj checks prefix unknown = [] \<longleftrightarrow> (\<forall>kv \<in> set obj. check_entry checks prefix unknown kv = [])"
  by (auto simp: check_keys_def)

text \<open>Whether a check accepts a value does not depend on the path it reports.\<close>

definition path_free :: "key_check \<Rightarrow> bool" where
  "path_free c \<longleftrightarrow> (\<forall>v n n'. c v n = [] \<longrightarrow> c v n' = [])"

lemma path_free_check [simp, intro]: "path_free (check ok e)"
  by (simp add: path_free_def check_def)

lemma path_free_delegated [simp, intro]: "path_free (delegated key f)"
  by (simp add: path_free_def delegated_def split: sum.splits)

lemma path_free_or_off [simp, intro]: "path_free c \<Longrightarrow> path_free (or_off c)"
  by (auto simp: path_free_def or_off_def)

lemma path_free_option_object [simp, intro]:
  "(case c of None \<Rightarrow> True | Some c' \<Rightarrow> path_free c') \<Longrightarrow> path_free (option_object known c)"
  unfolding path_free_def option_object_def
  by (auto split: js_value.splits option.splits) blast

lemma path_free_recording [simp, intro]: "path_free (recording_option key known)"
  unfolding path_free_def recording_option_def delegated_def option_object_def Let_def
  by (auto split: sum.splits js_value.splits)

lemma root_checks_path_free: "\<forall>(k, c) \<in> set root_checks. path_free c"
  by (simp add: root_checks_def one_of_def optional_string_def positive_ms_def non_negative_ms_def
      non_negative_integer_def positive_integer_def globs_def reg_exps_def)

lemma root_check_any_path:
  assumes "map_of root_checks k = Some c" and "c v n = []"
  shows "c v n' = []"
  using root_checks_path_free map_of_SomeD [OF assms(1)] assms(2) unfolding path_free_def by blast

text \<open>The accepted entries of a config, whatever path they are reported under.\<close>

definition root_accepts :: "string \<times> js_value \<Rightarrow> bool" where
  "root_accepts kv \<longleftrightarrow> check_entry root_checks [] Unknown_Option kv = []"

lemma root_accepts_iff:
  "root_accepts (k, v) \<longleftrightarrow> (\<exists>c. map_of root_checks k = Some c \<and> (v = V_Undefined \<or> c v k = []))"
  by (auto simp: root_accepts_def check_entry_def split: option.splits)

lemma map_of_tabulate: "map_of (map (\<lambda>k. (k, f k)) ks) k = (if k \<in> set ks then Some (f k) else None)"
  by (induction ks) auto

lemma use_root_keys_known: "set use_root_keys \<subseteq> set (map fst root_checks)"
  by (simp add: use_root_keys_def root_checks_def)

lemma app_state_not_root: "''appState'' \<notin> set use_root_keys"
  by (simp add: use_root_keys_def)

lemma use_check_root:
  "k \<in> set use_root_keys \<Longrightarrow> map_of use_checks k = map_of root_checks k"
  "map_of use_checks k = Some c \<Longrightarrow> k \<in> set use_root_keys \<or> k = ''appState''"
proof -
  show "map_of use_checks k = Some c \<Longrightarrow> k \<in> set use_root_keys \<or> k = ''appState''"
    unfolding use_checks_def map_of_append map_add_def map_of_tabulate
    by (simp split: option.splits if_splits)
  assume k: "k \<in> set use_root_keys"
  with use_root_keys_known have "map_of root_checks k \<noteq> None" by (auto simp: map_of_eq_None_iff)
  with k app_state_not_root show "map_of use_checks k = map_of root_checks k"
    unfolding use_checks_def map_of_append map_add_def map_of_tabulate
    by (auto split: option.splits if_splits)
qed

lemma use_entry_accepted:
  assumes "check_entry use_checks prefix unknown (k, v) = []" and "k \<noteq> ''appState''"
  shows "root_accepts (k, v)"
proof -
  from assms(1) obtain c where c: "map_of use_checks k = Some c" "v = V_Undefined \<or> c v (prefix @ k) = []"
    by (auto simp: check_entry_def split: option.splits if_splits)
  with use_check_root(2) [OF c(1)] assms(2) have "map_of root_checks k = Some c"
    using use_check_root(1) by metis
  with c(2) root_check_any_path show ?thesis unfolding root_accepts_iff by blast
qed

section \<open>The validators on accepted options\<close>

text \<open>A single-option validator reads its own keys only.\<close>

lemma js_get_single [simp]: "js_get k [(k', v)] = (if k = k' then v else V_Undefined)"
  by (simp add: js_get_def)

lemma delegated_accepts: "delegated key f v n = [] \<longleftrightarrow> f [(key, v)] = Inr ()"
  by (auto simp: delegated_def split: sum.splits)

lemma validate_app_reset_ok:
  "validate_app_reset_options [(''appReset'', js_get ''appReset'' raw)] = Inr () \<Longrightarrow>
   validate_app_reset_options [(''appResetScope'', js_get ''appResetScope'' raw)] = Inr () \<Longrightarrow>
   validate_app_reset_options [(''appResetColdEvery'', js_get ''appResetColdEvery'' raw)] = Inr () \<Longrightarrow>
   validate_app_reset_options raw = Inr ()"
  unfolding validate_app_reset_options_def require_def Let_def by (auto split: if_splits)

lemma validate_recording_ok:
  "validate_recording_modes [(''trace'', js_get ''trace'' raw)] = Inr () \<Longrightarrow>
   validate_recording_modes [(''video'', js_get ''video'' raw)] = Inr () \<Longrightarrow>
   validate_recording_modes raw = Inr ()"
  by (simp add: validate_recording_modes_def require_def split: if_splits)

lemma recording_option_accepts:
  "recording_option key known v n = [] \<Longrightarrow> validate_recording_modes [(key, v)] = Inr ()"
  by (auto simp: recording_option_def Let_def delegated_accepts split: if_splits)

lemma validate_ui_ok:
  "js_get ''telemetry'' raw = V_Undefined \<or> is_boolean (js_get ''telemetry'' raw) \<Longrightarrow>
   js_get ''ui'' raw \<noteq> V_Undefined \<Longrightarrow> validate_ui_options [(''ui'', js_get ''ui'' raw)] = Inr () \<Longrightarrow>
   validate_ui_options raw = Inr ()"
  "js_get ''telemetry'' raw = V_Undefined \<or> is_boolean (js_get ''telemetry'' raw) \<Longrightarrow>
   js_get ''ui'' raw = V_Undefined \<Longrightarrow> validate_ui_options raw = Inr ()"
  by (simp_all add: validate_ui_options_def require_def Let_def split: if_splits)

lemma validate_emulator_cong:
  "js_get ''emulatorLaunchOptions'' raw = js_get ''emulatorLaunchOptions'' raw' \<Longrightarrow>
   validate_emulator_launch_options raw = validate_emulator_launch_options raw'"
  by (simp add: validate_emulator_launch_options_def)

lemma validate_devices_cong:
  "js_get ''devices'' raw = js_get ''devices'' raw' \<Longrightarrow> validate_devices raw = validate_devices raw'"
  by (simp add: validate_devices_def)

text \<open>The checks of the keys the validators read.\<close>

lemma root_check_table:
  "map_of root_checks ''appReset'' = Some (delegated ''appReset'' validate_app_reset_options)"
  "map_of root_checks ''appResetScope'' = Some (delegated ''appResetScope'' validate_app_reset_options)"
  "map_of root_checks ''appResetColdEvery'' = Some (delegated ''appResetColdEvery'' validate_app_reset_options)"
  "map_of root_checks ''trace'' = Some (recording_option ''trace'' trace_keys)"
  "map_of root_checks ''video'' = Some (recording_option ''video'' video_keys)"
  "map_of root_checks ''ui'' = Some (option_object ui_keys (Some (delegated ''ui'' validate_ui_options)))"
  "map_of root_checks ''telemetry'' = Some (check is_boolean A_Boolean)"
  "map_of root_checks ''emulatorLaunchOptions'' =
     Some (delegated ''emulatorLaunchOptions'' validate_emulator_launch_options)"
  "map_of root_checks ''devices'' = Some (delegated ''devices'' validate_devices)"
  "map_of root_checks ''workers'' = Some positive_integer"
  "map_of root_checks ''retries'' = Some non_negative_integer"
  "map_of root_checks ''timeout'' = Some positive_ms"
  "map_of root_checks ''testMatch'' = Some globs"
  "map_of root_checks ''rootDir'' = Some (check is_string A_String)"
  "map_of root_checks ''launchEmulators'' = Some (check is_boolean A_Boolean)"
  "map_of root_checks ''projects'' = Some (check is_array An_Array_Of_Projects)"
  "map_of root_checks ''appState'' = None"
  by (simp_all add: root_checks_def)

text \<open>What the table says of the value an accepted object has under a key.\<close>

lemma accepted_value:
  assumes "\<forall>kv \<in> set obj. fst kv \<noteq> ''appState'' \<longrightarrow> root_accepts kv" and "map_of root_checks k = Some c"
  shows "js_get k obj = V_Undefined \<or> c (js_get k obj) k = []"
proof (rule ccontr)
  assume no: "\<not> ?thesis"
  then have "(k, js_get k obj) \<in> set obj" by (intro js_get_mem) simp
  moreover have "k \<noteq> ''appState''" using assms(2) root_check_table(17) by force
  ultimately have "root_accepts (k, js_get k obj)" using assms(1) by fastforce
  with no assms(2) show False by (simp add: root_accepts_iff)
qed

lemma validators_accept:
  assumes acc: "\<forall>kv \<in> set raw. fst kv \<noteq> ''appState'' \<longrightarrow> root_accepts kv"
  shows "first_error option_validators raw = Inr ()"
proof -
  note val = accepted_value [OF acc]
  have undef: "validate_app_reset_options [(k, V_Undefined)] = Inr ()"
    "validate_recording_modes [(k, V_Undefined)] = Inr ()" "validate_devices [(k, V_Undefined)] = Inr ()"
    "validate_emulator_launch_options [(k, V_Undefined)] = Inr ()" for k
    by (simp_all add: validate_app_reset_options_def validate_recording_modes_def recording_ok_def
        validate_devices_def validate_emulator_launch_options_def require_def)
  have "validate_app_reset_options raw = Inr ()"
    by (rule validate_app_reset_ok)
      (use val [OF root_check_table(1)] val [OF root_check_table(2)] val [OF root_check_table(3)] undef in
        \<open>auto simp: delegated_accepts\<close>)
  moreover have "validate_recording_modes raw = Inr ()"
    by (rule validate_recording_ok)
      (use val [OF root_check_table(4)] val [OF root_check_table(5)] undef in \<open>auto dest: recording_option_accepts\<close>)
  moreover have "validate_ui_options raw = Inr ()"
  proof -
    have tel: "js_get ''telemetry'' raw = V_Undefined \<or> is_boolean (js_get ''telemetry'' raw)"
      using val [OF root_check_table(7)] by (simp add: check_def split: if_splits)
    show ?thesis
    proof (cases "js_get ''ui'' raw = V_Undefined")
      case True
      then show ?thesis by (rule validate_ui_ok(2) [OF tel])
    next
      case False
      with val [OF root_check_table(6)] have "delegated ''ui'' validate_ui_options (js_get ''ui'' raw) ''ui'' = []"
        by (simp add: option_object_def split: js_value.splits)
      then have "validate_ui_options [(''ui'', js_get ''ui'' raw)] = Inr ()" unfolding delegated_accepts .
      then show ?thesis by (rule validate_ui_ok(1) [OF tel False])
    qed
  qed
  moreover have "validate_emulator_launch_options raw = Inr ()"
    using val [OF root_check_table(8)] undef(4)
      validate_emulator_cong [of raw "[(''emulatorLaunchOptions'', js_get ''emulatorLaunchOptions'' raw)]"]
    by (auto simp: delegated_accepts)
  moreover have "validate_devices raw = Inr ()"
    using val [OF root_check_table(9)] undef(3)
      validate_devices_cong [of raw "[(''devices'', js_get ''devices'' raw)]"]
    by (auto simp: delegated_accepts)
  ultimately show ?thesis by (simp add: option_validators_def)
qed

section \<open>Accepted configs\<close>

lemma shape_root: "config_shape_issues c = [] \<Longrightarrow> kv \<in> set c \<Longrightarrow> root_accepts kv"
  by (simp add: config_shape_issues_def check_keys_Nil_iff root_accepts_def)

lemma shape_iff:
  "config_shape_issues c = [] \<longleftrightarrow>
     (\<forall>kv \<in> set c. root_accepts kv) \<and> (case js_get ''projects'' c of V_Array ps \<Rightarrow> projects_issues 0 ps | _ \<Rightarrow> []) = []"
  by (simp add: config_shape_issues_def check_keys_Nil_iff root_accepts_def)

lemma projects_issues_mem:
  "projects_issues i ps = [] \<Longrightarrow> p \<in> set ps \<Longrightarrow> \<exists>j. project_issues j p = []"
  by (induction i ps rule: projects_issues.induct) auto

text \<open>Every key of an accepted \<open>use\<close> is one of \<open>USE_CHECKS\<close>, and the root's check accepts its value.\<close>

lemma accepted_use:
  assumes "config_shape_issues c = []" and "js_get ''projects'' c = V_Array ps"
    and "V_Object p \<in> set ps" and "js_get ''use'' p = V_Object u" and "kv \<in> set u"
  shows "map_of use_checks (fst kv) \<noteq> None \<and> (fst kv \<noteq> ''appState'' \<longrightarrow> root_accepts kv)"
proof -
  from assms(1,2) have "projects_issues 0 ps = []" by (simp add: shape_iff)
  from projects_issues_mem [OF this assms(3)] obtain j where "project_issues j (V_Object p) = []" by blast
  with assms(4) have "check_project_use u (project_path j @ ''.'') = []"
    by (simp add: project_issues_def Let_def)
  with assms(5) have e: "check_entry use_checks ((project_path j @ ''.'') @ ''use.'') (unknown_use_key (project_path j @ ''.'')) kv = []"
    by (simp add: check_project_use_def check_keys_Nil_iff)
  obtain k v where kv: "kv = (k, v)" by fastforce
  from e use_entry_accepted [of "(project_path j @ ''.'') @ ''use.''" _ k v] show ?thesis
    by (auto simp: kv check_entry_def [of _ _ _ "(k, v)"] split: option.splits)
qed

lemma not_use_keys:
  "map_of use_checks ''emulatorLaunchOptions'' = None" "map_of use_checks ''projects'' = None"
proof -
  have "''emulatorLaunchOptions'' \<notin> set use_root_keys" "''projects'' \<notin> set use_root_keys"
    by (simp_all add: use_root_keys_def)
  then show "map_of use_checks ''emulatorLaunchOptions'' = None" "map_of use_checks ''projects'' = None"
    unfolding use_checks_def map_of_append map_add_def map_of_tabulate by simp_all
qed

lemma launch_accepted: "root_accepts (''launchEmulators'', V_Bool b)"
  by (simp add: root_accepts_iff root_check_table check_def)

lemma launch_not_app_state: "''launchEmulators'' \<noteq> ''appState''" "''launchEmulators'' \<noteq> ''projects''"
  by simp_all

lemma set_omit_undefined: "kv \<in> set (omit_undefined u) \<Longrightarrow> kv \<in> set u"
  by (auto simp: omit_undefined_def)

lemma js_get_filter_key:
  "k \<noteq> k' \<Longrightarrow> js_get k (filter (\<lambda>(k, v). k \<noteq> k') m) = js_get k m"
  unfolding js_get_def by (induction m) auto

text \<open>
  Merging the \<open>use\<close> of an accepted project never fails: \<open>effectiveConfigForProject\<close> succeeds on
  every project of a config that passed the checks, every key of the result is the project's value
  where it sets one and the root's otherwise (\<open>launchEmulators\<close> turned on by an \<open>avd\<close> of its own),
  and the result, \<open>appState\<close> aside, passes the root's checks again.
\<close>

theorem accepted_use_merges:
  assumes "config_shape_issues (config_values c) = []" and "js_get ''projects'' (config_values c) = V_Array ps"
    and "V_Object p \<in> set ps" and "js_get ''use'' p = V_Object u" and "map_wf u"
  shows "\<exists>m. effective_config_for_project c (Some u) = Inr (plain_config m) \<and>
           (\<forall>k. js_get k m =
              (if k = ''launchEmulators'' \<and> js_get k u = V_Undefined \<and> js_truthy (js_get ''avd'' u) then V_Bool True
               else if js_get k u = V_Undefined then js_get k (config_values c) else js_get k u)) \<and>
           config_shape_issues (filter (\<lambda>(k, v). k \<noteq> ''appState'') m) = []"
proof -
  note use = accepted_use [OF assms(1-4)]
  have no_launch: "''emulatorLaunchOptions'' \<notin> set (map fst u)"
    using use not_use_keys(1) by force
  have valid: "first_error option_validators u = Inr ()"
    by (rule validators_accept) (use use in blast)
  define base where "base = spread (config_values c) (omit_undefined u)"
  define m where "m = (if js_get ''launchEmulators'' u = V_Undefined \<and> js_truthy (js_get ''avd'' u)
      then map_set ''launchEmulators'' (V_Bool True) base else base)"
  have eff: "effective_config_for_project c (Some u) = Inr (plain_config m)"
    using no_launch valid by (simp add: effective_config_for_project_def apply_config_defaults_def m_def base_def)
  have get: "js_get k m =
      (if k = ''launchEmulators'' \<and> js_get k u = V_Undefined \<and> js_truthy (js_get ''avd'' u) then V_Bool True
       else if js_get k u = V_Undefined then js_get k (config_values c) else js_get k u)" for k
    unfolding m_def base_def by (simp add: js_get_map_set js_get_spread [OF assms(5)])
  have mem: "kv \<in> set m \<Longrightarrow> kv = (''launchEmulators'', V_Bool True) \<or> kv \<in> set (config_values c) \<or> kv \<in> set u" for kv
    unfolding m_def base_def by (auto split: if_splits dest!: set_map_setD set_spreadD set_omit_undefined)
  have "root_accepts kv" if "kv \<in> set m" "fst kv \<noteq> ''appState''" for kv
    using mem [OF that(1)] that(2) use shape_root [OF assms(1)] launch_accepted by blast
  then have acc: "\<forall>kv \<in> set (filter (\<lambda>(k, v). k \<noteq> ''appState'') m). root_accepts kv" by auto
  have "js_get ''projects'' u = V_Undefined"
    using use not_use_keys(2) js_get_mem [of "''projects''" u] by force
  then have "js_get ''projects'' (filter (\<lambda>(k, v). k \<noteq> ''appState'') m) = V_Array ps"
    by (subst js_get_filter_key) (simp_all add: get assms(2))
  then have "config_shape_issues (filter (\<lambda>(k, v). k \<noteq> ''appState'') m) = []"
    using assms(1,2) acc by (simp add: shape_iff)
  with eff get show ?thesis by blast
qed

theorem accepted_use_merges_witness:
  "let u = [(''avd'', V_String ''Pixel''), (''retries'', V_Int 2)];
       c = plain_config [(''retries'', V_Int 0), (''projects'', V_Array [V_Object [(''name'', V_String ''a''), (''use'', V_Object u)]])]
   in \<exists>m. effective_config_for_project c (Some u) = Inr (plain_config m) \<and> js_get ''launchEmulators'' m = V_Bool True \<and>
          js_get ''retries'' m = V_Int 2"
proof -
  let ?u = "[(''avd'', V_String ''Pixel''), (''retries'', V_Int 2)]"
  let ?p = "[(''name'', V_String ''a''), (''use'', V_Object ?u)]"
  let ?c = "plain_config [(''retries'', V_Int 0), (''projects'', V_Array [V_Object ?p])]"
  have checks: "map_of use_checks ''avd'' = Some optional_string" "map_of use_checks ''retries'' = Some non_negative_integer"
    "map_of project_checks ''name'' = Some (check not_blank_string Non_Empty_String)"
    "map_of project_checks ''use'' = Some (check is_plain_object An_Object)"
    "map_of root_checks ''projects'' = Some (check is_array An_Array_Of_Projects)"
    by (simp_all add: use_checks_def use_root_keys_def root_checks_def project_checks_def)
  have ok: "config_shape_issues (config_values ?c) = []"
    by (simp add: plain_config_def config_shape_issues_def check_keys_def check_entry_def checks root_check_table
        js_get_def project_issues_def check_project_use_def Let_def check_def optional_string_def
        non_negative_integer_def is_integer_from_def not_blank_string_def js_blank_def js_space_def)
  have wf: "map_wf ?u" by (simp add: map_wf_def map_keys_def)
  have prem: "js_get ''projects'' (config_values ?c) = V_Array [V_Object ?p]" "js_get ''use'' ?p = V_Object ?u"
    by (simp_all add: plain_config_def js_get_def)
  from accepted_use_merges [OF ok prem(1) _ prem(2) wf] obtain m
    where m: "effective_config_for_project ?c (Some ?u) = Inr (plain_config m)"
      and get: "\<forall>k. js_get k m =
              (if k = ''launchEmulators'' \<and> js_get k ?u = V_Undefined \<and> js_truthy (js_get ''avd'' ?u) then V_Bool True
               else if js_get k ?u = V_Undefined then js_get k (config_values ?c) else js_get k ?u)"
    by auto
  have "js_get ''launchEmulators'' m = V_Bool True" "js_get ''retries'' m = V_Int 2"
    using get [rule_format, of "''launchEmulators''"] get [rule_format, of "''retries''"]
    by (simp_all add: js_get_def)
  with m show ?thesis unfolding Let_def by blast
qed

section \<open>Loaded configs\<close>

lemma default_accepted: "\<forall>kv \<in> set (default_config cwd). root_accepts kv"
proof -
  have "map_of root_checks ''screenshot'' = Some (one_of [''always'', ''only-on-failure'', ''never''])"
    "map_of root_checks ''daemonAddress'' = Some (check is_string A_String)"
    "map_of root_checks ''outputDir'' = Some (check is_string A_String)"
    by (simp_all add: root_checks_def)
  then show ?thesis
    unfolding default_config_def
    by (simp add: root_accepts_iff root_check_table check_def positive_ms_def non_negative_integer_def one_of_def
        includes_string_def globs_def positive_integer_def is_integer_from_def)
qed

lemma map_wf_default [simp]: "map_wf (default_config cwd)"
  by (simp add: default_config_def map_wf_def map_keys_def)

definition required_keys :: "string list" where
  "required_keys = [''timeout'', ''retries'', ''screenshot'', ''testMatch'', ''daemonAddress'', ''rootDir'', ''outputDir'', ''workers'', ''launchEmulators'']"

lemma default_defined: "k \<in> set required_keys \<Longrightarrow> js_get k (default_config cwd) \<noteq> V_Undefined"
  by (auto simp: required_keys_def default_config_def js_get_def)

lemma no_default_projects: "js_get ''projects'' (default_config cwd) = V_Undefined"
  by (simp add: default_config_def js_get_def)

text \<open>A config built over the defaults from an accepted object.\<close>

lemma built_config:
  fixes cwd d :: string
  assumes "config_shape_issues obj = []" and "map_wf obj"
  defines "raw \<equiv> omit_undefined obj"
  defines "base \<equiv> spread (default_config cwd) raw"
  shows "apply_config_defaults (map_set ''rootDir'' (V_String d) base) raw =
      Inr (if js_get ''launchEmulators'' obj = V_Undefined \<and> js_truthy (js_get ''avd'' obj)
           then map_set ''launchEmulators'' (V_Bool True) (map_set ''rootDir'' (V_String d) base)
           else map_set ''rootDir'' (V_String d) base)"
    and "apply_config_defaults base raw =
      Inr (if js_get ''launchEmulators'' obj = V_Undefined \<and> js_truthy (js_get ''avd'' obj)
           then map_set ''launchEmulators'' (V_Bool True) base else base)"
    and "js_get k base = (if js_get k obj = V_Undefined then js_get k (default_config cwd) else js_get k obj)"
    and "\<forall>kv \<in> set base. root_accepts kv"
    and "map_wf base"
proof -
  have "first_error option_validators raw = Inr ()"
    by (rule validators_accept) (use shape_root [OF assms(1)] set_omit_undefined raw_def in blast)
  then show "apply_config_defaults (map_set ''rootDir'' (V_String d) base) raw =
      Inr (if js_get ''launchEmulators'' obj = V_Undefined \<and> js_truthy (js_get ''avd'' obj)
           then map_set ''launchEmulators'' (V_Bool True) (map_set ''rootDir'' (V_String d) base)
           else map_set ''rootDir'' (V_String d) base)"
    and "apply_config_defaults base raw =
      Inr (if js_get ''launchEmulators'' obj = V_Undefined \<and> js_truthy (js_get ''avd'' obj)
           then map_set ''launchEmulators'' (V_Bool True) base else base)"
    by (simp_all add: apply_config_defaults_def raw_def js_get_omit_undefined [OF assms(2)])
  show "js_get k base = (if js_get k obj = V_Undefined then js_get k (default_config cwd) else js_get k obj)"
    unfolding base_def raw_def by (rule js_get_spread [OF assms(2)])
  show "\<forall>kv \<in> set base. root_accepts kv"
    unfolding base_def raw_def
    using default_accepted shape_root [OF assms(1)] by (auto dest!: set_spreadD set_omit_undefined)
  show "map_wf base" unfolding base_def by simp
qed

text \<open>What a config that passed the checks holds, read off the tables.\<close>

lemma well_typed_values:
  assumes "\<forall>kv \<in> set m. root_accepts kv" and "\<forall>k \<in> set required_keys. js_get k m \<noteq> V_Undefined"
  shows "(\<exists>n \<ge> 1. js_get ''workers'' m = V_Int n) \<and> (\<exists>n \<ge> 0. js_get ''retries'' m = V_Int n) \<and>
         positive_number (js_get ''timeout'' m) \<and> is_string_array (js_get ''testMatch'' m) \<and>
         is_string (js_get ''rootDir'' m) \<and> is_boolean (js_get ''launchEmulators'' m) \<and>
         validate_devices_option (raw_devices_of (js_get ''devices'' m)) = Inr ()"
proof -
  have req: "js_get k m \<noteq> V_Undefined" if "k \<in> set required_keys" for k using assms(2) that by blast
  have acc: "\<forall>kv \<in> set m. fst kv \<noteq> ''appState'' \<longrightarrow> root_accepts kv" using assms(1) by blast
  have r: "''workers'' \<in> set required_keys" "''retries'' \<in> set required_keys" "''timeout'' \<in> set required_keys"
    "''testMatch'' \<in> set required_keys" "''rootDir'' \<in> set required_keys" "''launchEmulators'' \<in> set required_keys"
    by (simp_all add: required_keys_def)
  note val = accepted_value [OF acc]
  have w: "\<exists>n \<ge> lo. v = V_Int n" if "is_integer_from lo v" for lo v
    using that by (simp add: is_integer_from_def split: js_value.splits)
  have "\<exists>n \<ge> 1. js_get ''workers'' m = V_Int n"
    using val [OF root_check_table(10)] req [OF r(1)] by (intro w) (simp add: positive_integer_def check_def split: if_splits)
  moreover have "\<exists>n \<ge> 0. js_get ''retries'' m = V_Int n"
    using val [OF root_check_table(11)] req [OF r(2)] by (intro w) (simp add: non_negative_integer_def check_def split: if_splits)
  moreover have "positive_number (js_get ''timeout'' m)"
    using val [OF root_check_table(12)] req [OF r(3)] by (simp add: positive_ms_def check_def split: if_splits)
  moreover have "is_string_array (js_get ''testMatch'' m)"
    using val [OF root_check_table(13)] req [OF r(4)] by (simp add: globs_def check_def split: if_splits)
  moreover have "is_string (js_get ''rootDir'' m)"
    using val [OF root_check_table(14)] req [OF r(5)] by (simp add: check_def split: if_splits)
  moreover have "is_boolean (js_get ''launchEmulators'' m)"
    using val [OF root_check_table(15)] req [OF r(6)] by (simp add: check_def split: if_splits)
  moreover have "validate_devices_option (raw_devices_of (js_get ''devices'' m)) = Inr ()"
  proof (cases "js_get ''devices'' m = V_Undefined")
    case False
    with val [OF root_check_table(9)] have "validate_devices [(''devices'', js_get ''devices'' m)] = Inr ()"
      by (simp add: delegated_accepts)
    then show ?thesis by (simp add: validate_devices_def split: sum.splits)
  qed simp
  ultimately show ?thesis by blast
qed

lemma set_map_set_accepted:
  "\<forall>kv \<in> set m. root_accepts kv \<Longrightarrow> root_accepts (k, v) \<Longrightarrow> \<forall>kv \<in> set (map_set k v m). root_accepts kv"
  by (auto dest: set_map_setD)

lemma root_dir_accepted: "root_accepts (''rootDir'', V_String d)"
  by (simp add: root_accepts_iff root_check_table check_def)

text \<open>
  C9. A loaded config is fully defined and well typed: every option with a default is present, the
  worker count is a positive integer, the timeout positive, retries not negative, the device group
  valid, and the whole config passes the checks again; its \<open>rootDir\<close> is the root the caller asked for
  unless the config pinned one, and \<open>workers\<close> counts as explicit only if the file set it.
\<close>

theorem loaded_config_well_typed:
  assumes "load_config_file cwd path root (Config_Export original) = Inr c" and "map_wf (config_values original)"
  shows "config_shape_issues (config_values c) = [] \<and>
         (\<forall>k \<in> set required_keys. js_get k (config_values c) \<noteq> V_Undefined) \<and>
         (\<exists>n \<ge> 1. js_get ''workers'' (config_values c) = V_Int n) \<and>
         (\<exists>n \<ge> 0. js_get ''retries'' (config_values c) = V_Int n) \<and>
         positive_number (js_get ''timeout'' (config_values c)) \<and>
         is_string_array (js_get ''testMatch'' (config_values c)) \<and>
         validate_devices_option (raw_devices_of (js_get ''devices'' (config_values c))) = Inr () \<and>
         js_get ''rootDir'' (config_values c) = V_String (resolve_root_dir cwd original root) \<and>
         (\<not> raw_has_explicit_root_dir original \<longrightarrow> resolve_root_dir cwd original root = root) \<and>
         explicit_workers c = Some (raw_has_explicit_workers original)"
proof -
  from assms(1) have shape: "config_shape_issues (config_values original) = []"
    by (simp add: load_config_file_def Let_def split: if_splits)
  note built = built_config [OF shape assms(2)]
  define base where "base = spread (default_config cwd) (omit_undefined (config_values original))"
  define d where "d = resolve_root_dir cwd original root"
  define m where "m = (if js_get ''launchEmulators'' (config_values original) = V_Undefined \<and>
      js_truthy (js_get ''avd'' (config_values original))
      then map_set ''launchEmulators'' (V_Bool True) (map_set ''rootDir'' (V_String d) base)
      else map_set ''rootDir'' (V_String d) base)"
  have c: "config_values c = m" "explicit_workers c = Some (raw_has_explicit_workers original)"
    using assms(1) shape built(1) [of d cwd] by (auto simp: load_config_file_def Let_def base_def d_def m_def)
  have acc: "\<forall>kv \<in> set m. root_accepts kv"
  proof -
    have "\<forall>kv \<in> set (map_set ''rootDir'' (V_String d) base). root_accepts kv"
      by (rule set_map_set_accepted [OF built(4) [of cwd, folded base_def] root_dir_accepted])
    then show ?thesis unfolding m_def using set_map_set_accepted launch_accepted by presburger
  qed
  have get: "js_get k m = (if k = ''launchEmulators'' \<and> js_get k (config_values original) = V_Undefined \<and>
        js_truthy (js_get ''avd'' (config_values original)) then V_Bool True
      else if k = ''rootDir'' then V_String d
      else if js_get k (config_values original) = V_Undefined then js_get k (default_config cwd)
      else js_get k (config_values original))" for k
    using built(3) [of k cwd] unfolding m_def base_def [symmetric] by (simp add: js_get_map_set)
  have req: "\<forall>k \<in> set required_keys. js_get k m \<noteq> V_Undefined"
  proof
    fix k assume "k \<in> set required_keys"
    from default_defined [OF this, of cwd] show "js_get k m \<noteq> V_Undefined"
      unfolding get by (simp del: js_truthy.simps)
  qed
  have "''projects'' \<noteq> ''launchEmulators''" "''projects'' \<noteq> ''rootDir''" by simp_all
  then have "js_get ''projects'' m = js_get ''projects'' (config_values original)"
    unfolding get by (simp add: no_default_projects)
  with shape acc have "config_shape_issues m = []" by (simp add: shape_iff)
  moreover have "js_get ''rootDir'' m = V_String d" unfolding get by simp
  moreover have "\<not> raw_has_explicit_root_dir original \<Longrightarrow> d = root"
    by (simp add: d_def resolve_root_dir_def split: js_value.splits)
  ultimately show ?thesis using well_typed_values [OF acc req] req unfolding c(1) d_def using c(2) by blast
qed

theorem loaded_config_well_typed_witness:
  "let original = plain_config [(''workers'', V_Int 4), (''avd'', V_String ''Pixel'')]
   in case load_config_file ''/home'' ''/p/c.ts'' ''/p'' (Config_Export original) of
        Inr c \<Rightarrow> (\<exists>n \<ge> 1. js_get ''workers'' (config_values c) = V_Int n) \<and> explicit_workers c = Some True
      | Inl _ \<Rightarrow> False"
proof -
  let ?o = "plain_config [(''workers'', V_Int 4), (''avd'', V_String ''Pixel'')]"
  have avd: "map_of root_checks ''avd'' = Some optional_string" by (simp add: root_checks_def)
  have shape: "config_shape_issues (config_values ?o) = []"
    by (simp add: plain_config_def config_shape_issues_def check_keys_def check_entry_def root_check_table avd
        positive_integer_def optional_string_def check_def is_integer_from_def js_get_def)
  have wf: "map_wf (config_values ?o)" by (simp add: plain_config_def map_wf_def map_keys_def)
  obtain c where c: "load_config_file ''/home'' ''/p/c.ts'' ''/p'' (Config_Export ?o) = Inr c"
    using shape built_config(1) [OF shape wf] by (simp add: load_config_file_def Let_def)
  have "raw_has_explicit_workers ?o"
    by (simp add: raw_has_explicit_workers_def plain_config_def js_get_def)
  with loaded_config_well_typed [OF c wf] show ?thesis unfolding Let_def c by simp
qed

section \<open>\<open>defineConfig\<close>\<close>

lemma shape_of_built:
  assumes "config_shape_issues obj = []" and "map_wf obj" and "\<forall>kv \<in> set m. root_accepts kv"
    and "js_get ''projects'' m = js_get ''projects'' obj"
  shows "config_shape_issues m = []"
  using assms(1,3,4) by (simp add: shape_iff)

text \<open>
  \<open>defineConfig\<close> is transparent: it accepts the same objects a config file may export directly,
  and loading its result gives the config loading the object itself gives: the same value of every
  key, the same \<open>rootDir\<close> although \<open>defineConfig\<close> has filled in the working directory, and the same
  record of whether \<open>workers\<close> and \<open>rootDir\<close> were set by the user.
\<close>

theorem define_config_transparent:
  assumes "map_wf obj"
  shows "case define_config cwd obj of
           Inl e \<Rightarrow> load_config_file cwd path root (Config_Export (plain_config obj)) = Inl e
         | Inr d \<Rightarrow> \<exists>a b. load_config_file cwd path root (Config_Export d) = Inr a \<and>
             load_config_file cwd path root (Config_Export (plain_config obj)) = Inr b \<and>
             (\<forall>k. js_get k (config_values a) = js_get k (config_values b)) \<and>
             explicit_workers a = explicit_workers b \<and> explicit_root_dir a = explicit_root_dir b \<and>
             config_path a = config_path b"
proof (cases "config_shape_issues obj = []")
  case False
  then show ?thesis by (simp add: define_config_def load_config_file_def plain_config_def Let_def)
next
  case shape: True
  let ?launch = "js_get ''launchEmulators'' obj = V_Undefined \<and> js_truthy (js_get ''avd'' obj)"
  define base where "base = spread (default_config cwd) (omit_undefined obj)"
  define v where "v = (if ?launch then map_set ''launchEmulators'' (V_Bool True) base else base)"
  note built = built_config [OF shape assms, where cwd = cwd, folded base_def]
  let ?wk = "js_get ''workers'' obj \<noteq> V_Undefined"
  let ?rt = "js_get ''rootDir'' obj \<noteq> V_Undefined"
  let ?d = "\<lparr> config_values = v, explicit_workers = Some ?wk, explicit_root_dir = Some ?rt, config_path = None \<rparr>"
  have d: "define_config cwd obj = Inr ?d"
    using shape built(2) unfolding define_config_def Let_def base_def [symmetric] v_def
    by (simp add: js_get_omit_undefined [OF assms])
  have acc: "\<forall>kv \<in> set v. root_accepts kv"
    unfolding v_def using set_map_set_accepted [OF built(4) launch_accepted] built(4) by presburger
  have wf: "map_wf v" unfolding v_def using built(5) by simp
  have get: "js_get k v = (if k = ''launchEmulators'' \<and> ?launch then V_Bool True
      else if js_get k obj = V_Undefined then js_get k (default_config cwd) else js_get k obj)" for k
    using built(3) [of k] unfolding v_def by (simp add: js_get_map_set)
  have "js_get ''projects'' v = js_get ''projects'' obj"
    unfolding get using launch_not_app_state(2) no_default_projects by simp
  from shape_of_built [OF shape assms acc this] have shape': "config_shape_issues v = []" .
  have launch': "js_get ''launchEmulators'' v \<noteq> V_Undefined"
    unfolding get using default_defined [of "''launchEmulators''" cwd] by (simp add: required_keys_def)
  define base' where "base' = spread (default_config cwd) (omit_undefined v)"
  note built' = built_config [OF shape' wf, where cwd = cwd, folded base'_def]
  define r where "r = resolve_root_dir cwd (plain_config obj) root"
  have r': "resolve_root_dir cwd ?d root = r"
    unfolding r_def resolve_root_dir_def raw_has_explicit_root_dir_def plain_config_def
    by (simp add: get split: js_value.splits)
  define a where "a = map_set ''rootDir'' (V_String r) base'"
  define b where "b = (if ?launch then map_set ''launchEmulators'' (V_Bool True) (map_set ''rootDir'' (V_String r) base)
      else map_set ''rootDir'' (V_String r) base)"
  have A: "load_config_file cwd path root (Config_Export ?d) =
      Inr \<lparr> config_values = a, explicit_workers = Some ?wk, explicit_root_dir = Some ?rt, config_path = Some path \<rparr>"
    using shape' built'(1) [of r] launch' r'
    unfolding load_config_file_def Let_def base'_def [symmetric] a_def
    by (simp add: base'_def [symmetric] raw_has_explicit_workers_def raw_has_explicit_root_dir_def)
  have B: "load_config_file cwd path root (Config_Export (plain_config obj)) =
      Inr \<lparr> config_values = b, explicit_workers = Some ?wk, explicit_root_dir = Some ?rt, config_path = Some path \<rparr>"
    using shape built(1) [of r] r_def
    unfolding load_config_file_def Let_def b_def
    by (simp add: base_def [symmetric] raw_has_explicit_workers_def raw_has_explicit_root_dir_def plain_config_def)
  have "js_get k a = js_get k b" for k
    using built(3) [of k] built'(3) [of k] unfolding a_def b_def
    by (simp add: js_get_map_set get del: js_truthy.simps)
  with d A B show ?thesis by simp
qed

theorem define_config_transparent_witness:
  "case define_config ''/w'' [(''workers'', V_Int 2)] of
     Inr d \<Rightarrow> \<exists>a b. load_config_file ''/w'' ''/w/c.ts'' ''/p'' (Config_Export d) = Inr a \<and>
             load_config_file ''/w'' ''/w/c.ts'' ''/p'' (Config_Export (plain_config [(''workers'', V_Int 2)])) = Inr b \<and>
             explicit_root_dir a = explicit_root_dir b
   | Inl _ \<Rightarrow> False"
proof -
  have shape: "config_shape_issues [(''workers'', V_Int 2)] = []"
    by (simp add: config_shape_issues_def check_keys_def check_entry_def root_check_table positive_integer_def
        check_def is_integer_from_def js_get_def)
  have wf: "map_wf [(''workers'', V_Int 2)]" by (simp add: map_wf_def map_keys_def)
  obtain d where d: "define_config ''/w'' [(''workers'', V_Int 2)] = Inr d"
    using shape built_config(2) [OF shape wf] by (simp add: define_config_def Let_def)
  from define_config_transparent [OF wf, of "''/w''" "''/w/c.ts''" "''/p''"] show ?thesis
    unfolding d by auto
qed

end
