(* ===== verification/Projects.thy ===== *)
theory Projects
  imports Config_Load
begin

text \<open>
  Projects (\<open>project.ts\<close>): their validation with the search for a dependency cycle, their
  resolution against the root config, the sort into execution waves, the transitive dependencies
  of a selection, and sharding. Error messages are kept as data.
\<close>

section \<open>Data\<close>

record project_config =
  pc_name :: string
  pc_test_match :: "string list option"
  pc_test_ignore :: "string list option"
  pc_dependencies :: "string list option"
  pc_use :: "js_object option"
  pc_workers :: "int option"

record resolved_project =
  proj_name :: string
  test_match :: "string list"
  test_ignore :: "string list"
  dependencies :: "string list"
  proj_use :: "js_object option"
  test_files :: "string list"
  effective_config :: config_object
  proj_signature :: string
  synthesized :: bool
  proj_workers :: "int option"

definition string_list :: "js_value \<Rightarrow> string list option" where
  "string_list v = (case v of V_Array _ \<Rightarrow> Some (strings_of v) | _ \<Rightarrow> None)"

text \<open>The typed view of an entry of \<open>projects\<close> that passed the checks.\<close>

definition project_config_of :: "js_object \<Rightarrow> project_config" where
  "project_config_of p = \<lparr>
     pc_name = nullish (string_key ''name'' p) [],
     pc_test_match = string_list (js_get ''testMatch'' p),
     pc_test_ignore = string_list (js_get ''testIgnore'' p),
     pc_dependencies = string_list (js_get ''dependencies'' p),
     pc_use = (case js_get ''use'' p of V_Object u \<Rightarrow> Some u | _ \<Rightarrow> None),
     pc_workers = (case js_get ''workers'' p of V_Int n \<Rightarrow> Some n | _ \<Rightarrow> None) \<rparr>"

definition config_projects :: "config_object \<Rightarrow> project_config list" where
  "config_projects c =
     (case js_get ''projects'' (config_values c) of
        V_Array ps \<Rightarrow> concat (map (\<lambda>v. case v of V_Object p \<Rightarrow> [project_config_of p] | _ \<Rightarrow> []) ps)
      | _ \<Rightarrow> [])"

section \<open>Cycles\<close>

text \<open>
  \<open>dfs\<close> of \<open>findCycle\<close>, run over a list of names: the loop over a project's dependencies and the
  loop over all projects are the same. \<open>path\<close> is the path array and, as a set, \<open>stack\<close>: the code
  pushes and pops both together. \<open>visited\<close> is threaded through; the fuel bounds the depth.
\<close>

datatype dfs_result = Out_Of_Fuel | Cycle "string list" | Visited "string list"

fun dfs_list ::
  "nat \<Rightarrow> (string, string list) jsmap \<Rightarrow> string list \<Rightarrow> string list \<Rightarrow> string list \<Rightarrow> dfs_result" where
  "dfs_list fuel deps path visited [] = Visited visited"
| "dfs_list 0 deps path visited (n # ns) = Out_Of_Fuel"
| "dfs_list (Suc fuel) deps path visited (n # ns) =
     (case (if n \<in> set path then Cycle (dropWhile (\<lambda>m. m \<noteq> n) path @ [n])
            else if n \<in> set visited then Visited visited
            else case dfs_list fuel deps (path @ [n]) visited (nullish (map_get deps n) []) of
                   Visited v \<Rightarrow> Visited (set_add n v)
                 | r \<Rightarrow> r) of
        Visited v \<Rightarrow> dfs_list (Suc fuel) deps path v ns
      | r \<Rightarrow> r)"

definition map_of_entries :: "('k \<times> 'v) list \<Rightarrow> ('k, 'v) jsmap" where
  "map_of_entries kvs = fold (\<lambda>(k, v). map_set k v) kvs []"

definition cycle_fuel :: "project_config list \<Rightarrow> nat" where
  "cycle_fuel ps = Suc (length ps + length (concat (map (\<lambda>p. nullish (pc_dependencies p) []) ps)))"

definition find_cycle :: "project_config list \<Rightarrow> string list option" where
  "find_cycle ps =
     (case dfs_list (cycle_fuel ps) (map_of_entries (map (\<lambda>p. (pc_name p, nullish (pc_dependencies p) [])) ps))
             [] [] (map pc_name ps) of
        Cycle c \<Rightarrow> Some c
      | _ \<Rightarrow> None)"

section \<open>Validation\<close>

datatype use_issue =
    Ios_With_Avd | Ios_With_Apk | Ios_With_Agent_Apk
  | Android_With_Simulator | Android_With_App | Android_With_Xctestrun
  | Mixed_Platforms

definition is_set :: "string \<Rightarrow> js_object \<Rightarrow> bool" where
  "is_set k use \<longleftrightarrow> js_get k use \<noteq> V_Undefined \<and> js_get k use \<noteq> V_Null"

definition project_use_issue :: "js_object option \<Rightarrow> use_issue option" where
  "project_use_issue u =
     (case u of
        None \<Rightarrow> None
      | Some use \<Rightarrow>
          if js_get ''platform'' use = V_String ''ios'' then
            (if is_set ''avd'' use then Some Ios_With_Avd
             else if is_set ''apk'' use then Some Ios_With_Apk
             else if is_set ''agentApk'' use \<or> is_set ''agentTestApk'' use then Some Ios_With_Agent_Apk
             else None)
          else if js_get ''platform'' use = V_String ''android'' then
            (if is_set ''simulator'' use then Some Android_With_Simulator
             else if is_set ''app'' use then Some Android_With_App
             else if is_set ''iosXctestrun'' use then Some Android_With_Xctestrun
             else None)
          else if (is_set ''avd'' use \<or> is_set ''apk'' use) \<and>
                  (is_set ''simulator'' use \<or> is_set ''app'' use \<or> is_set ''iosXctestrun'' use)
          then Some Mixed_Platforms else None)"

datatype project_issue =
    No_Name
  | Duplicate_Name string
  | Self_Dependency string
  | Unknown_Dependency string string
  | Circular_Dependency "string list"
  | Use_Issue string use_issue
  | Merge_Issue string config_error

text \<open>The first loop: the issues, and the set of names.\<close>

fun name_issues :: "string list \<Rightarrow> project_config list \<Rightarrow> project_issue list \<times> string list" where
  "name_issues names [] = ([], names)"
| "name_issues names (p # ps) =
     (if pc_name p = [] then (let (is, ns) = name_issues names ps in (No_Name # is, ns))
      else if pc_name p \<in> set names
      then (let (is, ns) = name_issues names ps in (Duplicate_Name (pc_name p) # is, ns))
      else name_issues (set_add (pc_name p) names) ps)"

definition reference_issues :: "string list \<Rightarrow> project_config \<Rightarrow> project_issue list" where
  "reference_issues names p =
     concat (map (\<lambda>dep. if dep = pc_name p then [Self_Dependency (pc_name p)]
                        else if dep \<notin> set names then [Unknown_Dependency (pc_name p) dep]
                        else []) (nullish (pc_dependencies p) []))"

definition merge_issues :: "config_object \<Rightarrow> project_config \<Rightarrow> project_issue list" where
  "merge_issues config p =
     (case project_use_issue (pc_use p) of
        Some i \<Rightarrow> [Use_Issue (pc_name p) i]
      | None \<Rightarrow> (case effective_config_for_project config (pc_use p) of
                   Inl e \<Rightarrow> [Merge_Issue (pc_name p) e]
                 | Inr _ \<Rightarrow> []))"

definition validate_projects :: "config_object \<Rightarrow> project_config list \<Rightarrow> project_issue list" where
  "validate_projects config projects =
     (if projects = [] then []
      else let (issues, names) = name_issues [] projects;
               refs = concat (map (reference_issues names) projects);
               cycle = (if refs = [] then (case find_cycle projects of
                                             Some c \<Rightarrow> [Circular_Dependency c]
                                           | None \<Rightarrow> [])
                        else [])
           in issues @ refs @ cycle @ concat (map (merge_issues config) projects))"

section \<open>Resolution\<close>

definition signature_of :: "config_object \<Rightarrow> string" where
  "signature_of c = device_signature (target_of (config_values c))"

text \<open>\<open>validateProjects\<close> has run, so the merge succeeds; its error is kept for an unchecked list.\<close>

definition resolve_project :: "config_object \<Rightarrow> project_config \<Rightarrow> config_error + resolved_project" where
  "resolve_project config p =
     (case effective_config_for_project config (pc_use p) of
        Inl e \<Rightarrow> Inl e
      | Inr eff \<Rightarrow> Inr \<lparr>
          proj_name = pc_name p,
          test_match = nullish (pc_test_match p) (strings_of (js_get ''testMatch'' (config_values config))),
          test_ignore = nullish (pc_test_ignore p) [],
          dependencies = nullish (pc_dependencies p) [],
          proj_use = pc_use p, test_files = [], effective_config = eff,
          proj_signature = signature_of eff, synthesized = False, proj_workers = pc_workers p \<rparr>)"

fun map_result :: "('a \<Rightarrow> 'e + 'b) \<Rightarrow> 'a list \<Rightarrow> 'e + 'b list" where
  "map_result f [] = Inr []"
| "map_result f (x # xs) =
     (case f x of
        Inl e \<Rightarrow> Inl e
      | Inr y \<Rightarrow> (case map_result f xs of Inl e \<Rightarrow> Inl e | Inr ys \<Rightarrow> Inr (y # ys)))"

datatype resolve_error = Project_Issues "project_issue list" | Merge_Failed config_error

definition resolve_projects :: "config_object \<Rightarrow> resolve_error + resolved_project list" where
  "resolve_projects config =
     (let projects = config_projects config
      in if projects = [] then Inr [\<lparr>
           proj_name = ''default'',
           test_match = strings_of (js_get ''testMatch'' (config_values config)),
           test_ignore = [], dependencies = [], proj_use = None, test_files = [],
           effective_config = config, proj_signature = signature_of config,
           synthesized = True, proj_workers = None \<rparr>]
         else if validate_projects config projects \<noteq> []
         then Inl (Project_Issues (validate_projects config projects))
         else map_sum Merge_Failed id (map_result (resolve_project config) projects))"

definition project_label :: "resolved_project option \<Rightarrow> string option" where
  "project_label p = (case p of Some q \<Rightarrow> if synthesized q then None else Some (proj_name q) | None \<Rightarrow> None)"

definition validate_project_names :: "string list \<Rightarrow> resolved_project list \<Rightarrow> string option" where
  "validate_project_names requested all_projects =
     find (\<lambda>n. n \<notin> set (map proj_name all_projects)) requested"

definition find_projects_for_file ::
  "(string \<Rightarrow> string list \<Rightarrow> string list \<Rightarrow> bool) \<Rightarrow> string \<Rightarrow> resolved_project list \<Rightarrow> string list" where
  "find_projects_for_file matches_test_file path projects =
     map proj_name (filter (\<lambda>p. matches_test_file path (test_match p) (test_ignore p)) projects)"

section \<open>Waves\<close>

definition by_name :: "resolved_project list \<Rightarrow> (string, resolved_project) jsmap" where
  "by_name ps = map_of_entries (map (\<lambda>p. (proj_name p, p)) ps)"

definition in_degrees :: "resolved_project list \<Rightarrow> (string, int) jsmap" where
  "in_degrees ps =
     fold (\<lambda>p m. fold (\<lambda>_ m. map_set (proj_name p) (nullish (map_get m (proj_name p)) 0 + 1) m) (dependencies p) m)
       ps (map_of_entries (map (\<lambda>p. (proj_name p, 0)) ps))"

text \<open>A finished project lowers the in-degree of the projects that list it.\<close>

definition release_dependents :: "resolved_project list \<Rightarrow> string \<Rightarrow> (string, int) jsmap \<Rightarrow> (string, int) jsmap" where
  "release_dependents ps n degrees =
     fold (\<lambda>other m. if n \<in> set (dependencies other)
                     then map_set (proj_name other) (nullish (map_get m (proj_name other)) 0 - 1) m
                     else m) ps degrees"

definition ready_names :: "(string, int) jsmap \<Rightarrow> string list \<Rightarrow> string list" where
  "ready_names degrees remaining = filter (\<lambda>n. nullish (map_get degrees n) 0 = 0) remaining"

function waves_from ::
  "resolved_project list \<Rightarrow> (string, int) jsmap \<Rightarrow> string list \<Rightarrow> string list + resolved_project list list" where
  "waves_from ps degrees remaining =
     (if remaining = [] then Inr []
      else let ready = ready_names degrees remaining
           in if ready = [] then Inl remaining
              else map_sum id ((#) (map (\<lambda>n. the (map_get (by_name ps) n)) ready))
                     (waves_from ps (fold (release_dependents ps) ready degrees)
                        (filter (\<lambda>n. n \<notin> set ready) remaining)))"
  by pat_completeness auto
termination
proof (relation "measure (\<lambda>(ps, degrees, remaining). length remaining)")
  fix ps degrees and remaining :: "string list" and ready
  assume "ready = ready_names degrees remaining" "ready \<noteq> []"
  then obtain n where "n \<in> set ready" "n \<in> set remaining"
    by (cases ready) (auto simp: ready_names_def dest: Cons_eq_filterD)
  then show "((ps, fold (release_dependents ps) ready degrees, filter (\<lambda>n. n \<notin> set ready) remaining),
      ps, degrees, remaining) \<in> measure (\<lambda>(ps, degrees, remaining). length remaining)"
    by (auto simp: length_filter_less)
qed simp

declare waves_from.simps [simp del]

definition topological_sort :: "resolved_project list \<Rightarrow> string list + resolved_project list list" where
  "topological_sort ps = waves_from ps (in_degrees ps) (set_of_list (map proj_name ps))"

section \<open>Transitive dependencies\<close>

text \<open>\<open>collect\<close> over a list of names, with the result set threaded through.\<close>

fun collect :: "nat \<Rightarrow> (string, resolved_project) jsmap \<Rightarrow> string list \<Rightarrow> string list \<Rightarrow> string list option" where
  "collect fuel projects result [] = Some result"
| "collect 0 projects result (n # ns) = None"
| "collect (Suc fuel) projects result (n # ns) =
     (case (if n \<in> set result then Some result
            else case map_get projects n of
                   None \<Rightarrow> Some (set_add n result)
                 | Some p \<Rightarrow> collect fuel projects (set_add n result) (dependencies p)) of
        Some r \<Rightarrow> collect (Suc fuel) projects r ns
      | None \<Rightarrow> None)"

definition collect_fuel :: "string list \<Rightarrow> resolved_project list \<Rightarrow> nat" where
  "collect_fuel names ps = Suc (length names + length (concat (map dependencies ps)))"

definition collect_transitive_deps :: "string list \<Rightarrow> resolved_project list \<Rightarrow> string list option" where
  "collect_transitive_deps names ps = collect (collect_fuel names ps) (by_name ps) [] names"

section \<open>Sharding\<close>

text \<open>The default order of \<open>Array.prototype.sort\<close>: by code units.\<close>

fun str_le :: "string \<Rightarrow> string \<Rightarrow> bool" where
  "str_le [] t = True"
| "str_le (c # s) [] = False"
| "str_le (c # s) (d # t) =
     ((of_char c :: nat) < of_char d \<or> (of_char c :: nat) = of_char d \<and> str_le s t)"

text \<open>\<open>sorted.filter((_, i) => i % total === current - 1)\<close>.\<close>

definition shard_slice :: "nat \<Rightarrow> nat \<Rightarrow> 'a list \<Rightarrow> 'a list" where
  "shard_slice current shards xs =
     map (nth xs) (filter (\<lambda>i. i mod shards = current - 1) [0..<length xs])"

text \<open>\<open>testFiles.filter((f) => mine.delete(f))\<close>: each file of the set once, in the list's order.\<close>

fun keep_mine :: "string list \<Rightarrow> string list \<Rightarrow> string list" where
  "keep_mine mine [] = []"
| "keep_mine mine (f # fs) = (if f \<in> set mine then f # keep_mine (set_del f mine) fs else keep_mine mine fs)"

definition shard_files :: "nat \<Rightarrow> nat \<Rightarrow> string list \<Rightarrow> string list" where
  "shard_files current shards files =
     keep_mine (shard_slice current shards (sort_by str_le (set_of_list files))) files"

definition depended_on :: "resolved_project list \<Rightarrow> string list" where
  "depended_on ps = set_of_list (concat (map dependencies ps))"

definition split_project :: "nat \<Rightarrow> nat \<Rightarrow> string list \<Rightarrow> resolved_project \<Rightarrow> resolved_project" where
  "split_project current shards dep_on p =
     (if proj_name p \<in> set dep_on then p else p\<lparr> test_files := shard_files current shards (test_files p) \<rparr>)"

definition has_dependent_tests :: "resolved_project list \<Rightarrow> string \<Rightarrow> bool" where
  "has_dependent_tests ps n \<longleftrightarrow> list_ex (\<lambda>q. n \<in> set (dependencies q) \<and> test_files q \<noteq> []) ps"

text \<open>One pass over the projects, in order and in place, with the \<open>changed\<close> flag.\<close>

definition empty_setup :: "string list \<Rightarrow> nat \<Rightarrow> resolved_project list \<times> bool \<Rightarrow> resolved_project list \<times> bool" where
  "empty_setup dep_on i s =
     (let ps = fst s; p = ps ! i
      in if proj_name p \<notin> set dep_on \<or> test_files p = [] \<or> has_dependent_tests ps (proj_name p) then s
         else (ps[i := p\<lparr> test_files := [] \<rparr>], True))"

definition setup_pass :: "string list \<Rightarrow> resolved_project list \<Rightarrow> resolved_project list \<times> bool" where
  "setup_pass dep_on ps = fold (empty_setup dep_on) [0..<length ps] (ps, False)"

fun setup_loop :: "nat \<Rightarrow> string list \<Rightarrow> resolved_project list \<Rightarrow> resolved_project list option" where
  "setup_loop 0 dep_on ps = None"
| "setup_loop (Suc fuel) dep_on ps =
     (case setup_pass dep_on ps of
        (ps', True) \<Rightarrow> setup_loop fuel dep_on ps'
      | (ps', False) \<Rightarrow> Some ps')"

definition shard_projects :: "resolved_project list \<Rightarrow> nat \<Rightarrow> nat \<Rightarrow> (resolved_project list \<times> string list) option" where
  "shard_projects ps current shards =
     (let dep_on = depended_on ps
      in case setup_loop (Suc (length ps)) dep_on (map (split_project current shards dep_on) ps) of
           None \<Rightarrow> None
         | Some ps' \<Rightarrow> Some (ps', sort_by str_le (set_of_list (concat (map test_files ps')))))"

section \<open>Buckets\<close>

definition bucketize_projects :: "resolved_project list \<Rightarrow> (string, resolved_project list) jsmap" where
  "bucketize_projects ps =
     fold (\<lambda>p m. map_set (proj_signature p) (nullish (map_get m (proj_signature p)) [] @ [p]) m) ps []"

section \<open>A project for concrete inputs\<close>

definition demo_project :: "string \<Rightarrow> string list \<Rightarrow> string list \<Rightarrow> resolved_project" where
  "demo_project n deps files = \<lparr> proj_name = n, test_match = [], test_ignore = [], dependencies = deps, proj_use = None,
     test_files = files, effective_config = plain_config [], proj_signature = [], synthesized = False, proj_workers = None \<rparr>"

end
