(* ===== verification/Project_Graph.thy ===== *)
theory Project_Graph
  imports Projects
begin

text \<open>
  The dependency graph of the projects: \<open>findCycle\<close> reports a cycle exactly when there is one, the
  sort into waves succeeds exactly on acyclic graphs without repeated dependencies and orders the
  projects as the runner needs them, and \<open>collectTransitiveDeps\<close> collects the reachable projects.
\<close>

section \<open>Maps from lists\<close>

lemma map_get_entries: "map_get (map_of_entries kvs) k = map_of (rev kvs) k"
  unfolding map_of_entries_def map_get_fold_set by (simp add: or_else_def split: option.splits)

lemma map_get_entries_distinct: "distinct (map fst kvs) \<Longrightarrow> map_get (map_of_entries kvs) k = map_of kvs k"
proof (induction kvs)
  case (Cons kv kvs)
  obtain k' v where kv: "kv = (k', v)" by fastforce
  with Cons.prems have "map_of kvs k' = None" by (auto simp: map_of_eq_None_iff)
  with Cons show ?case by (auto simp: kv map_get_entries map_add_def split: option.splits)
qed (simp add: map_get_entries)

section \<open>Cycles\<close>

definition successors :: "(string, string list) jsmap \<Rightarrow> string \<Rightarrow> string list" where
  "successors deps n = nullish (map_get deps n) []"

text \<open>A cycle as \<open>findCycle\<close> reports it: each name depends on the next, and it ends where it starts.\<close>

definition is_cycle :: "(string, string list) jsmap \<Rightarrow> string list \<Rightarrow> bool" where
  "is_cycle deps c \<longleftrightarrow> 2 \<le> length c \<and> hd c = last c \<and> successively (\<lambda>a b. b \<in> set (successors deps a)) c"

text \<open>In a list without cycles, latest first, every name comes after its successors.\<close>

fun ranked :: "('a \<Rightarrow> 'a list) \<Rightarrow> 'a list \<Rightarrow> bool" where
  "ranked succ [] = True"
| "ranked succ (n # ns) = (set (succ n) \<subseteq> set ns \<and> ranked succ ns)"

lemma ranked_closed: "ranked succ ns \<Longrightarrow> n \<in> set ns \<Longrightarrow> set (succ n) \<subseteq> set ns"
  by (induction ns) auto

lemma ranked_rank:
  "ranked succ ns \<Longrightarrow> \<exists>f :: 'a \<Rightarrow> nat. \<forall>n \<in> set ns. \<forall>m \<in> set (succ n). f m < f n"
proof (induction ns)
  case (Cons n ns)
  then obtain f :: "'a \<Rightarrow> nat" where f: "\<forall>n \<in> set ns. \<forall>m \<in> set (succ n). f m < f n"
    and sub: "set (succ n) \<subseteq> set ns" "ranked succ ns" by auto
  show ?case
  proof (cases "n \<in> set ns")
    case True
    with f show ?thesis by (auto simp: insert_absorb)
  next
    case False
    let ?f = "f(n := Suc (sum_list (map f (succ n))))"
    have new: "?f m < ?f n" if "m \<in> set (succ n)" for m
      using that sub(1) False member_le_sum_list [of "f m" "map f (succ n)"] by (auto simp: less_Suc_eq_le)
    have old: "?f m < ?f k" if "k \<in> set ns" "m \<in> set (succ k)" for k m
      using that f ranked_closed [OF sub(2) that(1)] False by auto
    have "\<forall>k \<in> set (n # ns). \<forall>m \<in> set (succ k). ?f m < ?f k" using new old by auto
    then show ?thesis by blast
  qed
qed simp

lemma dfs_Visited_ConsE:
  assumes "dfs_list fuel deps path visited (n # ns) = Visited v"
  obtains (seen) f where "fuel = Suc f" "n \<notin> set path" "n \<in> set visited"
      "dfs_list (Suc f) deps path visited ns = Visited v"
    | (fresh) f w where "fuel = Suc f" "n \<notin> set path" "n \<notin> set visited"
      "dfs_list f deps (path @ [n]) visited (successors deps n) = Visited w"
      "dfs_list (Suc f) deps path (set_add n w) ns = Visited v"
  using assms by (cases fuel) (auto simp: successors_def split: if_splits dfs_result.splits)

lemma dfs_Cycle_ConsE:
  assumes "dfs_list fuel deps path visited (n # ns) = Cycle c"
  obtains (found) f where "fuel = Suc f" "n \<in> set path" "c = dropWhile (\<lambda>m. m \<noteq> n) path @ [n]"
    | (below) f where "fuel = Suc f" "n \<notin> set path"
      "dfs_list f deps (path @ [n]) visited (successors deps n) = Cycle c"
    | (later) f v where "fuel = Suc f" "dfs_list (Suc f) deps path v ns = Cycle c"
  using assms by (cases fuel) (auto simp: successors_def split: if_splits dfs_result.splits)

lemma dfs_Out_Of_Fuel_ConsE:
  assumes "dfs_list fuel deps path visited (n # ns) = Out_Of_Fuel"
  obtains (zero) "fuel = 0"
    | (below) f where "fuel = Suc f" "n \<notin> set path"
      "dfs_list f deps (path @ [n]) visited (successors deps n) = Out_Of_Fuel"
    | (later) f v where "fuel = Suc f" "dfs_list (Suc f) deps path v ns = Out_Of_Fuel"
  using assms by (cases fuel) (auto simp: successors_def split: if_splits dfs_result.splits)

lemma dfs_visits:
  "dfs_list fuel deps path visited ns = Visited v \<Longrightarrow> set visited \<subseteq> set v \<and> set ns \<subseteq> set v"
proof (induction fuel arbitrary: path visited ns v)
  case 0
  then show ?case by (cases ns) auto
next
  case (Suc fuel)
  note outer = Suc.IH
  from Suc.prems show ?case
  proof (induction ns arbitrary: visited v)
    case (Cons n ns)
    from Cons.prems show ?case
    proof (cases rule: dfs_Visited_ConsE)
      case (seen f)
      with Cons.IH [of visited v] show ?thesis by auto
    next
      case (fresh f w)
      with Cons.IH [of "set_add n w" v] outer [of "path @ [n]" visited "successors deps n" w]
      show ?thesis by auto
    qed
  qed simp
qed

lemma dfs_ranked:
  "dfs_list fuel deps path visited ns = Visited v \<Longrightarrow> ranked (successors deps) (rev visited) \<Longrightarrow>
   ranked (successors deps) (rev v)"
proof (induction fuel arbitrary: path visited ns v)
  case 0
  then show ?case by (cases ns) auto
next
  case (Suc fuel)
  note outer = Suc.IH
  from Suc.prems show ?case
  proof (induction ns arbitrary: visited v)
    case (Cons n ns)
    from Cons.prems(1) show ?case
    proof (cases rule: dfs_Visited_ConsE)
      case (seen f)
      with Cons.IH [of visited v] Cons.prems(2) show ?thesis by auto
    next
      case (fresh f w)
      then have "ranked (successors deps) (rev w)" using outer Cons.prems(2) by blast
      moreover have "set (successors deps n) \<subseteq> set w" using dfs_visits [OF fresh(4)] by blast
      ultimately have "ranked (successors deps) (rev (set_add n w))" by (simp add: set_add_def)
      with Cons.IH fresh show ?thesis by blast
    qed
  qed simp
qed

lemma dfs_cycle:
  "dfs_list fuel deps path visited ns = Cycle c \<Longrightarrow>
   successively (\<lambda>a b. b \<in> set (successors deps a)) path \<Longrightarrow>
   (path \<noteq> [] \<Longrightarrow> set ns \<subseteq> set (successors deps (last path))) \<Longrightarrow> is_cycle deps c"
proof (induction fuel arbitrary: path visited ns)
  case 0
  then show ?case by (cases ns) auto
next
  case (Suc fuel)
  note outer = Suc.IH
  from Suc.prems show ?case
  proof (induction ns arbitrary: visited)
    case (Cons n ns)
    from Cons.prems(1) show ?case
    proof (cases rule: dfs_Cycle_ConsE)
      case (found f)
      then obtain as bs where split: "path = as @ n # bs" "n \<notin> set as" by (metis split_list_first)
      then have "dropWhile (\<lambda>m. m \<noteq> n) path = n # bs" by (induction as arbitrary: path) auto
      with found have c: "c = n # bs @ [n]" by simp
      have "n \<in> set (successors deps (last (n # bs)))" using Cons.prems(3) split by auto
      with Cons.prems(2) show ?thesis
        by (cases "bs = []") (auto simp: is_cycle_def c split successively_append_iff successively_Cons)
    next
      case (below f)
      have "successively (\<lambda>a b. b \<in> set (successors deps a)) (path @ [n])"
        using Cons.prems(2,3) by (cases path rule: rev_cases) (auto simp: successively_append_iff)
      with outer [of "path @ [n]" visited "successors deps n"] below show ?thesis by simp
    next
      case (later f v)
      with Cons.IH [of v] Cons.prems(2,3) show ?thesis by auto
    qed
  qed simp
qed

lemma dfs_fuel:
  assumes "finite U" and "\<forall>n \<in> U. set (successors deps n) \<subseteq> U"
  shows "set ns \<subseteq> U \<Longrightarrow> set path \<subseteq> U \<Longrightarrow> distinct path \<Longrightarrow> card U < fuel + length path \<Longrightarrow>
    dfs_list fuel deps path visited ns \<noteq> Out_Of_Fuel"
proof (induction fuel arbitrary: path visited ns)
  case 0
  then show ?case using card_mono [OF assms(1), of "set path"] by (simp add: distinct_card)
next
  case (Suc fuel)
  note outer = Suc.IH
  from Suc.prems show ?case
  proof (induction ns arbitrary: visited)
    case (Cons n ns)
    show ?case
    proof
      assume "dfs_list (Suc fuel) deps path visited (n # ns) = Out_Of_Fuel"
      then show False
      proof (cases rule: dfs_Out_Of_Fuel_ConsE)
        case (below f)
        with outer [of "successors deps n" "path @ [n]" visited] Cons.prems assms(2) show ?thesis by auto
      next
        case (later f v)
        with Cons.IH [of v] Cons.prems show ?thesis by auto
      qed simp
    qed
  qed simp
qed

text \<open>The dependencies the configs declare, as edges from a dependency to its dependent.\<close>

definition config_edges :: "project_config list \<Rightarrow> (string \<times> string) set" where
  "config_edges ps = {(d, n). \<exists>p \<in> set ps. pc_name p = n \<and> d \<in> set (nullish (pc_dependencies p) [])}"

definition dep_map :: "project_config list \<Rightarrow> (string, string list) jsmap" where
  "dep_map ps = map_of_entries (map (\<lambda>p. (pc_name p, nullish (pc_dependencies p) [])) ps)"

lemma successors_dep_map:
  assumes "distinct (map pc_name ps)"
  shows "d \<in> set (successors (dep_map ps) n) \<longleftrightarrow> (d, n) \<in> config_edges ps"
proof -
  let ?m = "map (\<lambda>p. (pc_name p, nullish (pc_dependencies p) [])) ps"
  have m: "map_get (dep_map ps) n = map_of ?m n"
    unfolding dep_map_def by (rule map_get_entries_distinct) (simp add: comp_def assms)
  have some: "map_of ?m n = Some ds \<longleftrightarrow> (\<exists>p \<in> set ps. pc_name p = n \<and> nullish (pc_dependencies p) [] = ds)" for ds
    by (subst map_of_eq_Some_iff) (auto simp: comp_def assms)
  show ?thesis
  proof (cases "map_of ?m n")
    case None
    then have "n \<notin> pc_name ` set ps" by (auto simp: map_of_eq_None_iff image_image)
    with None show ?thesis by (auto simp: successors_def m config_edges_def)
  next
    case (Some ds)
    have "p = q" if "p \<in> set ps" "q \<in> set ps" "pc_name p = pc_name q" for p q
      using assms that by (auto simp: distinct_map inj_on_def)
    with Some some [of ds] show ?thesis by (auto simp: successors_def m config_edges_def)
  qed
qed

lemma cycle_trancl:
  assumes "distinct (map pc_name ps)"
  shows "successively (\<lambda>a b. b \<in> set (successors (dep_map ps) a)) (x # xs) \<Longrightarrow> xs \<noteq> [] \<Longrightarrow>
    (last xs, x) \<in> (config_edges ps)\<^sup>+"
proof (induction xs arbitrary: x)
  case (Cons y ys)
  then have e: "(y, x) \<in> config_edges ps" by (simp add: successors_dep_map [OF assms])
  show ?case
  proof (cases "ys = []")
    case False
    with Cons have "(last ys, y) \<in> (config_edges ps)\<^sup>+" by simp
    with e False show ?thesis by (auto intro: trancl_into_trancl)
  qed (use e in auto)
qed simp

lemma find_cycle_spec:
  assumes "distinct (map pc_name ps)"
  shows "(find_cycle ps = None \<longleftrightarrow> acyclic (config_edges ps)) \<and>
         (\<forall>c. find_cycle ps = Some c \<longrightarrow> is_cycle (dep_map ps) c)"
proof -
  let ?r = "dfs_list (cycle_fuel ps) (dep_map ps) [] [] (map pc_name ps)"
  let ?U = "set (map pc_name ps) \<union> set (concat (map (\<lambda>p. nullish (pc_dependencies p) []) ps))"
  have closed: "\<forall>n \<in> ?U. set (successors (dep_map ps) n) \<subseteq> ?U"
    using successors_dep_map [OF assms] by (fastforce simp: config_edges_def)
  have "card ?U \<le> length ps + length (concat (map (\<lambda>p. nullish (pc_dependencies p) []) ps))"
    by (rule order_trans [OF card_Un_le]) (metis add_mono card_length length_map)
  then have fuel: "?r \<noteq> Out_Of_Fuel"
    by (intro dfs_fuel [OF _ closed]) (auto simp: cycle_fuel_def)
  have cyc: "is_cycle (dep_map ps) c" if "?r = Cycle c" for c
    using dfs_cycle [OF that] by simp
  have not_acyclic: "\<not> acyclic (config_edges ps)" if "is_cycle (dep_map ps) c" for c
  proof -
    from that obtain x xs where c: "c = x # xs" "xs \<noteq> []" "last xs = x"
      by (cases c) (auto simp: is_cycle_def split: if_splits)
    with that cycle_trancl [OF assms, of x xs] show ?thesis by (auto simp: is_cycle_def acyclic_def)
  qed
  have acyc: "acyclic (config_edges ps)" if v: "?r = Visited v" for v
  proof -
    have "ranked (successors (dep_map ps)) (rev v)" using dfs_ranked [OF v] by simp
    from ranked_rank [OF this] obtain f :: "string \<Rightarrow> nat"
      where f: "\<forall>n \<in> set v. \<forall>m \<in> set (successors (dep_map ps) n). f m < f n" by auto
    have "config_edges ps \<subseteq> measure f"
      using f dfs_visits [OF v] successors_dep_map [OF assms] by (fastforce simp: config_edges_def)
    then show ?thesis by (meson wf_measure wf_subset wf_acyclic)
  qed
  show ?thesis
    using fuel cyc not_acyclic acyc
    by (cases ?r) (auto simp: find_cycle_def dep_map_def [symmetric])
qed

text \<open>
  C10. \<open>findCycle\<close> is right: on projects with distinct names it returns a cycle exactly when the
  dependency relation has one, and what it returns is a path of dependencies that ends where it
  starts. (With enough fuel for the whole graph the search always ends.)
\<close>

theorem find_cycle_correct:
  assumes "distinct (map pc_name ps)"
  shows "(find_cycle ps = None \<longleftrightarrow> acyclic (config_edges ps)) \<and>
         (\<forall>c. find_cycle ps = Some c \<longrightarrow> is_cycle (dep_map ps) c)"
  by (rule find_cycle_spec [OF assms])

theorem find_cycle_correct_witness:
  "\<exists>ps c. distinct (map pc_name ps) \<and> find_cycle ps = Some c \<and> is_cycle (dep_map ps) c"
proof -
  let ?p = "\<lambda>n ds. \<lparr> pc_name = n, pc_test_match = None, pc_test_ignore = None, pc_dependencies = Some ds,
                     pc_use = None, pc_workers = None \<rparr>"
  let ?ps = "[?p ''a'' [''b''], ?p ''b'' [''a'']]"
  have "find_cycle ?ps = Some [''a'', ''b'', ''a'']"
    by (simp add: find_cycle_def cycle_fuel_def map_of_entries_def)
  moreover have "distinct (map pc_name ?ps)" by simp
  ultimately show ?thesis using find_cycle_correct by blast
qed

section \<open>Waves\<close>

definition deg_of :: "(string, int) jsmap \<Rightarrow> string \<Rightarrow> int" where
  "deg_of m n = nullish (map_get m n) 0"

lemma deg_of_set [simp]: "deg_of (map_set k v m) n = (if n = k then v else deg_of m n)"
  by (simp add: deg_of_def)

lemma deg_of_count:
  "deg_of (fold (\<lambda>_ m. map_set k (nullish (map_get m k) 0 + 1) m) ds m) n =
     deg_of m n + (if n = k then int (length ds) else 0)"
proof (induction ds arbitrary: m)
  case (Cons d ds)
  show ?case using Cons.IH [of "map_set k (nullish (map_get m k) 0 + 1) m"] by (simp add: deg_of_def)
qed simp

lemma deg_of_zero: "deg_of (map_of_entries (map (\<lambda>p. (f p, 0)) ps)) n = 0"
  by (induction ps rule: rev_induct)
    (auto simp: deg_of_def map_get_entries map_add_def split: option.splits)

lemma deg_of_in_degrees:
  assumes "distinct (map proj_name ps)" and "p \<in> set ps"
  shows "deg_of (in_degrees ps) (proj_name p) = int (length (dependencies p))"
proof -
  let ?f = "\<lambda>p m. fold (\<lambda>_ m. map_set (proj_name p) (nullish (map_get m (proj_name p)) 0 + 1) m) (dependencies p) m"
  have other: "n \<notin> set (map proj_name qs) \<Longrightarrow> deg_of (fold ?f qs m) n = deg_of m n" for qs m n
    by (induction qs arbitrary: m) (auto simp: deg_of_count)
  have "distinct (map proj_name qs) \<Longrightarrow> p \<in> set qs \<Longrightarrow>
      deg_of (fold ?f qs m) (proj_name p) = deg_of m (proj_name p) + int (length (dependencies p))" for qs m
  proof (induction qs arbitrary: m)
    case (Cons q qs)
    show ?case
    proof (cases "p = q")
      case True
      with Cons.prems other [of "proj_name p" qs "?f p m"] show ?thesis by (simp add: deg_of_count)
    next
      case False
      with Cons.prems have "p \<in> set qs" by simp
      moreover from this Cons.prems(1) have "proj_name p \<noteq> proj_name q" by (metis distinct.simps(2) image_eqI list.simps(9) list.set_map)
      ultimately show ?thesis using Cons.IH [of "?f q m"] Cons.prems(1) by (simp add: deg_of_count)
    qed
  qed simp
  from this [OF assms, of "map_of_entries (map (\<lambda>p. (proj_name p, 0)) ps)"] show ?thesis
    by (simp add: in_degrees_def deg_of_zero)
qed

lemma deg_of_release:
  assumes "distinct (map proj_name ps)" and "p \<in> set ps"
  shows "deg_of (release_dependents ps n m) (proj_name p) =
    deg_of m (proj_name p) - (if n \<in> set (dependencies p) then 1 else 0)"
proof -
  let ?f = "\<lambda>other m. if n \<in> set (dependencies other)
      then map_set (proj_name other) (nullish (map_get m (proj_name other)) 0 - 1) m else m"
  have other: "k \<notin> set (map proj_name qs) \<Longrightarrow> deg_of (fold ?f qs m) k = deg_of m k" for qs m k
    by (induction qs arbitrary: m) auto
  have "distinct (map proj_name qs) \<Longrightarrow> p \<in> set qs \<Longrightarrow> deg_of (fold ?f qs m) (proj_name p) =
      deg_of m (proj_name p) - (if n \<in> set (dependencies p) then 1 else 0)" for qs m
  proof (induction qs arbitrary: m)
    case (Cons q qs)
    show ?case
    proof (cases "p = q")
      case True
      with Cons.prems other [of "proj_name q" qs "?f q m"] show ?thesis by (simp add: deg_of_def [symmetric])
    next
      case False
      with Cons.prems have "p \<in> set qs" by simp
      moreover from this Cons.prems(1) have "proj_name p \<noteq> proj_name q" by (metis distinct.simps(2) image_eqI list.simps(9) list.set_map)
      ultimately show ?thesis using Cons.IH [of "?f q m"] Cons.prems(1) by simp
    qed
  qed simp
  from this [OF assms] show ?thesis by (simp add: release_dependents_def)
qed

lemma deg_of_releases:
  assumes "distinct (map proj_name ps)" and "p \<in> set ps"
  shows "deg_of (fold (release_dependents ps) ready m) (proj_name p) =
    deg_of m (proj_name p) - int (length (filter (\<lambda>n. n \<in> set (dependencies p)) ready))"
  by (induction ready arbitrary: m) (auto simp: deg_of_release [OF assms])

text \<open>
  The in-degree of a project counts its dependency list, less the dependencies already finished.
\<close>

definition degrees_ok :: "resolved_project list \<Rightarrow> (string, int) jsmap \<Rightarrow> string list \<Rightarrow> bool" where
  "degrees_ok ps degrees remaining \<longleftrightarrow>
     (\<forall>p \<in> set ps. deg_of degrees (proj_name p) =
        int (length (dependencies p)) - int (card (set (dependencies p) - set remaining)))"

lemma degrees_ok_step:
  assumes "degrees_ok ps degrees remaining" and "distinct (map proj_name ps)"
    and "distinct ready" and "set ready \<subseteq> set remaining"
  shows "degrees_ok ps (fold (release_dependents ps) ready degrees) (filter (\<lambda>n. n \<notin> set ready) remaining)"
proof -
  have "deg_of (fold (release_dependents ps) ready degrees) (proj_name p) =
      int (length (dependencies p)) - int (card (set (dependencies p) - set (filter (\<lambda>n. n \<notin> set ready) remaining)))"
    if p: "p \<in> set ps" for p
  proof -
    let ?D = "set (dependencies p)"
    have "?D - set (filter (\<lambda>n. n \<notin> set ready) remaining) = (?D - set remaining) \<union> (?D \<inter> set ready)"
      using assms(4) by auto
    moreover have "(?D - set remaining) \<inter> (?D \<inter> set ready) = {}" using assms(4) by auto
    ultimately have "card (?D - set (filter (\<lambda>n. n \<notin> set ready) remaining)) =
        card (?D - set remaining) + card (?D \<inter> set ready)"
      by (simp add: card_Un_disjoint)
    moreover have "length (filter (\<lambda>n. n \<in> ?D) ready) = card (?D \<inter> set ready)"
      using assms(3) distinct_card [of "filter (\<lambda>n. n \<in> ?D) ready"] by (simp add: Int_commute Int_def conj_commute)
    ultimately show ?thesis
      using assms(1) p deg_of_releases [OF assms(2) p] by (simp add: degrees_ok_def)
  qed
  then show ?thesis by (simp add: degrees_ok_def)
qed

lemma ready_iff:
  assumes "degrees_ok ps degrees remaining" and "p \<in> set ps" and "proj_name p \<in> set remaining"
  shows "proj_name p \<in> set (ready_names degrees remaining) \<longleftrightarrow>
    distinct (dependencies p) \<and> set (dependencies p) \<inter> set remaining = {}"
proof -
  let ?D = "set (dependencies p)"
  have le: "card (?D - set remaining) \<le> card ?D" "card ?D \<le> length (dependencies p)"
    by (simp_all add: card_mono card_length)
  have "proj_name p \<in> set (ready_names degrees remaining) \<longleftrightarrow> length (dependencies p) = card (?D - set remaining)"
    using assms by (simp add: ready_names_def degrees_ok_def deg_of_def [symmetric])
  also have "\<dots> \<longleftrightarrow> length (dependencies p) = card ?D \<and> card (?D - set remaining) = card ?D"
    using le by linarith
  also have "\<dots> \<longleftrightarrow> distinct (dependencies p) \<and> ?D \<inter> set remaining = {}"
  proof -
    have "card (?D - set remaining) = card ?D \<longleftrightarrow> ?D - set remaining = ?D"
      by (metis Diff_subset List.finite_set card_subset_eq)
    moreover have "?D - set remaining = ?D \<longleftrightarrow> ?D \<inter> set remaining = {}" by blast
    moreover have "length (dependencies p) = card ?D \<longleftrightarrow> distinct (dependencies p)"
      by (metis card_distinct distinct_card)
    ultimately show ?thesis by simp
  qed
  finally show ?thesis .
qed

end
