(* ===== verification/Project_Order.thy ===== *)
theory Project_Order
  imports Project_Graph
begin

text \<open>
  Execution order: what \<open>topologicalSort\<close> returns, when it succeeds, the link from validation to the
  sort, and the transitive dependencies of a selection.
\<close>

section \<open>The waves\<close>

lemma map_sum_InrE:
  assumes "map_sum f g x = Inr y" obtains z where "x = Inr z" "y = g z"
  using assms by (cases x) auto

abbreviation names_of :: "resolved_project list \<Rightarrow> string set" where
  "names_of ps \<equiv> proj_name ` set ps"

lemma by_name_get:
  assumes "distinct (map proj_name ps)" and "n \<in> names_of ps"
  shows "the (map_get (by_name ps) n) \<in> set ps \<and> proj_name (the (map_get (by_name ps) n)) = n"
proof -
  have m: "map_get (by_name ps) n = map_of (map (\<lambda>p. (proj_name p, p)) ps) n"
    unfolding by_name_def by (rule map_get_entries_distinct) (simp add: comp_def assms)
  from assms(2) obtain p where "p \<in> set ps" "proj_name p = n" by auto
  then have "map_of (map (\<lambda>p. (proj_name p, p)) ps) n = Some p"
    by (subst map_of_eq_Some_iff) (auto simp: comp_def assms(1))
  with m \<open>p \<in> set ps\<close> \<open>proj_name p = n\<close> show ?thesis by simp
qed

lemma project_by_name:
  assumes "distinct (map proj_name ps)" and "p \<in> set ps" and "q \<in> set ps" and "proj_name p = proj_name q"
  shows "p = q"
  using assms by (auto simp: distinct_map inj_on_def)

text \<open>
  A wave at position \<open>i\<close>: not empty, each project with distinct dependencies which, as far as they
  were still to run, are all in earlier waves; and one of them in the wave just before.
\<close>

definition wave_ok :: "string set \<Rightarrow> resolved_project list list \<Rightarrow> nat \<Rightarrow> bool" where
  "wave_ok rem waves i \<longleftrightarrow> waves ! i \<noteq> [] \<and>
     (\<forall>p \<in> set (waves ! i). distinct (dependencies p) \<and>
        set (dependencies p) \<inter> rem \<subseteq> names_of (concat (take i waves)) \<and>
        (0 < i \<longrightarrow> set (dependencies p) \<inter> names_of (waves ! (i - 1)) \<noteq> {}))"

text \<open>One round of the loop.\<close>

lemma waves_from_Inr:
  assumes "waves_from ps degrees remaining = Inr waves" and "remaining \<noteq> []"
  defines "ready \<equiv> ready_names degrees remaining"
  obtains ws where "ready \<noteq> []" "waves = map (\<lambda>n. the (map_get (by_name ps) n)) ready # ws"
    "waves_from ps (fold (release_dependents ps) ready degrees) (filter (\<lambda>n. n \<notin> set ready) remaining) = Inr ws"
  using assms(1,2) unfolding ready_def
  by (subst (asm) waves_from.simps)
    (auto simp: Let_def split: if_splits elim!: map_sum_InrE)

text \<open>The loop keeps what the next round needs.\<close>

lemma ready_subset: "set (ready_names degrees remaining) \<subseteq> set remaining"
  by (auto simp: ready_names_def)

lemma distinct_ready: "distinct remaining \<Longrightarrow> distinct (ready_names degrees remaining)"
  by (simp add: ready_names_def)

lemma remaining_shrinks:
  assumes "ready_names degrees remaining \<noteq> []"
  shows "length (filter (\<lambda>n. n \<notin> set (ready_names degrees remaining)) remaining) < length remaining"
proof -
  from assms obtain n where "n \<in> set (ready_names degrees remaining)" by (cases "ready_names degrees remaining") auto
  then show ?thesis using ready_subset by (intro length_filter_less [of n]) auto
qed

lemma wave_names:
  assumes "distinct (map proj_name ps)" and "set ready \<subseteq> names_of ps"
  defines "w \<equiv> map (\<lambda>n. the (map_get (by_name ps) n)) ready"
  shows "map proj_name w = ready" and "set w \<subseteq> set ps"
  using by_name_get [OF assms(1)] assms(2) unfolding w_def by (auto simp: subset_iff intro!: map_idI)

lemma waves_sound:
  assumes dp: "distinct (map proj_name ps)"
  shows "waves_from ps degrees remaining = Inr waves \<Longrightarrow> degrees_ok ps degrees remaining \<Longrightarrow>
    distinct remaining \<Longrightarrow> set remaining \<subseteq> names_of ps \<Longrightarrow>
    distinct (map proj_name (concat waves)) \<and> names_of (concat waves) = set remaining \<and>
    set (concat waves) \<subseteq> set ps \<and> (\<forall>i < length waves. wave_ok (set remaining) waves i)"
proof (induction "length remaining" arbitrary: degrees remaining waves rule: less_induct)
  case less
  show ?case
  proof (cases "remaining = []")
    case True
    with less.prems(1) show ?thesis by (simp add: waves_from.simps)
  next
    case False
    let ?ready = "ready_names degrees remaining"
    let ?rest = "filter (\<lambda>n. n \<notin> set ?ready) remaining"
    from waves_from_Inr [OF less.prems(1) False] obtain ws where ready: "?ready \<noteq> []"
      and waves: "waves = map (\<lambda>n. the (map_get (by_name ps) n)) ?ready # ws"
      and rec: "waves_from ps (fold (release_dependents ps) ?ready degrees) ?rest = Inr ws" .
    define w where "w = map (\<lambda>n. the (map_get (by_name ps) n)) ?ready"
    have sub: "set ?ready \<subseteq> names_of ps" using ready_subset less.prems(4) by blast
    note w = wave_names [OF dp sub, folded w_def]
    have wn: "names_of w = set ?ready" using arg_cong [OF w(1), of set] by simp
    have deg: "degrees_ok ps (fold (release_dependents ps) ?ready degrees) ?rest"
      by (rule degrees_ok_step [OF less.prems(2) dp distinct_ready [OF less.prems(3)] ready_subset])
    have IH: "distinct (map proj_name (concat ws)) \<and> names_of (concat ws) = set ?rest \<and>
        set (concat ws) \<subseteq> set ps \<and> (\<forall>i < length ws. wave_ok (set ?rest) ws i)"
      using less.prems by (intro less.hyps [OF remaining_shrinks [OF ready] rec deg]) auto
    have ready_p: "distinct (dependencies p) \<and> set (dependencies p) \<inter> set remaining = {}" if "p \<in> set w" for p
      using that w(2) wn ready_iff [OF less.prems(2)] ready_subset by blast
    have "wave_ok (set remaining) (w # ws) i" if i: "i < length (w # ws)" for i
    proof (cases i)
      case 0
      then show ?thesis using ready_p ready by (simp add: wave_ok_def w_def)
    next
      case (Suc j)
      with i IH have ok: "wave_ok (set ?rest) ws j" by simp
      have pred: "set (dependencies p) \<inter> names_of ((w # ws) ! j) \<noteq> {}" if p: "p \<in> set (ws ! j)" for p
      proof (cases j)
        case 0
        with ok p have d: "distinct (dependencies p)" "set (dependencies p) \<inter> set ?rest = {}"
          by (auto simp: wave_ok_def)
        have "p \<in> set (concat ws)" using p Suc i by auto
        then have pp: "p \<in> set ps" "proj_name p \<in> set ?rest" using IH by blast+
        then have "proj_name p \<notin> set ?ready" "proj_name p \<in> set remaining" by auto
        with ready_iff [OF less.prems(2) pp(1)] d(1) have "set (dependencies p) \<inter> set remaining \<noteq> {}" by blast
        with d(2) wn 0 show ?thesis by auto
      next
        case (Suc k)
        with ok p show ?thesis by (simp add: wave_ok_def)
      qed
      have "set (dependencies p) \<inter> set remaining \<subseteq> names_of (concat (take (Suc j) (w # ws)))"
        if "p \<in> set (ws ! j)" for p
      proof -
        from ok that have "set (dependencies p) \<inter> set ?rest \<subseteq> names_of (concat (take j ws))"
          by (simp add: wave_ok_def)
        moreover have "names_of (concat (take (Suc j) (w # ws))) = set ?ready \<union> names_of (concat (take j ws))"
          using wn by (simp add: image_Un)
        ultimately show ?thesis by auto
      qed
      with ok pred show ?thesis using Suc by (simp add: wave_ok_def)
    qed
    moreover have "distinct (map proj_name (concat (w # ws)))"
      using IH w(1) wn distinct_ready [OF less.prems(3), of degrees] by auto
    moreover have "names_of (concat (w # ws)) = set ?ready \<union> set ?rest"
      using IH wn by (simp add: image_Un)
    then have "names_of (concat (w # ws)) = set remaining"
      using ready_subset [of degrees remaining] by auto
    ultimately show ?thesis using IH w(2) unfolding waves w_def [symmetric] by simp
  qed
qed

text \<open>The dependencies as edges from a dependency to its dependent.\<close>

definition project_edges :: "resolved_project list \<Rightarrow> (string \<times> string) set" where
  "project_edges ps = {(d, n). \<exists>p \<in> set ps. proj_name p = n \<and> d \<in> set (dependencies p)}"

lemma finite_project_edges: "finite (project_edges ps)"
proof -
  have "project_edges ps \<subseteq> set (concat (map dependencies ps)) \<times> names_of ps"
    by (auto simp: project_edges_def)
  then show ?thesis by (rule finite_subset) simp
qed

lemma waves_complete:
  assumes dp: "distinct (map proj_name ps)" and "acyclic (project_edges ps)" and "\<forall>p \<in> set ps. distinct (dependencies p)"
  shows "degrees_ok ps degrees remaining \<Longrightarrow> distinct remaining \<Longrightarrow> set remaining \<subseteq> names_of ps \<Longrightarrow>
    \<exists>waves. waves_from ps degrees remaining = Inr waves"
proof (induction "length remaining" arbitrary: degrees remaining rule: less_induct)
  case less
  show ?case
  proof (cases "remaining = []")
    case True
    then show ?thesis by (simp add: waves_from.simps)
  next
    case False
    let ?ready = "ready_names degrees remaining"
    let ?rest = "filter (\<lambda>n. n \<notin> set ?ready) remaining"
    have "wf (project_edges ps)" using assms(2) finite_project_edges by (rule finite_acyclic_wf [rotated])
    then obtain n where n: "n \<in> set remaining" "\<And>d. (d, n) \<in> project_edges ps \<Longrightarrow> d \<notin> set remaining"
      using False wf_eq_minimal [THEN iffD1, rule_format, of "project_edges ps" "hd remaining" "set remaining"]
      by (metis list.set_sel(1))
    then obtain p where p: "p \<in> set ps" "proj_name p = n" using less.prems(3) by auto
    then have "set (dependencies p) \<inter> set remaining = {}" using n(2) by (auto simp: project_edges_def)
    then have ready: "?ready \<noteq> []"
      using ready_iff [OF less.prems(1) p(1)] assms(3) p n(1) by force
    have "degrees_ok ps (fold (release_dependents ps) ?ready degrees) ?rest"
      by (rule degrees_ok_step [OF less.prems(1) dp distinct_ready [OF less.prems(2)] ready_subset])
    with less.hyps [OF remaining_shrinks [OF ready]] less.prems(2,3) obtain ws where
      "waves_from ps (fold (release_dependents ps) ?ready degrees) ?rest = Inr ws" by fastforce
    then show ?thesis using False ready by (subst waves_from.simps) (simp add: Let_def)
  qed
qed

lemma in_concat_nth: "x \<in> set (concat xss) \<longleftrightarrow> (\<exists>i < length xss. x \<in> set (xss ! i))"
  by (induction xss) (simp_all add: Ex_less_Suc2)

lemma in_names_concat_nth: "n \<in> names_of (concat waves) \<longleftrightarrow> (\<exists>i < length waves. n \<in> names_of (waves ! i))"
  by (induction waves) (simp_all add: Ex_less_Suc2 image_Un)

lemma acyclic_measure: "R \<subseteq> measure f \<Longrightarrow> acyclic R"
  by (rule wf_acyclic [OF wf_subset [OF wf_measure]])

lemma degrees_ok_initial:
  assumes "distinct (map proj_name ps)" and "\<forall>p \<in> set ps. set (dependencies p) \<subseteq> names_of ps"
  shows "degrees_ok ps (in_degrees ps) (set_of_list (map proj_name ps))"
proof -
  have "set (dependencies p) - set (set_of_list (map proj_name ps)) = {}" if "p \<in> set ps" for p
    using assms(2) that by auto
  then show ?thesis using deg_of_in_degrees [OF assms(1)] by (simp add: degrees_ok_def)
qed

lemma ordered_acyclic:
  assumes "names_of (concat waves) = names_of ps" and "distinct (map proj_name ps)" and "set (concat waves) \<subseteq> set ps"
    and "\<forall>p \<in> set ps. set (dependencies p) \<subseteq> names_of ps"
    and "\<forall>i < length waves. wave_ok (names_of ps) waves i"
    and "distinct (map proj_name (concat waves))"
  shows "acyclic (project_edges ps)"
proof -
  define at where "at n = (LEAST i. i < length waves \<and> n \<in> names_of (waves ! i))" for n
  have at: "at n < length waves \<and> n \<in> names_of (waves ! at n)" if "n \<in> names_of ps" for n
  proof -
    from that have "n \<in> names_of (concat waves)" by (simp only: assms(1))
    then obtain i where "i < length waves \<and> n \<in> names_of (waves ! i)" unfolding in_names_concat_nth by blast
    then show ?thesis unfolding at_def by (rule LeastI)
  qed
  have "at d < at n" if "(d, n) \<in> project_edges ps" for d n
  proof -
    from that obtain p where p: "p \<in> set ps" "proj_name p = n" "d \<in> set (dependencies p)"
      by (auto simp: project_edges_def)
    with at [of n] obtain q where q: "q \<in> set (waves ! at n)" "proj_name q = n" and lt: "at n < length waves" by auto
    then have "q \<in> set (concat waves)" using lt unfolding in_concat_nth by blast
    then have "q \<in> set ps" using assms(3) by blast
    with project_by_name [OF assms(2) p(1)] p(2) q(2) have "q = p" by metis
    with q(1) have "p \<in> set (waves ! at n)" by simp
    with assms(5) lt have "set (dependencies p) \<inter> names_of ps \<subseteq> names_of (concat (take (at n) waves))"
      unfolding wave_ok_def by blast
    with assms(4) p have "d \<in> names_of (concat (take (at n) waves))" by blast
    then obtain j where "j < length (take (at n) waves)" "d \<in> names_of (take (at n) waves ! j)"
      unfolding in_names_concat_nth by blast
    then have "j < at n" "d \<in> names_of (waves ! j)" by simp_all
    with lt have "at d \<le> j" unfolding at_def [of d] by (intro Least_le) simp
    with \<open>j < at n\<close> show ?thesis by simp
  qed
  then have "project_edges ps \<subseteq> measure at" by auto
  then show ?thesis by (rule acyclic_measure)
qed

lemma topological_sort_spec:
  assumes "distinct (map proj_name ps)" and "\<forall>p \<in> set ps. set (dependencies p) \<subseteq> names_of ps"
  shows "((\<exists>waves. topological_sort ps = Inr waves) \<longleftrightarrow>
            acyclic (project_edges ps) \<and> (\<forall>p \<in> set ps. distinct (dependencies p))) \<and>
         (\<forall>waves. topological_sort ps = Inr waves \<longrightarrow>
            distinct (concat waves) \<and> set (concat waves) = set ps \<and>
            (\<forall>i < length waves. \<forall>p \<in> set (waves ! i).
               set (dependencies p) \<subseteq> names_of (concat (take i waves)) \<and>
               (0 < i \<longrightarrow> set (dependencies p) \<inter> names_of (waves ! (i - 1)) \<noteq> {})))"
proof -
  let ?rem = "set_of_list (map proj_name ps)"
  have rem: "set ?rem = names_of ps" "distinct ?rem" by simp_all
  note init = degrees_ok_initial [OF assms]
  have sound: "distinct (map proj_name (concat waves)) \<and> names_of (concat waves) = names_of ps \<and>
      set (concat waves) \<subseteq> set ps \<and> (\<forall>i < length waves. wave_ok (names_of ps) waves i)"
    if "topological_sort ps = Inr waves" for waves
    using waves_sound [OF assms(1) that [unfolded topological_sort_def] init] rem by simp
  have all: "set (concat waves) = set ps" if "topological_sort ps = Inr waves" for waves
  proof
    show "set (concat waves) \<subseteq> set ps" using sound [OF that] by blast
    show "set ps \<subseteq> set (concat waves)"
    proof
      fix p assume p: "p \<in> set ps"
      with sound [OF that] obtain q where q: "q \<in> set (concat waves)" "proj_name q = proj_name p" by (metis image_iff)
      with sound [OF that] p project_by_name [OF assms(1)] have "q = p" by blast
      with q show "p \<in> set (concat waves)" by simp
    qed
  qed
  have order: "set (dependencies p) \<subseteq> names_of (concat (take i waves)) \<and>
      (0 < i \<longrightarrow> set (dependencies p) \<inter> names_of (waves ! (i - 1)) \<noteq> {}) \<and> distinct (dependencies p)"
    if w: "topological_sort ps = Inr waves" and i: "i < length waves" "p \<in> set (waves ! i)" for waves i p
  proof -
    have "p \<in> set (concat waves)" using i by auto
    then have "set (dependencies p) \<inter> names_of ps = set (dependencies p)" using all [OF w] assms(2) by blast
    moreover have "wave_ok (names_of ps) waves i" using sound [OF w] i(1) by blast
    then have "distinct (dependencies p) \<and> set (dependencies p) \<inter> names_of ps \<subseteq> names_of (concat (take i waves)) \<and>
        (0 < i \<longrightarrow> set (dependencies p) \<inter> names_of (waves ! (i - 1)) \<noteq> {})"
      using i(2) unfolding wave_ok_def by blast
    ultimately show ?thesis by metis
  qed
  have "acyclic (project_edges ps) \<and> (\<forall>p \<in> set ps. distinct (dependencies p))"
    if w: "topological_sort ps = Inr waves" for waves
  proof
    show "acyclic (project_edges ps)"
      using sound [OF w] by (intro ordered_acyclic [OF _ assms(1) _ assms(2)]) auto
    show "\<forall>p \<in> set ps. distinct (dependencies p)"
    proof
      fix p assume "p \<in> set ps"
      then have "p \<in> set (concat waves)" using all [OF w] by blast
      then obtain i where "i < length waves" "p \<in> set (waves ! i)" unfolding in_concat_nth by blast
      with order [OF w] show "distinct (dependencies p)" by blast
    qed
  qed
  moreover have "\<exists>waves. topological_sort ps = Inr waves"
    if "acyclic (project_edges ps)" "\<forall>p \<in> set ps. distinct (dependencies p)"
    using waves_complete [OF assms(1) that init] rem by (simp add: topological_sort_def)
  ultimately have iff: "(\<exists>waves. topological_sort ps = Inr waves) \<longleftrightarrow>
      acyclic (project_edges ps) \<and> (\<forall>p \<in> set ps. distinct (dependencies p))" by blast
  have "distinct (concat waves)" if "topological_sort ps = Inr waves" for waves
    using sound [OF that] by (simp add: distinct_map)
  with iff all order show ?thesis by blast
qed

text \<open>
  C11. \<open>topologicalSort\<close> is correct on projects with distinct names whose dependencies exist: it
  succeeds exactly if the dependencies have no cycle and no project lists one twice, and then the
  waves hold every project once, all dependencies of a project are in earlier waves, and each
  project after the first wave has one in the wave just before, so it runs as early as it can.
\<close>

theorem topological_sort_correct:
  assumes "distinct (map proj_name ps)" and "\<forall>p \<in> set ps. set (dependencies p) \<subseteq> names_of ps"
  shows "((\<exists>waves. topological_sort ps = Inr waves) \<longleftrightarrow>
            acyclic (project_edges ps) \<and> (\<forall>p \<in> set ps. distinct (dependencies p))) \<and>
         (\<forall>waves. topological_sort ps = Inr waves \<longrightarrow>
            distinct (concat waves) \<and> set (concat waves) = set ps \<and>
            (\<forall>i < length waves. \<forall>p \<in> set (waves ! i).
               set (dependencies p) \<subseteq> names_of (concat (take i waves)) \<and>
               (0 < i \<longrightarrow> set (dependencies p) \<inter> names_of (waves ! (i - 1)) \<noteq> {})))"
  by (rule topological_sort_spec [OF assms])

theorem topological_sort_correct_witness:
  "\<exists>waves. topological_sort [demo_project ''b'' [''a''] [], demo_project ''a'' [] []] = Inr waves \<and>
     set (concat waves) = set [demo_project ''b'' [''a''] [], demo_project ''a'' [] []]"
proof -
  let ?ps = "[demo_project ''b'' [''a''] [], demo_project ''a'' [] []]"
  have ps: "distinct (map proj_name ?ps)" "\<forall>p \<in> set ?ps. set (dependencies p) \<subseteq> names_of ?ps"
    by (simp_all add: demo_project_def)
  have "project_edges ?ps \<subseteq> measure (\<lambda>n. if n = ''a'' then 0 else 1)"
    by (auto simp: project_edges_def demo_project_def)
  then have "acyclic (project_edges ?ps)" by (rule acyclic_measure)
  moreover have "\<forall>p \<in> set ?ps. distinct (dependencies p)" by (simp add: demo_project_def)
  ultimately show ?thesis using topological_sort_correct [OF ps] by blast
qed

section \<open>From validation to the sort\<close>

lemma name_issues_Nil:
  "name_issues names ps = ([], ns) \<Longrightarrow>
     distinct (map pc_name ps) \<and> set (map pc_name ps) \<inter> set names = {} \<and>
     set ns = set names \<union> set (map pc_name ps)"
proof (induction ps arbitrary: names)
  case (Cons p ps)
  from Cons.prems have p: "pc_name p \<noteq> []" "pc_name p \<notin> set names"
    and rest: "name_issues (set_add (pc_name p) names) ps = ([], ns)"
    by (simp_all split: if_splits prod.splits)
  from Cons.IH [OF rest] p show ?case by auto
qed simp

lemma concat_map_Nil: "concat (map f xs) = [] \<longleftrightarrow> (\<forall>x \<in> set xs. f x = [])"
  by (induction xs) auto

lemma merge_issues_Nil: "merge_issues config p = [] \<Longrightarrow> \<exists>eff. effective_config_for_project config (pc_use p) = Inr eff"
  by (cases "effective_config_for_project config (pc_use p)") (auto simp: merge_issues_def split: option.splits)

lemma reference_issues_Nil:
  "reference_issues names p = [] \<Longrightarrow> set (nullish (pc_dependencies p) []) \<subseteq> set names"
proof
  fix dep
  assume "reference_issues names p = []" and dep: "dep \<in> set (nullish (pc_dependencies p) [])"
  then have "(if dep = pc_name p then [Self_Dependency (pc_name p)]
      else if dep \<notin> set names then [Unknown_Dependency (pc_name p) dep] else []) = []"
    unfolding reference_issues_def concat_map_Nil by (rule bspec)
  then show "dep \<in> set names" by (simp split: if_splits)
qed

lemma validated_graph:
  assumes "validate_projects config ps = []"
  shows "distinct (map pc_name ps) \<and> acyclic (config_edges ps) \<and>
         (\<forall>p \<in> set ps. set (nullish (pc_dependencies p) []) \<subseteq> set (map pc_name ps)) \<and>
         (\<forall>p \<in> set ps. \<exists>eff. effective_config_for_project config (pc_use p) = Inr eff)"
proof (cases "ps = []")
  case True
  then show ?thesis by (simp add: config_edges_def acyclic_def)
next
  case False
  obtain iss ns where names: "name_issues [] ps = (iss, ns)" by fastforce
  with assms False have "iss = []" and refs: "concat (map (reference_issues ns) ps) = []"
    and cycle: "(case find_cycle ps of Some c \<Rightarrow> [Circular_Dependency c] | None \<Rightarrow> []) = []"
    and merge: "concat (map (merge_issues config) ps) = []"
    by (auto simp: validate_projects_def Let_def split: if_splits)
  with names have dist: "distinct (map pc_name ps)" and ns: "set ns = set (map pc_name ps)"
    using name_issues_Nil by fastforce+
  have "find_cycle ps = None" using cycle by (simp split: option.splits)
  then have "acyclic (config_edges ps)" using find_cycle_spec [OF dist] by blast
  moreover have "\<forall>p \<in> set ps. set (nullish (pc_dependencies p) []) \<subseteq> set (map pc_name ps)"
    using refs reference_issues_Nil unfolding ns [symmetric] concat_map_Nil by blast
  moreover have "\<forall>p \<in> set ps. \<exists>eff. effective_config_for_project config (pc_use p) = Inr eff"
    using merge merge_issues_Nil unfolding concat_map_Nil by blast
  ultimately show ?thesis using dist by blast
qed

lemma map_result_Inr: "map_result f xs = Inr ys \<Longrightarrow> list_all2 (\<lambda>x y. f x = Inr y) xs ys"
  by (induction xs arbitrary: ys) (auto split: sum.splits)

lemma map_result_total: "\<forall>x \<in> set xs. \<exists>y. f x = Inr y \<Longrightarrow> \<exists>ys. map_result f xs = Inr ys"
  by (induction xs) fastforce+

lemma resolved_like:
  assumes "list_all2 (\<lambda>x y. resolve_project config x = Inr y) xs ys"
  shows "map proj_name ys = map pc_name xs \<and> map dependencies ys = map (\<lambda>p. nullish (pc_dependencies p) []) xs"
  using assms by (induction rule: list_all2_induct) (auto simp: resolve_project_def split: sum.splits)

lemma edges_of_lists:
  assumes "map proj_name ys = map pc_name xs" and "map dependencies ys = map (\<lambda>p. nullish (pc_dependencies p) []) xs"
  shows "project_edges ys = config_edges xs"
proof -
  have "set (zip (map proj_name ys) (map dependencies ys)) =
      set (zip (map pc_name xs) (map (\<lambda>p. nullish (pc_dependencies p) []) xs))" by (simp only: assms)
  then have eq: "(\<lambda>p. (proj_name p, dependencies p)) ` set ys = (\<lambda>p. (pc_name p, nullish (pc_dependencies p) [])) ` set xs"
    by (simp add: zip_map_map zip_same_conv_map)
  have "project_edges ys = {(d, n). \<exists>(m, ds) \<in> (\<lambda>p. (proj_name p, dependencies p)) ` set ys. m = n \<and> d \<in> set ds}"
    by (auto simp: project_edges_def)
  also have "\<dots> = config_edges xs" unfolding eq by (auto simp: config_edges_def)
  finally show ?thesis .
qed

lemma resolved_graph:
  assumes "resolve_projects config = Inr ps"
  shows "distinct (map proj_name ps) \<and> (\<forall>p \<in> set ps. set (dependencies p) \<subseteq> names_of ps) \<and> acyclic (project_edges ps)"
proof (cases "config_projects config = []")
  case True
  with assms obtain p where "ps = [p]" "dependencies p = []" by (auto simp: resolve_projects_def Let_def)
  then show ?thesis by (simp add: project_edges_def acyclic_def)
next
  case False
  let ?cs = "config_projects config"
  from assms False have valid: "validate_projects config ?cs = []" and r: "map_result (resolve_project config) ?cs = Inr ps"
    by (auto simp: resolve_projects_def Let_def split: if_splits elim!: map_sum_InrE)
  note like = resolved_like [OF map_result_Inr [OF r]]
  note graph = validated_graph [OF valid]
  have "(\<forall>p \<in> set ps. set (dependencies p) \<subseteq> names_of ps) \<longleftrightarrow>
      (\<forall>ds \<in> set (map dependencies ps). set ds \<subseteq> set (map proj_name ps))" by simp
  also have "\<dots> \<longleftrightarrow> (\<forall>p \<in> set ?cs. set (nullish (pc_dependencies p) []) \<subseteq> set (map pc_name ?cs))"
    using like by simp
  finally show ?thesis using graph like edges_of_lists by metis
qed

text \<open>
  Validation is enough for the sort, duplicates aside: projects that \<open>resolveProjects\<close> returns,
  none of which lists a dependency twice, always sort into waves, so the error \<open>topologicalSort\<close>
  guards against does not occur.
\<close>

theorem validated_projects_sort:
  assumes "resolve_projects config = Inr ps" and "\<forall>p \<in> set ps. distinct (dependencies p)"
  shows "\<exists>waves. topological_sort ps = Inr waves \<and> set (concat waves) = set ps"
  using topological_sort_spec [of ps] resolved_graph [OF assms(1)] assms(2) by blast

theorem validated_projects_sort_witness:
  "\<exists>waves ps. resolve_projects (plain_config []) = Inr ps \<and> topological_sort ps = Inr waves \<and> ps \<noteq> []"
proof -
  obtain p where "resolve_projects (plain_config []) = Inr [p]" "dependencies p = []"
    by (simp add: resolve_projects_def config_projects_def plain_config_def js_get_def)
  with validated_projects_sort [of "plain_config []" "[p]"] show ?thesis by auto
qed

text \<open>
  A dependency listed twice is refused as a cycle: projects that validation accepts and in which
  some project names one dependency twice never sort, although they have no cycle;
  \<open>topologicalSort\<close> throws its circular-dependency error.
\<close>

theorem duplicate_dependency_refused:
  assumes "resolve_projects config = Inr ps" and "p \<in> set ps" and "\<not> distinct (dependencies p)"
  shows "acyclic (project_edges ps) \<and> (\<exists>remaining. topological_sort ps = Inl remaining)"
proof -
  have "\<nexists>waves. topological_sort ps = Inr waves"
    using topological_sort_spec [of ps] resolved_graph [OF assms(1)] assms(2,3) by blast
  then show ?thesis using resolved_graph [OF assms(1)] by (cases "topological_sort ps") auto
qed

theorem duplicate_dependency_refused_witness:
  "\<exists>config ps remaining. resolve_projects config = Inr ps \<and> topological_sort ps = Inl remaining"
proof -
  let ?config = "plain_config [(''projects'', V_Array [V_Object [(''name'', V_String ''a'')],
    V_Object [(''name'', V_String ''b''), (''dependencies'', V_Array [V_String ''a'', V_String ''a''])]])]"
  let ?p = "\<lambda>n ds. \<lparr> pc_name = n, pc_test_match = None, pc_test_ignore = None, pc_dependencies = ds,
                     pc_use = None, pc_workers = None \<rparr>"
  have cs: "config_projects ?config = [?p ''a'' None, ?p ''b'' (Some [''a'', ''a''])]"
    by (simp add: config_projects_def plain_config_def project_config_of_def js_get_def string_key_def string_list_def)
  have "validate_projects ?config [?p ''a'' None, ?p ''b'' (Some [''a'', ''a''])] = []"
    by (simp add: validate_projects_def reference_issues_def merge_issues_def project_use_issue_def
        effective_config_for_project_def find_cycle_def cycle_fuel_def map_of_entries_def set_add_def)
  then obtain a b where ps: "resolve_projects ?config = Inr [a, b]" "dependencies b = [''a'', ''a'']"
    unfolding resolve_projects_def cs by (simp add: Let_def resolve_project_def effective_config_for_project_def)
  from duplicate_dependency_refused [OF ps(1), of b] ps(2) have "\<exists>remaining. topological_sort [a, b] = Inl remaining" by simp
  with ps(1) show ?thesis by blast
qed

section \<open>Transitive dependencies\<close>

definition next_deps :: "(string, resolved_project) jsmap \<Rightarrow> string \<Rightarrow> string list" where
  "next_deps m n = (case map_get m n of None \<Rightarrow> [] | Some p \<Rightarrow> dependencies p)"

abbreviation dep_steps :: "(string, resolved_project) jsmap \<Rightarrow> (string \<times> string) set" where
  "dep_steps m \<equiv> {(a, b). b \<in> set (next_deps m a)}"

lemma collect_ConsE:
  assumes "collect (Suc fuel) m result (n # ns) = Some r"
  obtains (seen) "n \<in> set result" "collect (Suc fuel) m result ns = Some r"
    | (leaf) "n \<notin> set result" "next_deps m n = []" "collect (Suc fuel) m (set_add n result) ns = Some r"
    | (fresh) r' where "n \<notin> set result" "collect fuel m (set_add n result) (next_deps m n) = Some r'"
        "collect (Suc fuel) m r' ns = Some r"
  using assms by (auto simp: next_deps_def split: if_splits option.splits)

text \<open>The result grows by the requested names, stays closed under dependencies, and by nothing else.\<close>

lemma collect_sound:
  "collect fuel m result ns = Some r \<Longrightarrow>
     set result \<subseteq> set r \<and> set ns \<subseteq> set r \<and> (distinct result \<longrightarrow> distinct r) \<and>
     (\<forall>x \<in> set r - set result. set (next_deps m x) \<subseteq> set r) \<and>
     (\<forall>x \<in> set r - set result. \<exists>n \<in> set ns. (n, x) \<in> (dep_steps m)\<^sup>*)"
proof (induction fuel arbitrary: result ns r)
  case 0
  then show ?case by (cases ns) auto
next
  case (Suc fuel)
  note outer = Suc.IH
  from Suc.prems show ?case
  proof (induction ns arbitrary: result r)
    case (Cons n ns)
    from Cons.prems show ?case
    proof (cases rule: collect_ConsE)
      case seen
      with Cons.IH [of result r] show ?thesis by auto
    next
      case leaf
      from Cons.IH [OF leaf(3)] leaf(2) show ?thesis by (auto split: if_splits)
    next
      case (fresh r')
      have step: "(n, d) \<in> dep_steps m" if "d \<in> set (next_deps m n)" for d using that by simp
      from outer [OF fresh(2)] have o: "insert n (set result) \<subseteq> set r'" "set (next_deps m n) \<subseteq> set r'"
        "distinct result \<longrightarrow> distinct r'"
        "\<forall>x \<in> set r' - insert n (set result). set (next_deps m x) \<subseteq> set r'"
        "\<forall>x \<in> set r' - insert n (set result). (n, x) \<in> (dep_steps m)\<^sup>*"
        using step by (auto intro: converse_rtrancl_into_rtrancl)
      from Cons.IH [OF fresh(3)] have i: "set r' \<subseteq> set r" "set ns \<subseteq> set r" "distinct r' \<longrightarrow> distinct r"
        "\<forall>x \<in> set r - set r'. set (next_deps m x) \<subseteq> set r"
        "\<forall>x \<in> set r - set r'. \<exists>n \<in> set ns. (n, x) \<in> (dep_steps m)\<^sup>*" by blast+
      have "set (next_deps m x) \<subseteq> set r" if "x \<in> set r - set result" for x
        using that o(2,4) i(1,4) by (cases "x \<in> set r'"; cases "x = n") blast+
      moreover have "\<exists>k \<in> set (n # ns). (k, x) \<in> (dep_steps m)\<^sup>*" if "x \<in> set r - set result" for x
        using that o(5) i(5) by (cases "x \<in> set r'"; cases "x = n") auto
      ultimately show ?thesis using o(1,3) i(1,2,3) by auto
    qed
  qed simp
qed

lemma collect_fuel_enough:
  assumes "finite U" and closed: "\<forall>n \<in> U. set (next_deps m n) \<subseteq> U"
  shows "set ns \<subseteq> U \<Longrightarrow> card (U - set result) < fuel \<Longrightarrow> collect fuel m result ns \<noteq> None"
proof (induction fuel arbitrary: result ns)
  case (Suc fuel)
  note outer = Suc.IH
  from Suc.prems show ?case
  proof (induction ns arbitrary: result)
    case (Cons n ns)
    have rest: "collect (Suc fuel) m r ns \<noteq> None" if "set result \<subseteq> set r" for r
    proof -
      have "card (U - set r) \<le> card (U - set result)" using that assms(1) by (intro card_mono) auto
      with Cons.prems show ?thesis by (intro Cons.IH) auto
    qed
    show ?case
    proof (cases "n \<in> set result")
      case True
      with rest [of result] show ?thesis by auto
    next
      case False
      have "card (U - set (set_add n result)) < card (U - set result)"
        using False Cons.prems(1) assms(1) by (intro psubset_card_mono) auto
      then have "collect fuel m (set_add n result) (next_deps m n) \<noteq> None"
        using Cons.prems closed by (intro outer) auto
      then obtain r where r: "collect fuel m (set_add n result) (next_deps m n) = Some r" by blast
      with collect_sound [OF r] rest [of r] rest [of "set_add n result"] False show ?thesis
        by (cases "map_get m n") (auto simp: next_deps_def)
    qed
  qed simp
qed simp

lemma next_deps_by_name:
  assumes "distinct (map proj_name ps)"
  shows "d \<in> set (next_deps (by_name ps) n) \<longleftrightarrow> (d, n) \<in> project_edges ps"
proof (cases "n \<in> names_of ps")
  case True
  then obtain p where p: "p \<in> set ps" "proj_name p = n" by auto
  have "map_get (by_name ps) n = map_of (map (\<lambda>p. (proj_name p, p)) ps) n"
    unfolding by_name_def by (rule map_get_entries_distinct) (simp add: comp_def assms)
  also have "\<dots> = Some p" using p by (subst map_of_eq_Some_iff) (auto simp: comp_def assms)
  finally have "next_deps (by_name ps) n = dependencies p" by (simp add: next_deps_def)
  moreover have "(d, n) \<in> project_edges ps \<longleftrightarrow> d \<in> set (dependencies p)"
    using p project_by_name [OF assms p(1)] unfolding project_edges_def by blast
  ultimately show ?thesis by simp
next
  case False
  then have "map_get (by_name ps) n = None"
    unfolding by_name_def map_get_entries by (auto simp: map_of_eq_None_iff)
  with False show ?thesis by (auto simp: next_deps_def project_edges_def)
qed

lemma transitive_deps_spec:
  assumes "distinct (map proj_name ps)"
  shows "\<exists>r. collect_transitive_deps names ps = Some r \<and> distinct r \<and>
           set r = {x. \<exists>n \<in> set names. (x, n) \<in> (project_edges ps)\<^sup>*}"
proof -
  let ?m = "by_name ps"
  let ?U = "set names \<union> set (concat (map dependencies ps))"
  have "dep_steps ?m = (project_edges ps)\<inverse>" using next_deps_by_name [OF assms] by auto
  then have steps: "(dep_steps ?m)\<^sup>* = ((project_edges ps)\<^sup>*)\<inverse>" by (simp add: rtrancl_converse)
  have closed: "\<forall>n \<in> ?U. set (next_deps ?m n) \<subseteq> ?U"
    using next_deps_by_name [OF assms] by (auto simp: project_edges_def)
  have "card ?U \<le> length names + length (concat (map dependencies ps))"
    by (rule order_trans [OF card_Un_le]) (metis add_mono card_length)
  then have "collect (collect_fuel names ps) ?m [] names \<noteq> None"
    by (intro collect_fuel_enough [OF _ closed]) (auto simp: collect_fuel_def)
  then obtain r where r: "collect (collect_fuel names ps) ?m [] names = Some r" by blast
  note sound = collect_sound [OF r, simplified]
  have "x \<in> set r" if "n \<in> set r" "(n, x) \<in> (dep_steps ?m)\<^sup>*" for n x
    using that(2,1) sound by (induction rule: rtrancl_induct) auto
  then have "set r = {x. \<exists>n \<in> set names. (n, x) \<in> (dep_steps ?m)\<^sup>*}" using sound by blast
  then show ?thesis using r sound by (auto simp: collect_transitive_deps_def steps)
qed

text \<open>
  \<open>collectTransitiveDeps\<close> returns, for any selection, exactly the selected names and everything
  they depend on, directly or through other projects, each once (cycles included).
\<close>

theorem transitive_deps_reachable:
  assumes "distinct (map proj_name ps)"
  shows "\<exists>r. collect_transitive_deps names ps = Some r \<and> distinct r \<and>
           set r = {x. \<exists>n \<in> set names. (x, n) \<in> (project_edges ps)\<^sup>*}"
  by (rule transitive_deps_spec [OF assms])

theorem transitive_deps_reachable_witness:
  "\<exists>r. collect_transitive_deps [''b''] [demo_project ''a'' [] [], demo_project ''b'' [''a''] []] = Some r \<and> ''a'' \<in> set r"
proof -
  let ?ps = "[demo_project ''a'' [] [], demo_project ''b'' [''a''] []]"
  have "(''a'', ''b'') \<in> project_edges ?ps" by (auto simp: project_edges_def demo_project_def)
  moreover have "distinct (map proj_name ?ps)" by (simp add: demo_project_def)
  ultimately show ?thesis using transitive_deps_reachable [of ?ps "[''b'']"] by auto
qed

end
