(* ===== verification/Sharding.thy ===== *)
theory Sharding
  imports Projects "HOL-Library.Sublist"
begin

text \<open>
  Sharding: the shards of one project partition its files evenly and independently of the order
  they are given in, and a setup project runs whole exactly on the shards that have files of a
  project depending on it.
\<close>

section \<open>The order of the split\<close>

lemma str_le_total: "str_le s t \<or> str_le t s"
  by (induction s t rule: str_le.induct) auto

lemma str_le_trans: "str_le s t \<Longrightarrow> str_le t u \<Longrightarrow> str_le s u"
proof (induction s u arbitrary: t rule: str_le.induct)
  case (2 c s)
  then show ?case by (cases t) auto
next
  case (3 c s d u)
  then show ?case by (cases t) auto
qed simp

lemma str_le_antisym: "str_le s t \<Longrightarrow> str_le t s \<Longrightarrow> s = t"
  by (induction s t rule: str_le.induct) (auto simp: str_le.simps elim: str_le.elims)

lemma sorted_distinct_unique:
  assumes "\<And>x y. le x y \<Longrightarrow> le y x \<Longrightarrow> x = y"
  shows "sorted_wrt le xs \<Longrightarrow> sorted_wrt le ys \<Longrightarrow> distinct xs \<Longrightarrow> distinct ys \<Longrightarrow> set xs = set ys \<Longrightarrow> xs = ys"
proof (induction xs arbitrary: ys)
  case (Cons x xs)
  then obtain y zs where ys: "ys = y # zs" by (cases ys) auto
  have "x = y"
  proof (rule ccontr)
    assume "x \<noteq> y"
    with Cons.prems(5) ys have "x \<in> set zs" "y \<in> set xs" by auto
    with Cons.prems(1,2) ys have "le x y" "le y x" by auto
    with assms \<open>x \<noteq> y\<close> show False by blast
  qed
  moreover from this Cons.prems ys have "set xs = set zs" by auto
  ultimately show ?case using Cons ys by auto
qed simp

text \<open>The sorted files do not depend on the order or repetition of the given ones.\<close>

lemma sorted_files_canonical:
  assumes "set fs = set gs"
  shows "sort_by str_le (set_of_list fs) = sort_by str_le (set_of_list gs)"
  by (rule sorted_distinct_unique [where le = str_le, OF str_le_antisym])
    (simp_all add: assms sorted_wrt_sort_by [OF str_le_total str_le_trans])

section \<open>One project\<close>

lemma set_shard_slice:
  "x \<in> set (shard_slice c n xs) \<longleftrightarrow> (\<exists>i < length xs. xs ! i = x \<and> i mod n = c - 1)"
  by (auto simp: shard_slice_def)

lemma distinct_shard_slice: "distinct xs \<Longrightarrow> distinct (shard_slice c n xs)"
  by (auto simp: shard_slice_def distinct_map inj_on_def nth_eq_iff_index_eq)

lemma set_keep_mine: "set (keep_mine mine fs) = set mine \<inter> set fs"
  by (induction mine fs rule: keep_mine.induct) auto

lemma distinct_keep_mine: "distinct (keep_mine mine fs)"
  by (induction mine fs rule: keep_mine.induct) (auto simp: set_keep_mine)

lemma subseq_keep_mine: "subseq (keep_mine mine fs) fs"
  by (induction mine fs rule: keep_mine.induct) auto

lemma set_shard_files:
  "f \<in> set (shard_files c n files) \<longleftrightarrow>
     (\<exists>i < length (sort_by str_le (set_of_list files)). sort_by str_le (set_of_list files) ! i = f \<and> i mod n = c - 1)"
  using nth_mem [of _ "sort_by str_le (set_of_list files)"]
  by (auto simp: shard_files_def set_keep_mine set_shard_slice)

lemma length_shard_files:
  "length (shard_files c n files) = length (filter (\<lambda>i. i mod n = c - 1) [0..<length (sort_by str_le (set_of_list files))])"
proof -
  let ?s = "shard_slice c n (sort_by str_le (set_of_list files))"
  have "set (shard_files c n files) = set ?s"
    using nth_mem [of _ "sort_by str_le (set_of_list files)"]
    by (auto simp: shard_files_def set_keep_mine set_shard_slice)
  then have "length (shard_files c n files) = length ?s"
    by (metis distinct_card distinct_keep_mine distinct_set_add_all distinct_shard_slice distinct_sort_by
        shard_files_def distinct.simps(1))
  then show ?thesis by (simp add: shard_slice_def)
qed

lemma count_residue:
  assumes "r < n"
  shows "length (filter (\<lambda>i. i mod n = r) [0..<m]) = (m + n - 1 - r) div n"
proof (induction m)
  case 0
  with assms show ?case by simp
next
  case (Suc m)
  have "m mod n = r \<longleftrightarrow> (m + n - r) mod n = 0"
  proof -
    have "m mod n = r \<longleftrightarrow> m mod n = r mod n" using assms by simp
    also have "\<dots> \<longleftrightarrow> (m + n - r) mod n = 0"
      using assms mod_eq_dvd_iff_nat [of r "m + n" n] by (auto simp: mod_eq_0_iff_dvd) 
    finally show ?thesis .
  qed
  moreover have "Suc m + n - 1 - r = Suc (m + n - 1 - r)" "Suc (m + n - 1 - r) = m + n - r"
    using assms by auto
  ultimately show ?case using Suc by (simp add: div_Suc)
qed

text \<open>
  The shards of a project split its files: every file is on exactly one of the shards, each
  shard runs its files once and in the given order, the shards' sizes differ by at most one, and
  which files a shard gets depends on the set of files alone, not on the order a machine lists them.
\<close>

theorem shards_split_files:
  assumes "0 < n"
  shows "(\<forall>f \<in> set files. \<exists>!c. c \<in> {1..n} \<and> f \<in> set (shard_files c n files)) \<and>
         (\<forall>c. distinct (shard_files c n files) \<and> subseq (shard_files c n files) files) \<and>
         (\<forall>c \<in> {1..n}. \<forall>d \<in> {1..n}. length (shard_files c n files) \<le> Suc (length (shard_files d n files))) \<and>
         (\<forall>c other. set other = set files \<longrightarrow> set (shard_files c n other) = set (shard_files c n files))"
proof -
  let ?s = "sort_by str_le (set_of_list files)"
  have d: "distinct ?s" by simp
  have one: "\<exists>!c. c \<in> {1..n} \<and> f \<in> set (shard_files c n files)" if f: "f \<in> set files" for f
  proof -
    from f have "f \<in> set ?s" by simp
    then obtain i where i: "i < length ?s" "?s ! i = f" by (metis in_set_conv_nth)
    have iff: "f \<in> set (shard_files c n files) \<longleftrightarrow> i mod n = c - 1" for c
      using i d nth_eq_iff_index_eq [OF d] unfolding set_shard_files by metis
    show ?thesis
    proof (rule ex1I [of _ "Suc (i mod n)"])
      show "Suc (i mod n) \<in> {1..n} \<and> f \<in> set (shard_files (Suc (i mod n)) n files)"
        using iff [of "Suc (i mod n)"] assms by (simp add: Suc_le_eq)
      fix c assume "c \<in> {1..n} \<and> f \<in> set (shard_files c n files)"
      then show "c = Suc (i mod n)" using iff [of c] by auto
    qed
  qed
  have even: "length (shard_files c n files) \<le> Suc (length (shard_files d n files))"
    if "c \<in> {1..n}" "d \<in> {1..n}" for c d
  proof -
    let ?m = "length ?s"
    have len: "length (shard_files c n files) = (?m + n - 1 - (c - 1)) div n" if "c \<in> {1..n}" for c
      using that by (subst length_shard_files, subst count_residue) auto
    have "(?m + n - 1 - (c - 1)) div n \<le> (?m + n - 1 - (d - 1) + n) div n"
      using that by (intro div_le_mono) auto
    also have "\<dots> = Suc ((?m + n - 1 - (d - 1)) div n)" using assms by (subst div_add_self2) auto
    finally show ?thesis using len [OF that(1)] len [OF that(2)] by simp
  qed
  have canonical: "set (shard_files c n other) = set (shard_files c n files)" if "set other = set files" for c other
    unfolding set_eq_iff set_shard_files sorted_files_canonical [OF that] by blast
  have order: "distinct (shard_files c n files) \<and> subseq (shard_files c n files) files" for c
    by (simp add: shard_files_def distinct_keep_mine subseq_keep_mine)
  show ?thesis
    by (intro conjI ballI allI impI one even canonical)
      (simp_all add: order)
qed

theorem shards_split_files_witness:
  "\<exists>!c. c \<in> {1..2} \<and> ''b'' \<in> set (shard_files c 2 [''b'', ''a'', ''c''])"
proof -
  have "(0::nat) < 2" by simp
  from shards_split_files [OF this, of "[''b'', ''a'', ''c'']"]
  have "\<forall>f \<in> set [''b'', ''a'', ''c'']. \<exists>!c. c \<in> {1..2} \<and> f \<in> set (shard_files c 2 [''b'', ''a'', ''c''])" by (rule conjunct1)
  then show ?thesis by (rule bspec) simp
qed

section \<open>Setup projects\<close>

text \<open>
  What the loop keeps: a project is as it was, or it is a depended-on project whose files were
  dropped and none of whose dependents has files left.
\<close>

definition only_emptied :: "string list \<Rightarrow> resolved_project list \<Rightarrow> resolved_project list \<Rightarrow> bool" where
  "only_emptied dep_on ps ps' \<longleftrightarrow> length ps' = length ps \<and>
     (\<forall>i < length ps. ps' ! i = ps ! i \<or>
        ps' ! i = (ps ! i)\<lparr> test_files := [] \<rparr> \<and> proj_name (ps ! i) \<in> set dep_on \<and>
        \<not> has_dependent_tests ps' (proj_name (ps ! i)))"

definition with_files :: "resolved_project list \<Rightarrow> nat" where
  "with_files ps = length (filter (\<lambda>p. test_files p \<noteq> []) ps)"

lemma has_dependent_tests_nth:
  "has_dependent_tests ps n \<longleftrightarrow> (\<exists>i < length ps. n \<in> set (dependencies (ps ! i)) \<and> test_files (ps ! i) \<noteq> [])"
  by (auto simp: has_dependent_tests_def list_ex_length)

lemma has_dependent_tests_emptied:
  "i < length ps \<Longrightarrow> has_dependent_tests (ps[i := (ps ! i)\<lparr> test_files := [] \<rparr>]) n \<Longrightarrow> has_dependent_tests ps n"
  unfolding has_dependent_tests_nth by (auto simp: nth_list_update split: if_splits)

lemma with_files_emptied:
  "i < length ps \<Longrightarrow> test_files (ps ! i) \<noteq> [] \<Longrightarrow> with_files (ps[i := (ps ! i)\<lparr> test_files := [] \<rparr>]) < with_files ps"
proof (induction ps arbitrary: i)
  case (Cons p ps)
  then show ?case by (cases i) (auto simp: with_files_def)
qed simp

text \<open>One step of the pass: the state is kept, or one project with files is emptied.\<close>

lemma empty_setup_cases:
  assumes "i < length (fst s)"
  obtains (keep) "empty_setup dep_on i s = s"
      "proj_name (fst s ! i) \<in> set dep_on \<Longrightarrow> test_files (fst s ! i) \<noteq> [] \<Longrightarrow>
         has_dependent_tests (fst s) (proj_name (fst s ! i))"
    | (drop) "empty_setup dep_on i s = ((fst s)[i := (fst s ! i)\<lparr> test_files := [] \<rparr>], True)"
      "proj_name (fst s ! i) \<in> set dep_on" "test_files (fst s ! i) \<noteq> []"
      "\<not> has_dependent_tests (fst s) (proj_name (fst s ! i))"
proof (cases "proj_name (fst s ! i) \<in> set dep_on \<and> test_files (fst s ! i) \<noteq> [] \<and>
    \<not> has_dependent_tests (fst s) (proj_name (fst s ! i))")
  case True
  then have "empty_setup dep_on i s = ((fst s)[i := (fst s ! i)\<lparr> test_files := [] \<rparr>], True)"
    by (simp add: empty_setup_def Let_def)
  with True show ?thesis by (intro drop) auto
next
  case False
  then have "empty_setup dep_on i s = s" by (auto simp: empty_setup_def Let_def)
  with False show ?thesis by (intro keep) auto
qed

lemma only_emptied_step:
  assumes "only_emptied dep_on ps (fst s)" and "i < length ps"
  shows "only_emptied dep_on ps (fst (empty_setup dep_on i s))"
proof -
  from assms have i: "i < length (fst s)" by (simp add: only_emptied_def)
  then show ?thesis
  proof (cases rule: empty_setup_cases [of i s dep_on])
    case keep
    with assms show ?thesis by simp
  next
    case drop
    let ?ps' = "(fst s)[i := (fst s ! i)\<lparr> test_files := [] \<rparr>]"
    have mono: "has_dependent_tests ?ps' n \<Longrightarrow> has_dependent_tests (fst s) n" for n
      by (rule has_dependent_tests_emptied [OF i])
    have eq: "fst s ! i = ps ! i"
      using assms drop(3) by (auto simp: only_emptied_def)
    have "?ps' ! j = ps ! j \<or> ?ps' ! j = (ps ! j)\<lparr> test_files := [] \<rparr> \<and> proj_name (ps ! j) \<in> set dep_on \<and>
        \<not> has_dependent_tests ?ps' (proj_name (ps ! j))" if "j < length ps" for j
      using assms(1) that i drop eq mono by (cases "j = i") (auto simp: only_emptied_def)
    then show ?thesis using drop(1) assms(1) by (simp add: only_emptied_def)
  qed
qed

text \<open>A pass: either it changed something and fewer projects have files, or nothing was to change.\<close>

lemma setup_fold:
  assumes "set is \<subseteq> {..<length ps}" and "only_emptied dep_on ps (fst s)"
  shows "only_emptied dep_on ps (fst (fold (empty_setup dep_on) is s)) \<and>
    (snd s \<longrightarrow> snd (fold (empty_setup dep_on) is s)) \<and>
    with_files (fst (fold (empty_setup dep_on) is s)) \<le> with_files (fst s) \<and>
    (\<not> snd s \<and> snd (fold (empty_setup dep_on) is s) \<longrightarrow>
        with_files (fst (fold (empty_setup dep_on) is s)) < with_files (fst s)) \<and>
    (\<not> snd (fold (empty_setup dep_on) is s) \<longrightarrow> fst (fold (empty_setup dep_on) is s) = fst s \<and>
       (\<forall>i \<in> set is. proj_name (fst s ! i) \<in> set dep_on \<longrightarrow> test_files (fst s ! i) \<noteq> [] \<longrightarrow>
          has_dependent_tests (fst s) (proj_name (fst s ! i))))"
  using assms
proof (induction "is" arbitrary: s)
  case (Cons i "is")
  from Cons.prems have i: "i < length (fst s)" "i < length ps" by (simp_all add: only_emptied_def)
  note IH = Cons.IH [OF _ only_emptied_step [OF Cons.prems(2) i(2)]]
  from i(1) show ?case
  proof (cases rule: empty_setup_cases [of i s dep_on])
    case keep
    with IH Cons.prems(1) show ?thesis by auto
  next
    case drop
    have "with_files (fst (empty_setup dep_on i s)) < with_files (fst s)"
      unfolding drop(1) fst_conv by (rule with_files_emptied [OF i(1) drop(3)])
    moreover have "snd (empty_setup dep_on i s)" by (simp add: drop(1))
    ultimately show ?thesis using IH Cons.prems(1) by auto
  qed
qed simp

lemma setup_loop_spec:
  assumes "only_emptied dep_on ps qs" and "with_files qs < fuel"
  shows "\<exists>ps'. setup_loop fuel dep_on qs = Some ps' \<and> only_emptied dep_on ps ps' \<and>
    (\<forall>i < length ps. proj_name (ps' ! i) \<in> set dep_on \<longrightarrow> test_files (ps' ! i) \<noteq> [] \<longrightarrow>
       has_dependent_tests ps' (proj_name (ps' ! i)))"
  using assms
proof (induction fuel arbitrary: qs)
  case (Suc fuel)
  have len: "length qs = length ps" using Suc.prems(1) by (simp add: only_emptied_def)
  obtain ps' c where pass: "setup_pass dep_on qs = (ps', c)" by fastforce
  from setup_fold [of "[0..<length qs]" ps dep_on "(qs, False)"] Suc.prems(1) len
  have f: "only_emptied dep_on ps ps'" "c \<Longrightarrow> with_files ps' < with_files qs"
    "\<not> c \<Longrightarrow> ps' = qs \<and> (\<forall>i < length ps. proj_name (qs ! i) \<in> set dep_on \<longrightarrow> test_files (qs ! i) \<noteq> [] \<longrightarrow>
       has_dependent_tests qs (proj_name (qs ! i)))"
    using pass by (auto simp: setup_pass_def atLeast0LessThan)
  show ?case
  proof (cases c)
    case True
    with f(1,2) Suc.prems(2) Suc.IH [of ps'] show ?thesis by (simp add: pass)
  next
    case False
    with f show ?thesis by (simp add: pass)
  qed
qed simp

lemma with_files_le: "with_files ps \<le> length ps"
  by (simp add: with_files_def)

text \<open>
  C12. \<open>shardProjects\<close> is correct: the loop over the setup projects ends; a project nothing depends on
  gets its shard of its files; a setup project runs whole on a shard exactly if a project that
  depends on it has files there, and not at all otherwise; and the returned list holds each file
  the shard's projects run, once, sorted.
\<close>

theorem shard_projects_correct:
  "\<exists>ps' files. shard_projects ps current shards = Some (ps', files) \<and> length ps' = length ps \<and>
     (\<forall>i < length ps. \<exists>fs. ps' ! i = (ps ! i)\<lparr> test_files := fs \<rparr> \<and>
        fs = (if proj_name (ps ! i) \<notin> set (concat (map dependencies ps))
              then shard_files current shards (test_files (ps ! i))
              else if has_dependent_tests ps' (proj_name (ps ! i)) then test_files (ps ! i) else [])) \<and>
     set files = (\<Union>p \<in> set ps'. set (test_files p)) \<and> distinct files \<and> sorted_wrt str_le files"
proof -
  let ?dep = "depended_on ps"
  have dep: "set ?dep = set (concat (map dependencies ps))" by (simp add: depended_on_def)
  let ?qs = "map (split_project current shards ?dep) ps"
  have "only_emptied ?dep ?qs ?qs" by (simp add: only_emptied_def)
  moreover have "with_files ?qs < Suc (length ps)" using with_files_le [of ?qs] by simp
  ultimately obtain ps' where ps': "setup_loop (Suc (length ps)) ?dep ?qs = Some ps'" "only_emptied ?dep ?qs ps'"
    and stable: "\<forall>i < length ps. proj_name (ps' ! i) \<in> set ?dep \<longrightarrow> test_files (ps' ! i) \<noteq> [] \<longrightarrow>
       has_dependent_tests ps' (proj_name (ps' ! i))"
    using setup_loop_spec by fastforce
  define files where "files = sort_by str_le (set_of_list (concat (map test_files ps')))"
  have result: "shard_projects ps current shards = Some (ps', files)"
    unfolding shard_projects_def Let_def ps'(1) files_def by simp
  have len: "length ps' = length ps" using ps'(2) by (simp add: only_emptied_def)
  have each: "\<exists>fs. ps' ! i = (ps ! i)\<lparr> test_files := fs \<rparr> \<and>
        fs = (if proj_name (ps ! i) \<notin> set ?dep then shard_files current shards (test_files (ps ! i))
              else if has_dependent_tests ps' (proj_name (ps ! i)) then test_files (ps ! i) else [])"
    if i: "i < length ps" for i
  proof -
    have cs: "ps' ! i = ?qs ! i \<or> ps' ! i = (?qs ! i)\<lparr> test_files := [] \<rparr> \<and> proj_name (?qs ! i) \<in> set ?dep \<and>
        \<not> has_dependent_tests ps' (proj_name (?qs ! i))"
      using ps'(2) i by (auto simp: only_emptied_def)
    show ?thesis
    proof (cases "proj_name (ps ! i) \<in> set ?dep")
      case False
      with cs i show ?thesis by (auto simp: split_project_def)
    next
      case True
      with i have q: "?qs ! i = ps ! i" by (simp add: split_project_def)
      show ?thesis
      proof (cases "ps' ! i = ps ! i")
        case same: True
        with stable i True have "test_files (ps ! i) = [] \<or> has_dependent_tests ps' (proj_name (ps ! i))" by metis
        then show ?thesis using True same
          by (intro exI [of _ "test_files (ps ! i)"]) auto
      next
        case False
        with cs q True show ?thesis by auto
      qed
    qed
  qed
  show ?thesis
    using result len each sorted_wrt_sort_by [OF str_le_total str_le_trans] unfolding dep
    by (intro exI [of _ ps'] exI [of _ files]) (auto simp: files_def)
qed

theorem shard_projects_correct_witness:
  "\<exists>ps' files. shard_projects [demo_project ''setup'' [] [''s''], demo_project ''app'' [''setup''] [''x'', ''y'']] 1 2 = Some (ps', files) \<and>
     length ps' = 2 \<and> distinct files \<and> sorted_wrt str_le files"
proof -
  let ?ps = "[demo_project ''setup'' [] [''s''], demo_project ''app'' [''setup''] [''x'', ''y'']]"
  have "length ?ps = 2" by simp
  with shard_projects_correct [of ?ps 1 2] show ?thesis by metis
qed

end
