(* ===== verification/Worker_Allocation.thy ===== *)
theory Worker_Allocation
  imports Projects
begin

text \<open>
  The split of the worker budget over device buckets (\<open>project.ts\<close>): \<open>allocateBucketWorkers\<close> with
  its fair-share loop, \<open>scaleToBudget\<close>, and the checks and notes about pinned devices. The results
  are JavaScript maps from signatures to worker counts; a bucket is its signature and its projects.
\<close>

type_synonym bucket = "string \<times> resolved_project list"
type_synonym allocation = "(string, nat) jsmap"

definition bucket_files :: "bucket \<Rightarrow> nat" where
  "bucket_files b = sum_list (map (\<lambda>p. length (test_files p)) (snd b))"

definition workers_of :: "allocation \<Rightarrow> nat \<Rightarrow> string \<Rightarrow> nat" where
  "workers_of m d s = nullish (map_get m s) d"

text \<open>The explicit worker counts of a bucket's projects.\<close>

definition explicit_values :: "bucket \<Rightarrow> nat list" where
  "explicit_values b = concat (map (\<lambda>p. case proj_workers p of Some w \<Rightarrow> if w > 0 then [nat w] else [] | None \<Rightarrow> []) (snd b))"

definition set_each :: "(bucket \<Rightarrow> nat) \<Rightarrow> bucket list \<Rightarrow> allocation \<Rightarrow> allocation" where
  "set_each f bs m = fold (\<lambda>b. map_set (fst b) (f b)) bs m"

section \<open>Handing out workers\<close>

text \<open>One round over the ranked buckets: one more worker each while any are left.\<close>

fun leftover_pass :: "string list \<Rightarrow> allocation \<Rightarrow> nat \<Rightarrow> allocation" where
  "leftover_pass [] m left = m"
| "leftover_pass (s # ss) m left =
     (if left = 0 then m else leftover_pass ss (map_set s (workers_of m 1 s + 1) m) (left - 1))"

text \<open>One round of the fair-share loop: the map, what is left, and \<open>madeProgress\<close>.\<close>

fun fair_pass :: "(string \<times> nat) list \<Rightarrow> allocation \<Rightarrow> nat \<Rightarrow> bool \<Rightarrow> allocation \<times> nat \<times> bool" where
  "fair_pass [] m left progress = (m, left, progress)"
| "fair_pass ((s, share) # rs) m left progress =
     (if left = 0 then (m, left, progress)
      else if workers_of m 1 s < share
      then fair_pass rs (map_set s (workers_of m 1 s + 1) m) (left - 1) True
      else fair_pass rs m left progress)"

lemma fair_pass_left:
  "fair_pass rs m left progress = (m', left', progress') \<Longrightarrow>
     left' \<le> left \<and> (progress \<longrightarrow> progress') \<and> (progress' \<and> \<not> progress \<longrightarrow> left' < left) \<and> (left' < left \<longrightarrow> progress')"
proof (induction rs arbitrary: m left progress)
  case (Cons r rs)
  obtain s share where r: "r = (s, share)" by fastforce
  show ?case
  proof (cases "left = 0 \<or> workers_of m 1 s \<ge> share")
    case True
    with Cons show ?thesis by (cases "left = 0") (auto simp: r)
  next
    case False
    with Cons.prems have "fair_pass rs (map_set s (workers_of m 1 s + 1) m) (left - 1) True = (m', left', progress')"
      by (simp add: r)
    from Cons.IH [OF this] False show ?thesis by auto
  qed
qed simp

function fair_loop :: "(string \<times> nat) list \<Rightarrow> allocation \<Rightarrow> nat \<Rightarrow> allocation" where
  "fair_loop ranked m left =
     (if left = 0 then m
      else case fair_pass ranked m left False of
             (m', left', True) \<Rightarrow> fair_loop ranked m' left'
           | (m', left', False) \<Rightarrow> leftover_pass (map fst ranked) m' left')"
  by pat_completeness auto
termination
  by (relation "measure (\<lambda>(ranked, m, left). left)") (auto dest!: fair_pass_left [OF sym])

declare fair_loop.simps [simp del]

text \<open>Buckets by a count, largest first (\<open>sort((a, b) => b.files - a.files)\<close>).\<close>

definition ranked_by :: "(bucket \<Rightarrow> nat) \<Rightarrow> bucket list \<Rightarrow> bucket list" where
  "ranked_by f bs = sort_by (\<lambda>a b. f a \<ge> f b) bs"

section \<open>\<open>scaleToBudget\<close>\<close>

fun scale_pass :: "nat \<Rightarrow> nat \<Rightarrow> (string \<times> nat) list \<Rightarrow> allocation \<Rightarrow> nat \<Rightarrow> allocation \<times> nat" where
  "scale_pass cap total_workers [] m left = (m, left)"
| "scale_pass cap total_workers ((s, natural) # rs) m left =
     (if left = 0 then (m, left)
      else let to_add = min left (cap * natural div total_workers - 1)
           in if to_add > 0 then scale_pass cap total_workers rs (map_set s (1 + to_add) m) (left - to_add)
              else scale_pass cap total_workers rs m left)"

definition scale_to_budget :: "int \<Rightarrow> bucket list \<Rightarrow> allocation \<Rightarrow> allocation" where
  "scale_to_budget cap active result =
     (if active = [] then result
      else let total_workers = sum_list (map (\<lambda>b. workers_of result 0 (fst b)) active)
           in if int total_workers = cap then result
              else let effective = nat (max cap (int (length active)));
                       ones = set_each (\<lambda>_. 1) active result;
                       left = effective - length active
                   in if left = 0 then ones
                      else let ranked = map (\<lambda>b. (fst b, workers_of result 0 (fst b)))
                                          (ranked_by (\<lambda>b. workers_of result 0 (fst b)) active)
                           in case scale_pass effective total_workers ranked ones left of
                                (m, rest) \<Rightarrow> leftover_pass (map fst ranked) m rest)"

section \<open>\<open>allocateBucketWorkers\<close>\<close>

definition is_explicit :: "bucket \<Rightarrow> bool" where
  "is_explicit b \<longleftrightarrow> explicit_values b \<noteq> []"

definition fair_ranking :: "nat \<Rightarrow> bucket list \<Rightarrow> (string \<times> nat) list" where
  "fair_ranking budget implicit =
     (let total_files = sum_list (map bucket_files implicit)
      in map (\<lambda>b. (fst b, budget * bucket_files b div total_files)) (ranked_by bucket_files implicit))"

definition allocate_bucket_workers ::
  "int \<Rightarrow> bucket list \<Rightarrow> int option \<Rightarrow> (string \<Rightarrow> bool) \<Rightarrow> allocation" where
  "allocate_bucket_workers total_budget entries budget_cap pinned_signature =
     (let active = filter (\<lambda>b. bucket_files b > 0) entries;
          inactive = filter (\<lambda>b. \<not> bucket_files b > 0) entries;
          pinned = filter (\<lambda>b. pinned_signature (fst b)) active;
          scalable = filter (\<lambda>b. \<not> pinned_signature (fst b)) active;
          start = set_each (\<lambda>_. 1) pinned (set_each (\<lambda>_. 0) inactive []);
          scale = (\<lambda>m. case budget_cap of None \<Rightarrow> m
                       | Some cap \<Rightarrow> scale_to_budget (cap - int (length pinned)) scalable m);
          budget = nat (total_budget - int (length pinned));
          explicit = filter is_explicit scalable;
          implicit = filter (\<lambda>b. \<not> is_explicit b) scalable;
          with_explicit = set_each (\<lambda>b. Max (set (explicit_values b))) explicit start
      in if active = [] then set_each (\<lambda>_. 0) inactive []
         else if scalable = [] then start
         else if implicit = [] then scale with_explicit
         else let ones = set_each (\<lambda>_. 1) implicit with_explicit;
                  left = budget - length implicit
              in scale (if left > 0 \<and> sum_list (map bucket_files implicit) > 0
                        then fair_loop (fair_ranking budget implicit) ones left else ones))"

section \<open>Pinned devices\<close>

text \<open>What \<open>pinnedBucketSignatures\<close> keeps per pinned bucket: the pins and the group.\<close>

type_synonym pinned_bucket = "string list \<times> group_entry list"

definition target_projects :: "resolved_project list \<Rightarrow> target_project list" where
  "target_projects ps = map (\<lambda>p. (proj_name p, target_of (config_values (effective_config p)))) ps"

definition pinned_bucket_signatures :: "bucket list \<Rightarrow> (string, pinned_bucket) jsmap" where
  "pinned_bucket_signatures entries =
     fold (\<lambda>b m. let pins = bucket_pins (target_projects (snd b))
                 in if pins = [] then m
                    else map_set (fst b) (pins, bucket_group (target_projects (snd b))) m) entries []"

definition device_pin_workers_conflict ::
  "string option \<Rightarrow> int option \<Rightarrow> int \<Rightarrow> int option \<Rightarrow> bool" where
  "device_pin_workers_conflict dev workers usable useful =
     (case (truthy dev, workers) of
        (Some d, Some w) \<Rightarrow> w > 1 \<and> (case useful of None \<Rightarrow> w | Some u \<Rightarrow> min w u) > usable
      | _ \<Rightarrow> False)"

datatype worker_note = Needs_Workers nat | Pinned_Devices "string list"

definition worker_plan_note ::
  "int \<Rightarrow> bool \<Rightarrow> int \<Rightarrow> nat \<Rightarrow> string list \<Rightarrow> worker_note option" where
  "worker_plan_note requested explicit running active_buckets pins =
     (if explicit \<and> running > requested then Some (Needs_Workers active_buckets)
      else if running < requested \<and> pins \<noteq> [] then Some (Pinned_Devices pins)
      else None)"

definition platform_matches :: "string \<Rightarrow> js_object \<Rightarrow> bool" where
  "platform_matches pf obj \<longleftrightarrow> nullish (string_key ''platform'' obj) ''android'' = pf"

text \<open>A project of the other platform that inherited the pin loses it, with a fresh signature.\<close>

definition scope_device_pin_to_platform ::
  "string \<Rightarrow> string \<Rightarrow> resolved_project list \<Rightarrow> resolved_project list" where
  "scope_device_pin_to_platform serial pf ps =
     map (\<lambda>p. let obj = config_values (effective_config p)
              in if platform_matches pf obj \<or> js_get ''device'' obj \<noteq> V_String serial then p
                 else let eff = plain_config (map_set ''device'' V_Undefined obj)
                      in p\<lparr> effective_config := eff, proj_signature := signature_of eff \<rparr>) ps"

definition hex_char :: "char \<Rightarrow> bool" where
  "hex_char c \<longleftrightarrow> (let n = of_char c :: nat in 48 \<le> n \<and> n \<le> 57 \<or> 65 \<le> n \<and> n \<le> 70 \<or> 97 \<le> n \<and> n \<le> 102)"

text \<open>\<open>IOS_UDID\<close>: groups of hexadecimal digits separated by dashes.\<close>

fun hex_groups :: "nat list \<Rightarrow> string \<Rightarrow> bool" where
  "hex_groups [] s = (s = [])"
| "hex_groups [n] s = (length s = n \<and> list_all hex_char s)"
| "hex_groups (n # m # ns) s =
     (length s > n \<and> list_all hex_char (take n s) \<and> s ! n = CHR ''-'' \<and> hex_groups (m # ns) (drop (Suc n) s))"

definition ios_udid :: "string \<Rightarrow> bool" where
  "ios_udid s \<longleftrightarrow> hex_groups [8, 4, 4, 4, 12] s \<or> hex_groups [8, 16] s \<or> hex_groups [40] s"

definition platform_of_serial :: "string \<Rightarrow> string" where
  "platform_of_serial s = (if ios_udid s then ''ios'' else ''android'')"

text \<open>Devices that more than one active pinned bucket is pinned to, with the projects pinning them.\<close>

definition devices_pinned_by_many_buckets ::
  "bucket list \<Rightarrow> (string, pinned_bucket) jsmap \<Rightarrow> (string \<times> string list) list" where
  "devices_pinned_by_many_buckets entries pinned_sigs =
     (let by_serial = fold (\<lambda>b m.
            if map_get pinned_sigs (fst b) = None \<or> \<not> list_ex (\<lambda>p. test_files p \<noteq> []) (snd b) then m
            else fold (\<lambda>serial m. map_set serial (nullish (map_get m serial) [] @ [b]) m)
                   (set_of_list (fst (the (map_get pinned_sigs (fst b))))) m) entries []
      in map (\<lambda>(serial, bs). (serial, concat (map (\<lambda>b. map proj_name (snd b)) bs)))
           (filter (\<lambda>(serial, bs). length bs > 1) by_serial))"

end
