(* ===== verification/Allocation_Safety.thy ===== *)
theory Allocation_Safety
  imports Worker_Allocation
begin

text \<open>
  The worker allocation hands out exactly the budget: every active bucket gets a worker, a pinned
  one exactly one, explicit counts are kept, and the rest of the budget is used up by the fair-share
  loop or the scaling, whose final round is always enough for what rounding leaves over.
\<close>

section \<open>Totals\<close>

definition total_of :: "allocation \<Rightarrow> string list \<Rightarrow> nat" where
  "total_of m ss = sum_list (map (workers_of m 0) ss)"

definition all_set :: "allocation \<Rightarrow> string list \<Rightarrow> bool" where
  "all_set m ss \<longleftrightarrow> (\<forall>s \<in> set ss. map_get m s \<noteq> None)"

lemma total_of_simps [simp]: "total_of m [] = 0" "total_of m (s # ss) = workers_of m 0 s + total_of m ss"
  by (simp_all add: total_of_def)

lemma workers_of_set [simp]: "workers_of (map_set k v m) d s = (if s = k then v else workers_of m d s)"
  by (simp add: workers_of_def)

lemma workers_of_default: "map_get m s \<noteq> None \<Longrightarrow> workers_of m d s = workers_of m 0 s"
  by (auto simp: workers_of_def)

lemma all_set_map_set [simp]: "all_set m ss \<Longrightarrow> all_set (map_set k v m) ss"
  by (simp add: all_set_def)

lemma total_of_other: "k \<notin> set ss \<Longrightarrow> total_of (map_set k v m) ss = total_of m ss"
  by (induction ss) auto

text \<open>How a step treats the listed buckets: nobody loses a worker, and no other bucket is touched.\<close>

definition grows :: "string list \<Rightarrow> allocation \<Rightarrow> allocation \<Rightarrow> bool" where
  "grows ss m m' \<longleftrightarrow> (\<forall>s. workers_of m 0 s \<le> workers_of m' 0 s) \<and>
     (\<forall>s. s \<notin> set ss \<longrightarrow> map_get m' s = map_get m s) \<and> (\<forall>s. map_get m s \<noteq> None \<longrightarrow> map_get m' s \<noteq> None)"

lemma grows_refl [simp]: "grows ss m m"
  by (simp add: grows_def)

lemma grows_trans: "grows ss m m' \<Longrightarrow> grows ss m' m'' \<Longrightarrow> grows ss m m''"
  unfolding grows_def by (metis order_trans)

lemma grows_all_set: "grows ss m m' \<Longrightarrow> all_set m ts \<Longrightarrow> all_set m' ts"
  by (auto simp: grows_def all_set_def)

lemma grows_map_set: "workers_of m 0 k \<le> v \<Longrightarrow> k \<in> set ss \<Longrightarrow> grows ss m (map_set k v m)"
  by (auto simp: grows_def)

lemma grows_mono: "grows ss m m' \<Longrightarrow> set ss \<subseteq> set ts \<Longrightarrow> grows ts m m'"
  by (auto simp: grows_def)

lemma leftover_pass_spec:
  "distinct ss \<Longrightarrow> all_set m ss \<Longrightarrow>
     total_of (leftover_pass ss m left) ss = total_of m ss + min left (length ss) \<and>
     grows ss m (leftover_pass ss m left)"
proof (induction ss m left rule: leftover_pass.induct)
  case (2 s ss m left)
  show ?case
  proof (cases "left = 0")
    case False
    let ?m = "map_set s (workers_of m 1 s + 1) m"
    have w: "workers_of m 1 s = workers_of m 0 s" using "2.prems"(2) by (intro workers_of_default) (simp add: all_set_def)
    have IH: "total_of (leftover_pass ss ?m (left - 1)) ss = total_of ?m ss + min (left - 1) (length ss)"
      "grows ss ?m (leftover_pass ss ?m (left - 1))"
      using "2.IH" [OF False] "2.prems" by (auto simp: all_set_def)
    have "workers_of (leftover_pass ss ?m (left - 1)) 0 s = workers_of m 0 s + 1"
      using IH(2) "2.prems"(1) w by (simp add: grows_def workers_of_def)
    moreover have "total_of ?m ss = total_of m ss" using "2.prems"(1) by (intro total_of_other) simp
    moreover have "grows (s # ss) m (leftover_pass ss ?m (left - 1))"
      using grows_trans [OF grows_map_set [of m s "workers_of m 1 s + 1" "s # ss"] grows_mono [OF IH(2), of "s # ss"]] w
      by (auto simp: subset_iff)
    ultimately show ?thesis using IH(1) False by simp
  qed simp
qed simp

lemma fair_pass_spec:
  "fair_pass rs m left progress = (m', left', progress') \<Longrightarrow> distinct (map fst rs) \<Longrightarrow> all_set m (map fst rs) \<Longrightarrow>
     total_of m' (map fst rs) + left' = total_of m (map fst rs) + left \<and> grows (map fst rs) m m' \<and>
     (\<not> progress' \<longrightarrow> m' = m \<and> left' = left \<and> (left = 0 \<or> (\<forall>(s, share) \<in> set rs. share \<le> workers_of m 0 s)))"
proof (induction rs arbitrary: m left progress)
  case (Cons r rs)
  obtain s share where r: "r = (s, share)" by fastforce
  have w: "workers_of m 1 s = workers_of m 0 s"
    using Cons.prems(3) by (intro workers_of_default) (simp add: all_set_def r)
  show ?case
  proof (cases "left = 0")
    case True
    with Cons.prems(1) show ?thesis by (auto simp: r)
  next
    case left: False
    show ?thesis
    proof (cases "workers_of m 0 s < share")
      case True
      let ?m = "map_set s (workers_of m 1 s + 1) m"
      from Cons.prems(1) left True w have "fair_pass rs ?m (left - 1) True = (m', left', progress')" by (simp add: r)
      from Cons.IH [OF this] Cons.prems(2,3) r have IH:
        "total_of m' (map fst rs) + left' = total_of ?m (map fst rs) + (left - 1)" "grows (map fst rs) ?m m'"
        by (auto simp: all_set_def)
      have "progress'" using fair_pass_left [OF \<open>fair_pass rs ?m (left - 1) True = (m', left', progress')\<close>] by simp
      moreover have "workers_of m' 0 s = workers_of m 0 s + 1"
        using IH(2) Cons.prems(2) w r by (simp add: grows_def workers_of_def)
      moreover have "total_of ?m (map fst rs) = total_of m (map fst rs)"
        using Cons.prems(2) r by (intro total_of_other) simp
      moreover have "grows (map fst (r # rs)) m m'"
        using grows_trans [OF grows_map_set [of m s "workers_of m 1 s + 1" "map fst (r # rs)"]
            grows_mono [OF IH(2), of "map fst (r # rs)"]] w r
        by (auto simp: subset_iff)
      ultimately show ?thesis using IH(1) left r by simp
    next
      case False
      with left w Cons.prems(1) have "fair_pass rs m left progress = (m', left', progress')" by (simp add: r)
      from Cons.IH [OF this] Cons.prems(2,3) r have IH:
        "total_of m' (map fst rs) + left' = total_of m (map fst rs) + left" "grows (map fst rs) m m'"
        "\<not> progress' \<longrightarrow> m' = m \<and> left' = left \<and> (left = 0 \<or> (\<forall>(s, share) \<in> set rs. share \<le> workers_of m 0 s))"
        by (auto simp: all_set_def)
      have "workers_of m' 0 s = workers_of m 0 s"
        using IH(2) Cons.prems(2) r by (simp add: grows_def workers_of_def)
      moreover have "grows (map fst (r # rs)) m m'" using grows_mono [OF IH(2)] by (auto simp: subset_iff)
      ultimately show ?thesis using IH False r by auto
    qed
  qed
qed simp

text \<open>The fair-share loop uses up what is left, provided the shares add up to all but one per bucket.\<close>

lemma fair_loop_spec:
  "distinct (map fst rs) \<Longrightarrow> all_set m (map fst rs) \<Longrightarrow>
     total_of m (map fst rs) + left \<le> sum_list (map snd rs) + length rs \<Longrightarrow>
     total_of (fair_loop rs m left) (map fst rs) = total_of m (map fst rs) + left \<and>
     grows (map fst rs) m (fair_loop rs m left)"
proof (induction rs m left rule: fair_loop.induct)
  case (1 rs m left)
  show ?case
  proof (cases "left = 0")
    case True
    then show ?thesis by (simp add: fair_loop.simps)
  next
    case False
    obtain m' left' progress' where pass: "fair_pass rs m left False = (m', left', progress')"
      by (metis prod_cases3)
    note spec = fair_pass_spec [OF pass "1.prems"(1,2)]
    show ?thesis
    proof (cases progress')
      case True
      have "total_of (fair_loop rs m' left') (map fst rs) = total_of m' (map fst rs) + left' \<and>
          grows (map fst rs) m' (fair_loop rs m' left')"
        using spec "1.prems" True pass grows_all_set [of _ m m' "map fst rs"]
        by (intro "1.IH" [OF False pass [symmetric] refl]) auto
      moreover have "fair_loop rs m left = fair_loop rs m' left'"
        using False pass True by (subst fair_loop.simps) simp
      ultimately show ?thesis using spec grows_trans by fastforce
    next
      case stuck: False
      with spec False have m': "m' = m" "left' = left" and full: "\<forall>(s, share) \<in> set rs. share \<le> workers_of m 0 s" by auto
      have "sum_list (map snd rs) \<le> total_of m (map fst rs)"
        using full unfolding total_of_def by (induction rs) auto
      then have "left \<le> length rs" using "1.prems"(3) by linarith
      moreover have "fair_loop rs m left = leftover_pass (map fst rs) m left"
        using False pass stuck m' by (subst fair_loop.simps) simp
      ultimately show ?thesis using leftover_pass_spec [OF "1.prems"(1,2), of left] by simp
    qed
  qed
qed

section \<open>Scaling\<close>

lemma scale_pass_spec:
  "scale_pass cap tw rs m left = (m', left') \<Longrightarrow> distinct (map fst rs) \<Longrightarrow>
     \<forall>s \<in> set (map fst rs). map_get m s = Some 1 \<Longrightarrow>
     total_of m' (map fst rs) + left' = total_of m (map fst rs) + left \<and> grows (map fst rs) m m' \<and> left' \<le> left \<and>
     (0 < left' \<longrightarrow> left' + sum_list (map (\<lambda>r. cap * snd r div tw) rs) \<le> left + length rs)"
proof (induction rs arbitrary: m left)
  case (Cons r rs)
  obtain s natural where r: "r = (s, natural)" by fastforce
  have one: "workers_of m 0 s = 1" using Cons.prems(3) by (simp add: r workers_of_def)
  show ?case
  proof (cases "left = 0")
    case True
    with Cons.prems(1) show ?thesis by (auto simp: r)
  next
    case False
    let ?add = "min left (cap * natural div tw - 1)"
    let ?m = "if ?add > 0 then map_set s (1 + ?add) m else m"
    have rec: "scale_pass cap tw rs ?m (left - ?add) = (m', left')"
      using Cons.prems(1) False by (auto simp: r Let_def split: if_splits)
    have ones: "\<forall>t \<in> set (map fst rs). map_get ?m t = Some 1"
      using Cons.prems(2,3) by (auto simp: r)
    from Cons.IH [OF rec _ ones] Cons.prems(2) have IH:
      "total_of m' (map fst rs) + left' = total_of ?m (map fst rs) + (left - ?add)" "grows (map fst rs) ?m m'"
      "left' \<le> left - ?add" "0 < left' \<longrightarrow> left' + sum_list (map (\<lambda>r. cap * snd r div tw) rs) \<le> left - ?add + length rs"
      by (simp_all add: r)
    have val: "workers_of m' 0 s = workers_of ?m 0 s"
      using IH(2) Cons.prems(2) by (simp add: r grows_def workers_of_def)
    have "grows (map fst (r # rs)) m m'"
    proof -
      have "grows (map fst (r # rs)) m ?m" using one by (auto simp: r intro!: grows_map_set)
      then show ?thesis using grows_trans grows_mono [OF IH(2)] by (metis list.set_intros(2) list.simps(9) subsetI)
    qed
    moreover have "?add = cap * natural div tw - 1" if "0 < left'"
      using IH(3) that by (cases "left \<le> cap * natural div tw - 1") simp_all
    then have "left' + sum_list (map (\<lambda>r. cap * snd r div tw) (r # rs)) \<le> left + length (r # rs)" if "0 < left'"
      using that IH(3,4) by (simp add: r)
    moreover have "left' \<le> left" using IH(3) by linarith
    moreover have "workers_of m' 0 s + total_of m' (map fst rs) + left' = workers_of m 0 s + total_of m (map fst rs) + left"
    proof -
      have "?add \<le> left" by (rule min.cobounded1)
      moreover have "workers_of m' 0 s = 1 + ?add" using val by (rule trans) (use one in auto)
      moreover have "total_of m' (map fst rs) + left' = total_of m (map fst rs) + (left - ?add)"
        using IH(1) Cons.prems(2) by (auto simp: r total_of_other)
      ultimately show ?thesis using one by linarith
    qed
    ultimately show ?thesis by (simp add: r)
  qed
qed simp

lemma floor_shares:
  fixes weights :: "nat list"
  assumes "0 < tw" and "tw = sum_list weights"
  shows "cap < sum_list (map (\<lambda>w. cap * w div tw) weights) + length weights"
proof -
  have each: "sum_list (map (\<lambda>w. cap * w) ws) < tw * (sum_list (map (\<lambda>w. cap * w div tw) ws) + length ws)"
    if "ws \<noteq> []" for ws
    using that
  proof (induction ws rule: list_nonempty_induct)
    case (single w)
    have "cap * w < tw * Suc (cap * w div tw)" using assms(1) by (simp add: dividend_less_times_div)
    then show ?case by simp
  next
    case (cons w ws)
    have "cap * w < tw * Suc (cap * w div tw)" using assms(1) by (simp add: dividend_less_times_div)
    with cons show ?case by (simp add: algebra_simps)
  qed
  have ne: "weights \<noteq> []" using assms by auto
  have eq: "sum_list (map (\<lambda>w. cap * w) ws) = sum_list ws * cap" for ws
    by (induction ws) (simp_all add: algebra_simps)
  have "tw * cap < tw * (sum_list (map (\<lambda>w. cap * w div tw) weights) + length weights)"
    using each [OF ne] unfolding eq assms(2) [symmetric] .
  then show ?thesis using nat_mult_less_cancel1 [OF assms(1)] by blast
qed

lemma set_ranked_by [simp]: "set (ranked_by f bs) = set bs" "length (ranked_by f bs) = length bs"
  by (simp_all add: ranked_by_def)

lemma insert_by_sum: "sum_list (map f (insert_by le x xs)) = f x + sum_list (map f xs)" for f :: "_ \<Rightarrow> nat"
  by (induction xs) auto

lemma sort_by_sum: "sum_list (map f (sort_by le xs)) = sum_list (map f xs)" for f :: "_ \<Rightarrow> nat"
  by (induction xs) (simp_all add: insert_by_sum)

lemma ranked_by_sum: "sum_list (map f (ranked_by g bs)) = sum_list (map f bs)" for f :: "_ \<Rightarrow> nat"
  by (simp add: ranked_by_def sort_by_sum)

lemma distinct_map_insert_by: "distinct (map f (insert_by le x xs)) \<longleftrightarrow> f x \<notin> f ` set xs \<and> distinct (map f xs)"
  by (induction xs) auto

lemma distinct_ranked_by: "distinct (map f (ranked_by g bs)) = distinct (map f bs)"
  unfolding ranked_by_def by (induction bs) (simp_all add: distinct_map_insert_by)

lemma total_of_buckets: "total_of m (map fst bs) = sum_list (map (\<lambda>b. workers_of m 0 (fst b)) bs)"
  by (simp add: total_of_def comp_def)

lemma total_of_ranked: "total_of m (map fst (ranked_by g bs)) = total_of m (map fst bs)"
  unfolding total_of_buckets by (rule ranked_by_sum)

section \<open>Setting counts\<close>

lemma set_each_other: "s \<notin> fst ` set bs \<Longrightarrow> map_get (set_each f bs m) s = map_get m s"
  unfolding set_each_def by (induction bs arbitrary: m) auto

lemma set_each_get: "distinct (map fst bs) \<Longrightarrow> b \<in> set bs \<Longrightarrow> map_get (set_each f bs m) (fst b) = Some (f b)"
proof (induction bs arbitrary: m)
  case (Cons c bs)
  show ?case
  proof (cases "b = c")
    case True
    with Cons.prems(1) have "fst b \<notin> fst ` set bs" by simp
    from set_each_other [OF this] True show ?thesis by (simp add: set_each_def)
  next
    case False
    with Cons show ?thesis by (simp add: set_each_def)
  qed
qed simp

lemma total_of_ones:
  assumes "distinct (map fst bs)"
  shows "total_of (set_each (\<lambda>_. 1) bs m) (map fst bs) = length bs"
proof -
  have "workers_of (set_each (\<lambda>_. 1) bs m) 0 (fst b) = 1" if "b \<in> set bs" for b
    using set_each_get [OF assms that] by (simp add: workers_of_def)
  then have eq: "map (\<lambda>b. workers_of (set_each (\<lambda>_. 1) bs m) 0 (fst b)) bs = map (\<lambda>_. 1) bs"
    by (intro map_cong refl)
  show ?thesis unfolding total_of_buckets eq by (simp add: sum_list_triv)
qed

text \<open>\<open>scaleToBudget\<close> gives the active buckets exactly the cap, and at least one worker each.\<close>

lemma scale_to_budget_spec:
  assumes dist: "distinct (map fst active)" and "active \<noteq> []"
    and pos: "\<forall>b \<in> set active. 0 < workers_of m 0 (fst b)"
  shows "int (total_of (scale_to_budget cap active m) (map fst active)) = max cap (int (length active)) \<and>
         (\<forall>b \<in> set active. 0 < workers_of (scale_to_budget cap active m) 0 (fst b)) \<and>
         (\<forall>s. s \<notin> fst ` set active \<longrightarrow> map_get (scale_to_budget cap active m) s = map_get m s)"
proof -
  let ?tw = "sum_list (map (\<lambda>b. workers_of m 0 (fst b)) active)"
  have "length active \<le> ?tw" using pos
  proof (induction active)
    case (Cons b bs)
    then show ?case by fastforce
  qed simp
  show ?thesis
  proof (cases "int ?tw = cap")
    case True
    with \<open>length active \<le> ?tw\<close> assms show ?thesis
      by (simp add: scale_to_budget_def Let_def total_of_buckets)
  next
    case False
    let ?eff = "nat (max cap (int (length active)))"
    let ?ones = "set_each (\<lambda>_. 1) active m"
    let ?ranked = "map (\<lambda>b. (fst b, workers_of m 0 (fst b))) (ranked_by (\<lambda>b. workers_of m 0 (fst b)) active)"
    have fsts: "map fst ?ranked = map fst (ranked_by (\<lambda>b. workers_of m 0 (fst b)) active)" by (simp add: comp_def)
    have rd: "distinct (map fst ?ranked)" unfolding fsts by (simp add: distinct_ranked_by dist)
    have rs: "set (map fst ?ranked) = fst ` set active" unfolding fsts by simp
    have rt: "total_of k (map fst ?ranked) = total_of k (map fst active)" for k
      unfolding fsts by (rule total_of_ranked)
    have ones: "\<forall>s \<in> set (map fst ?ranked). map_get ?ones s = Some 1"
      unfolding rs using set_each_get [OF dist] by fastforce
    obtain m' left' where pass: "scale_pass ?eff ?tw ?ranked ?ones (?eff - length active) = (m', left')" by fastforce
    note spec = scale_pass_spec [OF pass rd ones]
    let ?r = "leftover_pass (map fst ?ranked) m' left'"
    have tw: "0 < ?tw" using \<open>length active \<le> ?tw\<close> assms(2) by (cases active) auto
    have "?eff < sum_list (map (\<lambda>w. ?eff * w div ?tw) (map (\<lambda>b. workers_of m 0 (fst b)) active)) + length active"
      using floor_shares [OF tw refl, of ?eff] by simp
    also have "sum_list (map (\<lambda>w. ?eff * w div ?tw) (map (\<lambda>b. workers_of m 0 (fst b)) active)) =
        sum_list (map (\<lambda>r. ?eff * snd r div ?tw) ?ranked)"
      by (simp add: comp_def ranked_by_sum)
    finally have "left' \<le> length ?ranked" using spec by (cases "left' = 0") auto
    moreover have "all_set m' (map fst ?ranked)"
      using spec ones by (intro grows_all_set [of _ ?ones m']) (auto simp: all_set_def)
    ultimately have left: "total_of ?r (map fst ?ranked) = total_of m' (map fst ?ranked) + left'" "grows (map fst ?ranked) m' ?r"
      using leftover_pass_spec [OF rd, of m' left'] by auto
    have grow: "grows (map fst ?ranked) ?ones ?r" using spec left(2) grows_trans by blast
    have total: "total_of ?r (map fst active) = ?eff"
      using left(1) spec total_of_ones [OF dist, of m] unfolding rt by simp
    have scale: "scale_to_budget cap active m = (if ?eff - length active = 0 then ?ones else ?r)"
      unfolding scale_to_budget_def Let_def by (simp only: False assms(2) pass prod.case if_False)
    have one: "workers_of ?ones 0 (fst b) = 1" if "b \<in> set active" for b
      using set_each_get [OF dist that] by (simp add: workers_of_def)
    show ?thesis
    proof (cases "?eff - length active = 0")
      case True
      then have "max cap (int (length active)) = int (length active)" by linarith
      with True one total_of_ones [OF dist, of m] show ?thesis unfolding scale by (simp add: set_each_other)
    next
      case more: False
      have "0 < workers_of ?r 0 (fst b)" if "b \<in> set active" for b
      proof -
        have "workers_of ?ones 0 (fst b) \<le> workers_of ?r 0 (fst b)" using grow unfolding grows_def by blast
        then show ?thesis using one [OF that] by linarith
      qed
      moreover have "map_get ?r s = map_get m s" if "s \<notin> fst ` set active" for s
      proof -
        have "s \<notin> set (map fst ?ranked)" unfolding rs by (rule that)
        with grow have "map_get ?r s = map_get ?ones s" unfolding grows_def by blast
        then show ?thesis using set_each_other [OF that] by simp
      qed
      moreover have "int (total_of ?r (map fst active)) = max cap (int (length active))"
        unfolding total by (simp add: max_def)
      ultimately show ?thesis unfolding scale if_not_P [OF more] by blast
    qed
  qed
qed

section \<open>The allocation\<close>

text \<open>The buckets a run allocates workers to, and the ones it scales.\<close>

definition active_bucket :: "bucket \<Rightarrow> bool" where
  "active_bucket b \<longleftrightarrow> 0 < bucket_files b"

definition pinned_buckets :: "(string \<Rightarrow> bool) \<Rightarrow> bucket list \<Rightarrow> bucket list" where
  "pinned_buckets pin bs = filter (\<lambda>b. pin (fst b)) (filter active_bucket bs)"

definition scalable_buckets :: "(string \<Rightarrow> bool) \<Rightarrow> bucket list \<Rightarrow> bucket list" where
  "scalable_buckets pin bs = filter (\<lambda>b. \<not> pin (fst b)) (filter active_bucket bs)"

definition implicit_buckets :: "(string \<Rightarrow> bool) \<Rightarrow> bucket list \<Rightarrow> bucket list" where
  "implicit_buckets pin bs = filter (\<lambda>b. \<not> is_explicit b) (scalable_buckets pin bs)"

lemma distinct_filter_fst: "distinct (map fst bs) \<Longrightarrow> distinct (map fst (filter P bs))"
  by (simp add: distinct_map_filter)

lemma fst_filter_iff:
  assumes "distinct (map fst bs)" and "b \<in> set bs"
  shows "fst b \<in> fst ` set (filter P bs) \<longleftrightarrow> P b"
  using assms by (auto simp: distinct_map inj_on_def)

lemma fst_not_mem:
  assumes "distinct (map fst bs)" and "b \<in> set bs" and "set cs \<subseteq> set bs" and "b \<notin> set cs"
  shows "fst b \<notin> fst ` set cs"
proof
  assume "fst b \<in> fst ` set cs"
  then obtain c where c: "c \<in> set cs" "fst b = fst c" by (elim imageE) simp
  with assms(3) have "c \<in> set bs" by blast
  with assms(1,2) c(2) have "b = c" by (simp add: distinct_map inj_on_def)
  with c(1) assms(4) show False by simp
qed

lemma set_each_filter:
  assumes "distinct (map fst bs)" and "b \<in> set bs"
  shows "map_get (set_each f (filter P bs) m) (fst b) = (if P b then Some (f b) else map_get m (fst b))"
proof (cases "P b")
  case True
  with assms(2) have "b \<in> set (filter P bs)" by simp
  with True set_each_get [OF distinct_filter_fst [OF assms(1)]] show ?thesis by simp
next
  case False
  with fst_filter_iff [OF assms, of P] set_each_other show ?thesis by metis
qed

lemma explicit_positive: "is_explicit b \<Longrightarrow> 0 < Max (set (explicit_values b))"
proof -
  assume "is_explicit b"
  then have "Max (set (explicit_values b)) \<in> set (explicit_values b)" by (intro Max_in) (simp_all add: is_explicit_def)
  then show ?thesis by (auto simp: explicit_values_def split: option.splits if_splits)
qed

text \<open>The allocation before the cap is applied.\<close>

definition uncapped :: "int \<Rightarrow> bucket list \<Rightarrow> (string \<Rightarrow> bool) \<Rightarrow> allocation" where
  "uncapped total_budget bs pin = allocate_bucket_workers total_budget bs None pin"

lemma capped:
  assumes "scalable_buckets pin bs \<noteq> []"
  shows "allocate_bucket_workers t bs (Some cap) pin =
    scale_to_budget (cap - int (length (pinned_buckets pin bs))) (scalable_buckets pin bs) (uncapped t bs pin)"
  using assms unfolding allocate_bucket_workers_def uncapped_def scalable_buckets_def pinned_buckets_def active_bucket_def Let_def
  by (cases "filter (\<lambda>b. 0 < bucket_files b) bs = []") auto

lemma capped_none:
  assumes "scalable_buckets pin bs = []"
  shows "allocate_bucket_workers t bs cap pin = uncapped t bs pin"
  using assms unfolding allocate_bucket_workers_def uncapped_def scalable_buckets_def active_bucket_def Let_def
  by (cases "filter (\<lambda>b. 0 < bucket_files b) bs = []") auto

definition first_counts :: "bucket list \<Rightarrow> (string \<Rightarrow> bool) \<Rightarrow> allocation" where
  "first_counts bs pin =
     set_each (\<lambda>_. 1) (implicit_buckets pin bs)
       (set_each (\<lambda>b. Max (set (explicit_values b))) (filter is_explicit (scalable_buckets pin bs))
         (set_each (\<lambda>_. 1) (pinned_buckets pin bs)
           (set_each (\<lambda>_. 0) (filter (\<lambda>b. \<not> active_bucket b) bs) [])))"

lemma set_each_Nil [simp]: "set_each f [] m = m"
  by (simp add: set_each_def)

lemma uncapped_eq:
  "uncapped t bs pin =
     (let budget = nat (t - int (length (pinned_buckets pin bs))); implicit = implicit_buckets pin bs
      in if budget > length implicit \<and> sum_list (map bucket_files implicit) > 0
         then fair_loop (fair_ranking budget implicit) (first_counts bs pin) (budget - length implicit)
         else first_counts bs pin)"
proof -
  have zero: "filter (\<lambda>b. \<not> is_explicit b) (scalable_buckets pin bs) = [] \<Longrightarrow> implicit_buckets pin bs = []"
    by (simp add: implicit_buckets_def)
  show ?thesis
    unfolding uncapped_def allocate_bucket_workers_def first_counts_def implicit_buckets_def
      scalable_buckets_def pinned_buckets_def active_bucket_def Let_def
    by (cases "filter (\<lambda>b. 0 < bucket_files b) bs = []";
        cases "filter (\<lambda>b. \<not> pin (fst b)) (filter (\<lambda>b. 0 < bucket_files b) bs) = []";
        cases "filter (\<lambda>b. \<not> is_explicit b) (filter (\<lambda>b. \<not> pin (fst b)) (filter (\<lambda>b. 0 < bucket_files b) bs)) = []")
      simp_all
qed

lemma first_counts_get:
  assumes "distinct (map fst bs)" and "b \<in> set bs"
  shows "map_get (first_counts bs pin) (fst b) =
    Some (if \<not> active_bucket b then 0 else if pin (fst b) then 1
          else if is_explicit b then Max (set (explicit_values b)) else 1)"
  unfolding first_counts_def implicit_buckets_def scalable_buckets_def pinned_buckets_def filter_filter
  by (simp add: set_each_filter [OF assms])

lemma uncapped_spec:
  assumes dist: "distinct (map fst bs)"
  shows "(\<forall>b \<in> set bs. b \<notin> set (implicit_buckets pin bs) \<longrightarrow>
            map_get (uncapped t bs pin) (fst b) = map_get (first_counts bs pin) (fst b)) \<and>
         (\<forall>b \<in> set (implicit_buckets pin bs). 0 < workers_of (uncapped t bs pin) 0 (fst b)) \<and>
         (implicit_buckets pin bs \<noteq> [] \<longrightarrow>
            total_of (uncapped t bs pin) (map fst (implicit_buckets pin bs)) =
              max (nat (t - int (length (pinned_buckets pin bs)))) (length (implicit_buckets pin bs)))"
proof -
  let ?imp = "implicit_buckets pin bs"
  let ?m = "first_counts bs pin"
  let ?budget = "nat (t - int (length (pinned_buckets pin bs)))"
  have dimp: "distinct (map fst ?imp)"
    unfolding implicit_buckets_def scalable_buckets_def using dist by (simp add: distinct_filter_fst)
  have sub: "set ?imp \<subseteq> set bs" by (auto simp: implicit_buckets_def scalable_buckets_def)
  have one: "map_get ?m (fst b) = Some 1" if "b \<in> set ?imp" for b
    using that first_counts_get [OF dist, of b pin] sub by (auto simp: implicit_buckets_def scalable_buckets_def)
  have imp_total: "total_of ?m (map fst ?imp) = length ?imp"
    unfolding first_counts_def by (rule total_of_ones [OF dimp])
  show ?thesis
  proof (cases "?budget > length ?imp \<and> sum_list (map bucket_files ?imp) > 0")
    case False
    have "0 < sum_list (map bucket_files ?imp)" if "?imp \<noteq> []"
    proof -
      from that obtain b where b: "b \<in> set ?imp" by (cases ?imp) auto
      then have "0 < bucket_files b" by (simp add: implicit_buckets_def scalable_buckets_def active_bucket_def)
      moreover have "bucket_files b \<le> sum_list (map bucket_files ?imp)"
        using b by (intro member_le_sum_list) simp_all
      ultimately show ?thesis by linarith
    qed
    with False have "?imp \<noteq> [] \<Longrightarrow> ?budget \<le> length ?imp" by auto
    moreover have "uncapped t bs pin = ?m" unfolding uncapped_eq Let_def by (rule if_not_P [OF False])
    ultimately show ?thesis using imp_total one by (simp add: workers_of_def)
  next
    case True
    let ?ranking = "fair_ranking ?budget ?imp"
    let ?r = "fair_loop ?ranking ?m (?budget - length ?imp)"
    have r: "uncapped t bs pin = ?r" using True by (simp add: uncapped_eq Let_def)
    have fsts: "map fst ?ranking = map fst (ranked_by bucket_files ?imp)"
      by (simp add: fair_ranking_def Let_def comp_def)
    have rd: "distinct (map fst ?ranking)" unfolding fsts by (simp add: distinct_ranked_by dimp)
    have rset: "set (map fst ?ranking) = fst ` set ?imp" unfolding fsts by simp
    have all: "all_set ?m (map fst ?ranking)" unfolding all_set_def rset using one by auto
    have rt: "total_of k (map fst ?ranking) = total_of k (map fst ?imp)" for k unfolding fsts by (rule total_of_ranked)
    have len: "length ?ranking = length ?imp" by (simp add: fair_ranking_def Let_def)
    have "?budget < sum_list (map (\<lambda>w. ?budget * w div sum_list (map bucket_files ?imp)) (map bucket_files ?imp)) + length ?imp"
      using floor_shares [of "sum_list (map bucket_files ?imp)" "map bucket_files ?imp" ?budget] True by simp
    also have "sum_list (map (\<lambda>w. ?budget * w div sum_list (map bucket_files ?imp)) (map bucket_files ?imp)) =
        sum_list (map snd ?ranking)"
      by (simp add: fair_ranking_def Let_def comp_def ranked_by_sum)
    finally have "total_of ?m (map fst ?ranking) + (?budget - length ?imp) \<le> sum_list (map snd ?ranking) + length ?ranking"
      unfolding rt imp_total len using True by simp
    note loop = fair_loop_spec [OF rd all this]
    have "total_of ?r (map fst ?imp) = ?budget"
      using loop True unfolding rt imp_total by simp
    moreover have "map_get ?r (fst b) = map_get ?m (fst b)" if "b \<in> set bs" "b \<notin> set ?imp" for b
    proof -
      have "fst b \<notin> fst ` set ?imp"
        by (rule fst_not_mem [OF dist that(1) sub that(2)])
      then show ?thesis using loop unfolding grows_def rset by blast
    qed
    moreover have "0 < workers_of ?r 0 (fst b)" if "b \<in> set ?imp" for b
    proof -
      have "workers_of ?m 0 (fst b) \<le> workers_of ?r 0 (fst b)" using loop unfolding grows_def by blast
      then show ?thesis using one [OF that] by (simp add: workers_of_def)
    qed
    ultimately show ?thesis using True unfolding r by simp
  qed
qed

lemma allocation_spec:
  assumes "distinct (map fst bs)"
  shows "let m = allocate_bucket_workers t bs cap pin; implicit = implicit_buckets pin bs;
             scalable = scalable_buckets pin bs; pinned = length (pinned_buckets pin bs)
         in (\<forall>b \<in> set bs. if active_bucket b then 0 < workers_of m 0 (fst b) else map_get m (fst b) = Some 0) \<and>
            (\<forall>b \<in> set (pinned_buckets pin bs). map_get m (fst b) = Some 1) \<and>
            (case cap of
               None \<Rightarrow>
                 (\<forall>b \<in> set scalable. is_explicit b \<longrightarrow> map_get m (fst b) = Some (Max (set (explicit_values b)))) \<and>
                 (implicit \<noteq> [] \<longrightarrow> total_of m (map fst implicit) = max (nat (t - int pinned)) (length implicit))
             | Some c \<Rightarrow>
                 scalable \<noteq> [] \<longrightarrow> int (total_of m (map fst scalable)) = max (c - int pinned) (int (length scalable)))"
proof -
  let ?u = "uncapped t bs pin"
  let ?m = "allocate_bucket_workers t bs cap pin"
  let ?imp = "implicit_buckets pin bs"
  let ?sc = "scalable_buckets pin bs"
  note spec = uncapped_spec [OF assms, of pin t]
  have keep: "map_get ?u (fst b) = map_get (first_counts bs pin) (fst b)" if "b \<in> set bs" "b \<notin> set ?imp" for b
    using spec that by blast
  have u_inactive: "map_get ?u (fst b) = Some 0" if "b \<in> set bs" "\<not> active_bucket b" for b
    using keep [OF that(1)] that first_counts_get [OF assms that(1), of pin]
    by (auto simp: implicit_buckets_def scalable_buckets_def)
  have u_pinned: "map_get ?u (fst b) = Some 1" if "b \<in> set (pinned_buckets pin bs)" for b
    using keep [of b] that first_counts_get [OF assms, of b pin]
    by (auto simp: implicit_buckets_def scalable_buckets_def pinned_buckets_def)
  have u_explicit: "map_get ?u (fst b) = Some (Max (set (explicit_values b)))" if "b \<in> set ?sc" "is_explicit b" for b
    using keep [of b] that first_counts_get [OF assms, of b pin]
    by (auto simp: implicit_buckets_def scalable_buckets_def)
  have u_pos: "0 < workers_of ?u 0 (fst b)" if "b \<in> set ?sc" for b
  proof (cases "is_explicit b")
    case True
    with u_explicit [OF that] explicit_positive show ?thesis by (simp add: workers_of_def)
  next
    case False
    with that have "b \<in> set ?imp" by (simp add: implicit_buckets_def)
    with spec show ?thesis by blast
  qed
  have dsc: "distinct (map fst ?sc)" unfolding scalable_buckets_def using assms by (simp add: distinct_filter_fst)
  have split: "active_bucket b \<longleftrightarrow> b \<in> set ?sc \<or> b \<in> set (pinned_buckets pin bs)" if "b \<in> set bs" for b
    using that by (auto simp: scalable_buckets_def pinned_buckets_def)
  have outside: "fst b \<notin> fst ` set ?sc" if "b \<in> set bs" "b \<notin> set ?sc" for b
    by (rule fst_not_mem [OF assms that(1) _ that(2)]) (auto simp: scalable_buckets_def)
  have pin_sub: "b \<in> set bs \<and> b \<notin> set ?sc" if "b \<in> set (pinned_buckets pin bs)" for b
    using that by (auto simp: scalable_buckets_def pinned_buckets_def)
  have general: "(\<forall>b \<in> set bs. if active_bucket b then 0 < workers_of m 0 (fst b) else map_get m (fst b) = Some 0) \<and>
      (\<forall>b \<in> set (pinned_buckets pin bs). map_get m (fst b) = Some 1)"
    if same: "\<And>b. b \<in> set bs \<Longrightarrow> b \<notin> set ?sc \<Longrightarrow> map_get m (fst b) = map_get ?u (fst b)"
      and pos: "\<And>b. b \<in> set ?sc \<Longrightarrow> 0 < workers_of m 0 (fst b)" for m
  proof -
    have p: "map_get m (fst b) = Some 1" if "b \<in> set (pinned_buckets pin bs)" for b
      using same pin_sub [OF that] u_pinned [OF that] by simp
    have "0 < workers_of m 0 (fst b)" if "b \<in> set bs" "active_bucket b" for b
    proof -
      have "0 < workers_of m 0 (fst b)" if "b \<in> set (pinned_buckets pin bs)" using p [OF that] by (simp add: workers_of_def)
      then show ?thesis using split [OF that(1)] that(2) pos by blast
    qed
    moreover have "map_get m (fst b) = Some 0" if "b \<in> set bs" "\<not> active_bucket b" for b
      using same [OF that(1)] split [OF that(1)] that(2) u_inactive [OF that] by simp
    ultimately show ?thesis using p by simp
  qed
  show ?thesis
  proof (cases cap)
    case None
    have "?m = ?u" by (simp add: None uncapped_def)
    with general [of ?u] u_pos u_explicit spec show ?thesis unfolding Let_def None by simp
  next
    case (Some c)
    show ?thesis
    proof (cases "?sc = []")
      case True
      with general [of ?u] u_pos capped_none [OF True, of t cap] show ?thesis unfolding Let_def Some by simp
    next
      case False
      have pos: "\<forall>b \<in> set ?sc. 0 < workers_of ?u 0 (fst b)" using u_pos by blast
      note sc = scale_to_budget_spec [OF dsc False pos, of "c - int (length (pinned_buckets pin bs))"]
      let ?s = "scale_to_budget (c - int (length (pinned_buckets pin bs))) ?sc ?u"
      have m: "?m = ?s" unfolding Some by (rule capped [OF False])
      have "map_get ?s (fst b) = map_get ?u (fst b)" if "b \<in> set bs" "b \<notin> set ?sc" for b
        using sc outside [OF that] by blast
      from general [of ?s, OF this] sc show ?thesis unfolding Let_def m unfolding Some by simp
    qed
  qed
qed

text \<open>
  C13. The allocation uses the budget exactly: on buckets with distinct signatures every bucket with
  files gets a worker and one without gets none, a pinned bucket gets exactly one, without a cap an
  explicit bucket gets its count and the implicit buckets share what the pinned ones leave of the
  budget (or one each when that is less), and with a cap the unpinned buckets together get what the
  pinned ones leave of the cap, or one each.
\<close>

theorem allocation_correct:
  assumes "distinct (map fst bs)"
  shows "let m = allocate_bucket_workers t bs cap pin; implicit = implicit_buckets pin bs;
             scalable = scalable_buckets pin bs; pinned = length (pinned_buckets pin bs)
         in (\<forall>b \<in> set bs. if active_bucket b then 0 < workers_of m 0 (fst b) else map_get m (fst b) = Some 0) \<and>
            (\<forall>b \<in> set (pinned_buckets pin bs). map_get m (fst b) = Some 1) \<and>
            (case cap of
               None \<Rightarrow>
                 (\<forall>b \<in> set scalable. is_explicit b \<longrightarrow> map_get m (fst b) = Some (Max (set (explicit_values b)))) \<and>
                 (implicit \<noteq> [] \<longrightarrow> total_of m (map fst implicit) = max (nat (t - int pinned)) (length implicit))
             | Some c \<Rightarrow>
                 scalable \<noteq> [] \<longrightarrow> int (total_of m (map fst scalable)) = max (c - int pinned) (int (length scalable)))"
  by (rule allocation_spec [OF assms])

theorem allocation_correct_witness:
  "let b = (''a'', [\<lparr> proj_name = ''p'', test_match = [], test_ignore = [], dependencies = [], proj_use = None,
               test_files = [''x'', ''y''], effective_config = plain_config [], proj_signature = ''a'', synthesized = False,
               proj_workers = None \<rparr>])
   in total_of (allocate_bucket_workers 3 [b] None (\<lambda>_. False)) [''a''] = 3"
proof -
  let ?b = "(''a'', [\<lparr> proj_name = ''p'', test_match = [], test_ignore = [], dependencies = [], proj_use = None,
               test_files = [''x'', ''y''], effective_config = plain_config [], proj_signature = ''a'', synthesized = False,
               proj_workers = None \<rparr>])"
  have d: "distinct (map fst [?b])" by simp
  have imp: "implicit_buckets (\<lambda>_. False) [?b] = [?b]" "pinned_buckets (\<lambda>_. False) [?b] = []"
    by (simp_all add: implicit_buckets_def scalable_buckets_def pinned_buckets_def active_bucket_def bucket_files_def
        is_explicit_def explicit_values_def)
  from allocation_correct [OF d, of 3 None "\<lambda>_. False"] show ?thesis
    unfolding Let_def imp by simp
qed

end
