(* ===== verification/Run_Queue.thy ===== *)
theory Run_Queue
  imports TS_Prelude
begin

text \<open>
  Watch mode's run queue (\<open>watch-queue.ts\<close>): the debounce of file changes, the work held while a
  run is in progress, and the keys, driven by the watch coordinator (\<open>watch.ts\<close>), which marks a run
  as started when a request arrives and as finished when it is over.
\<close>

section \<open>Keys\<close>

datatype watch_action = Run_All_Key | Run_Failed_Key | Rerun_Key | Quit_Key

definition map_key_to_action :: "string \<Rightarrow> watch_action option" where
  "map_key_to_action key =
     (if key = ''a'' then Some Run_All_Key
      else if key = ''f'' then Some Run_Failed_Key
      else if key = [CHR 13] \<or> key = [CHR 10] then Some Rerun_Key
      else if key = ''q'' \<or> key = [CHR 3] then Some Quit_Key
      else None)"

section \<open>The queue\<close>

datatype run_request = Run_Files "string list" | Run_All
datatype pending_work = No_Work | Pending_Files "string list" | Pending_All

text \<open>
  \<open>timer\<close>: a debounce timer that will fire. While a run is in progress \<open>scheduleFiles\<close> clears the timer
  but keeps its handle, which only serves to be cleared again.
\<close>

record run_queue =
  debounce_files :: "string list"
  timer :: bool
  pending :: pending_work
  running :: bool

definition new_run_queue :: run_queue where
  "new_run_queue = \<lparr> debounce_files = [], timer = False, pending = No_Work, running = False \<rparr>"

text \<open>Each operation returns the new state and the requests \<open>onRun\<close> is called with, in order.\<close>

definition schedule_files :: "string list \<Rightarrow> run_queue \<Rightarrow> run_queue \<times> run_request list" where
  "schedule_files files q =
     (if running q
      then (q\<lparr> timer := False,
              pending := (case pending q of
                            Pending_All \<Rightarrow> Pending_All
                          | Pending_Files ps \<Rightarrow> Pending_Files (set_add_all files ps)
                          | No_Work \<Rightarrow> Pending_Files (set_of_list files)) \<rparr>, [])
      else (q\<lparr> debounce_files := set_add_all files (debounce_files q), timer := True \<rparr>, []))"

definition timer_fires :: "run_queue \<Rightarrow> run_queue \<times> run_request list" where
  "timer_fires q = (q\<lparr> timer := False, debounce_files := [] \<rparr>, [Run_Files (debounce_files q)])"

definition schedule_all :: "run_queue \<Rightarrow> run_queue \<times> run_request list" where
  "schedule_all q =
     (if running q then (q\<lparr> pending := Pending_All \<rparr>, [])
      else (q\<lparr> timer := False \<rparr>, [Run_All]))"

definition schedule_immediate :: "string list \<Rightarrow> run_queue \<Rightarrow> run_queue \<times> run_request list" where
  "schedule_immediate files q =
     (if running q then (q\<lparr> pending := Pending_Files (set_of_list files) \<rparr>, [])
      else (q\<lparr> timer := False \<rparr>, [Run_Files files]))"

definition notify_run_started :: "run_queue \<Rightarrow> run_queue" where
  "notify_run_started q = q\<lparr> running := True \<rparr>"

definition notify_run_finished :: "run_queue \<Rightarrow> run_queue \<times> run_request list" where
  "notify_run_finished q =
     (case pending q of
        No_Work \<Rightarrow> (q\<lparr> running := False \<rparr>, [])
      | Pending_All \<Rightarrow> (q\<lparr> running := False, pending := No_Work \<rparr>, [Run_All])
      | Pending_Files fs \<Rightarrow> (q\<lparr> running := False, pending := No_Work \<rparr>, [Run_Files fs]))"

section \<open>The coordinator\<close>

text \<open>
  A request starts its run before the callback returns, except that \<open>executeFileRun\<close> does nothing for an empty
  list of files.
\<close>

fun start_run :: "run_request \<Rightarrow> run_queue \<Rightarrow> run_queue" where
  "start_run Run_All q = notify_run_started q"
| "start_run (Run_Files fs) q = (if fs = [] then q else notify_run_started q)"

definition deliver :: "run_queue \<times> run_request list \<Rightarrow> run_queue \<times> run_request list" where
  "deliver r = (fold start_run (snd r) (fst r), snd r)"

text \<open>The events of a watch session: a changed or added file, the timer, the keys, the end of a run.\<close>

datatype watch_event = File_Changed string | Timer_Fires | All_Pressed | Immediate "string list" | Run_Over

text \<open>Keys re-run files only when there are some; the timer fires and a run ends only when there is one.\<close>

inductive watch_step :: "run_queue \<Rightarrow> watch_event \<Rightarrow> run_request list \<Rightarrow> run_queue \<Rightarrow> bool" where
  changed: "deliver (schedule_files [f] q) = (q', out) \<Longrightarrow> watch_step q (File_Changed f) out q'"
| fires: "timer q \<Longrightarrow> deliver (timer_fires q) = (q', out) \<Longrightarrow> watch_step q Timer_Fires out q'"
| all: "deliver (schedule_all q) = (q', out) \<Longrightarrow> watch_step q All_Pressed out q'"
| immediate: "fs \<noteq> [] \<Longrightarrow> deliver (schedule_immediate fs q) = (q', out) \<Longrightarrow> watch_step q (Immediate fs) out q'"
| over: "running q \<Longrightarrow> deliver (notify_run_finished q) = (q', out) \<Longrightarrow> watch_step q Run_Over out q'"

inductive_cases watch_stepE: "watch_step q e out q'"

text \<open>A session: the events with the requests each led to.\<close>

inductive watch_run :: "run_queue \<Rightarrow> (watch_event \<times> run_request list) list \<Rightarrow> run_queue \<Rightarrow> bool" where
  start: "watch_run q [] q"
| step: "watch_run q tr q' \<Longrightarrow> watch_step q' e out q'' \<Longrightarrow> watch_run q (tr @ [(e, out)]) q''"

section \<open>Invariant\<close>

text \<open>No timer is live during a run, so nothing but its end starts the next one.\<close>

definition queue_ok :: "run_queue \<Rightarrow> bool" where
  "queue_ok q \<longleftrightarrow> (running q \<longrightarrow> \<not> timer q) \<and> (\<not> running q \<longrightarrow> pending q = No_Work)
     \<and> (case pending q of Pending_Files fs \<Rightarrow> fs \<noteq> [] | _ \<Rightarrow> True) \<and> (timer q \<longrightarrow> debounce_files q \<noteq> [])"

lemma set_add_all_nonempty: "fs \<noteq> [] \<Longrightarrow> set_add_all fs xs \<noteq> []"
  by (metis Un_empty set_empty set_set_add_all)

lemmas queue_ops = schedule_files_def timer_fires_def schedule_all_def schedule_immediate_def
  notify_run_started_def notify_run_finished_def deliver_def queue_ok_def

lemma step_keeps_ok:
  assumes "watch_step q e out q'" and "queue_ok q"
  shows "queue_ok q' \<and> length out \<le> 1 \<and> (out \<noteq> [] \<longrightarrow> running q')"
  using assms
  by (cases rule: watch_step.cases)
    (auto simp: queue_ops set_add_all_nonempty split: pending_work.splits if_splits)

lemma run_keeps_ok: "watch_run q tr q' \<Longrightarrow> queue_ok q \<Longrightarrow> queue_ok q'"
  by (induction rule: watch_run.induct) (auto dest: step_keeps_ok)

lemma new_queue_ok: "queue_ok new_run_queue"
  by (simp add: queue_ok_def new_run_queue_def)

text \<open>
  C14. Watch runs never overlap: in every session of the queue with its coordinator, a request is made
  only when no run is in progress, or at the moment the run in progress ends, one request at a time,
  and each request starts a run.
\<close>

theorem watch_runs_do_not_overlap:
  assumes "watch_run new_run_queue tr q" and "watch_step q e out q'" and "out \<noteq> []"
  shows "(\<not> running q \<or> e = Run_Over) \<and> (\<exists>r. out = [r] \<and> r \<noteq> Run_Files []) \<and> running q'"
proof -
  have ok: "queue_ok q" using run_keeps_ok [OF assms(1) new_queue_ok] .
  note k = step_keeps_ok [OF assms(2) ok]
  with assms(3) obtain r where r: "out = [r]" by (cases out) auto
  have "\<not> running q \<or> e = Run_Over"
    using assms(2,3) ok by (cases rule: watch_step.cases) (auto simp: queue_ops split: if_splits)
  moreover have "r \<noteq> Run_Files []"
    using assms(2) ok r by (cases rule: watch_step.cases) (auto simp: queue_ops split: if_splits pending_work.splits)
  ultimately show ?thesis using r k by auto
qed

theorem watch_runs_do_not_overlap_witness:
  "\<exists>q q' out. watch_run new_run_queue [(File_Changed ''a'', [])] q \<and> watch_step q Timer_Fires out q' \<and> out \<noteq> [] \<and>
     running q' \<and> \<not> running q"
proof -
  let ?q = "fst (schedule_files [''a''] new_run_queue)"
  have a: "watch_run new_run_queue ([] @ [(File_Changed ''a'', [])]) ?q"
    by (rule watch_run.step [OF watch_run.start watch_step.changed]) (simp add: queue_ops new_run_queue_def)
  have b: "watch_step ?q Timer_Fires [Run_Files [''a'']] (fst (deliver (timer_fires ?q)))"
    by (rule watch_step.fires) (simp_all add: queue_ops new_run_queue_def set_add_all_def set_add_def)
  have "[Run_Files [''a'']] \<noteq> []" by simp
  from watch_runs_do_not_overlap [OF a b this] a b show ?thesis by fastforce
qed

section \<open>Changes that still have to run\<close>

text \<open>The files changed since the last request that covers them, oldest event first.\<close>

fun covered :: "run_request list \<Rightarrow> string set \<Rightarrow> string set" where
  "covered [] owed = owed"
| "covered (Run_All # rs) owed = covered rs {}"
| "covered (Run_Files fs # rs) owed = covered rs (owed - set fs)"

fun owed_from :: "string set \<Rightarrow> (watch_event \<times> run_request list) list \<Rightarrow> string set" where
  "owed_from owed [] = owed"
| "owed_from owed ((File_Changed f, out) # tr) = owed_from (covered out (insert f owed)) tr"
| "owed_from owed ((e, out) # tr) = owed_from (covered out owed) tr"

definition owed :: "(watch_event \<times> run_request list) list \<Rightarrow> string set" where
  "owed tr = owed_from {} tr"

lemma owed_from_snoc:
  "owed_from s (tr @ [(e, out)]) = covered out (case e of File_Changed f \<Rightarrow> insert f (owed_from s tr) | _ \<Rightarrow> owed_from s tr)"
  by (induction s tr rule: owed_from.induct) (cases e; simp)+

text \<open>What the queue will still run.\<close>

definition queued :: "run_queue \<Rightarrow> string set" where
  "queued q = (if timer q then set (debounce_files q) else {}) \<union>
     (case pending q of No_Work \<Rightarrow> {} | Pending_Files fs \<Rightarrow> set fs | Pending_All \<Rightarrow> UNIV)"

lemma step_keeps_owed:
  assumes "watch_step q e out q'" and "queue_ok q" and "s \<subseteq> queued q" and "\<forall>fs. e \<noteq> Immediate fs"
  shows "covered out (case e of File_Changed f \<Rightarrow> insert f s | _ \<Rightarrow> s) \<subseteq> queued q'"
  using assms
  by (cases rule: watch_step.cases)
    (auto simp: queue_ops queued_def split: pending_work.splits if_splits, blast+)

lemma run_keeps_owed:
  "watch_run q tr q' \<Longrightarrow> queue_ok q \<Longrightarrow> \<forall>e \<in> fst ` set tr. \<forall>fs. e \<noteq> Immediate fs \<Longrightarrow> s \<subseteq> queued q \<Longrightarrow>
   owed_from s tr \<subseteq> queued q'"
proof (induction rule: watch_run.induct)
  case (step q tr q' e out q'')
  then have "owed_from s tr \<subseteq> queued q'" by auto
  with step_keeps_owed [OF step.hyps(2) run_keeps_ok [OF step.hyps(1) step.prems(1)], of "owed_from s tr"] step.prems(2)
  show ?case by (auto simp: owed_from_snoc)
qed simp

text \<open>
  No change is lost as long as only files change and everything is run at once (the \<open>a\<close> key): every
  file changed since the last run that covered it is waiting for the debounce timer or for the run in
  progress to end, so once the queue is quiet all changes have been run.
\<close>

theorem changes_are_run:
  assumes "watch_run new_run_queue tr q" and "\<forall>e \<in> fst ` set tr. \<forall>fs. e \<noteq> Immediate fs"
  shows "owed tr \<subseteq> queued q \<and> (\<not> timer q \<and> \<not> running q \<longrightarrow> owed tr = {})"
proof -
  have "owed tr \<subseteq> queued q"
    unfolding owed_def by (rule run_keeps_owed [OF assms(1) new_queue_ok assms(2)]) simp
  moreover have "queue_ok q" by (rule run_keeps_ok [OF assms(1) new_queue_ok])
  ultimately show ?thesis by (auto simp: queued_def queue_ok_def)
qed

theorem changes_are_run_witness:
  "\<exists>q. watch_run new_run_queue [(File_Changed ''a'', [])] q \<and> owed [(File_Changed ''a'', [])] \<subseteq> queued q \<and> timer q"
proof -
  let ?q = "fst (schedule_files [''a''] new_run_queue)"
  have a: "watch_run new_run_queue ([] @ [(File_Changed ''a'', [])]) ?q"
    by (rule watch_run.step [OF watch_run.start watch_step.changed]) (simp add: queue_ops new_run_queue_def)
  have "timer ?q" by (simp add: schedule_files_def new_run_queue_def)
  with a changes_are_run [OF a] show ?thesis by auto
qed

text \<open>
  The keys that re-run files (\<open>f\<close>, Enter) lose changes: a file saved within the debounce time before
  such a key is pressed loses its timer, so that when the run the key starts is over the queue is quiet
  and the change has not been run (it stays in the batch of the next timer, if some file changes again);
  and during a run the key replaces the files, or the run of everything, that was waiting for its end.
\<close>

theorem immediate_run_loses_changes:
  assumes "f \<noteq> g"
  shows "(\<exists>tr q. watch_run new_run_queue tr q \<and> \<not> timer q \<and> \<not> running q \<and> pending q = No_Work \<and>
            f \<in> owed tr \<and> f \<in> set (debounce_files q) \<and> map fst tr = [File_Changed f, Immediate [g], Run_Over]) \<and>
         (running q0 \<longrightarrow> pending (fst (schedule_immediate fs q0)) = Pending_Files (set_of_list fs))"
proof -
  let ?q1 = "fst (schedule_files [f] new_run_queue)"
  let ?q2 = "fst (deliver (schedule_immediate [g] ?q1))"
  let ?q3 = "fst (deliver (notify_run_finished ?q2))"
  have a: "watch_run new_run_queue ([] @ [(File_Changed f, [])]) ?q1"
    by (rule watch_run.step [OF watch_run.start watch_step.changed]) (simp add: queue_ops new_run_queue_def)
  have b: "watch_run new_run_queue (([] @ [(File_Changed f, [])]) @ [(Immediate [g], [Run_Files [g]])]) ?q2"
    by (rule watch_run.step [OF a watch_step.immediate]) (simp_all add: queue_ops new_run_queue_def)
  have c: "watch_run new_run_queue ((([] @ [(File_Changed f, [])]) @ [(Immediate [g], [Run_Files [g]])]) @ [(Run_Over, [])]) ?q3"
    by (rule watch_run.step [OF b watch_step.over]) (simp_all add: queue_ops new_run_queue_def)
  have "\<not> timer ?q3 \<and> \<not> running ?q3 \<and> pending ?q3 = No_Work \<and> f \<in> set (debounce_files ?q3)"
    by (simp add: queue_ops new_run_queue_def)
  moreover have "f \<in> owed ((([] @ [(File_Changed f, [])]) @ [(Immediate [g], [Run_Files [g]])]) @ [(Run_Over, [])])"
    using assms by (simp add: owed_def)
  ultimately show ?thesis using c by (auto simp: schedule_immediate_def intro!: exI)
qed

theorem immediate_run_loses_changes_witness:
  "\<exists>tr q. watch_run new_run_queue tr q \<and> \<not> timer q \<and> \<not> running q \<and> ''a'' \<in> owed tr"
proof -
  have "''a'' \<noteq> ''b''" by simp
  from immediate_run_loses_changes [OF this] show ?thesis by blast
qed

end
