(* ===== verification/Startup_Gate.thy ===== *)
theory Startup_Gate
  imports TS_Prelude
begin

text \<open>
  The gate that holds a run asked for while UI mode's workers are still starting
  (\<open>ui-mode/worker-startup.ts\<close>) and its client \<open>afterWorkerStartup\<close> (\<open>ui-mode/ui-server.ts\<close>): the
  gate's operations as functions on its state, the client as a step relation over all the runs of a
  session, and what the two promise together: one pending run at a time, Stop ends it whichever way it
  is pending, and no run is held once startup is over.
\<close>

section \<open>The gate\<close>

datatype startup_wait_outcome = Ready_Outcome | Busy_Outcome | Stopped_Outcome

text \<open>\<open>StartupWait\<close>: the outcome, and whether the run was held before it.\<close>

record startup_wait =
  outcome :: startup_wait_outcome
  waited :: bool

text \<open>The waiter is the run whose promise its resolver settles.\<close>

record 'r startup_gate =
  starting :: bool
  waiter :: "'r option"
  preparing :: bool
  stopped_while_preparing :: bool

definition new_startup_gate :: "bool \<Rightarrow> 'r startup_gate" where
  "new_startup_gate s = \<lparr> starting = s, waiter = None, preparing = False, stopped_while_preparing = False \<rparr>"

text \<open>What an operation does besides changing the gate: telling the page, settling a run's promise.\<close>

datatype 'r gate_effect = Waiting_Change bool | Settles 'r startup_wait

definition is_waiting :: "'r startup_gate \<Rightarrow> bool" where
  "is_waiting g = (waiter g \<noteq> None)"

definition is_pending :: "'r startup_gate \<Rightarrow> bool" where
  "is_pending g = (waiter g \<noteq> None \<or> preparing g)"

definition gate_wait :: "'r \<Rightarrow> 'r startup_gate \<Rightarrow> 'r startup_gate \<times> 'r gate_effect list" where
  "gate_wait r g =
     (if is_pending g then (g, [Settles r \<lparr> outcome = Busy_Outcome, waited = False \<rparr>])
      else if \<not> starting g then (g, [Settles r \<lparr> outcome = Ready_Outcome, waited = False \<rparr>])
      else (g\<lparr> waiter := Some r \<rparr>, [Waiting_Change True]))"

definition release_waiter ::
  "startup_wait_outcome \<Rightarrow> 'r startup_gate \<Rightarrow> 'r startup_gate \<times> 'r gate_effect list \<times> bool" where
  "release_waiter out g =
     (case waiter g of
        None \<Rightarrow> (g, [], False)
      | Some r \<Rightarrow> (g\<lparr> waiter := None, preparing := (out = Ready_Outcome) \<rparr>,
                  [Waiting_Change False, Settles r \<lparr> outcome = out, waited = True \<rparr>], True))"

definition gate_finish :: "'r startup_gate \<Rightarrow> 'r startup_gate \<times> 'r gate_effect list" where
  "gate_finish g = (let (g', eff, _) = release_waiter Ready_Outcome (g\<lparr> starting := False \<rparr>) in (g', eff))"

text \<open>\<open>cancel\<close>: the last component says whether a run was pending.\<close>

definition gate_cancel :: "'r startup_gate \<Rightarrow> 'r startup_gate \<times> 'r gate_effect list \<times> bool" where
  "gate_cancel g =
     (case release_waiter Stopped_Outcome g of
        (g', eff, True) \<Rightarrow> (g', eff, True)
      | (g', eff, False) \<Rightarrow>
          if \<not> preparing g' then (g', eff, False)
          else (g'\<lparr> preparing := False, stopped_while_preparing := True \<rparr>, eff, True))"

definition gate_proceed :: "'r startup_gate \<Rightarrow> 'r startup_gate \<times> bool" where
  "gate_proceed g =
     (g\<lparr> preparing := False, stopped_while_preparing := False \<rparr>, \<not> stopped_while_preparing g)"

section \<open>Its client\<close>

text \<open>
  Where a run stands in \<open>afterWorkerStartup\<close>: held at the gate; the promise settled, the continuation
  not yet run; preparing its workers; handed to \<open>run\<close>; ended without running; failed in
  \<open>ensureWorkersReady\<close>.
\<close>

datatype run_status =
    Held
  | Resumes startup_wait
  | Preparing_Workers
  | Run_Started
  | Not_Run startup_wait_outcome
  | Prepare_Failed

record 'r startup_session =
  gate :: "'r startup_gate"
  run_status_of :: "'r \<Rightarrow> run_status option"

definition new_session :: "bool \<Rightarrow> 'r startup_session" where
  "new_session s = \<lparr> gate = new_startup_gate s, run_status_of = Map.empty \<rparr>"

fun settle :: "'r gate_effect \<Rightarrow> ('r \<Rightarrow> run_status option) \<Rightarrow> ('r \<Rightarrow> run_status option)" where
  "settle (Waiting_Change _) st = st"
| "settle (Settles r w) st = st(r \<mapsto> Resumes w)"

definition settle_all :: "'r gate_effect list \<Rightarrow> ('r \<Rightarrow> run_status option) \<Rightarrow> ('r \<Rightarrow> run_status option)" where
  "settle_all eff st = fold settle eff st"

text \<open>The continuation after \<open>await workerStartup.wait()\<close>.\<close>

definition resumed :: "startup_wait \<Rightarrow> run_status" where
  "resumed w = (case outcome w of
      Busy_Outcome \<Rightarrow> Not_Run Busy_Outcome
    | Stopped_Outcome \<Rightarrow> Not_Run Stopped_Outcome
    | Ready_Outcome \<Rightarrow> if \<not> waited w then Run_Started else Preparing_Workers)"

text \<open>
  \<open>ask\<close>: a run is requested; \<open>finish\<close>: startup ends; \<open>stop\<close>: Stop cancels the pending run; \<open>resume\<close>: a
  run's continuation runs; \<open>prepared\<close>, \<open>prepare_failed\<close>: \<open>ensureWorkersReady\<close> ends, \<open>proceed\<close> is asked.
\<close>

datatype 'r startup_event = Ask 'r | Finish_Startup | Stop_Pressed | Resume 'r | Prepared_Run 'r | Prepare_Fails 'r

inductive startup_step :: "'r startup_session \<Rightarrow> 'r startup_event \<Rightarrow> 'r startup_session \<Rightarrow> bool" where
  ask: "run_status_of s r = None \<Longrightarrow> gate_wait r (gate s) = (g, eff) \<Longrightarrow>
     startup_step s (Ask r) \<lparr> gate = g, run_status_of = settle_all eff ((run_status_of s)(r \<mapsto> Held)) \<rparr>"
| finish: "gate_finish (gate s) = (g, eff) \<Longrightarrow>
     startup_step s Finish_Startup \<lparr> gate = g, run_status_of = settle_all eff (run_status_of s) \<rparr>"
| stop: "gate_cancel (gate s) = (g, eff, ended) \<Longrightarrow>
     startup_step s Stop_Pressed \<lparr> gate = g, run_status_of = settle_all eff (run_status_of s) \<rparr>"
| resume: "run_status_of s r = Some (Resumes w) \<Longrightarrow>
     startup_step s (Resume r) (s\<lparr> run_status_of := (run_status_of s)(r \<mapsto> resumed w) \<rparr>)"
| prepared: "run_status_of s r = Some Preparing_Workers \<Longrightarrow> gate_proceed (gate s) = (g, go) \<Longrightarrow>
     startup_step s (Prepared_Run r) \<lparr> gate = g, run_status_of = (run_status_of s)(r \<mapsto>
        (if go then Run_Started else Not_Run Stopped_Outcome)) \<rparr>"
| prepare_failed: "run_status_of s r = Some Preparing_Workers \<Longrightarrow> gate_proceed (gate s) = (g, go) \<Longrightarrow>
     startup_step s (Prepare_Fails r) \<lparr> gate = g, run_status_of = (run_status_of s)(r \<mapsto> Prepare_Failed) \<rparr>"

inductive_cases startup_stepE: "startup_step s e s'"

text \<open>A session's history: its events, latest last, each with the session after it.\<close>

inductive startup_run :: "'r startup_session \<Rightarrow> 'r startup_event list \<Rightarrow> 'r startup_session \<Rightarrow> bool" where
  begin_run: "startup_run s [] s"
| more: "startup_run s es s' \<Longrightarrow> startup_step s' e s'' \<Longrightarrow> startup_run s (es @ [e]) s''"

section \<open>Invariant\<close>

text \<open>A run the gate has released and that has not started or ended yet.\<close>

definition released_status :: "run_status option \<Rightarrow> bool" where
  "released_status x \<longleftrightarrow> x \<in> {Some Preparing_Workers, Some (Resumes \<lparr> outcome = Ready_Outcome, waited = True \<rparr>)}"

lemma released_status_simps [simp]:
  "\<not> released_status None" "\<not> released_status (Some Held)" "released_status (Some Preparing_Workers)"
  "\<not> released_status (Some Run_Started)" "\<not> released_status (Some (Not_Run out))" "\<not> released_status (Some Prepare_Failed)"
  "released_status (Some (Resumes w)) \<longleftrightarrow> outcome w = Ready_Outcome \<and> waited w"
  by (auto simp: released_status_def)

lemma resumed_simps [simp]:
  "resumed w \<noteq> Held" "released_status (Some (resumed w)) \<longleftrightarrow> released_status (Some (Resumes w))"
  by (auto simp: resumed_def split: startup_wait_outcome.splits)

text \<open>
  \<open>m\<close> is the released run. The gate's waiter is the one held run, its flags say whether a run is
  released and whether Stop has ended it, and startup is over once one is released.
\<close>

definition gate_ok :: "'r option \<Rightarrow> 'r startup_session \<Rightarrow> bool" where
  "gate_ok m s \<longleftrightarrow>
     (\<forall>r. run_status_of s r = Some Held \<longleftrightarrow> waiter (gate s) = Some r) \<and>
     (\<forall>r. released_status (run_status_of s r) \<longleftrightarrow> m = Some r) \<and>
     (m \<noteq> None \<longleftrightarrow> preparing (gate s) \<or> stopped_while_preparing (gate s)) \<and>
     (waiter (gate s) \<noteq> None \<longrightarrow> starting (gate s)) \<and>
     (m \<noteq> None \<longrightarrow> \<not> starting (gate s)) \<and>
     \<not> (preparing (gate s) \<and> stopped_while_preparing (gate s))"

lemmas gate_ops = gate_wait_def gate_finish_def gate_cancel_def gate_proceed_def release_waiter_def
  is_pending_def settle_all_def

lemma new_session_ok: "gate_ok None (new_session b)"
  by (simp add: gate_ok_def new_session_def new_startup_gate_def)

text \<open>The released run after an event.\<close>

definition released_after :: "'r option \<Rightarrow> 'r startup_session \<Rightarrow> 'r startup_event \<Rightarrow> 'r option" where
  "released_after m s e = (case e of
      Finish_Startup \<Rightarrow> (if waiter (gate s) = None then m else waiter (gate s))
    | Prepared_Run _ \<Rightarrow> None
    | Prepare_Fails _ \<Rightarrow> None
    | _ \<Rightarrow> m)"

lemma gate_ok_waiter: "gate_ok m s \<Longrightarrow> run_status_of s r = Some Held \<longleftrightarrow> waiter (gate s) = Some r"
  by (simp add: gate_ok_def)

lemma gate_ok_released: "gate_ok m s \<Longrightarrow> released_status (run_status_of s r) \<longleftrightarrow> m = Some r"
  by (simp add: gate_ok_def)

lemma startup_step_ok:
  assumes "startup_step s e s'" and "gate_ok m s"
  shows "gate_ok (released_after m s e) s'"
  using assms(1)
proof cases
  case (ask r g eff)
  with gate_ok_waiter [OF assms(2), of r] gate_ok_released [OF assms(2), of r]
  have "m \<noteq> Some r" "waiter (gate s) \<noteq> Some r" by simp_all
  with ask assms(2) show ?thesis by (auto simp: gate_ok_def gate_ops released_after_def split: if_splits)
next
  case (finish g eff)
  with assms(2) show ?thesis
    by (cases "waiter (gate s)") (auto simp: gate_ok_def gate_ops released_after_def split: if_splits)
next
  case (stop g eff ended)
  with assms(2) show ?thesis
    by (cases "waiter (gate s)") (auto simp: gate_ok_def gate_ops released_after_def split: if_splits)
next
  case (resume r w)
  with gate_ok_waiter [OF assms(2), of r] gate_ok_released [OF assms(2), of r]
  have "waiter (gate s) \<noteq> Some r" "m = Some r \<longleftrightarrow> outcome w = Ready_Outcome \<and> waited w" by auto
  with resume assms(2) show ?thesis by (auto simp: gate_ok_def released_after_def split: if_splits)
next
  case (prepared r g go)
  with assms(2) have "m = Some r" by (auto simp: gate_ok_def)
  with prepared assms(2) show ?thesis by (auto simp: gate_ok_def gate_ops released_after_def)
next
  case (prepare_failed r g go)
  with assms(2) have "m = Some r" by (auto simp: gate_ok_def)
  with prepare_failed assms(2) show ?thesis by (auto simp: gate_ok_def gate_ops released_after_def)
qed

lemma startup_run_ok: "startup_run s es s' \<Longrightarrow> gate_ok m s \<Longrightarrow> \<exists>m'. gate_ok m' s'"
  by (induction rule: startup_run.induct) (blast intro: startup_step_ok)+

lemma reachable_ok: "startup_run (new_session b) es s \<Longrightarrow> \<exists>m. gate_ok m s"
  by (rule startup_run_ok [OF _ new_session_ok])

section \<open>Stop\<close>

text \<open>A run that has ended, or that Stop has ended while it prepared its workers.\<close>

definition dead_status :: "run_status option \<Rightarrow> bool" where
  "dead_status x = (case x of
      Some (Not_Run _) \<Rightarrow> True
    | Some Prepare_Failed \<Rightarrow> True
    | Some (Resumes w) \<Rightarrow> outcome w = Stopped_Outcome
    | _ \<Rightarrow> False)"

lemma dead_status_simps [simp]:
  "\<not> dead_status None" "\<not> dead_status (Some Held)" "\<not> dead_status (Some Preparing_Workers)" "\<not> dead_status (Some Run_Started)"
  "dead_status (Some (Not_Run out))" "dead_status (Some Prepare_Failed)"
  "dead_status (Some (Resumes w)) \<longleftrightarrow> outcome w = Stopped_Outcome"
  by (simp_all add: dead_status_def)

lemma dead_not_released: "dead_status x \<Longrightarrow> \<not> released_status x"
  by (auto simp: released_status_def)

definition ended :: "'r startup_session \<Rightarrow> 'r \<Rightarrow> bool" where
  "ended s r \<longleftrightarrow> dead_status (run_status_of s r) \<or>
     released_status (run_status_of s r) \<and> stopped_while_preparing (gate s)"

lemma ended_not_started: "ended s r \<Longrightarrow> run_status_of s r \<noteq> Some Run_Started"
  by (auto simp: ended_def)

lemma resumed_dead: "dead_status (Some (Resumes w)) \<Longrightarrow> dead_status (Some (resumed w))"
  by (simp add: resumed_def)

lemma ended_status: "ended s r \<Longrightarrow> run_status_of s r \<noteq> None \<and> run_status_of s r \<noteq> Some Held"
  by (metis ended_def dead_status_simps(1,2) released_status_simps(1,2))

lemma startup_step_ended:
  assumes "startup_step s e s'" and "gate_ok m s" and "ended s r"
  shows "ended s' r"
  using assms(1)
proof cases
  case (ask r' g eff)
  with ended_status [OF assms(3)] have "r' \<noteq> r" by blast
  with ask assms(3) show ?thesis by (auto simp: ended_def gate_ops split: if_splits)
next
  case (finish g eff)
  have "waiter (gate s) \<noteq> Some r" using gate_ok_waiter [OF assms(2)] ended_status [OF assms(3)] by blast
  with finish assms(3) show ?thesis
    by (cases "waiter (gate s)") (auto simp: ended_def gate_ops)
next
  case (stop g eff e)
  have "waiter (gate s) \<noteq> Some r" using gate_ok_waiter [OF assms(2)] ended_status [OF assms(3)] by blast
  with stop assms(3) show ?thesis
    by (cases "waiter (gate s)") (auto simp: ended_def gate_ops split: if_splits)
next
  case (resume r' w)
  with assms(3) resumed_dead [of w] show ?thesis by (auto simp: ended_def split: if_splits)
next
  case (prepared r' g go)
  with gate_ok_released [OF assms(2), of r'] have "m = Some r'" by simp
  then have "r \<noteq> r' \<Longrightarrow> \<not> released_status (run_status_of s r)" using gate_ok_released [OF assms(2), of r] by simp
  then show ?thesis using prepared(2-) assms(3) by (cases "r = r'") (auto simp: ended_def gate_ops)
next
  case (prepare_failed r' g go)
  with gate_ok_released [OF assms(2), of r'] have "m = Some r'" by simp
  then have "r \<noteq> r' \<Longrightarrow> \<not> released_status (run_status_of s r)" using gate_ok_released [OF assms(2), of r] by simp
  then show ?thesis using prepare_failed(2-) assms(3) by (cases "r = r'") (auto simp: ended_def gate_ops)
qed

lemma startup_run_ended:
  "startup_run s es s' \<Longrightarrow> gate_ok m s \<Longrightarrow> ended s r \<Longrightarrow> ended s' r"
proof (induction rule: startup_run.induct)
  case (more s es s' e s'')
  then obtain m' where "gate_ok m' s'" using startup_run_ok by blast
  with more show ?case by (blast intro: startup_step_ended)
qed

text \<open>A run asked for during startup that has not started or ended yet.\<close>

definition unstarted :: "'r startup_session \<Rightarrow> 'r \<Rightarrow> bool" where
  "unstarted s r \<longleftrightarrow> run_status_of s r = Some Held \<or> released_status (run_status_of s r)"

lemma stop_ends_unstarted:
  assumes "gate_ok m s" and "unstarted s r" and "gate_cancel (gate s) = (g, eff, e)"
  shows "ended \<lparr> gate = g, run_status_of = settle_all eff (run_status_of s) \<rparr> r"
  using assms by (cases "waiter (gate s)") (auto simp: gate_ok_def unstarted_def ended_def gate_ops split: if_splits)

lemma ended_unstarted:
  "unstarted s r \<Longrightarrow> ended s r \<longleftrightarrow> released_status (run_status_of s r) \<and> stopped_while_preparing (gate s)"
  using dead_not_released by (auto simp: unstarted_def ended_def)

lemma unended_iff:
  assumes "gate_ok m s"
  shows "unstarted s r \<and> \<not> ended s r \<longleftrightarrow> waiter (gate s) = Some r \<or> m = Some r \<and> preparing (gate s)"
  using assms ended_unstarted [of s r] by (cases "unstarted s r") (auto simp: gate_ok_def unstarted_def)

lemma pending_iff:
  assumes "gate_ok m s"
  shows "is_pending (gate s) \<longleftrightarrow> (\<exists>r. unstarted s r \<and> \<not> ended s r)"
  using assms unfolding unended_iff [OF assms] by (auto simp: gate_ok_def is_pending_def)

lemma cancel_reports:
  assumes "gate_ok m s" and "gate_cancel (gate s) = (g, eff, e)"
  shows "e \<longleftrightarrow> (\<exists>r. unstarted s r \<and> \<not> ended s r)"
  using assms(2) unfolding pending_iff [OF assms(1), symmetric]
  by (auto simp: gate_ops split: option.splits if_splits)

text \<open>
  C15. Stop ends a run asked for while the workers start, whether it is still held or already released
  and preparing its workers: whatever happens afterwards, that run is never started. And \<open>cancel\<close> says
  that it ended a run exactly when there was a pending run that had not been ended before.
\<close>

theorem stopped_run_never_starts:
  assumes "startup_run (new_session b) es s" and "gate_cancel (gate s) = (g, eff, told)"
  shows "(told \<longleftrightarrow> (\<exists>r. unstarted s r \<and> \<not> ended s r)) \<and>
         (\<forall>r es' s'. unstarted s r \<longrightarrow>
            startup_run \<lparr> gate = g, run_status_of = settle_all eff (run_status_of s) \<rparr> es' s' \<longrightarrow>
            run_status_of s' r \<noteq> Some Run_Started)"
proof -
  obtain m where ok: "gate_ok m s" using reachable_ok [OF assms(1)] by blast
  have ok': "gate_ok (released_after m s Stop_Pressed) \<lparr> gate = g, run_status_of = settle_all eff (run_status_of s) \<rparr>"
    by (rule startup_step_ok [OF startup_step.stop [OF assms(2)] ok])
  show ?thesis
  proof (intro conjI allI impI)
    show "told \<longleftrightarrow> (\<exists>r. unstarted s r \<and> \<not> ended s r)" by (rule cancel_reports [OF ok assms(2)])
    fix r es' s'
    assume u: "unstarted s r"
      and run: "startup_run \<lparr> gate = g, run_status_of = settle_all eff (run_status_of s) \<rparr> es' s'"
    show "run_status_of s' r \<noteq> Some Run_Started"
      by (rule ended_not_started [OF startup_run_ended [OF run ok' stop_ends_unstarted [OF ok u assms(2)]]])
  qed
qed

lemma held_then_released:
  "startup_run (new_session True) ([Ask r] @ [Finish_Startup])
     \<lparr> gate = (new_startup_gate False)\<lparr> preparing := True \<rparr>,
       run_status_of = [r \<mapsto> Resumes \<lparr> outcome = Ready_Outcome, waited = True \<rparr>] \<rparr>"
proof (rule startup_run.more)
  have "startup_step (new_session True) (Ask r)
     \<lparr> gate = (new_startup_gate True)\<lparr> waiter := Some r \<rparr>, run_status_of = settle_all [Waiting_Change True] ((run_status_of (new_session True))(r \<mapsto> Held)) \<rparr>"
    by (rule startup_step.ask) (simp_all add: new_session_def new_startup_gate_def gate_ops)
  from startup_run.more [OF startup_run.begin_run this]
  show "startup_run (new_session True) [Ask r] \<lparr> gate = (new_startup_gate True)\<lparr> waiter := Some r \<rparr>, run_status_of = [r \<mapsto> Held] \<rparr>"
    by (simp add: settle_all_def new_session_def)
  let ?s = "\<lparr> gate = (new_startup_gate True)\<lparr> waiter := Some r \<rparr>, run_status_of = [r \<mapsto> Held] \<rparr>"
  have "startup_step ?s Finish_Startup \<lparr> gate = (new_startup_gate False)\<lparr> preparing := True \<rparr>,
       run_status_of = settle_all [Waiting_Change False, Settles r \<lparr> outcome = Ready_Outcome, waited = True \<rparr>] (run_status_of ?s) \<rparr>"
    by (rule startup_step.finish) (simp add: new_startup_gate_def gate_ops)
  then show "startup_step ?s Finish_Startup \<lparr> gate = (new_startup_gate False)\<lparr> preparing := True \<rparr>,
       run_status_of = [r \<mapsto> Resumes \<lparr> outcome = Ready_Outcome, waited = True \<rparr>] \<rparr>"
    by (simp add: settle_all_def)
qed

theorem stopped_run_never_starts_witness:
  "\<exists>s g eff. startup_run (new_session True) [Ask ''run'', Finish_Startup] s \<and>
     gate_cancel (gate s) = (g, eff, True) \<and> unstarted s ''run'' \<and>
     (\<forall>es' s'. startup_run \<lparr> gate = g, run_status_of = settle_all eff (run_status_of s) \<rparr> es' s' \<longrightarrow>
        run_status_of s' ''run'' \<noteq> Some Run_Started)"
proof -
  let ?s = "\<lparr> gate = (new_startup_gate False)\<lparr> preparing := True \<rparr>,
       run_status_of = [''run'' \<mapsto> Resumes \<lparr> outcome = Ready_Outcome, waited = True \<rparr>] \<rparr>"
  have c0: "gate_cancel (gate ?s) = (fst (gate_cancel (gate ?s)), fst (snd (gate_cancel (gate ?s))), True)"
    by (simp add: gate_ops new_startup_gate_def)
  have u0: "unstarted ?s ''run''" by (simp add: unstarted_def)
  obtain s g eff where run: "startup_run (new_session True) [Ask ''run'', Finish_Startup] s"
    and c: "gate_cancel (gate s) = (g, eff, True)" and u: "unstarted s ''run''"
    by (rule that [OF held_then_released [of "''run''", unfolded append.simps] c0 u0])
  from stopped_run_never_starts [OF run c] u
  have "\<forall>es' s'. startup_run \<lparr> gate = g, run_status_of = settle_all eff (run_status_of s) \<rparr> es' s' \<longrightarrow>
        run_status_of s' ''run'' \<noteq> Some Run_Started" by simp
  with run c u show ?thesis by blast
qed

section \<open>One run at a time\<close>

lemma finish_over:
  assumes "startup_run s es s'" and "\<not> starting (gate s) \<or> Finish_Startup \<in> set es"
  shows "\<not> starting (gate s')"
  using assms
proof (induction rule: startup_run.induct)
  case (more s es s' e s'')
  from more.hyps(2) show ?case
  proof cases
    case (finish g eff)
    then show ?thesis by (auto simp: gate_ops split: option.splits)
  qed (use more in \<open>auto simp: gate_ops split: option.splits if_splits\<close>)
qed simp

text \<open>
  One run waits at a time, and none waits for ever: in every session at most one run asked for
  during startup has neither started nor ended, a run asked for while such a run is pending is turned
  away as busy at once, and when startup is over no run is held at the gate any more.
\<close>

theorem one_run_waits_until_startup_ends:
  assumes "startup_run (new_session b) es s"
  shows "(\<forall>r r'. unstarted s r \<longrightarrow> unstarted s r' \<longrightarrow> r = r') \<and>
         (is_pending (gate s) \<longleftrightarrow> (\<exists>r. unstarted s r \<and> \<not> ended s r)) \<and>
         (is_pending (gate s) \<longrightarrow>
            gate_wait r (gate s) = (gate s, [Settles r \<lparr> outcome = Busy_Outcome, waited = False \<rparr>])) \<and>
         (Finish_Startup \<in> set es \<longrightarrow> (\<forall>r. run_status_of s r \<noteq> Some Held))"
proof -
  obtain m where ok: "gate_ok m s" using reachable_ok [OF assms] by blast
  then have one: "unstarted s r \<Longrightarrow> unstarted s r' \<Longrightarrow> r = r'" for r r'
    by (auto simp: gate_ok_def unstarted_def)
  note pend = pending_iff [OF ok]
  have over: "Finish_Startup \<in> set es \<Longrightarrow> run_status_of s r \<noteq> Some Held" for r
    using finish_over [OF assms] ok by (auto simp: gate_ok_def)
  show ?thesis using one pend over by (auto simp: gate_wait_def)
qed

theorem one_run_waits_until_startup_ends_witness:
  "\<exists>s. startup_run (new_session True) [Ask ''run'', Finish_Startup] s \<and> (\<forall>r. run_status_of s r \<noteq> Some Held) \<and>
     unstarted s ''run''"
proof -
  note run = held_then_released [of "''run''", unfolded append.simps]
  let ?s = "\<lparr> gate = (new_startup_gate False)\<lparr> preparing := True \<rparr>,
       run_status_of = [''run'' \<mapsto> Resumes \<lparr> outcome = Ready_Outcome, waited = True \<rparr>] \<rparr>"
  have "Finish_Startup \<in> set [Ask ''run'', Finish_Startup]" by simp
  with one_run_waits_until_startup_ends [OF run] have "\<forall>r. run_status_of ?s r \<noteq> Some Held" by blast
  moreover have "unstarted ?s ''run''" by (simp add: unstarted_def)
  ultimately show ?thesis using run by blast
qed

end
