(* ===== verification/Bounded_Run.thy ===== *)
theory Bounded_Run
  imports TS_Prelude
begin

text \<open>
  The test timeout of bodies and hooks (\<open>run-bounded.ts\<close>) with the fence that stops an abandoned body
  (\<open>attempt-fence.ts\<close>): the timer that checks the budget, the time excluded because a device action is in
  flight, the wall clock's cap, the stop. Times are whole milliseconds; every operation gets the time
  \<open>Date.now()\<close> returns in it.
\<close>

section \<open>State and operations\<close>

definition wall_cap_multiplier :: int where
  "wall_cap_multiplier = 5"

text \<open>How the race ended: the run itself, its budget, the wall clock's cap (with wall and counted time), a stop.\<close>

datatype bounded_outcome = Settled | Budget_Out int int | Wall_Out int int | Aborted

record bounded_run =
  start_ms :: int
  timeout_ms :: int
  close_on_settle :: bool
  excluded_total :: int
  action_depth :: nat
  in_flight_since :: int
  timer_due :: "int option"
  race_outcome :: "bounded_outcome option"
  token_closed :: bool

text \<open>\<open>finally\<close>: the token is closed if asked for or if the run is abandoned, the timer cleared.\<close>

definition settle_race :: "bounded_outcome \<Rightarrow> bounded_run \<Rightarrow> bounded_run" where
  "settle_race out r = r\<lparr> race_outcome := Some out, timer_due := None,
     token_closed := token_closed r \<or> close_on_settle r \<or> out \<noteq> Settled \<rparr>"

definition begin_bounded :: "int \<Rightarrow> int \<Rightarrow> bool \<Rightarrow> bool \<Rightarrow> bounded_run" where
  "begin_bounded now timeout close already_aborted =
     (let r = \<lparr> start_ms = now, timeout_ms = timeout, close_on_settle = close, excluded_total = 0, action_depth = 0,
                in_flight_since = 0, timer_due = Some (now + min 1000 timeout), race_outcome = None, token_closed = False \<rparr>
      in if already_aborted then settle_race Aborted r else r)"

definition action_starts :: "int \<Rightarrow> bounded_run \<Rightarrow> bounded_run" where
  "action_starts now r =
     r\<lparr> action_depth := action_depth r + 1,
        in_flight_since := (if action_depth r = 0 then now else in_flight_since r) \<rparr>"

definition action_ends :: "int \<Rightarrow> bounded_run \<Rightarrow> bounded_run" where
  "action_ends now r =
     (if action_depth r > 0
      then r\<lparr> action_depth := action_depth r - 1,
              excluded_total := excluded_total r + (if action_depth r = 1 then now - in_flight_since r else 0) \<rparr>
      else r)"

definition wall_ms :: "int \<Rightarrow> bounded_run \<Rightarrow> int" where
  "wall_ms now r = now - start_ms r"

definition counted_ms :: "int \<Rightarrow> bounded_run \<Rightarrow> int" where
  "counted_ms now r = wall_ms now r - excluded_total r - (if action_depth r > 0 then now - in_flight_since r else 0)"

definition check_budget :: "int \<Rightarrow> bounded_run \<Rightarrow> bounded_run" where
  "check_budget now r =
     (let wall = wall_ms now r; counted = counted_ms now r in
      if timeout_ms r \<le> counted then settle_race (Budget_Out wall counted) r
      else if timeout_ms r * wall_cap_multiplier \<le> wall then settle_race (Wall_Out wall counted) r
      else let remaining = min (timeout_ms r - counted) (timeout_ms r * wall_cap_multiplier - wall)
           in r\<lparr> timer_due := Some (now + max 1 (min 1000 remaining)) \<rparr>)"

datatype bounded_event = Action_Starts | Action_Ends | Timer_Check | Body_Settles | Stop_Requested

text \<open>Once the race is over, its listeners are gone and its timer cleared.\<close>

definition bounded_step :: "int \<Rightarrow> bounded_event \<Rightarrow> bounded_run \<Rightarrow> bounded_run" where
  "bounded_step now e r =
     (if race_outcome r \<noteq> None then r
      else case e of
        Action_Starts \<Rightarrow> action_starts now r
      | Action_Ends \<Rightarrow> action_ends now r
      | Timer_Check \<Rightarrow> check_budget now r
      | Body_Settles \<Rightarrow> settle_race Settled r
      | Stop_Requested \<Rightarrow> settle_race Aborted r)"

text \<open>A device command of the run's context: refused once the token is closed.\<close>

definition device_command_allowed :: "bounded_run \<Rightarrow> bool" where
  "device_command_allowed r = (\<not> token_closed r)"

section \<open>Sessions\<close>

text \<open>
  A session: events in the order of their times. The timer fires at most \<open>lag\<close> after it is due, so no
  event comes later than that while the race goes on.
\<close>

inductive bounded_session :: "int \<Rightarrow> bounded_run \<Rightarrow> (int \<times> bounded_event) list \<Rightarrow> int \<Rightarrow> bounded_run \<Rightarrow> bool"
  for lag r0 where
  begins: "bounded_session lag r0 [] (start_ms r0) r0"
| event: "bounded_session lag r0 es t r \<Longrightarrow> t \<le> now \<Longrightarrow> (\<forall>due. timer_due r = Some due \<longrightarrow> now \<le> due + lag) \<Longrightarrow>
     bounded_session lag r0 (es @ [(now, e)]) now (bounded_step now e r)"

text \<open>The reference: the time in which no device action is in flight.\<close>

fun depth_after :: "bounded_event \<Rightarrow> nat \<Rightarrow> nat" where
  "depth_after Action_Starts d = d + 1"
| "depth_after Action_Ends d = d - 1"
| "depth_after _ d = d"

fun idle_time :: "nat \<Rightarrow> int \<Rightarrow> (int \<times> bounded_event) list \<Rightarrow> int \<Rightarrow> int" where
  "idle_time d t [] now = (if d = 0 then now - t else 0)"
| "idle_time d t ((t', e) # es) now = (if d = 0 then t' - t else 0) + idle_time (depth_after e d) t' es now"

definition depth_at_end :: "nat \<Rightarrow> (int \<times> bounded_event) list \<Rightarrow> nat" where
  "depth_at_end d es = fold depth_after (map snd es) d"

lemma depth_at_end_simps [simp]:
  "depth_at_end d [] = d" "depth_at_end d (es @ [(t, e)]) = depth_after e (depth_at_end d es)"
  "depth_at_end d ((t, e) # es) = depth_at_end (depth_after e d) es"
  by (simp_all add: depth_at_end_def)

lemma idle_time_snoc:
  "idle_time d t (es @ [(t', e)]) now =
     idle_time d t es t' + (if depth_after e (depth_at_end d es) = 0 then now - t' else 0)"
  by (induction d t es t' rule: idle_time.induct) auto

section \<open>Invariant\<close>

text \<open>
  While the race goes on: the recorded depth and counted time are those of the events, and the timer is
  due in time for both limits.
\<close>

definition bounded_ok :: "bounded_run \<Rightarrow> (int \<times> bounded_event) list \<Rightarrow> int \<Rightarrow> bounded_run \<Rightarrow> bool" where
  "bounded_ok r0 es t r \<longleftrightarrow> race_outcome r = None \<longrightarrow>
     start_ms r = start_ms r0 \<and> timeout_ms r = timeout_ms r0 \<and> action_depth r = depth_at_end 0 es \<and>
     (\<forall>now. counted_ms now r = idle_time 0 (start_ms r0) es now) \<and>
     (\<exists>due. timer_due r = Some due \<and> due \<le> start_ms r0 + timeout_ms r0 * wall_cap_multiplier \<and>
        due + counted_ms t r \<le> timeout_ms r0 + t)"

lemmas bounded_ops = bounded_step_def action_starts_def action_ends_def check_budget_def settle_race_def
  counted_ms_def wall_ms_def

lemma counted_ms_grows: "t \<le> now \<Longrightarrow> counted_ms now r \<le> counted_ms t r + (now - t)"
  by (simp add: counted_ms_def wall_ms_def)

lemma begin_ok:
  assumes "0 < timeout"
  shows "bounded_ok (begin_bounded now timeout close aborted) [] now (begin_bounded now timeout close aborted)"
  using assms by (auto simp: bounded_ok_def begin_bounded_def settle_race_def counted_ms_def wall_ms_def
      wall_cap_multiplier_def Let_def)

lemma counted_ms_step:
  assumes "race_outcome (bounded_step now e r) = None"
  shows "counted_ms later (bounded_step now e r) =
     counted_ms now r + (if depth_after e (action_depth r) = 0 then later - now else 0)"
proof (cases e)
  case Action_Ends
  then show ?thesis using assms by (cases "action_depth r") (auto simp: bounded_ops)
qed (use assms in \<open>auto simp: bounded_ops Let_def split: if_splits\<close>)

lemma step_keeps:
  assumes "race_outcome (bounded_step now e r) = None"
  shows "start_ms (bounded_step now e r) = start_ms r" "timeout_ms (bounded_step now e r) = timeout_ms r"
    "action_depth (bounded_step now e r) = depth_after e (action_depth r)"
    "e \<noteq> Timer_Check \<Longrightarrow> timer_due (bounded_step now e r) = timer_due r"
  using assms by (cases e; auto simp: bounded_ops Let_def split: if_splits)+

lemma rearmed_in_time:
  assumes "race_outcome (bounded_step now Timer_Check r) = None" and "race_outcome r = None"
  obtains due where "timer_due (bounded_step now Timer_Check r) = Some due"
    "due \<le> start_ms r + timeout_ms r * wall_cap_multiplier" "due + counted_ms now r \<le> timeout_ms r + now"
proof -
  let ?rem = "min (timeout_ms r - counted_ms now r) (timeout_ms r * wall_cap_multiplier - wall_ms now r)"
  have "counted_ms now r < timeout_ms r" "wall_ms now r < timeout_ms r * wall_cap_multiplier"
    and "timer_due (bounded_step now Timer_Check r) = Some (now + max 1 (min 1000 ?rem))"
    using assms by (auto simp: bounded_step_def check_budget_def settle_race_def Let_def split: if_splits)
  then show ?thesis by (intro that) (auto simp: wall_ms_def)
qed

lemma step_ok:
  assumes ok: "bounded_ok r0 es t r" and "t \<le> now"
  shows "bounded_ok r0 (es @ [(now, e)]) now (bounded_step now e r)"
  unfolding bounded_ok_def
proof
  assume none: "race_outcome (bounded_step now e r) = None"
  then have r_none: "race_outcome r = None" by (auto simp: bounded_step_def split: if_splits)
  with ok have r: "start_ms r = start_ms r0" "timeout_ms r = timeout_ms r0" "action_depth r = depth_at_end 0 es"
    and idle: "\<And>now. counted_ms now r = idle_time 0 (start_ms r0) es now"
    by (auto simp: bounded_ok_def)
  from r_none ok obtain due where due: "timer_due r = Some due" "due \<le> start_ms r0 + timeout_ms r0 * wall_cap_multiplier"
    "due + counted_ms t r \<le> timeout_ms r0 + t" by (auto simp: bounded_ok_def)
  have now: "counted_ms now (bounded_step now e r) = counted_ms now r" by (simp add: counted_ms_step [OF none])
  have "\<exists>due. timer_due (bounded_step now e r) = Some due \<and> due \<le> start_ms r0 + timeout_ms r0 * wall_cap_multiplier \<and>
        due + counted_ms now r \<le> timeout_ms r0 + now"
  proof (cases "e = Timer_Check")
    case True
    with none r_none obtain d where "timer_due (bounded_step now e r) = Some d"
      "d \<le> start_ms r + timeout_ms r * wall_cap_multiplier" "d + counted_ms now r \<le> timeout_ms r + now"
      using rearmed_in_time by metis
    with r show ?thesis by simp
  next
    case False
    have "due + counted_ms now r \<le> timeout_ms r0 + now"
      using due(3) counted_ms_grows [OF \<open>t \<le> now\<close>, of r] by linarith
    with due step_keeps(4) [OF none False] show ?thesis by simp
  qed
  with now r show "start_ms (bounded_step now e r) = start_ms r0 \<and> timeout_ms (bounded_step now e r) = timeout_ms r0 \<and>
     action_depth (bounded_step now e r) = depth_at_end 0 (es @ [(now, e)]) \<and>
     (\<forall>later. counted_ms later (bounded_step now e r) = idle_time 0 (start_ms r0) (es @ [(now, e)]) later) \<and>
     (\<exists>due. timer_due (bounded_step now e r) = Some due \<and> due \<le> start_ms r0 + timeout_ms r0 * wall_cap_multiplier \<and>
        due + counted_ms now (bounded_step now e r) \<le> timeout_ms r0 + now)"
    by (simp add: step_keeps [OF none] counted_ms_step [OF none] idle_time_snoc idle)
qed

lemma session_ok:
  "bounded_session lag r0 es t r \<Longrightarrow> bounded_ok r0 [] (start_ms r0) r0 \<Longrightarrow> bounded_ok r0 es t r"
  by (induction rule: bounded_session.induct) (auto intro: step_ok)

section \<open>The timeout\<close>

definition session_limits :: "int \<Rightarrow> bounded_run \<Rightarrow> int \<Rightarrow> bounded_run \<Rightarrow> bool" where
  "session_limits lag r0 t r \<longleftrightarrow> race_outcome r = None \<longrightarrow>
     counted_ms t r \<le> timeout_ms r0 + lag \<and> t - start_ms r0 \<le> timeout_ms r0 * wall_cap_multiplier + lag"

lemma session_within_limits:
  assumes "bounded_session lag r0 es t r" and "0 < timeout_ms r0" and "0 \<le> lag" and "bounded_ok r0 [] (start_ms r0) r0"
  shows "session_limits lag r0 t r"
  using assms(1)
proof cases
  case begins
  with assms show ?thesis by (auto simp: session_limits_def bounded_ok_def wall_cap_multiplier_def)
next
  case (event es0 t0 s e)
  show ?thesis unfolding session_limits_def
  proof
    assume none: "race_outcome r = None"
    then have s_none: "race_outcome s = None" using event(2) by (auto simp: bounded_step_def split: if_splits)
    from session_ok [OF event(3) assms(4)] s_none obtain due where due: "timer_due s = Some due"
      "due \<le> start_ms r0 + timeout_ms r0 * wall_cap_multiplier" "due + counted_ms t0 s \<le> timeout_ms r0 + t0"
      unfolding bounded_ok_def by blast
    have "t \<le> due + lag" using event(5) due(1) by blast
    moreover have "counted_ms t r = counted_ms t s" using counted_ms_step [of t e s t] none event(2) by simp
    ultimately show "counted_ms t r \<le> timeout_ms r0 + lag \<and> t - start_ms r0 \<le> timeout_ms r0 * wall_cap_multiplier + lag"
      using due(2,3) counted_ms_grows [OF event(4), of s] by linarith
  qed
qed

lemma session_token:
  "bounded_session lag r0 es t r \<Longrightarrow> (race_outcome r0 = None \<longrightarrow> \<not> token_closed r0) \<Longrightarrow>
   (\<forall>out. race_outcome r0 = Some out \<longrightarrow> token_closed r0 = (close_on_settle r0 \<or> out \<noteq> Settled)) \<Longrightarrow>
   close_on_settle r = close_on_settle r0 \<and> (race_outcome r = None \<longrightarrow> \<not> token_closed r) \<and>
   (\<forall>out. race_outcome r = Some out \<longrightarrow> token_closed r = (close_on_settle r0 \<or> out \<noteq> Settled))"
proof (induction rule: bounded_session.induct)
  case (event es t r now e)
  then show ?case by (cases e) (auto simp: bounded_ops Let_def)
qed simp

text \<open>
  C16. A bounded run times out when it must and only then. Checked at any time, a run that goes on is
  rejected exactly if the time it spent outside device actions has reached its budget or the wall
  clock five times the budget; if the timer fires at most \<open>lag\<close> late, no run goes on past either limit
  by more than that; and when the race is over the run's device commands are refused if it was
  abandoned (or is a test body, whose token is always closed), and otherwise still allowed.
\<close>

theorem bounded_run_times_out_right:
  assumes "0 < timeout" and "0 \<le> lag"
    and "bounded_session lag (begin_bounded s timeout close aborted) es t r" and "t \<le> now"
  shows "(race_outcome r = None \<longrightarrow>
            (race_outcome (bounded_step now Timer_Check r) \<noteq> None \<longleftrightarrow>
               timeout \<le> idle_time 0 s es now \<or> timeout * 5 \<le> now - s) \<and>
            idle_time 0 s es t \<le> timeout + lag \<and> t - s \<le> timeout * 5 + lag) \<and>
         (\<forall>out. race_outcome r = Some out \<longrightarrow> device_command_allowed r = (\<not> close \<and> out = Settled))"
proof -
  let ?r0 = "begin_bounded s timeout close aborted"
  have r0: "timeout_ms ?r0 = timeout" "start_ms ?r0 = s" "close_on_settle ?r0 = close"
    "race_outcome ?r0 = None \<longrightarrow> \<not> token_closed ?r0"
    "\<forall>out. race_outcome ?r0 = Some out \<longrightarrow> token_closed ?r0 = (close_on_settle ?r0 \<or> out \<noteq> Settled)"
    by (auto simp: begin_bounded_def settle_race_def Let_def)
  have start: "bounded_ok ?r0 [] (start_ms ?r0) ?r0" using begin_ok [OF assms(1)] r0(2) by metis
  have ok: "bounded_ok ?r0 es t r" using session_ok [OF assms(3) start] .
  have lim: "session_limits lag ?r0 t r" using session_within_limits [OF assms(3) _ assms(2) start] assms(1) r0(1) by simp
  have "(race_outcome (bounded_step now Timer_Check r) \<noteq> None \<longleftrightarrow>
               timeout \<le> idle_time 0 s es now \<or> timeout * 5 \<le> now - s) \<and>
            idle_time 0 s es t \<le> timeout + lag \<and> t - s \<le> timeout * 5 + lag" if "race_outcome r = None"
  proof -
    have "start_ms r = s" "timeout_ms r = timeout" "\<And>x. counted_ms x r = idle_time 0 s es x"
      using ok that r0 by (auto simp: bounded_ok_def)
    then show ?thesis using lim that r0
      by (simp add: session_limits_def bounded_step_def check_budget_def settle_race_def wall_ms_def
          wall_cap_multiplier_def Let_def)
  qed
  moreover have "\<forall>out. race_outcome r = Some out \<longrightarrow> token_closed r = (close \<or> out \<noteq> Settled)"
    using session_token [OF assms(3) r0(4,5)] r0(3) by simp
  ultimately show ?thesis by (simp add: device_command_allowed_def)
qed

theorem bounded_run_times_out_right_witness:
  "\<exists>r. bounded_session 5 (begin_bounded 0 300 False False) [(10, Action_Starts), (290, Action_Ends), (302, Timer_Check)] 302 r \<and>
     idle_time 0 0 [(10, Action_Starts), (290, Action_Ends), (302, Timer_Check)] 302 \<le> 300 + 5"
proof -
  let ?r0 = "begin_bounded 0 300 False False"
  let ?r1 = "bounded_step 10 Action_Starts ?r0"
  let ?r2 = "bounded_step 290 Action_Ends ?r1"
  let ?r3 = "bounded_step 302 Timer_Check ?r2"
  note defs = bounded_ops begin_bounded_def wall_cap_multiplier_def
  have a: "bounded_session 5 ?r0 ([] @ [(10, Action_Starts)]) 10 ?r1"
    by (rule bounded_session.event [OF bounded_session.begins]) (simp_all add: defs)
  have b: "bounded_session 5 ?r0 (([] @ [(10, Action_Starts)]) @ [(290, Action_Ends)]) 290 ?r2"
    by (rule bounded_session.event [OF a]) (simp_all add: defs)
  have c: "bounded_session 5 ?r0 ((([] @ [(10, Action_Starts)]) @ [(290, Action_Ends)]) @ [(302, Timer_Check)]) 302 ?r3"
    by (rule bounded_session.event [OF b]) (simp_all add: defs)
  have "race_outcome ?r3 = None" by (simp add: defs)
  moreover have "(0::int) < 300" "(0::int) \<le> 5" "(302::int) \<le> 302" by simp_all
  ultimately show ?thesis using bounded_run_times_out_right [OF _ _ c] c by fastforce
qed

end
