(* ===== verification/Test_Filter.thy ===== *)
theory Test_Filter
  imports TS_Prelude
begin

text \<open>
  Which tests a run selects by name (\<open>test-filter.ts\<close>): the substring filter, the explicit list of
  full names and the \<open>grep\<close> sets of the root config and of a project, and the check made before any
  device work that a selection matches some test at all. A regular expression is its source text with
  its \<open>test\<close> function: the code resets \<open>lastIndex\<close> before each use, so a match depends on the name only.
\<close>

section \<open>Case-insensitive substrings\<close>

text \<open>\<open>toLowerCase\<close> on code units below 256: the ASCII letters and the accented capitals.\<close>

definition lower_char :: "char \<Rightarrow> char" where
  "lower_char c =
     (let n = (of_char c :: nat) in
      if (65 \<le> n \<and> n \<le> 90) \<or> (192 \<le> n \<and> n \<le> 222 \<and> n \<noteq> 215) then char_of (n + 32) else c)"

definition to_lower :: "string \<Rightarrow> string" where
  "to_lower s = map lower_char s"

fun starts_with :: "string \<Rightarrow> string \<Rightarrow> bool" where
  "starts_with _ [] = True"
| "starts_with [] _ = False"
| "starts_with (x # xs) (y # ys) = (x = y \<and> starts_with xs ys)"

fun includes_str :: "string \<Rightarrow> string \<Rightarrow> bool" where
  "includes_str [] sub = starts_with [] sub"
| "includes_str (x # xs) sub = (starts_with (x # xs) sub \<or> includes_str xs sub)"

lemma starts_with_iff: "starts_with s p \<longleftrightarrow> (\<exists>r. s = p @ r)"
  by (induction s p rule: starts_with.induct) auto

lemma includes_str_iff: "includes_str s sub \<longleftrightarrow> (\<exists>a b. s = a @ sub @ b)"
proof (induction s)
  case Nil
  then show ?case by (auto simp: starts_with_iff)
next
  case (Cons x xs)
  have "(\<exists>a b. x # xs = a @ sub @ b) \<longleftrightarrow> (\<exists>b. x # xs = sub @ b) \<or> (\<exists>a b. xs = a @ sub @ b)"
    by (metis append_Cons append_Nil list.exhaust list.inject)
  with Cons show ?case by (simp add: starts_with_iff)
qed

definition matches_test_filter :: "string \<Rightarrow> string \<Rightarrow> bool" where
  "matches_test_filter full_name filter_text = includes_str (to_lower full_name) (to_lower filter_text)"

section \<open>Selection filters\<close>

datatype js_regexp = Js_Regexp (re_text: string) (re_test: "string \<Rightarrow> bool")

record selection_filters =
  test_filter :: "string option"
  full_names :: "string list option"
  grep :: "js_regexp list option"
  project_grep :: "js_regexp list option"
  grep_invert :: "js_regexp list option"
  project_grep_invert :: "js_regexp list option"

definition no_filters :: selection_filters where
  "no_filters = \<lparr> test_filter = None, full_names = None, grep = None, project_grep = None, grep_invert = None,
     project_grep_invert = None \<rparr>"

text \<open>A configured \<open>grep\<close>: absent, one expression or a list of them.\<close>

datatype grep_value = No_Grep | One_Grep js_regexp | Many_Grep "js_regexp list"

fun normalize_grep :: "grep_value \<Rightarrow> js_regexp list" where
  "normalize_grep No_Grep = []"
| "normalize_grep (One_Grep re) = [re]"
| "normalize_grep (Many_Grep res) = res"

record grep_source =
  src_grep :: grep_value
  src_grep_invert :: grep_value

definition grep_filters_for :: "grep_source \<Rightarrow> grep_source option \<Rightarrow> selection_filters" where
  "grep_filters_for root project = no_filters\<lparr>
     grep := Some (normalize_grep (src_grep root)),
     grep_invert := Some (normalize_grep (src_grep_invert root)),
     project_grep := Some (case project of None \<Rightarrow> [] | Some p \<Rightarrow> normalize_grep (src_grep p)),
     project_grep_invert := Some (case project of None \<Rightarrow> [] | Some p \<Rightarrow> normalize_grep (src_grep_invert p)) \<rparr>"

definition has_grep_filter :: "selection_filters \<Rightarrow> bool" where
  "has_grep_filter fs \<longleftrightarrow> nullish (grep fs) [] \<noteq> [] \<or> nullish (grep_invert fs) [] \<noteq> [] \<or>
     nullish (project_grep fs) [] \<noteq> [] \<or> nullish (project_grep_invert fs) [] \<noteq> []"

fun matches_any :: "string \<Rightarrow> js_regexp list option \<Rightarrow> bool" where
  "matches_any full_name None = False"
| "matches_any full_name (Some res) = list_ex (\<lambda>re. re_test re full_name) res"

fun matches_every_set :: "string \<Rightarrow> js_regexp list option \<Rightarrow> bool" where
  "matches_every_set full_name None = True"
| "matches_every_set full_name (Some res) = (res = [] \<or> matches_any full_name (Some res))"

definition passes_selection_filters :: "string \<Rightarrow> selection_filters \<Rightarrow> bool" where
  "passes_selection_filters full_name fs =
     (if (case test_filter fs of None \<Rightarrow> False | Some f \<Rightarrow> f \<noteq> [] \<and> \<not> matches_test_filter full_name f) then False
      else if (case full_names fs of None \<Rightarrow> False | Some ns \<Rightarrow> full_name \<notin> set ns) then False
      else if \<not> matches_every_set full_name (grep fs) \<or> \<not> matches_every_set full_name (project_grep fs) then False
      else if matches_any full_name (grep_invert fs) \<or> matches_any full_name (project_grep_invert fs) then False
      else True)"

section \<open>A selection that matches nothing\<close>

record selection_miss =
  file_count :: nat
  test_names :: "string list"

text \<open>
  \<open>names_of\<close> reads a file's test names, \<open>None\<close> for one that fails to load. The walk keeps the files and
  names seen so far; \<open>None\<close> stands for the early \<open>return undefined\<close>.
\<close>

fun miss_walk ::
  "(string \<Rightarrow> string list option) \<Rightarrow> (string \<times> selection_filters) list \<Rightarrow> string list \<Rightarrow> string list \<Rightarrow>
   (string list \<times> string list) option" where
  "miss_walk names_of [] files names = Some (files, names)"
| "miss_walk names_of ((file, fs) # entries) files names =
     (case names_of file of
        None \<Rightarrow> None
      | Some ns \<Rightarrow>
          if list_ex (\<lambda>n. passes_selection_filters n fs) ns then None
          else miss_walk names_of entries (set_add file files) (names @ ns))"

definition find_selection_miss ::
  "(string \<times> selection_filters) list \<Rightarrow> (string \<Rightarrow> string list option) \<Rightarrow> selection_miss option" where
  "find_selection_miss entries names_of =
     (case miss_walk names_of entries [] [] of
        None \<Rightarrow> None
      | Some (files, names) \<Rightarrow>
          if names = [] then None
          else Some \<lparr> file_count = length files, test_names = set_of_list names \<rparr>)"

datatype test_status = Passed | Failed | Skipped

definition filter_ran_nothing :: "bool \<Rightarrow> test_status list \<Rightarrow> bool" where
  "filter_ran_nothing filter_active results = (filter_active \<and> list_all (\<lambda>s. s = Skipped) results)"

section \<open>Facts\<close>

lemma passes_iff:
  "passes_selection_filters n fs \<longleftrightarrow>
     (\<forall>f. test_filter fs = Some f \<longrightarrow> f = [] \<or> matches_test_filter n f) \<and>
     (\<forall>ns. full_names fs = Some ns \<longrightarrow> n \<in> set ns) \<and>
     matches_every_set n (grep fs) \<and> matches_every_set n (project_grep fs) \<and>
     \<not> matches_any n (grep_invert fs) \<and> \<not> matches_any n (project_grep_invert fs)"
  by (auto simp: passes_selection_filters_def split: option.splits)

lemma miss_walk_Some:
  "miss_walk names_of entries files names = Some (files', names') \<Longrightarrow>
     set files' = set files \<union> fst ` set entries \<and> (distinct files' = distinct files) \<and>
     names' = names @ concat (map (\<lambda>(file, fs). the (names_of file)) entries) \<and>
     (\<forall>(file, fs) \<in> set entries. \<exists>ns. names_of file = Some ns \<and> (\<forall>n \<in> set ns. \<not> passes_selection_filters n fs))"
proof (induction names_of entries files names rule: miss_walk.induct)
  case (2 names_of fl fs entries files names)
  then obtain ns where ns: "names_of fl = Some ns" "\<not> list_ex (\<lambda>n. passes_selection_filters n fs) ns"
    and walk: "miss_walk names_of entries (set_add fl files) (names @ ns) = Some (files', names')"
    by (auto split: option.splits if_splits)
  from "2.IH" [OF ns walk] ns show ?case by (auto simp: list_ex_iff)
qed auto

lemma miss_walk_None:
  "miss_walk names_of entries files names = None \<longleftrightarrow>
     (\<exists>(file, fs) \<in> set entries. names_of file = None \<or> (\<exists>ns. names_of file = Some ns \<and> (\<exists>n \<in> set ns. passes_selection_filters n fs)))"
  by (induction names_of entries files names rule: miss_walk.induct) (auto split: option.splits simp: list_ex_iff)

end
