(* ===== verification/Retry_Schedule.thy ===== *)
theory Retry_Schedule
  imports TS_Prelude
begin

text \<open>
  How long the retry loops wait between reads (\<open>retry-schedule.ts\<close>) and when an attempt is recorded
  and its trace kept (\<open>trace/trace-mode.ts\<close>). The estimate of a loop's reads is a loop that need not
  end, modelled as such, with the proof that it ends on every schedule the SDK passes and counts the
  reads a loop following the schedule makes. Delays and times are whole milliseconds.
\<close>

section \<open>Schedules\<close>

definition action_retry_delays_ms :: "int list" where
  "action_retry_delays_ms = [0, 20, 100, 100, 500]"

definition expect_retry_delays_ms :: "int list" where
  "expect_retry_delays_ms = [100, 250, 500, 1000]"

text \<open>\<open>schedule[Math.min(retry, schedule.length - 1)]\<close>, for a schedule that is not empty.\<close>

definition delay_at :: "int list \<Rightarrow> nat \<Rightarrow> int" where
  "delay_at schedule retry = schedule ! min retry (length schedule - 1)"

text \<open>A walk: the schedule and the calls made so far. \<open>None\<close> is the error of an empty schedule.\<close>

record backoff_walk =
  schedule :: "int list"
  retry_count :: nat

definition backoff :: "int list \<Rightarrow> backoff_walk option" where
  "backoff sch = (if sch = [] then None else Some \<lparr> schedule = sch, retry_count = 0 \<rparr>)"

definition next_delay :: "int option \<Rightarrow> int \<Rightarrow> backoff_walk \<Rightarrow> backoff_walk \<times> int" where
  "next_delay deadline now w =
     (let delay = delay_at (schedule w) (retry_count w);
          w' = w\<lparr> retry_count := retry_count w + 1 \<rparr>
      in case deadline of None \<Rightarrow> (w', delay) | Some dl \<Rightarrow> (w', min delay (max 0 (dl - now))))"

section \<open>The estimate of a loop's reads\<close>

partial_function (option) estimate_loop :: "int \<Rightarrow> int list \<Rightarrow> nat \<Rightarrow> int \<Rightarrow> nat \<Rightarrow> nat option" where
  "estimate_loop duration sch retry elapsed attempts =
     (let elapsed' = elapsed + delay_at sch retry in
      if duration < elapsed' then Some attempts
      else if length sch - 1 \<le> retry \<and> sch ! (length sch - 1) = 0 then Some (attempts + 1)
      else estimate_loop duration sch (retry + 1) elapsed' (attempts + 1))"

definition estimate_attempts :: "int \<Rightarrow> int list \<Rightarrow> nat option" where
  "estimate_attempts duration sch = (if sch = [] then Some 1 else estimate_loop duration sch 0 0 1)"

text \<open>When the read after \<open>k\<close> delays happens.\<close>

definition read_time :: "int list \<Rightarrow> nat \<Rightarrow> int" where
  "read_time sch k = (\<Sum>i<k. delay_at sch i)"

lemma read_time_Suc: "read_time sch (Suc k) = read_time sch k + delay_at sch k"
  by (simp add: read_time_def)

lemma delay_at_nonneg: "sch \<noteq> [] \<Longrightarrow> \<forall>d \<in> set sch. 0 \<le> d \<Longrightarrow> 0 \<le> delay_at sch k"
  by (metis delay_at_def diff_less length_greater_0_conv less_one min.cobounded2 nth_mem order_le_less_trans)

lemma read_time_mono:
  assumes "sch \<noteq> []" and "\<forall>d \<in> set sch. 0 \<le> d" and "i \<le> k"
  shows "read_time sch i \<le> read_time sch k"
  using \<open>i \<le> k\<close> by (induction k rule: dec_induct) (auto simp: read_time_Suc delay_at_nonneg [OF assms(1,2)] add_increasing2)

text \<open>Past its ramp a schedule adds its last delay each time.\<close>

lemma read_time_tail:
  assumes "sch \<noteq> []"
  shows "read_time sch (length sch + n) = read_time sch (length sch) + int n * last sch"
proof (induction n)
  case (Suc n)
  have "delay_at sch (length sch + n) = last sch" using assms by (simp add: delay_at_def last_conv_nth)
  with Suc show ?case by (simp add: read_time_Suc algebra_simps)
qed simp

text \<open>One round of the loop, its elapsed time being that of the last read.\<close>

lemma estimate_round:
  "estimate_loop duration sch k (read_time sch k) a =
     (if duration < read_time sch (Suc k) then Some a
      else if length sch - 1 \<le> k \<and> sch ! (length sch - 1) = 0 then Some (a + 1)
      else estimate_loop duration sch (Suc k) (read_time sch (Suc k)) (Suc a))"
  unfolding estimate_loop.simps [of duration sch k "read_time sch k"] read_time_Suc Let_def by simp

lemma estimate_loop_rounds:
  assumes "\<forall>j. k \<le> j \<and> j < k + n \<longrightarrow> read_time sch (Suc j) \<le> duration \<and> \<not> (length sch - 1 \<le> j \<and> sch ! (length sch - 1) = 0)"
  shows "estimate_loop duration sch k (read_time sch k) a =
         estimate_loop duration sch (k + n) (read_time sch (k + n)) (a + n)"
  using assms
proof (induction n)
  case (Suc n)
  from Suc.prems have "estimate_loop duration sch k (read_time sch k) a =
      estimate_loop duration sch (k + n) (read_time sch (k + n)) (a + n)" by (intro Suc.IH) auto
  also have "\<dots> = estimate_loop duration sch (Suc (k + n)) (read_time sch (Suc (k + n))) (Suc (a + n))"
    using Suc.prems [THEN spec, of "k + n"] by (subst estimate_round) auto
  finally show ?case by simp
qed simp

text \<open>The first read past the duration.\<close>

lemma first_late_read:
  assumes "sch \<noteq> []" and "\<forall>d \<in> set sch. 0 \<le> d" and "0 < last sch"
  obtains n where "duration < read_time sch (Suc n)" "\<forall>j<n. read_time sch (Suc j) \<le> duration"
proof -
  let ?n = "nat (duration + 1)"
  have "0 \<le> read_time sch (length sch)" using read_time_mono [OF assms(1,2), of 0] by (simp add: read_time_def)
  moreover have "int ?n \<le> int ?n * last sch" using assms(3) by (intro mult_le_cancel_left1 [THEN iffD2]) auto
  ultimately have "duration < read_time sch (length sch + ?n)" using read_time_tail [OF assms(1), of ?n] by linarith
  moreover have "length sch + ?n = Suc (length sch - 1 + ?n)" using assms(1) by (cases sch) auto
  ultimately have ex: "\<exists>n. duration < read_time sch (Suc n)" by metis
  let ?m = "LEAST n. duration < read_time sch (Suc n)"
  show ?thesis
    by (rule that [of ?m]) (use LeastI_ex [OF ex] not_less_Least in force)+
qed


lemma late_read_before_repeat:
  assumes "sch \<noteq> []" and "last sch = 0" and "length sch - 1 \<le> j" and "j < n"
  shows "read_time sch (Suc n) = read_time sch (Suc j)"
proof -
  have "length sch + (Suc n - length sch) = Suc n" "length sch + (Suc j - length sch) = Suc j" using assms by auto
  then show ?thesis
    using read_time_tail [OF assms(1), of "Suc n - length sch"] read_time_tail [OF assms(1), of "Suc j - length sch"] assms(2)
    by simp
qed

text \<open>
  The estimate of a loop's reads always ends on a schedule of delays, and it is right: when the
  loop makes finitely many reads within the duration it is their number, and when the schedule repeats
  a zero delay, so that the reads would never end, it counts each delay of the schedule once.
\<close>

theorem estimate_attempts_correct:
  assumes "sch \<noteq> []" and "\<forall>d \<in> set sch. 0 \<le> d" and "0 \<le> duration"
  shows "estimate_attempts duration sch =
     Some (if finite {k. read_time sch k \<le> duration} then card {k. read_time sch k \<le> duration} else length sch + 1)"
proof -
  have start: "estimate_attempts duration sch = estimate_loop duration sch 0 (read_time sch 0) 1"
    using assms(1) by (simp add: estimate_attempts_def read_time_def)
  have last: "sch ! (length sch - 1) = last sch" using assms(1) by (simp add: last_conv_nth)
  show ?thesis
  proof (cases "\<exists>n. duration < read_time sch (Suc n)")
    case True
    define n where "n = (LEAST n. duration < read_time sch (Suc n))"
    have late: "duration < read_time sch (Suc n)" using LeastI_ex [OF True] unfolding n_def .
    have early: "read_time sch (Suc j) \<le> duration" if "j < n" for j
      using not_less_Least [of j "\<lambda>n. duration < read_time sch (Suc n)"] that unfolding n_def by simp
    have no_repeat: "\<not> (length sch - 1 \<le> j \<and> sch ! (length sch - 1) = 0)" if "j < n" for j
      using late_read_before_repeat [OF assms(1), of j n] early [OF that] late that last by auto
    have "estimate_loop duration sch 0 (read_time sch 0) 1 = estimate_loop duration sch (0 + n) (read_time sch (0 + n)) (1 + n)"
      using early no_repeat by (intro estimate_loop_rounds) auto
    then have est: "estimate_attempts duration sch = Some (Suc n)"
      using start late by (simp add: estimate_round [of duration sch n])
    have "{k. read_time sch k \<le> duration} = {..n}"
    proof (intro set_eqI iffI)
      fix k assume "k \<in> {k. read_time sch k \<le> duration}"
      with read_time_mono [OF assms(1,2), of "Suc n" k] late show "k \<in> {..n}" by (cases "Suc n \<le> k") auto
    next
      fix k assume "k \<in> {..n}"
      then show "k \<in> {k. read_time sch k \<le> duration}"
        using early [of "k - 1"] assms(3) by (cases k) (auto simp: read_time_def)
    qed
    then show ?thesis using est by simp
  next
    case False
    then have "last sch = 0"
      using first_late_read [OF assms(1,2), of duration] assms(1,2) by (metis last_in_set le_less)
    let ?n = "length sch - 1"
    have "estimate_loop duration sch 0 (read_time sch 0) 1 = estimate_loop duration sch (0 + ?n) (read_time sch (0 + ?n)) (1 + ?n)"
      using False by (intro estimate_loop_rounds) (auto simp: not_less)
    also have "\<dots> = Some (Suc (1 + ?n))"
      using False \<open>last sch = 0\<close> last by (subst estimate_round) auto
    finally have "estimate_attempts duration sch = Some (length sch + 1)" using start assms(1) by simp
    moreover have "{k. read_time sch k \<le> duration} = UNIV"
    proof (intro set_eqI)
      fix k show "k \<in> {k. read_time sch k \<le> duration} \<longleftrightarrow> k \<in> UNIV"
        using False assms(3) by (cases k) (auto simp: read_time_def not_less)
    qed
    ultimately show ?thesis by simp
  qed
qed

theorem estimate_attempts_correct_witness:
  "\<exists>n. estimate_attempts 400 expect_retry_delays_ms = Some n \<and> estimate_attempts 5 [0] = Some 2"
proof -
  have "estimate_attempts 400 expect_retry_delays_ms \<noteq> None"
    using estimate_attempts_correct [of expect_retry_delays_ms 400] by (simp add: expect_retry_delays_ms_def)
  moreover have "read_time [0] k = 0" for k by (simp add: read_time_def delay_at_def)
  then have "{k. read_time [0] k \<le> 5} = UNIV" by simp
  then have "estimate_attempts 5 [0] = Some 2" using estimate_attempts_correct [of "[0]" 5] by simp
  ultimately show ?thesis by blast
qed

section \<open>Recording and keeping traces\<close>

datatype trace_mode =
    Trace_Off | Trace_On | On_First_Retry | On_All_Retries
  | Retain_On_Failure | Retain_On_First_Failure | Retain_On_Failure_And_Retries

definition should_record :: "trace_mode \<Rightarrow> nat \<Rightarrow> bool" where
  "should_record mode attempt = (case mode of
      Trace_Off \<Rightarrow> False
    | On_First_Retry \<Rightarrow> attempt = 1
    | On_All_Retries \<Rightarrow> attempt > 0
    | _ \<Rightarrow> True)"

definition records_only_on_retry :: "trace_mode \<Rightarrow> bool" where
  "records_only_on_retry mode = (mode = On_First_Retry \<or> mode = On_All_Retries)"

definition should_retain :: "trace_mode \<Rightarrow> bool \<Rightarrow> nat \<Rightarrow> bool" where
  "should_retain mode passed attempt = (case mode of
      Trace_Off \<Rightarrow> False
    | Trace_On \<Rightarrow> True
    | On_First_Retry \<Rightarrow> True
    | On_All_Retries \<Rightarrow> True
    | Retain_On_Failure \<Rightarrow> \<not> passed
    | Retain_On_First_Failure \<Rightarrow> \<not> passed \<and> attempt = 0
    | Retain_On_Failure_And_Retries \<Rightarrow> \<not> passed \<or> attempt > 0)"

text \<open>The attempts of a test whose traces are kept: recorded and retained.\<close>

definition kept_traces :: "trace_mode \<Rightarrow> bool list \<Rightarrow> nat list" where
  "kept_traces mode attempts =
     filter (\<lambda>i. should_record mode i \<and> should_retain mode (attempts ! i) i) [0..<length attempts]"

lemma records_only_on_retry_iff:
  "records_only_on_retry mode \<longleftrightarrow> mode \<noteq> Trace_Off \<and> (\<forall>passed. kept_traces mode [passed] = [])"
  by (cases mode) (auto simp: records_only_on_retry_def kept_traces_def should_record_def should_retain_def split: bool.splits)

end
