(* ===== verification/Test_Tree.thy ===== *)
theory Test_Tree
  imports App_Reset Test_Filter Retry_Schedule
begin

text \<open>
  The tree a test file registers and the results a run of it gives (\<open>runner.ts\<close>): scopes with their
  tests, hooks and options, the options and isolation policy of a scope, the first test that will run
  in it, the results of a scope none of whose tests runs, the flattening of results, the flaky marks of
  a file-level retry and the discovery for UI mode. Callbacks are names (natural numbers); an error is
  its kind with its message.
\<close>

section \<open>The registered tree\<close>

record test_entry =
  entry_name :: string
  entry_only :: bool
  entry_skip :: bool
  entry_fn :: nat
  entry_fixtures :: bool \<comment> \<open>its registry has test-scoped fixtures\<close>

datatype describe_mode = Default_Mode | Parallel_Mode | Serial_Mode

text \<open>The options of \<open>test.use()\<close> the runner reads; an absent one is \<open>None\<close>.\<close>

datatype screenshot_mode = Screenshot_Always | Screenshot_On_Failure | Screenshot_Never

record use_options =
  use_timeout :: "int option"
  use_app_state :: "string option"
  use_retries :: "nat option"
  use_screenshot :: "screenshot_mode option"
  use_trace :: "trace_mode option"
  use_video :: "trace_mode option"
  use_app_reset :: "reset_mode_config option"
  use_app_reset_scope :: "reset_scope_config option"

definition no_use :: use_options where
  "no_use = \<lparr> use_timeout = None, use_app_state = None, use_retries = None, use_screenshot = None, use_trace = None,
     use_video = None, use_app_reset = None, use_app_reset_scope = None \<rparr>"

text \<open>A scope with the flags of the \<open>describe\<close> that declared it; the root scope has none.\<close>

record scope_data =
  scope_name :: string
  scope_only :: bool
  scope_skip :: bool
  scope_tests :: "test_entry list"
  before_all :: "nat list"
  after_all :: "nat list"
  before_each :: "nat list"
  after_each :: "nat list"
  scope_use :: use_options
  scope_mode :: "describe_mode option"
  scope_skipped :: bool

datatype suite_context = Context (scope_of: scope_data) (child_scopes: "suite_context list")

definition child_name :: "string \<Rightarrow> string \<Rightarrow> string" where
  "child_name prefix name = (if prefix = [] then name else prefix @ '' > '' @ name)"

definition has_only_tests :: "scope_data \<Rightarrow> bool" where
  "has_only_tests d = list_ex entry_only (scope_tests d)"

definition has_only :: "scope_data \<Rightarrow> suite_context list \<Rightarrow> bool" where
  "has_only d cs = (has_only_tests d \<or> list_ex (\<lambda>c. scope_only (scope_of c)) cs)"

text \<open>Whether a child scope is left out by \<open>skip\<close> or by somebody else's \<open>only\<close>.\<close>

definition scope_left_out :: "scope_data \<Rightarrow> suite_context list \<Rightarrow> suite_context \<Rightarrow> bool" where
  "scope_left_out d cs c =
     (scope_skip (scope_of c) \<or> has_only d cs \<and> \<not> scope_only (scope_of c) \<and> \<not> has_only_tests d)"

section \<open>Run options\<close>

record run_config =
  cfg_timeout :: int
  cfg_retries :: nat
  cfg_screenshot :: screenshot_mode
  cfg_trace :: trace_mode
  cfg_video :: trace_mode
  cfg_has_package :: bool
  cfg_reset :: reset_config

record run_options =
  opt_config :: run_config
  opt_filters :: selection_filters
  opt_project :: "string option"
  opt_file :: "string option"
  opt_capabilities :: reset_capabilities
  opt_has_primary :: bool
  opt_has_resettable :: bool
  opt_before_each_test :: bool

definition passes_test_filter :: "string \<Rightarrow> run_options \<Rightarrow> bool" where
  "passes_test_filter full_name opts = passes_selection_filters full_name (opt_filters opts)"

text \<open>The spread of a scope's overrides over the config.\<close>

definition override_config :: "use_options \<Rightarrow> run_config \<Rightarrow> run_config" where
  "override_config u c = c\<lparr>
     cfg_retries := nullish (use_retries u) (cfg_retries c),
     cfg_screenshot := nullish (use_screenshot u) (cfg_screenshot c),
     cfg_trace := nullish (use_trace u) (cfg_trace c),
     cfg_video := nullish (use_video u) (cfg_video c),
     cfg_reset := (cfg_reset c)\<lparr>
       app_reset := or_else (use_app_reset u) (app_reset (cfg_reset c)),
       app_reset_scope := or_else (use_app_reset_scope u) (app_reset_scope (cfg_reset c)) \<rparr> \<rparr>"

text \<open>\<open>resolveScope\<close>: the scope's options, its isolation policy and its timeout; \<open>cwd\<close> for relative paths.\<close>

definition resolve_scope ::
  "string \<Rightarrow> use_options \<Rightarrow> run_options \<Rightarrow> reset_policy option \<Rightarrow> run_options \<times> reset_policy \<times> int option" where
  "resolve_scope cwd u parent_opts parent_policy =
     (let opts = parent_opts\<lparr> opt_config := override_config u (opt_config parent_opts) \<rparr>;
          policy = resolve_app_reset_policy cwd
             (or_else (use_app_state u) (Option.bind parent_policy app_state))
             (cfg_reset (opt_config opts)) (opt_capabilities opts)
      in (opts, policy, use_timeout u))"

definition test_timeout_ms :: "run_options \<Rightarrow> int option \<Rightarrow> int" where
  "test_timeout_ms opts scope_timeout =
     (let dflt = cfg_timeout (opt_config opts) * 3
      in case scope_timeout of None \<Rightarrow> dflt | Some t \<Rightarrow> if t = 0 then dflt else max dflt t)"

section \<open>The first test that will run\<close>

fun first_own_runnable :: "string \<Rightarrow> run_options \<Rightarrow> bool \<Rightarrow> test_entry list \<Rightarrow> string option" where
  "first_own_runnable prefix opts only [] = None"
| "first_own_runnable prefix opts only (t # ts) =
     (if entry_skip t \<or> only \<and> \<not> entry_only t then first_own_runnable prefix opts only ts
      else if passes_test_filter (child_name prefix (entry_name t)) opts then Some (child_name prefix (entry_name t))
      else first_own_runnable prefix opts only ts)"

fun first_runnable ::
    "string \<Rightarrow> suite_context \<Rightarrow> string \<Rightarrow> run_options \<Rightarrow> reset_policy \<Rightarrow> (string \<times> reset_policy) option"
  and first_runnable_child ::
    "string \<Rightarrow> scope_data \<Rightarrow> suite_context list \<Rightarrow> suite_context list \<Rightarrow> string \<Rightarrow> run_options \<Rightarrow> reset_policy \<Rightarrow>
     (string \<times> reset_policy) option" where
  "first_runnable cwd (Context d cs) prefix opts policy =
     (if scope_skipped d then None
      else case first_own_runnable prefix opts (has_only d cs) (scope_tests d) of
          Some name \<Rightarrow> Some (name, policy)
        | None \<Rightarrow> first_runnable_child cwd d cs cs prefix opts policy)"
| "first_runnable_child cwd d cs [] prefix opts policy = None"
| "first_runnable_child cwd d cs (c # rest) prefix opts policy =
     (if scope_left_out d cs c then first_runnable_child cwd d cs rest prefix opts policy
      else let (opts', policy', _) = resolve_scope cwd (scope_use (scope_of c)) opts (Some policy)
           in case first_runnable cwd c (child_name prefix (scope_name (scope_of c))) opts' policy' of
                Some found \<Rightarrow> Some found
              | None \<Rightarrow> first_runnable_child cwd d cs rest prefix opts policy)"

section \<open>Results\<close>

datatype error_kind = Ordinary_Error | Test_Skip | Test_Aborted | Runner_Timeout

record run_error =
  err_kind :: error_kind
  err_message :: string

text \<open>\<open>failedAttemptArtifacts\<close>: whether screenshot, trace and video are the failed attempt's.\<close>

record test_result =
  res_name :: string
  res_full_name :: string
  res_status :: test_status
  res_error :: "run_error option"
  res_screenshot :: "string option"
  res_trace :: "string option"
  res_video :: "string option"
  res_project :: "string option"
  res_retry :: "nat option"
  res_first_error :: "run_error option"
  res_failed_artifacts :: "(bool \<times> bool \<times> bool) option"
  res_will_retry :: bool
  res_file :: "string option"
  res_warnings :: "string list option"

definition plain_result :: "string \<Rightarrow> string \<Rightarrow> test_status \<Rightarrow> test_result" where
  "plain_result name full st = \<lparr> res_name = name, res_full_name = full, res_status = st, res_error = None,
     res_screenshot = None, res_trace = None, res_video = None, res_project = None, res_retry = None,
     res_first_error = None, res_failed_artifacts = None, res_will_retry = False, res_file = None, res_warnings = None \<rparr>"

datatype suite_result = Suite_Result (suite_name: string) (suite_tests: "test_result list") (suite_children: "suite_result list")

fun collect_results :: "suite_result \<Rightarrow> test_result list"
  and collect_all :: "suite_result list \<Rightarrow> test_result list" where
  "collect_results (Suite_Result name ts ss) = ts @ collect_all ss"
| "collect_all [] = []"
| "collect_all (s # ss) = collect_results s @ collect_all ss"

text \<open>The tests of a scope the selection keeps, by their full names.\<close>

definition selected_entries :: "string \<Rightarrow> run_options \<Rightarrow> test_entry list \<Rightarrow> test_entry list" where
  "selected_entries prefix opts ts = filter (\<lambda>t. passes_test_filter (child_name prefix (entry_name t)) opts) ts"

fun skip_all :: "suite_context \<Rightarrow> string \<Rightarrow> run_options \<Rightarrow> suite_result"
  and skip_all_children :: "suite_context list \<Rightarrow> string \<Rightarrow> run_options \<Rightarrow> suite_result list" where
  "skip_all (Context d cs) prefix opts =
     Suite_Result prefix
       (map (\<lambda>t. plain_result (entry_name t) (child_name prefix (entry_name t)) Skipped)
         (selected_entries prefix opts (scope_tests d)))
       (skip_all_children cs prefix opts)"
| "skip_all_children [] prefix opts = []"
| "skip_all_children (c # cs) prefix opts =
     skip_all c (child_name prefix (scope_name (scope_of c))) opts # skip_all_children cs prefix opts"

fun fail_all :: "suite_context \<Rightarrow> string \<Rightarrow> run_error \<Rightarrow> run_options \<Rightarrow> string option \<Rightarrow> string option \<Rightarrow> suite_result"
  and fail_all_children ::
    "suite_context list \<Rightarrow> string \<Rightarrow> run_error \<Rightarrow> run_options \<Rightarrow> string option \<Rightarrow> string option \<Rightarrow> suite_result list" where
  "fail_all (Context d cs) prefix err opts shot trace =
     Suite_Result prefix
       (map (\<lambda>t. (plain_result (entry_name t) (child_name prefix (entry_name t)) Failed)\<lparr> res_error := Some err,
                   res_project := opt_project opts, res_screenshot := shot, res_trace := trace \<rparr>)
         (selected_entries prefix opts (scope_tests d)))
       (fail_all_children cs prefix err opts shot trace)"
| "fail_all_children [] prefix err opts shot trace = []"
| "fail_all_children (c # cs) prefix err opts shot trace =
     fail_all c (child_name prefix (scope_name (scope_of c))) err opts shot trace # fail_all_children cs prefix err opts shot trace"

section \<open>Flaky marks of a file-level retry\<close>

definition map_of_list :: "('k \<times> 'v) list \<Rightarrow> ('k, 'v) jsmap" where
  "map_of_list kvs = fold (\<lambda>(k, v). map_set k v) kvs []"

definition first_errors :: "test_result list \<Rightarrow> (string, run_error) jsmap" where
  "first_errors rs = map_of_list (List.map_filter (\<lambda>r. if res_status r = Failed
       then map_option (\<lambda>e. (res_full_name r, e)) (res_error r) else None) rs)"

definition first_warnings :: "test_result list \<Rightarrow> (string, string list) jsmap" where
  "first_warnings rs = map_of_list (List.map_filter (\<lambda>r. case res_warnings r of
       None \<Rightarrow> None | Some ws \<Rightarrow> if ws = [] then None else Some (res_full_name r, ws)) rs)"

definition annotate_result ::
  "(string, run_error) jsmap \<Rightarrow> (string, string list) jsmap \<Rightarrow> test_result \<Rightarrow> test_result" where
  "annotate_result errors warnings r =
     (let r1 = (case map_get errors (res_full_name r) of
                  None \<Rightarrow> r
                | Some e \<Rightarrow> if res_status r = Passed
                            then r\<lparr> res_retry := Some (nullish (res_retry r) 1),
                                    res_first_error := Some (nullish (res_first_error r) e) \<rparr>
                            else r)
      in case map_get warnings (res_full_name r) of
           None \<Rightarrow> r1
         | Some ws \<Rightarrow> r1\<lparr> res_warnings := Some (set_of_list (ws @ nullish (res_warnings r) [])) \<rparr>)"

fun annotate_suite ::
    "(string, run_error) jsmap \<Rightarrow> (string, string list) jsmap \<Rightarrow> suite_result \<Rightarrow> suite_result"
  and annotate_all ::
    "(string, run_error) jsmap \<Rightarrow> (string, string list) jsmap \<Rightarrow> suite_result list \<Rightarrow> suite_result list" where
  "annotate_suite errors warnings (Suite_Result name ts ss) =
     Suite_Result name (map (annotate_result errors warnings) ts) (annotate_all errors warnings ss)"
| "annotate_all errors warnings [] = []"
| "annotate_all errors warnings (s # ss) = annotate_suite errors warnings s # annotate_all errors warnings ss"

definition mark_file_retry_flakes :: "suite_result \<Rightarrow> suite_result \<Rightarrow> suite_result" where
  "mark_file_retry_flakes first_attempt retried =
     (let first = collect_results first_attempt; errors = first_errors first; warnings = first_warnings first in
      if errors = [] \<and> warnings = [] then retried else annotate_suite errors warnings retried)"

section \<open>Discovery\<close>

record discovered_use =
  disc_app_reset :: "reset_mode_config option"
  disc_app_reset_scope :: "reset_scope_config option"
  disc_app_state :: "string option"

definition pick_discovered_use :: "discovered_use option \<Rightarrow> use_options \<Rightarrow> discovered_use option" where
  "pick_discovered_use parent own =
     (let use = \<lparr> disc_app_reset = or_else (use_app_reset own) (Option.bind parent disc_app_reset),
                  disc_app_reset_scope = or_else (use_app_reset_scope own) (Option.bind parent disc_app_reset_scope),
                  disc_app_state = use_app_state own \<rparr>
      in if disc_app_reset use = None \<and> disc_app_reset_scope use = None \<and> disc_app_state use = None then None else Some use)"

record discovered_test =
  disc_name :: string
  disc_full_name :: string
  disc_only :: bool
  disc_skip :: bool
  disc_use :: "discovered_use option"

datatype discovered_suite =
  Discovered_Suite (disc_suite_name: string) (disc_tests: "discovered_test list")
    (disc_suites: "discovered_suite list") (disc_suite_use: "discovered_use option")

fun discover_suite_context ::
    "suite_context \<Rightarrow> string \<Rightarrow> discovered_use option \<Rightarrow> bool \<Rightarrow> discovered_suite"
  and discover_children ::
    "suite_context list \<Rightarrow> string \<Rightarrow> discovered_use option \<Rightarrow> bool \<Rightarrow> discovered_suite list" where
  "discover_suite_context (Context d cs) prefix parent_use parent_skipped =
     (let use = pick_discovered_use parent_use (scope_use d); skipped = (parent_skipped \<or> scope_skipped d) in
      Discovered_Suite prefix
        (map (\<lambda>t. \<lparr> disc_name = entry_name t, disc_full_name = child_name prefix (entry_name t), disc_only = entry_only t,
                    disc_skip = (entry_skip t \<or> skipped), disc_use = use \<rparr>) (scope_tests d))
        (discover_children cs prefix use skipped) use)"
| "discover_children [] prefix use skipped = []"
| "discover_children (c # cs) prefix use skipped =
     discover_suite_context c (child_name prefix (scope_name (scope_of c))) use skipped # discover_children cs prefix use skipped"

section \<open>Facts\<close>

text \<open>The full names of the tests of a tree that pass the selection, in the order of their results.\<close>

fun selected_names :: "suite_context \<Rightarrow> string \<Rightarrow> run_options \<Rightarrow> string list"
  and selected_names_children :: "suite_context list \<Rightarrow> string \<Rightarrow> run_options \<Rightarrow> string list" where
  "selected_names (Context d cs) prefix opts =
     map (\<lambda>t. child_name prefix (entry_name t)) (selected_entries prefix opts (scope_tests d)) @
     selected_names_children cs prefix opts"
| "selected_names_children [] prefix opts = []"
| "selected_names_children (c # cs) prefix opts =
     selected_names c (child_name prefix (scope_name (scope_of c))) opts @ selected_names_children cs prefix opts"

lemma plain_result_simps [simp]:
  "res_full_name (plain_result n f s) = f" "res_status (plain_result n f s) = s" "res_will_retry (plain_result n f s) = False"
  by (simp_all add: plain_result_def)

lemma skip_all_names:
  "map res_full_name (collect_results (skip_all c prefix opts)) = selected_names c prefix opts"
  "map res_full_name (collect_all (skip_all_children cs prefix opts)) = selected_names_children cs prefix opts"
  by (induction c prefix opts and cs prefix opts rule: skip_all_skip_all_children.induct) (simp_all add: comp_def)

lemma skip_all_skipped:
  "list_all (\<lambda>r. res_status r = Skipped) (collect_results (skip_all c prefix opts))"
  "list_all (\<lambda>r. res_status r = Skipped) (collect_all (skip_all_children cs prefix opts))"
  by (induction c prefix opts and cs prefix opts rule: skip_all_skip_all_children.induct) (auto simp: list_all_iff)

lemma fail_all_names:
  "map res_full_name (collect_results (fail_all c prefix err opts shot trace)) = selected_names c prefix opts"
  "map res_full_name (collect_all (fail_all_children cs prefix err opts shot trace)) = selected_names_children cs prefix opts"
  by (induction c prefix err opts shot trace and cs prefix err opts shot trace rule: fail_all_fail_all_children.induct)
    (simp_all add: comp_def)

text \<open>The selection does not depend on the config.\<close>

lemma selected_entries_config [simp]:
  "selected_entries prefix (opts\<lparr> opt_config := c \<rparr>) ts = selected_entries prefix opts ts"
  by (simp add: selected_entries_def passes_test_filter_def)

lemma selected_names_config [simp]:
  "selected_names c prefix (opts\<lparr> opt_config := cfg \<rparr>) = selected_names c prefix opts"
  "selected_names_children cs prefix (opts\<lparr> opt_config := cfg \<rparr>) = selected_names_children cs prefix opts"
  by (induction c prefix opts and cs prefix opts rule: selected_names_selected_names_children.induct) simp_all

lemma resolve_scope_opts: "fst (resolve_scope cwd u opts p) = opts\<lparr> opt_config := override_config u (opt_config opts) \<rparr>"
  by (simp add: resolve_scope_def Let_def)

end
