(* ===== verification/Suite_Runner.thy ===== *)
theory Suite_Runner
  imports Test_Tree
begin

text \<open>
  The execution of a file's scopes (\<open>runSuiteContext\<close> in \<open>runner.ts\<close>): scope setup, the attempts of a
  test, the fresh start a retry or an earlier failure asks for, serial groups, skips, the stop and the
  results. What the runner calls (hooks, bodies, fixtures, app resets, screenshots, recordings) is the
  environment, a parameter that answers each call and may change the world; the runner logs every call
  and every reported result in order. Not modelled: durations, announcements, the replay of setup into
  traces, network capture, routes, warnings and the device's idle waits, none of which has an effect
  on results.
\<close>

section \<open>Environment and state\<close>

datatype hook_kind = Before_All | After_All | Before_Each | After_Each

datatype call =
    Hook_Call hook_kind nat
  | Body_Call string nat nat \<comment> \<open>full name, callback, attempt\<close>
  | Reset_Call reset_policy bool \<comment> \<open>policy, forced cold\<close>
  | Setup_Fixtures string
  | Teardown_Fixtures string
  | Before_Each_Test string

datatype artifact = Screenshot | Trace_Archive | Video

text \<open>
  \<open>do_call\<close> answers with the error thrown, if any; \<open>capture\<close> with the path of a kept artifact;
  \<open>unhandled\<close> and \<open>soft_errors\<close> with what an attempt's error scope and its soft assertions collected;
  \<open>is_aborted\<close> reads the embedder's stop signal; \<open>abort_file_on_error\<close> is absent or the embedder's test.
\<close>

record 'w runner_env =
  do_call :: "call \<Rightarrow> 'w \<Rightarrow> 'w \<times> run_error option"
  capture :: "artifact \<Rightarrow> string \<Rightarrow> 'w \<Rightarrow> 'w \<times> string option"
  unhandled :: "'w \<Rightarrow> 'w \<times> run_error list"
  soft_errors :: "'w \<Rightarrow> 'w \<times> string list"
  is_aborted :: "'w \<Rightarrow> bool"
  abort_file_on_error :: "(run_error \<Rightarrow> bool) option"
  env_cwd :: string

datatype run_event = Called call | Reported test_result

text \<open>The serial group's flag, \<open>RetryState\<close>, the applied policy and the file's abort controller.\<close>

record 'w runner_state =
  world :: 'w
  run_log :: "run_event list"
  serial_failed :: bool
  setup_broken :: bool
  fresh_start_pending :: bool
  applied_policy :: "reset_policy option"
  file_aborted :: bool

definition initial_state :: "'w \<Rightarrow> 'w runner_state" where
  "initial_state w = \<lparr> world = w, run_log = [], serial_failed = False, setup_broken = False, fresh_start_pending = False,
     applied_policy = None, file_aborted = False \<rparr>"

definition aborted :: "'w runner_env \<Rightarrow> 'w runner_state \<Rightarrow> bool" where
  "aborted env s = (is_aborted env (world s) \<or> file_aborted s)"

definition aborts_file :: "'w runner_env \<Rightarrow> run_error \<Rightarrow> bool" where
  "aborts_file env e = (case abort_file_on_error env of None \<Rightarrow> False | Some f \<Rightarrow> f e)"

definition call_env :: "'w runner_env \<Rightarrow> call \<Rightarrow> 'w runner_state \<Rightarrow> 'w runner_state \<times> run_error option" where
  "call_env env c s =
     (let (w, e) = do_call env c (world s) in (s\<lparr> world := w, run_log := run_log s @ [Called c] \<rparr>, e))"

definition capture_env :: "'w runner_env \<Rightarrow> artifact \<Rightarrow> string \<Rightarrow> 'w runner_state \<Rightarrow> 'w runner_state \<times> string option" where
  "capture_env env a name s = (let (w, p) = capture env a name (world s) in (s\<lparr> world := w \<rparr>, p))"

definition report_result :: "test_result \<Rightarrow> 'w runner_state \<Rightarrow> 'w runner_state" where
  "report_result r s = s\<lparr> run_log := run_log s @ [Reported r] \<rparr>"

definition test_aborted_error :: run_error where
  "test_aborted_error = \<lparr> err_kind = Test_Aborted, err_message = ''Test aborted'' \<rparr>"

definition additionally :: string where
  "additionally = [CHR 10, CHR 10] @ ''--- Additionally ---'' @ [CHR 10]"

fun join_lines :: "string list \<Rightarrow> string" where
  "join_lines [] = []"
| "join_lines [l] = l"
| "join_lines (l # ls) = l @ [CHR 10] @ join_lines ls"

definition append_message :: "string \<Rightarrow> run_error \<Rightarrow> run_error" where
  "append_message extra e = e\<lparr> err_message := err_message e @ additionally @ extra \<rparr>"

text \<open>\<open>mergeUnhandledErrors\<close>, errors compared as values.\<close>

definition merge_unhandled_errors :: "run_error option \<Rightarrow> run_error list \<Rightarrow> run_error option" where
  "merge_unhandled_errors err errs =
     (let extra = filter (\<lambda>e. Some e \<noteq> err) errs;
          detail = (\<lambda>es. join_lines (map (\<lambda>e. ''Unhandled error during the test: '' @ err_message e) es));
          add = (\<lambda>p es. if es = [] then p else append_message (detail es) p)
      in case (err, extra) of
           (_, []) \<Rightarrow> err
         | (Some p, es) \<Rightarrow> Some (add p es)
         | (None, e # es) \<Rightarrow> Some (add e es))"

section \<open>Hooks\<close>

text \<open>Hooks run in order until one throws.\<close>

fun run_hooks :: "'w runner_env \<Rightarrow> hook_kind \<Rightarrow> nat list \<Rightarrow> 'w runner_state \<Rightarrow> 'w runner_state \<times> run_error option" where
  "run_hooks env k [] s = (s, None)"
| "run_hooks env k (h # hs) s =
     (case call_env env (Hook_Call k h) s of
        (s', Some e) \<Rightarrow> (s', Some e)
      | (s', None) \<Rightarrow> run_hooks env k hs s')"

text \<open>\<open>afterAll\<close> hooks at the end of a scope: an error is printed, the rest still run.\<close>

fun run_after_all :: "'w runner_env \<Rightarrow> nat list \<Rightarrow> 'w runner_state \<Rightarrow> 'w runner_state" where
  "run_after_all env [] s = s"
| "run_after_all env (h # hs) s = run_after_all env hs (fst (call_env env (Hook_Call After_All h) s))"

section \<open>Fresh starts\<close>

record retry_step =
  step_reset :: "reset_policy option"
  step_before_all :: "nat list"
  step_after_all :: "nat list"

definition retry_replays_setup :: "reset_policy \<Rightarrow> retry_step list \<Rightarrow> bool \<Rightarrow> bool" where
  "retry_replays_setup policy chain in_serial =
     (scope policy = File_Scope \<and> \<not> in_serial \<and> app_reset_action policy \<noteq> Act_None \<and>
      list_ex (\<lambda>st. case step_reset st of None \<Rightarrow> False | Some p \<Rightarrow> app_reset_action p \<noteq> Act_None) chain)"

fun teardown_hooks :: "'w runner_env \<Rightarrow> nat list \<Rightarrow> 'w runner_state \<Rightarrow> 'w runner_state \<times> run_error option" where
  "teardown_hooks env [] s = (s, None)"
| "teardown_hooks env (h # hs) s =
     (case call_env env (Hook_Call After_All h) s of
        (s', None) \<Rightarrow> teardown_hooks env hs s'
      | (s', Some e) \<Rightarrow> if err_kind e = Test_Aborted \<or> aborted env s' then (s', Some e) else teardown_hooks env hs s')"

definition run_retry_teardown ::
  "'w runner_env \<Rightarrow> retry_step list \<Rightarrow> 'w runner_state \<Rightarrow> 'w runner_state \<times> run_error option" where
  "run_retry_teardown env chain s =
     (let steps = (if setup_broken s then [] else rev chain)
      in teardown_hooks env (concat (map step_after_all steps)) (s\<lparr> setup_broken := True, fresh_start_pending := False \<rparr>))"

fun rebuild_steps :: "'w runner_env \<Rightarrow> retry_step list \<Rightarrow> 'w runner_state \<Rightarrow> 'w runner_state \<times> run_error option" where
  "rebuild_steps env [] s = (s, None)"
| "rebuild_steps env (st # sts) s =
     (case (case step_reset st of
              None \<Rightarrow> (s, None)
            | Some p \<Rightarrow> (case call_env env (Reset_Call p True) s of
                 (s', Some e) \<Rightarrow> (s', Some e)
               | (s', None) \<Rightarrow> (s'\<lparr> applied_policy := Some p \<rparr>, None))) of
        (s1, Some e) \<Rightarrow> (s1, Some e)
      | (s1, None) \<Rightarrow>
          (case run_hooks env Before_All (step_before_all st) s1 of
             (s2, Some e) \<Rightarrow> (s2, Some e)
           | (s2, None) \<Rightarrow> rebuild_steps env sts s2))"

definition run_retry_rebuild ::
  "'w runner_env \<Rightarrow> retry_step list \<Rightarrow> 'w runner_state \<Rightarrow> 'w runner_state \<times> run_error option" where
  "run_retry_rebuild env chain s =
     (case rebuild_steps env chain s of
        (s', Some e) \<Rightarrow> (s', Some e)
      | (s', None) \<Rightarrow> (s'\<lparr> setup_broken := False \<rparr>, None))"

definition run_retry_setup ::
  "'w runner_env \<Rightarrow> retry_step list \<Rightarrow> 'w runner_state \<Rightarrow> 'w runner_state \<times> run_error option" where
  "run_retry_setup env chain s =
     (case run_retry_teardown env chain s of
        (s', Some e) \<Rightarrow> (s', Some e)
      | (s', None) \<Rightarrow> run_retry_rebuild env chain s')"

section \<open>One attempt\<close>

text \<open>What is fixed for the tests of a scope.\<close>

record test_scope =
  ts_opts :: run_options
  ts_policy :: reset_policy
  ts_can_reset :: bool
  ts_replay_setup :: bool
  ts_chain :: "retry_step list"
  ts_before_each :: "nat list"
  ts_after_each :: "nat list"
  ts_in_serial :: bool

text \<open>A failing step ends the sequence.\<close>

definition and_then ::
  "'w runner_state \<times> run_error option \<Rightarrow> ('w runner_state \<Rightarrow> 'w runner_state \<times> run_error option) \<Rightarrow>
   'w runner_state \<times> run_error option" where
  "and_then r f = (case r of (s, Some e) \<Rightarrow> (s, Some e) | (s, None) \<Rightarrow> f s)"

text \<open>The steps before the body; the flag says whether the test-scoped fixtures are up.\<close>

definition attempt_resets ::
  "'w runner_env \<Rightarrow> test_scope \<Rightarrow> string \<Rightarrow> nat \<Rightarrow> bool \<Rightarrow> 'w runner_state \<Rightarrow> 'w runner_state \<times> run_error option" where
  "attempt_resets env t name attempt retry_setup s =
     and_then (if retry_setup then run_retry_setup env (ts_chain t) s else (s, None)) (\<lambda>s.
     and_then (if scope (ts_policy t) = Test_Scope \<and> ts_can_reset t
               then and_then (call_env env (Reset_Call (ts_policy t) (attempt > 0)) s)
                      (\<lambda>s. (s\<lparr> applied_policy := Some (ts_policy t) \<rparr>, None))
               else (s, None)) (\<lambda>s.
     if opt_before_each_test (ts_opts t) then call_env env (Before_Each_Test name) s else (s, None)))"

definition attempt_main ::
  "'w runner_env \<Rightarrow> test_scope \<Rightarrow> test_entry \<Rightarrow> string \<Rightarrow> nat \<Rightarrow> bool \<Rightarrow> 'w runner_state \<Rightarrow>
   'w runner_state \<times> run_error option \<times> bool" where
  "attempt_main env t entry name attempt retry_setup s =
     (case attempt_resets env t name attempt retry_setup s of
        (s1, Some e) \<Rightarrow> (s1, Some e, False)
      | (s1, None) \<Rightarrow>
          (case (if entry_fixtures entry then call_env env (Setup_Fixtures name) s1 else (s1, None)) of
             (s2, Some e) \<Rightarrow> (s2, Some e, False)
           | (s2, None) \<Rightarrow>
               let (s3, e) = and_then (run_hooks env Before_Each (ts_before_each t) s2)
                               (call_env env (Body_Call name (entry_fn entry) attempt))
               in (s3, e, entry_fixtures entry)))"

record attempt_outcome =
  att_status :: test_status
  att_error :: "run_error option"
  att_screenshot :: "string option"
  att_trace :: "string option"
  att_video :: "string option"

definition screenshot_if ::
  "'w runner_env \<Rightarrow> bool \<Rightarrow> string \<Rightarrow> attempt_outcome \<Rightarrow> 'w runner_state \<Rightarrow> 'w runner_state \<times> attempt_outcome" where
  "screenshot_if env wanted name out s =
     (if wanted then let (s', p) = capture_env env Screenshot name s in (s', out\<lparr> att_screenshot := p \<rparr>) else (s, out))"

definition takes_failure_shot :: "test_scope \<Rightarrow> attempt_outcome \<Rightarrow> bool" where
  "takes_failure_shot t out =
     (nullish (att_screenshot out) [] = [] \<and> cfg_screenshot (opt_config (ts_opts t)) \<noteq> Screenshot_Never)"

definition fail_outcome :: "run_error \<Rightarrow> attempt_outcome \<Rightarrow> attempt_outcome" where
  "fail_outcome e out = out\<lparr> att_status := Failed, att_error := Some e \<rparr>"

text \<open>The \<open>catch\<close> of an attempt.\<close>

definition attempt_catch ::
  "'w runner_env \<Rightarrow> test_scope \<Rightarrow> string \<Rightarrow> run_error option \<Rightarrow> 'w runner_state \<Rightarrow> 'w runner_state \<times> attempt_outcome" where
  "attempt_catch env t name thrown s =
     (let passed = \<lparr> att_status = Passed, att_error = None, att_screenshot = None, att_trace = None, att_video = None \<rparr>
      in case thrown of
        None \<Rightarrow> (s, passed)
      | Some e \<Rightarrow>
          if err_kind e = Test_Skip \<and> \<not> aborted env s then (s, passed\<lparr> att_status := Skipped \<rparr>)
          else let err = (if err_kind e = Test_Aborted \<or> aborted env s then test_aborted_error else e)
               in screenshot_if env (cfg_screenshot (opt_config (ts_opts t)) \<noteq> Screenshot_Never \<and> err_kind err \<noteq> Test_Aborted)
                    name (fail_outcome err passed) s)"

text \<open>The \<open>afterEach\<close> hooks: every one runs, whatever the others do.\<close>

fun run_after_each ::
  "'w runner_env \<Rightarrow> test_scope \<Rightarrow> string \<Rightarrow> nat list \<Rightarrow> attempt_outcome \<Rightarrow> 'w runner_state \<Rightarrow>
   'w runner_state \<times> attempt_outcome" where
  "run_after_each env t name [] out s = (s, out)"
| "run_after_each env t name (h # hs) out s =
     (case call_env env (Hook_Call After_Each h) s of
        (s1, None) \<Rightarrow> run_after_each env t name hs out s1
      | (s1, Some e) \<Rightarrow>
          if err_kind e = Test_Skip
          then run_after_each env t name hs (if att_status out = Passed then out\<lparr> att_status := Skipped \<rparr> else out) s1
          else if err_kind e = Runner_Timeout \<and> \<not> aborted env s1
          then let out1 = (case att_error out of
                             Some e0 \<Rightarrow> if att_status out = Failed then out\<lparr> att_error := Some (append_message (err_message e) e0) \<rparr>
                                        else fail_outcome e out
                           | None \<Rightarrow> fail_outcome e out);
                   (s2, out2) = screenshot_if env (takes_failure_shot t out1 \<and> \<not> aborted env s1) name out1 s1
               in run_after_each env t name hs out2 s2
          else run_after_each env t name hs out s1)"

text \<open>Unhandled errors and soft assertion failures of the attempt.\<close>

definition attempt_unhandled ::
  "'w runner_env \<Rightarrow> test_scope \<Rightarrow> string \<Rightarrow> attempt_outcome \<Rightarrow> 'w runner_state \<Rightarrow> 'w runner_state \<times> attempt_outcome" where
  "attempt_unhandled env t name out s =
     (let (w, errs) = unhandled env (world s); s1 = s\<lparr> world := w \<rparr> in
      if errs = [] then (s1, out)
      else let out1 = out\<lparr> att_status := Failed, att_error := merge_unhandled_errors (att_error out) errs \<rparr>
           in screenshot_if env (takes_failure_shot t out1 \<and> \<not> aborted env s1) name out1 s1)"

definition attempt_soft_errors ::
  "'w runner_env \<Rightarrow> test_scope \<Rightarrow> string \<Rightarrow> attempt_outcome \<Rightarrow> 'w runner_state \<Rightarrow> 'w runner_state \<times> attempt_outcome" where
  "attempt_soft_errors env t name out s =
     (let (w, errs) = soft_errors env (world s); s1 = s\<lparr> world := w \<rparr> in
      if errs = [] then (s1, out)
      else let summary = show_nat (length errs) @ '' soft assertion(s) failed:'' @ [CHR 10] @ join_lines errs;
               out1 = (if att_status out \<noteq> Failed
                       then fail_outcome \<lparr> err_kind = Ordinary_Error, err_message = summary \<rparr> out
                       else out\<lparr> att_error := map_option (append_message summary) (att_error out) \<rparr>)
           in screenshot_if env (takes_failure_shot t out1 \<and> \<not> aborted env s1) name out1 s1)"

text \<open>What is recorded of the attempt and kept.\<close>

definition attempt_artifacts ::
  "'w runner_env \<Rightarrow> test_scope \<Rightarrow> string \<Rightarrow> nat \<Rightarrow> attempt_outcome \<Rightarrow> 'w runner_state \<Rightarrow> 'w runner_state \<times> attempt_outcome" where
  "attempt_artifacts env t name attempt out s =
     (let cfg = opt_config (ts_opts t); passed = (att_status out \<noteq> Failed);
          keep = (\<lambda>mode. opt_has_primary (ts_opts t) \<and> should_record mode attempt \<and> should_retain mode passed attempt);
          (s1, trace) = (if keep (cfg_trace cfg) then capture_env env Trace_Archive name s else (s, None));
          (s2, video) = (if keep (cfg_video cfg) then capture_env env Video name s1 else (s1, None))
      in (s2, out\<lparr> att_trace := trace, att_video := video \<rparr>))"

definition run_attempt ::
  "'w runner_env \<Rightarrow> test_scope \<Rightarrow> test_entry \<Rightarrow> string \<Rightarrow> nat \<Rightarrow> 'w runner_state \<Rightarrow> 'w runner_state \<times> attempt_outcome" where
  "run_attempt env t entry name attempt s =
     (let retry_setup = (ts_replay_setup t \<and> (attempt > 0 \<or> setup_broken s \<or> fresh_start_pending s));
          (s1, thrown, fixtures_up) = attempt_main env t entry name attempt retry_setup s;
          (s2, out2) = attempt_catch env t name thrown s1;
          (s3, out3) = run_after_each env t name (ts_after_each t) out2 s2;
          s4 = (if fixtures_up then fst (call_env env (Teardown_Fixtures name) s3) else s3);
          (s5, out5) = attempt_unhandled env t name out3 s4;
          (s6, out6) = attempt_soft_errors env t name out5 s5;
          (s7, out7) = screenshot_if env (att_status out6 = Passed \<and> cfg_screenshot (opt_config (ts_opts t)) = Screenshot_Always)
                         name out6 s6
      in attempt_artifacts env t name attempt out7 s7)"

section \<open>One test\<close>

definition intermediate_result :: "test_scope \<Rightarrow> test_entry \<Rightarrow> string \<Rightarrow> nat \<Rightarrow> attempt_outcome \<Rightarrow> test_result" where
  "intermediate_result t entry name attempt out =
     (plain_result (entry_name entry) name (att_status out))\<lparr> res_error := att_error out, res_screenshot := att_screenshot out,
        res_trace := att_trace out, res_video := att_video out, res_project := opt_project (ts_opts t),
        res_retry := Some attempt, res_will_retry := True, res_file := opt_file (ts_opts t) \<rparr>"

text \<open>
  The attempt loop, from attempt \<open>i\<close> with \<open>left\<close> attempts left after it: the last attempt's outcome and
  number, and the first failure that led to another attempt.
\<close>

fun run_attempts ::
  "'w runner_env \<Rightarrow> test_scope \<Rightarrow> test_entry \<Rightarrow> string \<Rightarrow> nat \<Rightarrow> nat \<Rightarrow> attempt_outcome option \<Rightarrow> 'w runner_state \<Rightarrow>
   'w runner_state \<times> attempt_outcome \<times> nat \<times> attempt_outcome option" where
  "run_attempts env t entry name i left first s =
     (let (s1, out) = run_attempt env t entry name i s in
      if att_status out \<noteq> Failed \<or> left = 0 \<or> aborted env s1 then (s1, out, i, first)
      else if (case att_error out of None \<Rightarrow> False | Some e \<Rightarrow> aborts_file env e) then (s1, out, i, first)
      else let first' = (if first = None \<and> att_error out \<noteq> None then Some out else first);
               s2 = report_result (intermediate_result t entry name i out) s1
           in if aborted env s2 then (s2, out, i, first')
              else run_attempts env t entry name (i + 1) (left - 1) first' s2)"

declare run_attempts.simps [simp del]

definition final_result ::
  "test_scope \<Rightarrow> test_entry \<Rightarrow> string \<Rightarrow> attempt_outcome \<Rightarrow> nat \<Rightarrow> attempt_outcome option \<Rightarrow> test_result" where
  "final_result t entry name out0 last_attempt first =
     (let out = (case first of
                   Some f \<Rightarrow> if att_status out0 = Skipped
                             then out0\<lparr> att_status := Failed, att_error := att_error f, att_trace := att_trace f,
                                       att_screenshot := att_screenshot f, att_video := att_video f \<rparr>
                             else out0
                 | None \<Rightarrow> out0);
          flaky = (if att_status out = Passed then first else None)
      in (plain_result (entry_name entry) name (att_status out))\<lparr>
           res_error := att_error out,
           res_screenshot := or_else (Option.bind flaky att_screenshot) (att_screenshot out),
           res_trace := or_else (Option.bind flaky att_trace) (att_trace out),
           res_video := or_else (Option.bind flaky att_video) (att_video out),
           res_project := opt_project (ts_opts t),
           res_retry := (if last_attempt > 0 then Some last_attempt else None),
           res_first_error := Option.bind flaky att_error,
           res_failed_artifacts := map_option (\<lambda>f. (truthy_string (att_screenshot f), truthy_string (att_trace f),
                                                  truthy_string (att_video f))) flaky,
           res_file := opt_file (ts_opts t) \<rparr>)"

definition skipped_result :: "test_scope \<Rightarrow> test_entry \<Rightarrow> string \<Rightarrow> test_result" where
  "skipped_result t entry name = (plain_result (entry_name entry) name Skipped)\<lparr>
     res_project := opt_project (ts_opts t), res_file := opt_file (ts_opts t) \<rparr>"

text \<open>A test that is not skipped: its attempts, its result, and what a failure leaves behind. The flag ends the scope's tests.\<close>

definition run_test ::
  "'w runner_env \<Rightarrow> test_scope \<Rightarrow> test_entry \<Rightarrow> string \<Rightarrow> 'w runner_state \<Rightarrow> 'w runner_state \<times> test_result \<times> bool" where
  "run_test env t entry name s =
     (let (s1, out, last_attempt, first) = run_attempts env t entry name 0 (cfg_retries (opt_config (ts_opts t))) None s;
          r = final_result t entry name out last_attempt first;
          s2 = report_result r s1;
          failed = (res_status r = Failed);
          s3 = s2\<lparr> serial_failed := serial_failed s2 \<or> failed \<and> ts_in_serial t,
                   fresh_start_pending := fresh_start_pending s2 \<or> failed \<and> ts_can_reset t \<rparr>;
          stop = (failed \<and> (case res_error r of None \<Rightarrow> False | Some e \<Rightarrow> aborts_file env e))
      in (s3\<lparr> file_aborted := file_aborted s3 \<or> stop \<rparr>, r, stop))"

section \<open>The tests of a scope\<close>

fun run_tests ::
  "'w runner_env \<Rightarrow> test_scope \<Rightarrow> string \<Rightarrow> (test_entry \<Rightarrow> bool) \<Rightarrow> test_entry list \<Rightarrow> 'w runner_state \<Rightarrow>
   'w runner_state \<times> test_result list" where
  "run_tests env t prefix left_out [] s = (s, [])"
| "run_tests env t prefix left_out (e # es) s =
     (let name = child_name prefix (entry_name e) in
      if aborted env s then (s, [])
      else if \<not> passes_test_filter name (ts_opts t) then run_tests env t prefix left_out es s
      else if entry_skip e \<or> left_out e \<or> (ts_in_serial t \<and> serial_failed s)
      then let r = skipped_result t e name; (s', rs) = run_tests env t prefix left_out es (report_result r s) in (s', r # rs)
      else case run_test env t e name s of
          (s1, r, True) \<Rightarrow> (s1, [r])
        | (s1, r, False) \<Rightarrow> let (s', rs) = run_tests env t prefix left_out es s1 in (s', r # rs))"

section \<open>Scopes\<close>

text \<open>What a scope decides on entry.\<close>

record scope_plan =
  plan_opts :: run_options
  plan_policy :: reset_policy
  plan_can_reset :: bool
  plan_runnable :: bool
  plan_fresh_worker_reset :: bool
  plan_fresh_start :: bool
  plan_needs_reset :: bool

definition plan_scope ::
  "'w runner_env \<Rightarrow> suite_context \<Rightarrow> string \<Rightarrow> run_options \<Rightarrow> reset_policy option \<Rightarrow> bool \<Rightarrow> retry_step list \<Rightarrow>
   'w runner_state \<Rightarrow> scope_plan" where
  "plan_scope env c prefix parent_opts parent_policy parent_serial chain s =
     (let d = scope_of c;
          (opts, policy, _) = resolve_scope (env_cwd env) (scope_use d) parent_opts parent_policy;
          is_root = (prefix = []);
          can_reset = (cfg_has_package (opt_config opts) \<and> opt_has_resettable opts);
          runnable = (first_runnable (env_cwd env) c prefix opts policy \<noteq> None);
          fresh_worker = (can_reset \<and> (if scope policy = File_Scope
                                        then is_root \<or> \<not> app_reset_policy_equals (Some policy) parent_policy
                                        else before_all d \<noteq> []));
          fresh_start = (\<not> is_root \<and> runnable \<and> can_reset \<and> fresh_start_pending s \<and>
             retry_replays_setup policy
               (if fresh_worker then chain @ [\<lparr> step_reset = Some policy, step_before_all = [], step_after_all = [] \<rparr>] else chain)
               parent_serial);
          applied = (if fresh_start then parent_policy else or_else (applied_policy s) parent_policy);
          changed = (\<not> is_root \<and> \<not> app_reset_policy_equals (Some policy) applied)
      in \<lparr> plan_opts = opts, plan_policy = policy, plan_can_reset = can_reset, plan_runnable = runnable,
           plan_fresh_worker_reset = fresh_worker, plan_fresh_start = fresh_start,
           plan_needs_reset = (runnable \<and> can_reset \<and>
             (if scope policy = File_Scope then is_root \<or> changed else before_all d \<noteq> [])) \<rparr>)"

text \<open>
  The setup of a scope: the error thrown and whether it is the file-entry reset's. The unhandled errors
  of the hooks fail it as a throwing hook would.
\<close>

definition scope_reset ::
  "'w runner_env \<Rightarrow> scope_plan \<Rightarrow> bool \<Rightarrow> 'w runner_state \<Rightarrow> 'w runner_state \<times> (run_error \<times> bool) option" where
  "scope_reset env plan is_root s =
     (if plan_needs_reset plan
      then case call_env env (Reset_Call (plan_policy plan) False) s of
          (s', Some e) \<Rightarrow> (s', Some (e, is_root))
        | (s', None) \<Rightarrow> (s'\<lparr> applied_policy := Some (plan_policy plan) \<rparr>, None)
      else (s, None))"

definition setup_hooks ::
  "'w runner_env \<Rightarrow> nat list \<Rightarrow> 'w runner_state \<Rightarrow> 'w runner_state \<times> run_error option" where
  "setup_hooks env hooks s =
     (case run_hooks env Before_All hooks s of
        (s1, Some e) \<Rightarrow> (s1\<lparr> world := fst (unhandled env (world s1)) \<rparr>, Some e)
      | (s1, None) \<Rightarrow>
          let (w, errs) = unhandled env (world s1) in (s1\<lparr> world := w \<rparr>, merge_unhandled_errors None errs))"

definition scope_setup ::
  "'w runner_env \<Rightarrow> scope_plan \<Rightarrow> retry_step list \<Rightarrow> bool \<Rightarrow> nat list \<Rightarrow> 'w runner_state \<Rightarrow>
   'w runner_state \<times> (run_error \<times> bool) option" where
  "scope_setup env plan chain is_root hooks s =
     (if \<not> plan_runnable plan then (s, None)
      else case (if plan_fresh_start plan then run_retry_setup env chain s else (s, None)) of
          (s1, Some e) \<Rightarrow> (s1, Some (e, False))
        | (s1, None) \<Rightarrow>
            (case scope_reset env plan is_root s1 of
               (s2, Some f) \<Rightarrow> (s2, Some f)
             | (s2, None) \<Rightarrow>
                 (case setup_hooks env hooks s2 of
                    (s3, Some e) \<Rightarrow> (s3, Some (e, False))
                  | (s3, None) \<Rightarrow> (s3, None))))"

text \<open>A failed setup: every test of the scope is reported as failed.\<close>

definition setup_failed ::
  "'w runner_env \<Rightarrow> suite_context \<Rightarrow> string \<Rightarrow> scope_plan \<Rightarrow> run_error \<Rightarrow> 'w runner_state \<Rightarrow> 'w runner_state \<times> suite_result" where
  "setup_failed env c prefix plan e s =
     (let opts = plan_opts plan; cfg = opt_config opts;
          label = (if prefix = [] then ''beforeAll'' else ''beforeAll_'' @ prefix);
          (s1, shot) = (if cfg_screenshot cfg \<noteq> Screenshot_Never then capture_env env Screenshot label s else (s, None));
          (s2, trace) = (if opt_has_primary opts \<and> should_record (cfg_trace cfg) 0
                         then capture_env env Trace_Archive (if prefix = [] then ''beforeAll'' else prefix) s1 else (s1, None));
          s3 = s2\<lparr> fresh_start_pending := fresh_start_pending s2 \<or> plan_can_reset plan \<rparr>;
          rs = collect_results (fail_all c prefix e opts shot trace)
      in (fold report_result rs s3, Suite_Result prefix rs []))"

definition scope_step :: "scope_plan \<Rightarrow> scope_data \<Rightarrow> retry_step list" where
  "scope_step plan d =
     (if plan_fresh_worker_reset plan \<or> before_all d \<noteq> [] \<or> after_all d \<noteq> []
      then [\<lparr> step_reset = (if plan_fresh_worker_reset plan then Some (plan_policy plan) else None),
              step_before_all = before_all d, step_after_all = after_all d \<rparr>]
      else [])"

text \<open>The results of a scope skipped by a failed serial group or by \<open>test.skip()\<close>, all reported.\<close>

fun mark_skipped :: "run_options \<Rightarrow> suite_result \<Rightarrow> suite_result"
  and mark_skipped_all :: "run_options \<Rightarrow> suite_result list \<Rightarrow> suite_result list" where
  "mark_skipped opts (Suite_Result name ts ss) =
     Suite_Result name (map (\<lambda>r. r\<lparr> res_project := opt_project opts, res_file := opt_file opts \<rparr>) ts) (mark_skipped_all opts ss)"
| "mark_skipped_all opts [] = []"
| "mark_skipped_all opts (s # ss) = mark_skipped opts s # mark_skipped_all opts ss"

text \<open>
  A scope up to the scopes below it: entering it, its setup, its tests. It is over already (with the
  error handed to the embedder, or a result), or goes on with what the rest needs.
\<close>

record entered_scope =
  in_test_scope :: test_scope
  in_skipped :: bool
  in_runnable :: bool
  in_results :: "test_result list"

definition opens_serial :: "scope_data \<Rightarrow> bool \<Rightarrow> bool" where
  "opens_serial d parent_serial = (\<not> parent_serial \<and> scope_mode d = Some Serial_Mode)"

definition make_test_scope ::
  "scope_data \<Rightarrow> scope_plan \<Rightarrow> nat list \<Rightarrow> nat list \<Rightarrow> bool \<Rightarrow> retry_step list \<Rightarrow> test_scope" where
  "make_test_scope d plan parent_before parent_after in_serial chain =
     (let chain' = chain @ scope_step plan d
      in \<lparr> ts_opts = plan_opts plan, ts_policy = plan_policy plan, ts_can_reset = plan_can_reset plan,
           ts_replay_setup = (plan_can_reset plan \<and> retry_replays_setup (plan_policy plan) chain' in_serial),
           ts_chain = chain', ts_before_each = parent_before @ before_each d,
           ts_after_each = after_each d @ parent_after, ts_in_serial = in_serial \<rparr>)"

definition scope_body ::
  "'w runner_env \<Rightarrow> suite_context \<Rightarrow> string \<Rightarrow> test_scope \<Rightarrow> bool \<Rightarrow> bool \<Rightarrow> 'w runner_state \<Rightarrow>
   'w runner_state \<times> ((run_error + suite_result) + entered_scope)" where
  "scope_body env c prefix t runnable skipped s =
     (let d = scope_of c; all_skipped = (scope_skipped d \<or> skipped);
          (s1, rs) = run_tests env t prefix (\<lambda>e. all_skipped \<or> has_only d (child_scopes c) \<and> \<not> entry_only e) (scope_tests d) s
      in (s1, Inr \<lparr> in_test_scope = t, in_skipped = all_skipped, in_runnable = runnable, in_results = rs \<rparr>))"

definition enter_scope ::
  "'w runner_env \<Rightarrow> suite_context \<Rightarrow> string \<Rightarrow> nat list \<Rightarrow> nat list \<Rightarrow> run_options \<Rightarrow> reset_policy option \<Rightarrow> bool \<Rightarrow>
   retry_step list \<Rightarrow> 'w runner_state \<Rightarrow> 'w runner_state \<times> ((run_error + suite_result) + entered_scope)" where
  "enter_scope env c prefix parent_before parent_after parent_opts parent_policy parent_serial chain s =
     (let d = scope_of c;
          plan = plan_scope env c prefix parent_opts parent_policy parent_serial chain s;
          t = make_test_scope d plan parent_before parent_after (parent_serial \<or> opens_serial d parent_serial) chain
      in case scope_setup env plan chain (prefix = []) (before_all d) s of
           (s1, None) \<Rightarrow> scope_body env c prefix t (plan_runnable plan) False s1
         | (s1, Some (e, file_entry)) \<Rightarrow>
             if err_kind e = Test_Aborted \<or> aborted env s1 then (s1, Inl (Inr (Suite_Result prefix [] [])))
             else if file_entry \<and> aborts_file env e then (s1, Inl (Inl e))
             else if err_kind e = Test_Skip then scope_body env c prefix t (plan_runnable plan) True s1
             else let (s2, r) = setup_failed env c prefix plan e s1 in (s2, Inl (Inr r)))"

text \<open>A serial group's flag starts unset and is forgotten when the group is over.\<close>

definition open_serial :: "scope_data \<Rightarrow> bool \<Rightarrow> 'w runner_state \<Rightarrow> 'w runner_state" where
  "open_serial d parent_serial s = (if opens_serial d parent_serial then s\<lparr> serial_failed := False \<rparr> else s)"

definition close_serial :: "scope_data \<Rightarrow> bool \<Rightarrow> bool \<Rightarrow> 'w runner_state \<Rightarrow> 'w runner_state" where
  "close_serial d parent_serial before s = (if opens_serial d parent_serial then s\<lparr> serial_failed := before \<rparr> else s)"

definition leave_scope ::
  "'w runner_env \<Rightarrow> scope_data \<Rightarrow> string \<Rightarrow> entered_scope \<Rightarrow> 'w runner_state \<times> (run_error + suite_result list) \<Rightarrow>
   'w runner_state \<times> (run_error + suite_result)" where
  "leave_scope env d prefix i children =
     (case children of
        (s, Inl e) \<Rightarrow> (s, Inl e)
      | (s, Inr ss) \<Rightarrow> (if in_runnable i then run_after_all env (after_all d) s else s, Inr (Suite_Result prefix (in_results i) ss)))"

definition push_result ::
  "suite_result \<Rightarrow> 'w runner_state \<times> (run_error + suite_result list) \<Rightarrow> 'w runner_state \<times> (run_error + suite_result list)" where
  "push_result r rest = (case rest of (s, Inl e) \<Rightarrow> (s, Inl e) | (s, Inr rs) \<Rightarrow> (s, Inr (r # rs)))"

text \<open>A child scope that runs nothing: skipped with or without its results being reported.\<close>

definition child_skipped ::
  "'w runner_env \<Rightarrow> scope_data \<Rightarrow> suite_context list \<Rightarrow> suite_context \<Rightarrow> string \<Rightarrow> test_scope \<Rightarrow> bool \<Rightarrow> 'w runner_state \<Rightarrow>
   ('w runner_state \<times> suite_result) option" where
  "child_skipped env d all c name t skipped s =
     (if scope_left_out d all c then Some (s, skip_all c name (ts_opts t))
      else if (ts_in_serial t \<and> serial_failed s) \<or> skipped
      then let r = mark_skipped (ts_opts t) (skip_all c name (ts_opts t))
           in Some (fold report_result (collect_results r) s, r)
      else None)"

definition note_failures :: "test_scope \<Rightarrow> suite_result \<Rightarrow> 'w runner_state \<Rightarrow> 'w runner_state" where
  "note_failures t r s = s\<lparr> serial_failed := serial_failed s \<or>
     ts_in_serial t \<and> list_ex (\<lambda>x. res_status x = Failed) (collect_results r) \<rparr>"

text \<open>
  \<open>runSuiteContext\<close>, with the scopes below it. \<open>Inl\<close> is the file-entry reset's error handed to an
  embedder that recovers from it.
\<close>

fun run_suite ::
    "'w runner_env \<Rightarrow> suite_context \<Rightarrow> string \<Rightarrow> nat list \<Rightarrow> nat list \<Rightarrow> run_options \<Rightarrow> reset_policy option \<Rightarrow> bool \<Rightarrow>
     retry_step list \<Rightarrow> 'w runner_state \<Rightarrow> 'w runner_state \<times> (run_error + suite_result)"
  and run_children ::
    "'w runner_env \<Rightarrow> scope_data \<Rightarrow> suite_context list \<Rightarrow> suite_context list \<Rightarrow> string \<Rightarrow> test_scope \<Rightarrow> bool \<Rightarrow>
     'w runner_state \<Rightarrow> 'w runner_state \<times> (run_error + suite_result list)" where
  "run_suite env (Context d cs) prefix before after opts policy serial chain s =
     (case enter_scope env (Context d cs) prefix before after opts policy serial chain (open_serial d serial s) of
        (s1, Inl r) \<Rightarrow> (close_serial d serial (serial_failed s) s1, r)
      | (s1, Inr i) \<Rightarrow> apfst (close_serial d serial (serial_failed s))
          (leave_scope env d prefix i (run_children env d cs cs prefix (in_test_scope i) (in_skipped i) s1)))"
| "run_children env d all [] prefix t skipped s = (s, Inr [])"
| "run_children env d all (c # rest) prefix t skipped s =
     (if aborted env s then (s, Inr [])
      else case child_skipped env d all c (child_name prefix (scope_name (scope_of c))) t skipped s of
          Some (s1, r) \<Rightarrow> push_result r (run_children env d all rest prefix t skipped s1)
        | None \<Rightarrow>
            (case run_suite env c (child_name prefix (scope_name (scope_of c))) (ts_before_each t) (ts_after_each t) (ts_opts t)
                    (Some (ts_policy t)) (ts_in_serial t) (ts_chain t) s of
               (s1, Inl e) \<Rightarrow> (s1, Inl e)
             | (s1, Inr r) \<Rightarrow> push_result r (run_children env d all rest prefix t skipped (note_failures t r s1))))"

declare run_suite.simps [simp del] run_children.simps(2) [simp del]

text \<open>The scopes of a file, with the project's \<open>use\<close> below the file's own.\<close>

definition layer_use :: "use_options \<Rightarrow> use_options \<Rightarrow> use_options" where
  "layer_use base own = \<lparr>
     use_timeout = or_else (use_timeout own) (use_timeout base), use_app_state = or_else (use_app_state own) (use_app_state base),
     use_retries = or_else (use_retries own) (use_retries base),
     use_screenshot = or_else (use_screenshot own) (use_screenshot base),
     use_trace = or_else (use_trace own) (use_trace base), use_video = or_else (use_video own) (use_video base),
     use_app_reset = or_else (use_app_reset own) (use_app_reset base),
     use_app_reset_scope = or_else (use_app_reset_scope own) (use_app_reset_scope base) \<rparr>"

definition with_project_use :: "use_options option \<Rightarrow> suite_context \<Rightarrow> suite_context" where
  "with_project_use project_use c =
     (case project_use of
        None \<Rightarrow> c
      | Some u \<Rightarrow> Context ((scope_of c)\<lparr> scope_use := layer_use u (scope_use (scope_of c)) \<rparr>) (child_scopes c))"

definition run_registered_file ::
  "'w runner_env \<Rightarrow> suite_context \<Rightarrow> use_options option \<Rightarrow> run_options \<Rightarrow> 'w \<Rightarrow> 'w runner_state \<times> (run_error + suite_result)" where
  "run_registered_file env c project_use opts w =
     run_suite env (with_project_use project_use c) [] [] [] opts None False [] (initial_state w)"

lemma mark_skipped_map:
  "collect_results (mark_skipped opts r) = map (\<lambda>r. r\<lparr> res_project := opt_project opts, res_file := opt_file opts \<rparr>) (collect_results r)"
  "collect_all (mark_skipped_all opts rs) = map (\<lambda>r. r\<lparr> res_project := opt_project opts, res_file := opt_file opts \<rparr>) (collect_all rs)"
  by (induction opts r and opts rs rule: mark_skipped_mark_skipped_all.induct) simp_all

lemma mark_skipped_names: "map res_full_name (collect_results (mark_skipped opts r)) = map res_full_name (collect_results r)"
  by (simp add: mark_skipped_map comp_def)

section \<open>An environment for concrete inputs\<close>

text \<open>Every call succeeds, nothing is captured, nobody stops the run; the world counts the calls.\<close>

definition calm_env :: "nat runner_env" where
  "calm_env = \<lparr> do_call = (\<lambda>c n. (n + 1, None)), capture = (\<lambda>a name n. (n, None)), unhandled = (\<lambda>n. (n, [])),
     soft_errors = (\<lambda>n. (n, [])), is_aborted = (\<lambda>n. False), abort_file_on_error = None, env_cwd = ''/'' \<rparr>"

text \<open>As above, but the body of the first attempt fails.\<close>

definition flaky_env :: "nat runner_env" where
  "flaky_env = calm_env\<lparr> do_call := (\<lambda>c n. (n + 1, case c of
       Body_Call name f 0 \<Rightarrow> Some \<lparr> err_kind = Ordinary_Error, err_message = ''boom'' \<rparr> | _ \<Rightarrow> None)) \<rparr>"

definition demo_options :: "nat \<Rightarrow> run_options" where
  "demo_options retries = \<lparr> opt_config = \<lparr> cfg_timeout = 30000, cfg_retries = retries, cfg_screenshot = Screenshot_On_Failure,
       cfg_trace = Trace_Off, cfg_video = Trace_Off, cfg_has_package = True,
       cfg_reset = \<lparr> app_reset = None, app_reset_scope = None, reset_app_deep_link = None, root_dir = ''/'' \<rparr> \<rparr>,
     opt_filters = no_filters, opt_project = None, opt_file = Some ''a.test.ts'',
     opt_capabilities = \<lparr> hooks_detected = None, is_physical = None \<rparr>, opt_has_primary = True, opt_has_resettable = True,
     opt_before_each_test = False \<rparr>"

definition demo_entry :: "string \<Rightarrow> test_entry" where
  "demo_entry n = \<lparr> entry_name = n, entry_only = False, entry_skip = False, entry_fn = 7, entry_fixtures = False \<rparr>"

definition demo_scope :: "string \<Rightarrow> test_entry list \<Rightarrow> scope_data" where
  "demo_scope n ts = \<lparr> scope_name = n, scope_only = False, scope_skip = False, scope_tests = ts, before_all = [], after_all = [],
     before_each = [1], after_each = [2], scope_use = no_use, scope_mode = None, scope_skipped = False \<rparr>"

definition demo_test_scope :: "nat \<Rightarrow> test_scope" where
  "demo_test_scope retries = \<lparr> ts_opts = demo_options retries,
     ts_policy = \<lparr> mode = Clear, scope = File_Scope, app_state = None \<rparr>, ts_can_reset = True, ts_replay_setup = False,
     ts_chain = [], ts_before_each = [1], ts_after_each = [2], ts_in_serial = False \<rparr>"

lemmas demo_defs = calm_env_def flaky_env_def demo_options_def demo_entry_def demo_scope_def demo_test_scope_def
  initial_state_def

end
