(* ===== verification/Suite_Attempts.thy ===== *)
theory Suite_Attempts
  imports Suite_Runner
begin

text \<open>
  What the runner promises of one test: the order of its hooks in an attempt, and the meaning of its
  final result over the attempts made.
\<close>

section \<open>What the steps leave alone\<close>

lemma call_env_log: "call_env env c s = (s', e) \<Longrightarrow> run_log s' = run_log s @ [Called c]"
  by (auto simp: call_env_def split: prod.splits)

lemma call_env_log_fst: "run_log (fst (call_env env c s)) = run_log s @ [Called c]"
  by (simp add: call_env_def split: prod.splits)

lemma capture_env_keeps [simp]:
  "capture_env env a n s = (s', p) \<Longrightarrow> run_log s' = run_log s"
  "capture_env env a n s = (s', p) \<Longrightarrow> file_aborted s' = file_aborted s"
  by (auto simp: capture_env_def split: prod.splits)

lemma screenshot_if_keeps:
  assumes "screenshot_if env b n out s = (s', out')"
  shows "run_log s' = run_log s" "att_status out' = att_status out" "att_error out' = att_error out"
    "file_aborted s' = file_aborted s"
  using assms by (auto simp: screenshot_if_def split: if_splits prod.splits)

lemma screenshot_if_all:
  "screenshot_if env b n out s = (s', out') \<Longrightarrow>
     run_log s' = run_log s \<and> att_status out' = att_status out \<and> att_error out' = att_error out"
  by (auto simp: screenshot_if_def split: if_splits prod.splits)

section \<open>The order of an attempt's calls\<close>

lemma run_hooks_log:
  "run_hooks env k hs s = (s', e) \<Longrightarrow>
     \<exists>n \<le> length hs. run_log s' = run_log s @ map (\<lambda>h. Called (Hook_Call k h)) (take n hs) \<and> (e = None \<longrightarrow> n = length hs)"
proof (induction env k hs s rule: run_hooks.induct)
  case (2 env k h hs s)
  obtain s1 e1 where c: "call_env env (Hook_Call k h) s = (s1, e1)" by fastforce
  note log = call_env_log [OF c]
  show ?case
  proof (cases e1)
    case None
    with "2.prems" c have "run_hooks env k hs s1 = (s', e)" by simp
    with "2.IH" [OF c [symmetric] None] obtain n where "n \<le> length hs"
      "run_log s' = run_log s1 @ map (\<lambda>h. Called (Hook_Call k h)) (take n hs)" "e = None \<longrightarrow> n = length hs" by blast
    with log show ?thesis by (intro exI [of _ "Suc n"]) auto
  next
    case (Some x)
    with "2.prems" c log show ?thesis by (intro exI [of _ 1]) auto
  qed
qed auto

lemma teardown_hooks_log:
  "teardown_hooks env hs s = (s', e) \<Longrightarrow> \<exists>n. run_log s' = run_log s @ map (\<lambda>h. Called (Hook_Call After_All h)) (take n hs)"
proof (induction env hs s rule: teardown_hooks.induct)
  case (2 env h hs s)
  obtain s1 e1 where c: "call_env env (Hook_Call After_All h) s = (s1, e1)" by fastforce
  note log = call_env_log [OF c]
  show ?case
  proof (cases "teardown_hooks env (h # hs) s = (s1, e1)")
    case True
    with "2.prems" log show ?thesis by (intro exI [of _ 1]) auto
  next
    case False
    with c have step: "teardown_hooks env (h # hs) s = teardown_hooks env hs s1"
      by (auto split: option.splits if_splits)
    obtain n where "run_log s' = run_log s1 @ map (\<lambda>h. Called (Hook_Call After_All h)) (take n hs)"
    proof (cases e1)
      case None
      from "2.IH"(1) [OF c [symmetric] None] "2.prems" step that show ?thesis by metis
    next
      case (Some x)
      with False c have "\<not> (err_kind x = Test_Aborted \<or> aborted env s1)" by auto
      from "2.IH"(2) [OF c [symmetric] Some this] "2.prems" step that show ?thesis by metis
    qed
    with log show ?thesis by (intro exI [of _ "Suc n"]) auto
  qed
qed auto

text \<open>The calls a fresh start and the resets of an attempt make.\<close>

fun is_setup_call :: "run_event \<Rightarrow> bool" where
  "is_setup_call (Called (Hook_Call After_All _)) = True"
| "is_setup_call (Called (Hook_Call Before_All _)) = True"
| "is_setup_call (Called (Reset_Call _ _)) = True"
| "is_setup_call (Called (Before_Each_Test _)) = True"
| "is_setup_call (Called (Setup_Fixtures _)) = True"
| "is_setup_call _ = False"

definition extends_by_setup :: "'w runner_state \<Rightarrow> 'w runner_state \<Rightarrow> bool" where
  "extends_by_setup s s' \<longleftrightarrow> (\<exists>cs. run_log s' = run_log s @ cs \<and> list_all is_setup_call cs)"

lemma extends_refl [intro]: "run_log s' = run_log s \<Longrightarrow> extends_by_setup s s'"
  by (simp add: extends_by_setup_def)

lemma extends_trans: "extends_by_setup s s1 \<Longrightarrow> extends_by_setup s1 s2 \<Longrightarrow> extends_by_setup s s2"
  by (auto simp: extends_by_setup_def)

lemma extends_same_log: "extends_by_setup s s1 \<Longrightarrow> run_log s2 = run_log s1 \<Longrightarrow> extends_by_setup s s2"
  by (simp add: extends_by_setup_def)

lemma call_extends: "call_env env c s = (s', e) \<Longrightarrow> is_setup_call (Called c) \<Longrightarrow> extends_by_setup s s'"
  by (auto simp: extends_by_setup_def dest: call_env_log)

lemma before_all_extends: "run_hooks env Before_All hs s = (s', e) \<Longrightarrow> extends_by_setup s s'"
  by (drule run_hooks_log) (auto simp: extends_by_setup_def list_all_iff)

lemma teardown_extends: "run_retry_teardown env chain s = (s', e) \<Longrightarrow> extends_by_setup s s'"
  unfolding run_retry_teardown_def Let_def by (drule teardown_hooks_log) (auto simp: extends_by_setup_def list_all_iff)

lemma rebuild_steps_extends: "rebuild_steps env sts s = (s', e) \<Longrightarrow> extends_by_setup s s'"
proof (induction sts arbitrary: s)
  case (Cons st sts)
  obtain s1 e1 where reset: "(case step_reset st of None \<Rightarrow> (s, None)
            | Some p \<Rightarrow> (case call_env env (Reset_Call p True) s of
                 (s', Some e) \<Rightarrow> (s', Some e)
               | (s', None) \<Rightarrow> (s'\<lparr> applied_policy := Some p \<rparr>, None))) = (s1, e1)" by fastforce
  have x1: "extends_by_setup s s1"
    using reset by (auto split: option.splits prod.splits dest!: call_env_log simp: extends_by_setup_def)
  show ?case
  proof (cases e1)
    case (Some x)
    with Cons.prems reset x1 show ?thesis by simp
  next
    case None
    obtain s2 e2 where h: "run_hooks env Before_All (step_before_all st) s1 = (s2, e2)" by fastforce
    note x2 = extends_trans [OF x1 before_all_extends [OF h]]
    from Cons.prems reset None h have r: "(case e2 of Some e \<Rightarrow> (s2, Some e) | None \<Rightarrow> rebuild_steps env sts s2) = (s', e)"
      by (auto split: option.splits)
    show ?thesis
    proof (cases e2)
      case (Some x)
      with r x2 show ?thesis by simp
    next
      case None
      with r have "rebuild_steps env sts s2 = (s', e)" by simp
      from extends_trans [OF x2 Cons.IH [OF this]] show ?thesis .
    qed
  qed
qed auto

lemma retry_setup_extends: "run_retry_setup env chain s = (s', e) \<Longrightarrow> extends_by_setup s s'"
proof -
  assume a: "run_retry_setup env chain s = (s', e)"
  obtain s1 e1 where t: "run_retry_teardown env chain s = (s1, e1)" by fastforce
  obtain s2 e2 where r: "rebuild_steps env chain s1 = (s2, e2)" by fastforce
  have "run_log s' = run_log s1 \<or> run_log s' = run_log s2"
    using a t r by (auto simp: run_retry_setup_def run_retry_rebuild_def split: option.splits)
  with extends_trans [OF teardown_extends [OF t] rebuild_steps_extends [OF r]] teardown_extends [OF t]
  show ?thesis by (auto intro: extends_same_log)
qed

lemma and_then_extends:
  assumes "and_then r f = (s', e)" and "extends_by_setup s (fst r)"
    and "\<And>s1 s2 e. f s1 = (s2, e) \<Longrightarrow> extends_by_setup s1 s2"
  shows "extends_by_setup s s'"
  using assms by (cases r; cases "snd r") (auto simp: and_then_def intro: extends_trans)

lemma own_reset_extends:
  "extends_by_setup s (fst (and_then (call_env env (Reset_Call p b) s) (\<lambda>s. (s\<lparr> applied_policy := q \<rparr>, None))))"
  by (auto simp: and_then_def extends_by_setup_def split: prod.splits option.splits dest!: call_env_log)

lemma attempt_resets_extends:
  assumes "attempt_resets env t name attempt b s = (s', e)"
  shows "extends_by_setup s s'"
  using assms unfolding attempt_resets_def
proof (rule and_then_extends)
  show "extends_by_setup s (fst (if b then run_retry_setup env (ts_chain t) s else (s, None)))"
    using retry_setup_extends [of env "ts_chain t" s "fst (run_retry_setup env (ts_chain t) s)" "snd (run_retry_setup env (ts_chain t) s)"]
    by (simp add: extends_refl)
next
  fix s1 s2 e
  assume "and_then (if scope (ts_policy t) = Test_Scope \<and> ts_can_reset t
               then and_then (call_env env (Reset_Call (ts_policy t) (attempt > 0)) s1)
                      (\<lambda>s. (s\<lparr> applied_policy := Some (ts_policy t) \<rparr>, None))
               else (s1, None)) (\<lambda>s.
     if opt_before_each_test (ts_opts t) then call_env env (Before_Each_Test name) s else (s, None)) = (s2, e)"
  then show "extends_by_setup s1 s2"
  proof (rule and_then_extends)
    show "extends_by_setup s1 (fst (if scope (ts_policy t) = Test_Scope \<and> ts_can_reset t
               then and_then (call_env env (Reset_Call (ts_policy t) (attempt > 0)) s1)
                      (\<lambda>s. (s\<lparr> applied_policy := Some (ts_policy t) \<rparr>, None))
               else (s1, None)))"
      by (simp add: extends_refl own_reset_extends)
  next
    fix s3 s4 e
    assume "(if opt_before_each_test (ts_opts t) then call_env env (Before_Each_Test name) s3 else (s3, None)) = (s4, e)"
    then show "extends_by_setup s3 s4" by (auto split: if_splits intro: call_extends)
  qed
qed

text \<open>
  The part of an attempt up to its body: setup calls, then the \<open>beforeEach\<close> hooks in order as far as
  they succeed, then the body once if they all did.
\<close>

lemma attempt_main_log:
  assumes "attempt_main env t entry name attempt b s = (s', e, up)"
  obtains cs n body where "run_log s' = run_log s @ cs @ map (\<lambda>h. Called (Hook_Call Before_Each h)) (take n (ts_before_each t)) @ body"
    and "list_all is_setup_call cs" and "n \<le> length (ts_before_each t)"
    and "body = [] \<or> body = [Called (Body_Call name (entry_fn entry) attempt)] \<and> n = length (ts_before_each t)"
    and "e = None \<Longrightarrow> body \<noteq> []" and "up \<Longrightarrow> entry_fixtures entry"
    and "entry_fixtures entry \<Longrightarrow> body \<noteq> [] \<Longrightarrow> up"
proof -
  obtain s1 e1 where r: "attempt_resets env t name attempt b s = (s1, e1)" by fastforce
  obtain cs where cs: "run_log s1 = run_log s @ cs" "list_all is_setup_call cs"
    using attempt_resets_extends [OF r] by (auto simp: extends_by_setup_def)
  show ?thesis
  proof (cases e1)
    case (Some x)
    with assms r cs show ?thesis by (intro that [of cs 0 "[]"]) (auto simp: attempt_main_def)
  next
    case None
    obtain s2 e2 where f: "(if entry_fixtures entry then call_env env (Setup_Fixtures name) s1 else (s1, None)) = (s2, e2)" by fastforce
    obtain fs where fs: "run_log s2 = run_log s1 @ fs" "list_all is_setup_call fs"
      using f by (auto split: if_splits dest: call_env_log)
    show ?thesis
    proof (cases e2)
      case (Some x)
      with assms r None f have "s' = s2" "e = Some x" "\<not> up" by (auto simp: attempt_main_def)
      with cs fs show ?thesis by (intro that [of "cs @ fs" 0 "[]"]) auto
    next
      case no: None
      obtain s3 e3 where h: "run_hooks env Before_Each (ts_before_each t) s2 = (s3, e3)" by fastforce
      from run_hooks_log [OF h] obtain n where n: "n \<le> length (ts_before_each t)"
        "run_log s3 = run_log s2 @ map (\<lambda>h. Called (Hook_Call Before_Each h)) (take n (ts_before_each t))"
        "e3 = None \<longrightarrow> n = length (ts_before_each t)" by blast
      have m: "(s', e) = and_then (s3, e3) (call_env env (Body_Call name (entry_fn entry) attempt))" "up = entry_fixtures entry"
        using assms r None f no h by (auto simp: attempt_main_def Let_def split: prod.splits)
      show ?thesis
      proof (cases e3)
        case (Some x)
        with m n cs fs show ?thesis by (intro that [of "cs @ fs" n "[]"]) (auto simp: and_then_def)
      next
        case None
        with m(1) have "call_env env (Body_Call name (entry_fn entry) attempt) s3 = (s', e)" by (simp add: and_then_def)
        from call_env_log [OF this] None m n cs fs show ?thesis
          by (intro that [of "cs @ fs" n "[Called (Body_Call name (entry_fn entry) attempt)]"]) auto
      qed
    qed
  qed
qed

lemma run_after_each_log:
  "run_after_each env t name hs out s = (s', out') \<Longrightarrow>
     run_log s' = run_log s @ map (\<lambda>h. Called (Hook_Call After_Each h)) hs"
proof (induction env t name hs out s rule: run_after_each.induct)
  case (2 env t name h hs out s)
  obtain s1 e1 where c: "call_env env (Hook_Call After_Each h) s = (s1, e1)" by fastforce
  note log = call_env_log [OF c]
  obtain out2 s2 where step: "run_after_each env t name (h # hs) out s = run_after_each env t name hs out2 s2"
    and same: "run_log s2 = run_log s1"
    and ih: "run_after_each env t name hs out2 s2 = (s', out') \<Longrightarrow>
      run_log s' = run_log s2 @ map (\<lambda>h. Called (Hook_Call After_Each h)) hs"
  proof (cases e1)
    case None
    from that [of out s1] "2.IH"(1) [OF c [symmetric] None] c None show ?thesis by simp
  next
    case (Some e)
    consider (skip) "err_kind e = Test_Skip" | (late) "err_kind e \<noteq> Test_Skip" "err_kind e = Runner_Timeout \<and> \<not> aborted env s1"
      | (other) "err_kind e \<noteq> Test_Skip" "\<not> (err_kind e = Runner_Timeout \<and> \<not> aborted env s1)" by blast
    then show ?thesis
    proof cases
      case skip
      from that [of "if att_status out = Passed then out\<lparr> att_status := Skipped \<rparr> else out" s1]
        "2.IH"(2) [OF c [symmetric] Some skip] c Some skip show ?thesis by simp
    next
      case late
      define out1 where "out1 = (case att_error out of
                             Some e0 \<Rightarrow> if att_status out = Failed then out\<lparr> att_error := Some (append_message (err_message e) e0) \<rparr>
                                        else fail_outcome e out
                           | None \<Rightarrow> fail_outcome e out)"
      obtain s2 out2 where shot: "screenshot_if env (takes_failure_shot t out1 \<and> \<not> aborted env s1) name out1 s1 = (s2, out2)"
        by fastforce
      have "run_after_each env t name (h # hs) out s = run_after_each env t name hs out2 s2"
        using c Some late shot unfolding out1_def by (simp add: Let_def)
      moreover have "run_log s2 = run_log s1" using screenshot_if_keeps(1) [OF shot] .
      ultimately show ?thesis
        using that [of out2 s2] "2.IH"(3) [OF c [symmetric] Some late(1,2) refl shot [symmetric, unfolded out1_def] refl] by simp
    next
      case other
      from that [of out s1] "2.IH"(4) [OF c [symmetric] Some other] c Some other show ?thesis by simp
    qed
  qed
  from "2.prems" step ih same log show ?case by simp
qed simp

section \<open>The outcome of an attempt\<close>

text \<open>An outcome is sound if a failed one has its error; no later stage makes an attempt pass.\<close>

definition outcome_ok :: "attempt_outcome \<Rightarrow> bool" where
  "outcome_ok out \<longleftrightarrow> (att_status out = Failed \<longrightarrow> att_error out \<noteq> None)"

lemma catch_outcome:
  assumes "attempt_catch env t name thrown s = (s', out)"
  shows "outcome_ok out" "att_status out = Passed \<longleftrightarrow> thrown = None" "run_log s' = run_log s" "file_aborted s' = file_aborted s"
  using assms
  by (auto simp: attempt_catch_def outcome_ok_def fail_outcome_def screenshot_if_def Let_def
      split: option.splits if_splits prod.splits)

lemma merge_unhandled_Some: "errs \<noteq> [] \<Longrightarrow> \<exists>e. merge_unhandled_errors err errs = Some e"
  by (cases err) (auto simp: merge_unhandled_errors_def Let_def split: list.splits)

lemma after_each_outcome:
  "run_after_each env t name hs out s = (s', out') \<Longrightarrow> outcome_ok out \<Longrightarrow>
     outcome_ok out' \<and> (att_status out' = Passed \<longrightarrow> att_status out = Passed)"
proof (induction env t name hs out s rule: run_after_each.induct)
  case (2 env t name h hs out s)
  obtain s1 e1 where c: "call_env env (Hook_Call After_Each h) s = (s1, e1)" by fastforce
  show ?case
  proof (cases e1)
    case None
    with "2.IH"(1) [OF c [symmetric] None] "2.prems" c show ?thesis by simp
  next
    case (Some e)
    consider (skip) "err_kind e = Test_Skip" | (late) "err_kind e \<noteq> Test_Skip" "err_kind e = Runner_Timeout \<and> \<not> aborted env s1"
      | (other) "err_kind e \<noteq> Test_Skip" "\<not> (err_kind e = Runner_Timeout \<and> \<not> aborted env s1)" by blast
    then show ?thesis
    proof cases
      case skip
      let ?out = "if att_status out = Passed then out\<lparr> att_status := Skipped \<rparr> else out"
      have "run_after_each env t name hs ?out s1 = (s', out')" "outcome_ok ?out"
        using "2.prems" c Some skip by (simp_all add: outcome_ok_def)
      with "2.IH"(2) [OF c [symmetric] Some skip] show ?thesis by (cases "att_status out") auto
    next
      case late
      define out1 where "out1 = (case att_error out of
                             Some e0 \<Rightarrow> if att_status out = Failed then out\<lparr> att_error := Some (append_message (err_message e) e0) \<rparr>
                                        else fail_outcome e out
                           | None \<Rightarrow> fail_outcome e out)"
      obtain s2 out2 where shot: "screenshot_if env (takes_failure_shot t out1 \<and> \<not> aborted env s1) name out1 s1 = (s2, out2)"
        by fastforce
      have r: "run_after_each env t name hs out2 s2 = (s', out')"
        using "2.prems"(1) c Some late shot unfolding out1_def by (simp add: Let_def)
      have f: "att_status out1 = Failed" "outcome_ok out1"
        by (auto simp: out1_def outcome_ok_def fail_outcome_def split: option.splits)
      then have "outcome_ok out2" "att_status out2 = Failed"
        using screenshot_if_keeps(2,3) [OF shot] by (simp_all add: outcome_ok_def)
      with "2.IH"(3) [OF c [symmetric] Some late(1,2) refl shot [symmetric, unfolded out1_def] refl r] show ?thesis by simp
    next
      case other
      have "run_after_each env t name hs out s1 = (s', out')" using "2.prems"(1) c Some other by simp
      with "2.IH"(4) [OF c [symmetric] Some other] "2.prems"(2) show ?thesis by simp
    qed
  qed
qed simp

lemma unhandled_outcome:
  assumes "attempt_unhandled env t name out s = (s', out')" and "outcome_ok out"
  shows "outcome_ok out'" "att_status out' = Passed \<Longrightarrow> att_status out = Passed" "run_log s' = run_log s"
    "att_status out' = Failed \<or> att_status out' = att_status out"
  using assms
  by (auto simp: attempt_unhandled_def outcome_ok_def Let_def merge_unhandled_Some split: prod.splits if_splits
      dest!: screenshot_if_all)

lemma soft_outcome:
  assumes "attempt_soft_errors env t name out s = (s', out')" and "outcome_ok out"
  shows "outcome_ok out'" "att_status out' = Passed \<Longrightarrow> att_status out = Passed" "run_log s' = run_log s"
  using assms
  by (auto simp: attempt_soft_errors_def outcome_ok_def fail_outcome_def Let_def split: prod.splits if_splits
      dest!: screenshot_if_all)

lemma artifacts_outcome:
  assumes "attempt_artifacts env t name attempt out s = (s', out')"
  shows "att_status out' = att_status out" "att_error out' = att_error out" "run_log s' = run_log s"
  using assms by (auto simp: attempt_artifacts_def Let_def split: prod.splits if_splits)

text \<open>The stages of an attempt, named once.\<close>

lemma run_attemptE:
  assumes "run_attempt env t entry name attempt s = (s', out)"
  obtains s1 thrown up s2 out2 s3 out3 where
    "attempt_main env t entry name attempt
       (ts_replay_setup t \<and> (attempt > 0 \<or> setup_broken s \<or> fresh_start_pending s)) s = (s1, thrown, up)"
    "attempt_catch env t name thrown s1 = (s2, out2)"
    "run_after_each env t name (ts_after_each t) out2 s2 = (s3, out3)"
    "run_log s' = run_log s3 @ (if up then [Called (Teardown_Fixtures name)] else [])"
    "outcome_ok out" "att_status out = Passed \<Longrightarrow> thrown = None"
proof -
  obtain s1 thrown up where m: "attempt_main env t entry name attempt
       (ts_replay_setup t \<and> (attempt > 0 \<or> setup_broken s \<or> fresh_start_pending s)) s = (s1, thrown, up)" by (metis prod_cases3)
  obtain s2 out2 where c: "attempt_catch env t name thrown s1 = (s2, out2)" by fastforce
  obtain s3 out3 where a: "run_after_each env t name (ts_after_each t) out2 s2 = (s3, out3)" by fastforce
  define s4 where "s4 = (if up then fst (call_env env (Teardown_Fixtures name) s3) else s3)"
  obtain s5 out5 where u: "attempt_unhandled env t name out3 s4 = (s5, out5)" by fastforce
  obtain s6 out6 where f: "attempt_soft_errors env t name out5 s5 = (s6, out6)" by fastforce
  obtain s7 out7 where p: "screenshot_if env (att_status out6 = Passed \<and> cfg_screenshot (opt_config (ts_opts t)) = Screenshot_Always)
                         name out6 s6 = (s7, out7)" by fastforce
  have r: "attempt_artifacts env t name attempt out7 s7 = (s', out)"
    using assms m c a u f p unfolding run_attempt_def s4_def by (simp add: Let_def)
  have "run_log s4 = run_log s3 @ (if up then [Called (Teardown_Fixtures name)] else [])"
    unfolding s4_def by (simp add: call_env_log_fst)
  moreover have ok3: "outcome_ok out3" "att_status out3 = Passed \<Longrightarrow> thrown = None"
    using after_each_outcome [OF a catch_outcome(1) [OF c]] catch_outcome(2) [OF c] by auto
  note ok5 = unhandled_outcome [OF u ok3(1)]
  note ok6 = soft_outcome [OF f ok5(1)]
  note k7 = screenshot_if_keeps [OF p]
  note k = artifacts_outcome [OF r]
  have "outcome_ok out" "att_status out = Passed \<Longrightarrow> thrown = None" "run_log s' = run_log s4"
    using ok3 ok5 ok6 k7 k by (simp_all add: outcome_ok_def)
  ultimately show ?thesis using that [OF m c a] by simp
qed

lemma attempt_call_order_spec:
  assumes "run_attempt env t entry name attempt s = (s', out)"
  shows "\<exists>cs n body down. run_log s' = run_log s @ cs @
           map (\<lambda>h. Called (Hook_Call Before_Each h)) (take n (ts_before_each t)) @ body @
           map (\<lambda>h. Called (Hook_Call After_Each h)) (ts_after_each t) @ down \<and>
         list_all is_setup_call cs \<and> n \<le> length (ts_before_each t) \<and>
         (body = [] \<or> body = [Called (Body_Call name (entry_fn entry) attempt)] \<and> n = length (ts_before_each t)) \<and>
         (att_status out = Passed \<longrightarrow> body \<noteq> []) \<and>
         (down = [] \<or> down = [Called (Teardown_Fixtures name)]) \<and> (entry_fixtures entry \<and> body \<noteq> [] \<longrightarrow> down \<noteq> [])"
proof -
  obtain s1 thrown up s2 out2 s3 out3 where
    m: "attempt_main env t entry name attempt
       (ts_replay_setup t \<and> (attempt > 0 \<or> setup_broken s \<or> fresh_start_pending s)) s = (s1, thrown, up)"
    and c: "attempt_catch env t name thrown s1 = (s2, out2)"
    and a: "run_after_each env t name (ts_after_each t) out2 s2 = (s3, out3)"
    and log: "run_log s' = run_log s3 @ (if up then [Called (Teardown_Fixtures name)] else [])"
    and passed: "att_status out = Passed \<Longrightarrow> thrown = None"
    using run_attemptE [OF assms] by metis
  obtain cs n body where main: "run_log s1 = run_log s @ cs @ map (\<lambda>h. Called (Hook_Call Before_Each h)) (take n (ts_before_each t)) @ body"
    and cs: "list_all is_setup_call cs" and n: "n \<le> length (ts_before_each t)"
    and body: "body = [] \<or> body = [Called (Body_Call name (entry_fn entry) attempt)] \<and> n = length (ts_before_each t)"
    and ran: "thrown = None \<Longrightarrow> body \<noteq> []" and up: "entry_fixtures entry \<Longrightarrow> body \<noteq> [] \<Longrightarrow> up"
    using attempt_main_log [OF m] by metis
  show ?thesis
    using log main cs n body ran up passed catch_outcome(3) [OF c] run_after_each_log [OF a]
    by (intro exI [of _ cs] exI [of _ n] exI [of _ body] exI [of _ "if up then [Called (Teardown_Fixtures name)] else []"]) auto
qed


lemmas attempt_eval = run_attempt_def attempt_main_def attempt_resets_def attempt_catch_def attempt_unhandled_def
  attempt_soft_errors_def attempt_artifacts_def screenshot_if_def and_then_def call_env_def capture_env_def aborted_def
  should_record_def should_retain_def Let_def


section \<open>The final result of a test\<close>

fun is_body_call :: "run_event \<Rightarrow> bool" where
  "is_body_call (Called (Body_Call _ _ _)) = True"
| "is_body_call _ = False"

definition body_calls :: "'w runner_state \<Rightarrow> nat" where
  "body_calls s = length (filter is_body_call (run_log s))"

lemma setup_no_body: "list_all is_setup_call cs \<Longrightarrow> filter is_body_call cs = []"
  by (induction cs) (auto elim!: is_setup_call.elims)

lemma attempt_body_calls:
  assumes "run_attempt env t entry name attempt s = (s', out)"
  shows "body_calls s' \<le> Suc (body_calls s)"
proof -
  from attempt_call_order_spec [OF assms] obtain cs n body down where
    log: "run_log s' = run_log s @ cs @ map (\<lambda>h. Called (Hook_Call Before_Each h)) (take n (ts_before_each t)) @ body @
           map (\<lambda>h. Called (Hook_Call After_Each h)) (ts_after_each t) @ down"
    and cs: "list_all is_setup_call cs"
    and b: "body = [] \<or> body = [Called (Body_Call name (entry_fn entry) attempt)] \<and> n = length (ts_before_each t)"
    and d: "down = [] \<or> down = [Called (Teardown_Fixtures name)]" by blast
  from b d have body: "length body \<le> 1" and down: "filter is_body_call down = []" by auto
  have "filter is_body_call (map (\<lambda>h. Called (Hook_Call k h)) hs) = []" for k hs by (induction hs) auto
  moreover have "length (filter is_body_call body) \<le> 1" using body length_filter_le le_trans by blast
  ultimately show ?thesis by (simp add: body_calls_def log setup_no_body [OF cs] down)
qed

lemma report_body_calls [simp]: "body_calls (report_result r s) = body_calls s"
  by (simp add: body_calls_def report_result_def)

lemma run_attempts_spec:
  "run_attempts env t entry name i left first s = (s', out, la, first') \<Longrightarrow>
     i \<le> la \<and> la \<le> i + left \<and> outcome_ok out \<and>
     (i < la \<longrightarrow> first' \<noteq> None) \<and>
     (first \<noteq> None \<longrightarrow> first' = first) \<and>
     (first = None \<longrightarrow> first' \<noteq> None \<longrightarrow> att_error (the first') \<noteq> None \<and> (att_status out \<noteq> Failed \<longrightarrow> i < la)) \<and>
     (att_status out = Failed \<longrightarrow> la < i + left \<longrightarrow> aborted env s' \<or> (\<exists>e. att_error out = Some e \<and> aborts_file env e)) \<and>
     body_calls s' \<le> body_calls s + Suc (la - i)"
proof (induction env t entry name i left first s arbitrary: s' out la first' rule: run_attempts.induct)
  case (1 env t entry name i left first s)
  obtain s1 o1 where a: "run_attempt env t entry name i s = (s1, o1)" by fastforce
  have ok: "outcome_ok o1" using run_attemptE [OF a] by metis
  note bodies = attempt_body_calls [OF a]
  consider (stop) "att_status o1 \<noteq> Failed \<or> left = 0 \<or> aborted env s1"
    | (abort_file) "\<not> (att_status o1 \<noteq> Failed \<or> left = 0 \<or> aborted env s1)" "case att_error o1 of None \<Rightarrow> False | Some e \<Rightarrow> aborts_file env e"
    | (again) "\<not> (att_status o1 \<noteq> Failed \<or> left = 0 \<or> aborted env s1)" "\<not> (case att_error o1 of None \<Rightarrow> False | Some e \<Rightarrow> aborts_file env e)"
    by blast
  then show ?case
  proof cases
    case stop
    with "1.prems" a have "s' = s1" "out = o1" "la = i" "first' = first"
      by (auto simp: run_attempts.simps [of env t entry name i])
    with ok bodies stop show ?thesis by auto
  next
    case abort_file
    with "1.prems" a have "s' = s1" "out = o1" "la = i" "first' = first"
      by (auto simp: run_attempts.simps [of env t entry name i])
    with ok bodies abort_file show ?thesis by (auto split: option.splits)
  next
    case again
    with ok have err: "att_error o1 \<noteq> None" by (simp add: outcome_ok_def)
    define f where "f = (if first = None \<and> att_error o1 \<noteq> None then Some o1 else first)"
    have f: "f \<noteq> None" "first \<noteq> None \<Longrightarrow> f = first" "first = None \<Longrightarrow> f = Some o1" using err by (auto simp: f_def)
    define s2 where "s2 = report_result (intermediate_result t entry name i o1) s1"
    show ?thesis
    proof (cases "aborted env s2")
      case True
      with "1.prems" a again have "s' = s2" "out = o1" "la = i" "first' = f"
        by (auto simp: run_attempts.simps [of env t entry name i] s2_def f_def Let_def)
      with True ok bodies f err again show ?thesis by (auto simp: s2_def)
    next
      case False
      with "1.prems" a again have rest: "run_attempts env t entry name (i + 1) (left - 1) f s2 = (s', out, la, first')"
        by (simp add: run_attempts.simps [of env t entry name i] s2_def f_def Let_def)
      have ih: "i + 1 \<le> la \<and> la \<le> i + 1 + (left - 1) \<and> outcome_ok out \<and>
          (i + 1 < la \<longrightarrow> first' \<noteq> None) \<and> (f \<noteq> None \<longrightarrow> first' = f) \<and>
          (f = None \<longrightarrow> first' \<noteq> None \<longrightarrow> att_error (the first') \<noteq> None \<and> (att_status out \<noteq> Failed \<longrightarrow> i + 1 < la)) \<and>
          (att_status out = Failed \<longrightarrow> la < i + 1 + (left - 1) \<longrightarrow> aborted env s' \<or> (\<exists>e. att_error out = Some e \<and> aborts_file env e)) \<and>
          body_calls s' \<le> body_calls s2 + Suc (la - (i + 1))"
        by (rule "1.IH" [OF a [symmetric] refl again f_def s2_def False rest])
      have b: "body_calls s2 = body_calls s1" by (simp add: s2_def)
      have left: "i + 1 + (left - 1) = i + left" using again(1) by simp
      have n: "body_calls s' \<le> body_calls s + Suc (la - i)" using ih b bodies by linarith
      show ?thesis
        using ih f err n unfolding left by (cases "first = None") (simp_all add: Suc_le_eq less_imp_le)
    qed
  qed
qed



end
