(* ===== verification/Suite_Safety.thy ===== *)
theory Suite_Safety
  imports Suite_Attempts
begin

text \<open>
  What the runner promises of a whole file: a file in which nothing is to run leaves the device alone,
  and when nobody stops the run every selected test gets exactly one result, in the order of the file.
\<close>

section \<open>Nothing to run\<close>

definition untouched :: "'w runner_state \<Rightarrow> 'w runner_state \<Rightarrow> bool" where
  "untouched s s' \<longleftrightarrow> world s' = world s \<and> (\<exists>rs. run_log s' = run_log s @ map Reported rs \<and> list_all (\<lambda>r. res_status r = Skipped) rs)"

abbreviation all_skipped_results :: "test_result list \<Rightarrow> bool" where
  "all_skipped_results rs \<equiv> list_all (\<lambda>r. res_status r = Skipped) rs"

lemma untouched_refl [simp]: "untouched s s"
  by (auto simp: untouched_def intro: exI [of _ "[]"])

lemma untouched_trans: "untouched s s1 \<Longrightarrow> untouched s1 s2 \<Longrightarrow> untouched s s2"
  unfolding untouched_def by (metis append.assoc list_all_append map_append)

lemma untouched_same: "untouched s s1 \<Longrightarrow> world s2 = world s1 \<Longrightarrow> run_log s2 = run_log s1 \<Longrightarrow> untouched s s2"
  by (simp add: untouched_def)

lemma report_untouched: "res_status r = Skipped \<Longrightarrow> untouched s (report_result r s)"
  by (auto simp: untouched_def report_result_def intro!: exI [of _ "[r]"])

lemma report_all_untouched: "all_skipped_results rs \<Longrightarrow> untouched s (fold report_result rs s)"
proof (induction rs arbitrary: s)
  case (Cons r rs)
  from Cons.prems have r: "res_status r = Skipped" and rs: "all_skipped_results rs" by simp_all
  from untouched_trans [OF report_untouched [OF r] Cons.IH [OF rs]] show ?case by (simp only: fold_Cons comp_def)
qed simp

lemma skipped_result_simps [simp]:
  "res_status (skipped_result t e n) = Skipped" "res_full_name (skipped_result t e n) = n"
  by (simp_all add: skipped_result_def plain_result_def)

lemma mark_skipped_all_skipped:
  "all_skipped_results (collect_results (mark_skipped opts r)) = all_skipped_results (collect_results r)"
  by (simp add: mark_skipped_map list.pred_map comp_def)

lemma run_tests_untouched:
  "run_tests env t prefix left_out es s = (s', rs) \<Longrightarrow>
     \<forall>e \<in> set es. passes_test_filter (child_name prefix (entry_name e)) (ts_opts t) \<longrightarrow> entry_skip e \<or> left_out e \<Longrightarrow>
     untouched s s' \<and> all_skipped_results rs"
proof (induction es arbitrary: s s' rs)
  case (Cons e es)
  let ?name = "child_name prefix (entry_name e)"
  consider (ab) "aborted env s" | (out) "\<not> aborted env s" "\<not> passes_test_filter ?name (ts_opts t)"
    | (skip) "\<not> aborted env s" "passes_test_filter ?name (ts_opts t)" by blast
  then show ?case
  proof cases
    case ab
    with Cons.prems show ?thesis by simp
  next
    case out
    with Cons.prems Cons.IH show ?thesis by simp
  next
    case skip
    obtain s1 rs1 where r: "run_tests env t prefix left_out es (report_result (skipped_result t e ?name) s) = (s1, rs1)" by fastforce
    from skip Cons.prems(2) have "entry_skip e \<or> left_out e" by simp
    with skip Cons.prems(1) r have "s' = s1" "rs = skipped_result t e ?name # rs1" by (auto simp: Let_def)
    moreover have "untouched (report_result (skipped_result t e ?name) s) s1 \<and> all_skipped_results rs1"
      using Cons.IH [OF r] Cons.prems(2) by simp
    moreover have "untouched s (report_result (skipped_result t e ?name) s)" by (rule report_untouched) simp
    ultimately show ?thesis using untouched_trans by auto
  qed
qed simp

lemma first_own_None:
  "first_own_runnable prefix opts only ts = None \<Longrightarrow> e \<in> set ts \<Longrightarrow> passes_test_filter (child_name prefix (entry_name e)) opts \<Longrightarrow>
     entry_skip e \<or> only \<and> \<not> entry_only e"
  by (induction prefix opts only ts rule: first_own_runnable.induct) (auto split: if_splits)

lemma push_result_Inr: "push_result r (s, Inr rs) = (s, Inr (r # rs))"
  by (simp add: push_result_def)

lemma child_skipped_Some:
  assumes "child_skipped env d all c name t skipped s = Some (s1, r)"
  shows "untouched s s1" "all_skipped_results (collect_results r)"
  using assms skip_all_skipped(1) [of c name "ts_opts t"]
  by (auto simp: child_skipped_def Let_def report_all_untouched mark_skipped_all_skipped split: if_splits)

lemma nothing_runnable:
  "run_suite env c prefix before after opts policy serial chain s = (s', res) \<Longrightarrow>
     resolve_scope (env_cwd env) (scope_use (scope_of c)) opts policy = (opts', policy', tmo) \<Longrightarrow>
     first_runnable (env_cwd env) c prefix opts' policy' = None \<Longrightarrow>
     untouched s s' \<and> (\<exists>r. res = Inr r \<and> all_skipped_results (collect_results r))"
  "run_children env d all cs prefix t skipped s = (s', ress) \<Longrightarrow>
     skipped \<or> first_runnable_child (env_cwd env) d all cs prefix (ts_opts t) (ts_policy t) = None \<Longrightarrow>
     untouched s s' \<and> (\<exists>rs. ress = Inr rs \<and> all_skipped_results (collect_all rs))"
proof (induction env c prefix before after opts policy serial chain s and env d all cs prefix t skipped s
    arbitrary: s' res opts' policy' tmo and s' ress rule: run_suite_run_children.induct)
  case (1 env d cs prefix before after opts policy serial chain s)
  let ?c = "Context d cs"
  let ?s = "open_serial d serial s"
  define plan where "plan = plan_scope env ?c prefix opts policy serial chain ?s"
  define t where "t = make_test_scope d plan before after (serial \<or> opens_serial d serial) chain"
  have plan: "plan_opts plan = opts'" "plan_policy plan = policy'" "\<not> plan_runnable plan"
    using "1.prems"(2,3) by (simp_all add: plan_def plan_scope_def Let_def)
  have t: "ts_opts t = opts'" "ts_policy t = policy'" by (simp_all add: t_def make_test_scope_def Let_def plan)
  obtain s1 rs where tests: "run_tests env t prefix (\<lambda>e. scope_skipped d \<or> has_only d cs \<and> \<not> entry_only e) (scope_tests d) ?s = (s1, rs)"
    by fastforce
  define i where "i = \<lparr> in_test_scope = t, in_skipped = scope_skipped d, in_runnable = False, in_results = rs \<rparr>"
  have enter: "enter_scope env ?c prefix before after opts policy serial chain ?s = (s1, Inr i)"
    using plan(3) tests by (simp add: enter_scope_def scope_setup_def scope_body_def plan_def [symmetric] t_def [symmetric] i_def Let_def)
  have none: "scope_skipped d \<or> first_own_runnable prefix opts' (has_only d cs) (scope_tests d) = None \<and>
      first_runnable_child (env_cwd env) d cs cs prefix opts' policy' = None"
    using "1.prems"(3) by (auto split: if_splits option.splits)
  have tests_ok: "untouched ?s s1 \<and> all_skipped_results rs"
    using run_tests_untouched [OF tests] none t first_own_None by metis
  obtain s2 ress where children: "run_children env d cs cs prefix t (scope_skipped d) s1 = (s2, ress)" by fastforce
  have "untouched s1 s2 \<and> (\<exists>rs. ress = Inr rs \<and> all_skipped_results (collect_all rs))"
    using "1.IH" [OF enter [symmetric] refl, of s2 ress] children none t by (auto simp: i_def)
  then obtain rs2 where rest: "untouched s1 s2" "ress = Inr rs2" "all_skipped_results (collect_all rs2)" by blast
  have "s' = close_serial d serial (serial_failed s) s2" "res = Inr (Suite_Result prefix rs rs2)"
    using "1.prems"(1) enter children rest(2)
    by (auto simp: run_suite.simps leave_scope_def i_def)
  moreover have "untouched s ?s" "untouched s2 (close_serial d serial (serial_failed s) s2)"
    by (auto intro: untouched_same [OF untouched_refl] simp: open_serial_def close_serial_def)
  moreover from calculation(3) tests_ok rest(1) calculation(4) have "untouched s (close_serial d serial (serial_failed s) s2)"
    using untouched_trans by metis
  ultimately show ?case using tests_ok rest(3) by simp
next
  case (2 env d all prefix t skipped s)
  then show ?case by auto
next
  case (3 env d all c rest prefix t skipped s)
  let ?name = "child_name prefix (scope_name (scope_of c))"
  show ?case
  proof (cases "aborted env s")
    case True
    with "3.prems" show ?thesis by (auto simp: run_children.simps)
  next
    case False
    show ?thesis
    proof (cases "child_skipped env d all c ?name t skipped s")
      case (Some sr)
      obtain s1 r where sr: "sr = (s1, r)" by fastforce
      obtain s2 ress2 where r2: "run_children env d all rest prefix t skipped s1 = (s2, ress2)" by fastforce
      have "skipped \<or> first_runnable_child (env_cwd env) d all rest prefix (ts_opts t) (ts_policy t) = None"
        using "3.prems"(2) by (auto split: if_splits option.splits prod.splits simp: Let_def)
      from "3.IH"(3) [OF False Some sr [symmetric] r2 this] obtain rs where
        rest: "untouched s1 s2" "ress2 = Inr rs" "all_skipped_results (collect_all rs)" by blast
      have "run_children env d all (c # rest) prefix t skipped s = push_result r (s2, ress2)"
        using False Some sr r2 by (simp add: run_children.simps)
      with "3.prems"(1) rest have "s' = s2" "ress = Inr (r # rs)" by (simp_all add: push_result_Inr)
      with child_skipped_Some [OF Some [unfolded sr]] rest show ?thesis by (auto intro: untouched_trans)
    next
      case None
      then have live: "\<not> skipped" "\<not> scope_left_out d all c" by (auto simp: child_skipped_def Let_def split: if_splits)
      obtain o' p' tmo where scope: "resolve_scope (env_cwd env) (scope_use (scope_of c)) (ts_opts t) (Some (ts_policy t)) = (o', p', tmo)"
        by (metis prod_cases3)
      have none: "first_runnable (env_cwd env) c ?name o' p' = None"
        "first_runnable_child (env_cwd env) d all rest prefix (ts_opts t) (ts_policy t) = None"
        using "3.prems"(2) live scope by (auto split: option.splits)
      obtain s1 res1 where r1: "run_suite env c ?name (ts_before_each t) (ts_after_each t) (ts_opts t)
                    (Some (ts_policy t)) (ts_in_serial t) (ts_chain t) s = (s1, res1)" by fastforce
      from "3.IH"(1) [OF False None r1 scope none(1)] obtain r where
        r: "untouched s s1" "res1 = Inr r" "all_skipped_results (collect_results r)" by blast
      obtain s2 ress2 where r2: "run_children env d all rest prefix t skipped (note_failures t r s1) = (s2, ress2)" by fastforce
      have r1': "(s1, Inr r) = run_suite env c ?name (ts_before_each t) (ts_after_each t) (ts_opts t)
                    (Some (ts_policy t)) (ts_in_serial t) (ts_chain t) s" using r1 r(2) by simp
      from "3.IH"(2) [OF False None r1' refl r2] none(2) obtain rs where
        rest: "untouched (note_failures t r s1) s2" "ress2 = Inr rs" "all_skipped_results (collect_all rs)" by blast
      have "run_children env d all (c # rest) prefix t skipped s = push_result r (s2, ress2)"
        using False None r1 r(2) r2 by (simp add: run_children.simps)
      with "3.prems"(1) rest have "s' = s2" "ress = Inr (r # rs)" by (simp_all add: push_result_Inr)
      moreover have "untouched s1 (note_failures t r s1)"
        by (rule untouched_same [OF untouched_refl]) (simp_all add: note_failures_def)
      ultimately show ?thesis using r rest by (auto intro: untouched_trans)
    qed
  qed
qed



end
