(* ===== verification/Suite_Results.thy ===== *)
theory Suite_Results
  imports Suite_Attempts
begin

text \<open>
  A file whose run nobody stops: every test the selection keeps gets exactly one result, in the order
  of the file, whatever hooks, bodies, resets and fixtures do.
\<close>

section \<open>Runs nobody stops\<close>

text \<open>No stop signal, no embedder that ends the file on an error, no call that reports an abort.\<close>

definition steady :: "'w runner_env \<Rightarrow> bool" where
  "steady env \<longleftrightarrow> (\<forall>w. \<not> is_aborted env w) \<and> abort_file_on_error env = None \<and>
     (\<forall>c w e. snd (do_call env c w) = Some e \<longrightarrow> err_kind e \<noteq> Test_Aborted) \<and>
     (\<forall>w e. e \<in> set (snd (unhandled env w)) \<longrightarrow> err_kind e \<noteq> Test_Aborted)"

lemma steady_aborted: "steady env \<Longrightarrow> aborted env s = file_aborted s"
  by (simp add: steady_def aborted_def)

lemma steady_aborts_file: "steady env \<Longrightarrow> \<not> aborts_file env e"
  by (simp add: steady_def aborts_file_def)

lemma steady_call: "steady env \<Longrightarrow> call_env env c s = (s', Some e) \<Longrightarrow> err_kind e \<noteq> Test_Aborted"
  unfolding steady_def call_env_def by (metis (mono_tags, lifting) prod.collapse prod.inject split_beta)

section \<open>Only the end of a file sets its abort flag\<close>

lemma call_env_flag [simp]: "file_aborted (fst (call_env env c s)) = file_aborted s"
  by (simp add: call_env_def split: prod.splits)

lemma call_env_flagD: "call_env env c s = (s', e) \<Longrightarrow> file_aborted s' = file_aborted s"
  using call_env_flag [of env c s] by simp

lemma report_flag [simp]: "file_aborted (report_result r s) = file_aborted s"
  by (simp add: report_result_def)

lemma report_all_flag [simp]: "file_aborted (fold report_result rs s) = file_aborted s"
  by (induction rs arbitrary: s) simp_all

lemma run_hooks_flag: "run_hooks env k hs s = (s', e) \<Longrightarrow> file_aborted s' = file_aborted s"
  by (induction env k hs s rule: run_hooks.induct) (auto split: prod.splits option.splits dest: call_env_flagD)

lemma teardown_hooks_flag: "teardown_hooks env hs s = (s', e) \<Longrightarrow> file_aborted s' = file_aborted s"
  by (induction env hs s rule: teardown_hooks.induct) (auto split: prod.splits option.splits if_splits dest: call_env_flagD)

lemma run_after_all_flag [simp]: "file_aborted (run_after_all env hs s) = file_aborted s"
  by (induction env hs s rule: run_after_all.induct) simp_all

lemma step_reset_flag:
  "(case step_reset st of None \<Rightarrow> (s, None)
      | Some p \<Rightarrow> (case call_env env (Reset_Call p True) s of
           (s', Some e) \<Rightarrow> (s', Some e)
         | (s', None) \<Rightarrow> (s'\<lparr> applied_policy := Some p \<rparr>, None))) = (s1, e1) \<Longrightarrow> file_aborted s1 = file_aborted s"
  by (auto split: option.splits prod.splits dest: call_env_flagD)

lemma rebuild_steps_flag: "rebuild_steps env sts s = (s', e) \<Longrightarrow> file_aborted s' = file_aborted s"
proof (induction sts arbitrary: s)
  case (Cons st sts)
  obtain s1 e1 where r: "(case step_reset st of None \<Rightarrow> (s, None)
      | Some p \<Rightarrow> (case call_env env (Reset_Call p True) s of
           (s', Some e) \<Rightarrow> (s', Some e)
         | (s', None) \<Rightarrow> (s'\<lparr> applied_policy := Some p \<rparr>, None))) = (s1, e1)" by fastforce
  obtain s2 e2 where h: "run_hooks env Before_All (step_before_all st) s1 = (s2, e2)" by fastforce
  show ?case
    using Cons r h step_reset_flag [OF r] run_hooks_flag [OF h] by (cases e1; cases e2) auto
qed simp

lemma run_retry_setup_flag:
  assumes "run_retry_setup env chain s = (s', e)"
  shows "file_aborted s' = file_aborted s"
proof -
  obtain s1 e1 where t: "run_retry_teardown env chain s = (s1, e1)" by fastforce
  have s1: "file_aborted s1 = file_aborted s"
    using t by (auto simp: run_retry_teardown_def Let_def dest: teardown_hooks_flag)
  obtain s2 e2 where r: "rebuild_steps env chain s1 = (s2, e2)" by fastforce
  show ?thesis
    using assms t r s1 rebuild_steps_flag [OF r]
    by (auto simp: run_retry_setup_def run_retry_rebuild_def split: option.splits)
qed

lemma and_then_flag:
  assumes "and_then r f = (s', e)" and "\<And>s1 s2 e. f s1 = (s2, e) \<Longrightarrow> file_aborted s2 = file_aborted s1"
  shows "file_aborted s' = file_aborted (fst r)"
  using assms by (cases r; cases "snd r") (auto simp: and_then_def)

lemma attempt_resets_flag:
  assumes "attempt_resets env t name attempt b s = (s', e)"
  shows "file_aborted s' = file_aborted s"
proof -
  have "file_aborted s' = file_aborted (fst (if b then run_retry_setup env (ts_chain t) s else (s, None)))"
    using assms unfolding attempt_resets_def
  proof (rule and_then_flag)
    fix s1 s2 e
    assume "and_then (if scope (ts_policy t) = Test_Scope \<and> ts_can_reset t
               then and_then (call_env env (Reset_Call (ts_policy t) (attempt > 0)) s1)
                      (\<lambda>s. (s\<lparr> applied_policy := Some (ts_policy t) \<rparr>, None))
               else (s1, None)) (\<lambda>s.
     if opt_before_each_test (ts_opts t) then call_env env (Before_Each_Test name) s else (s, None)) = (s2, e)"
    then have "file_aborted s2 = file_aborted (fst (if scope (ts_policy t) = Test_Scope \<and> ts_can_reset t
               then and_then (call_env env (Reset_Call (ts_policy t) (attempt > 0)) s1)
                      (\<lambda>s. (s\<lparr> applied_policy := Some (ts_policy t) \<rparr>, None))
               else (s1, None)))"
      by (rule and_then_flag) (auto split: if_splits dest: call_env_flagD)
    also have "\<dots> = file_aborted s1"
      by (auto simp: and_then_def split: prod.splits option.splits dest: call_env_flagD)
    finally show "file_aborted s2 = file_aborted s1" .
  qed
  also have "\<dots> = file_aborted s"
    using run_retry_setup_flag [of env "ts_chain t" s "fst (run_retry_setup env (ts_chain t) s)" "snd (run_retry_setup env (ts_chain t) s)"]
    by simp
  finally show ?thesis .
qed

lemma attempt_main_flag:
  assumes "attempt_main env t entry name attempt b s = (s', e, up)"
  shows "file_aborted s' = file_aborted s"
proof -
  obtain s1 e1 where r: "attempt_resets env t name attempt b s = (s1, e1)" by fastforce
  obtain s2 e2 where f: "(if entry_fixtures entry then call_env env (Setup_Fixtures name) s1 else (s1, None)) = (s2, e2)" by fastforce
  obtain s3 e3 where h: "run_hooks env Before_Each (ts_before_each t) s2 = (s3, e3)" by fastforce
  have "file_aborted s2 = file_aborted s1" using f by (auto split: if_splits dest: call_env_flagD)
  with assms r f h attempt_resets_flag [OF r] run_hooks_flag [OF h] show ?thesis
    by (cases e1; cases e2; cases e3) (auto simp: attempt_main_def and_then_def Let_def split: prod.splits dest: call_env_flagD)
qed

lemma run_after_each_flag: "file_aborted (fst (run_after_each env t name hs out s)) = file_aborted s"
proof (induction env t name hs out s rule: run_after_each.induct)
  case (2 env t name h hs out s)
  obtain s1 e1 where c: "call_env env (Hook_Call After_Each h) s = (s1, e1)" by fastforce
  note flag = call_env_flagD [OF c]
  show ?case
  proof (cases e1)
    case None
    with "2.IH"(1) [OF c [symmetric] None] c flag show ?thesis by simp
  next
    case (Some e)
    consider (skip) "err_kind e = Test_Skip" | (late) "err_kind e \<noteq> Test_Skip" "err_kind e = Runner_Timeout \<and> \<not> aborted env s1"
      | (other) "err_kind e \<noteq> Test_Skip" "\<not> (err_kind e = Runner_Timeout \<and> \<not> aborted env s1)" by blast
    then show ?thesis
    proof cases
      case skip
      with "2.IH"(2) [OF c [symmetric] Some skip] c Some flag show ?thesis by simp
    next
      case late
      define out1 where "out1 = (case att_error out of
                             Some e0 \<Rightarrow> if att_status out = Failed then out\<lparr> att_error := Some (append_message (err_message e) e0) \<rparr>
                                        else fail_outcome e out
                           | None \<Rightarrow> fail_outcome e out)"
      obtain s2 out2 where shot: "screenshot_if env (takes_failure_shot t out1 \<and> \<not> aborted env s1) name out1 s1 = (s2, out2)"
        by fastforce
      have "run_after_each env t name (h # hs) out s = run_after_each env t name hs out2 s2"
        using c Some late shot unfolding out1_def by (simp add: Let_def)
      with "2.IH"(3) [OF c [symmetric] Some late(1,2) refl shot [symmetric, unfolded out1_def] refl]
        screenshot_if_keeps(4) [OF shot] flag show ?thesis by simp
    next
      case other
      have "run_after_each env t name (h # hs) out s = run_after_each env t name hs out s1" using c Some other by auto
      with "2.IH"(4) [OF c [symmetric] Some other] flag show ?thesis by simp
    qed
  qed
qed simp

lemma stages_flag:
  "attempt_unhandled env t name out s = (s', out') \<Longrightarrow> file_aborted s' = file_aborted s"
  "attempt_soft_errors env t name out s = (s', out') \<Longrightarrow> file_aborted s' = file_aborted s"
  "attempt_artifacts env t name attempt out s = (s', out') \<Longrightarrow> file_aborted s' = file_aborted s"
  by (auto simp: attempt_unhandled_def attempt_soft_errors_def attempt_artifacts_def Let_def
      split: prod.splits if_splits dest: screenshot_if_keeps(4))

lemma run_attempt_flag:
  assumes "run_attempt env t entry name attempt s = (s', out)"
  shows "file_aborted s' = file_aborted s"
proof -
  obtain s1 thrown up where m: "attempt_main env t entry name attempt
       (ts_replay_setup t \<and> (attempt > 0 \<or> setup_broken s \<or> fresh_start_pending s)) s = (s1, thrown, up)" by (metis prod_cases3)
  obtain s2 out2 where c: "attempt_catch env t name thrown s1 = (s2, out2)" by fastforce
  obtain s3 out3 where a: "run_after_each env t name (ts_after_each t) out2 s2 = (s3, out3)" by fastforce
  define s4 where "s4 = (if up then fst (call_env env (Teardown_Fixtures name) s3) else s3)"
  obtain s5 out5 where u: "attempt_unhandled env t name out3 s4 = (s5, out5)" by fastforce
  obtain s6 out6 where f: "attempt_soft_errors env t name out5 s5 = (s6, out6)" by fastforce
  obtain s7 out7 where p: "screenshot_if env (att_status out6 = Passed \<and> cfg_screenshot (opt_config (ts_opts t)) = Screenshot_Always)
                         name out6 s6 = (s7, out7)" by fastforce
  have r: "attempt_artifacts env t name attempt out7 s7 = (s', out)"
    using assms m c a u f p unfolding run_attempt_def s4_def by (simp add: Let_def)
  have "file_aborted s4 = file_aborted s3" by (simp add: s4_def)
  with stages_flag(3) [OF r] screenshot_if_keeps(4) [OF p] stages_flag(2) [OF f] stages_flag(1) [OF u]
    run_after_each_flag [of env t name "ts_after_each t" out2 s2] catch_outcome(4) [OF c] attempt_main_flag [OF m] a
  show ?thesis by simp
qed

lemma run_attempts_flag:
  "run_attempts env t entry name i left first s = (s', out, la, first') \<Longrightarrow> file_aborted s' = file_aborted s"
proof (induction env t entry name i left first s arbitrary: s' out la first' rule: run_attempts.induct)
  case (1 env t entry name i left first s)
  obtain s1 o1 where a: "run_attempt env t entry name i s = (s1, o1)" by fastforce
  note flag = run_attempt_flag [OF a]
  define f where "f = (if first = None \<and> att_error o1 \<noteq> None then Some o1 else first)"
  define s2 where "s2 = report_result (intermediate_result t entry name i o1) s1"
  consider (stop) "s' = s1" | (cut) "s' = s2"
    | (again) "\<not> (att_status o1 \<noteq> Failed \<or> left = 0 \<or> aborted env s1)"
        "\<not> (case att_error o1 of None \<Rightarrow> False | Some e \<Rightarrow> aborts_file env e)" "\<not> aborted env s2"
        "run_attempts env t entry name (i + 1) (left - 1) f s2 = (s', out, la, first')"
    using "1.prems" a unfolding f_def s2_def
    by (simp only: run_attempts.simps [of env t entry name i] Let_def split_conv split: if_splits) blast+
  then show ?case
  proof cases
    case again
    have "file_aborted s' = file_aborted s2"
      by (rule "1.IH" [OF a [symmetric] refl again(1,2) f_def s2_def again(3,4)])
    then show ?thesis using flag by (simp add: s2_def)
  qed (use flag in \<open>simp_all add: s2_def\<close>)
qed

section \<open>The results of a scope\<close>

lemma final_result_name [simp]: "res_full_name (final_result t entry name out la first) = name"
  by (simp add: final_result_def Let_def)

lemma run_test_steady:
  assumes "run_test env t entry name s = (s', r, stop)" and "steady env"
  shows "res_full_name r = name" "\<not> stop" "file_aborted s' = file_aborted s"
proof -
  obtain s1 out la first where a: "run_attempts env t entry name 0 (cfg_retries (opt_config (ts_opts t))) None s = (s1, out, la, first)"
    by (metis prod_cases4)
  show "res_full_name r = name" "\<not> stop" "file_aborted s' = file_aborted s"
    using assms a run_attempts_flag [OF a] steady_aborts_file [OF assms(2)]
    by (auto simp: run_test_def Let_def split: option.splits)
qed

lemma skipped_result_name [simp]: "res_full_name (skipped_result t e n) = n"
  by (simp add: skipped_result_def plain_result_def)

lemma run_tests_steady:
  assumes "steady env"
  shows "run_tests env t prefix left_out es s = (s', rs) \<Longrightarrow> \<not> file_aborted s \<Longrightarrow>
     \<not> file_aborted s' \<and> map res_full_name rs = map (\<lambda>e. child_name prefix (entry_name e)) (selected_entries prefix (ts_opts t) es)"
proof (induction es arbitrary: s s' rs)
  case Nil
  then show ?case by (simp add: selected_entries_def)
next
  case (Cons e es)
  let ?name = "child_name prefix (entry_name e)"
  have live: "\<not> aborted env s" using Cons.prems(2) steady_aborted [OF assms] by simp
  consider (out) "\<not> passes_test_filter ?name (ts_opts t)"
    | (skip) "passes_test_filter ?name (ts_opts t)" "entry_skip e \<or> left_out e \<or> (ts_in_serial t \<and> serial_failed s)"
    | (runs) "passes_test_filter ?name (ts_opts t)" "\<not> (entry_skip e \<or> left_out e \<or> (ts_in_serial t \<and> serial_failed s))" by blast
  then show ?case
  proof cases
    case out
    with Cons.prems live have "run_tests env t prefix left_out es s = (s', rs)" by simp
    from Cons.IH [OF this Cons.prems(2)] out show ?thesis by (simp add: selected_entries_def)
  next
    case skip
    obtain s1 rs1 where r: "run_tests env t prefix left_out es (report_result (skipped_result t e ?name) s) = (s1, rs1)" by fastforce
    from skip Cons.prems(1) live r have "s' = s1" "rs = skipped_result t e ?name # rs1" by (auto simp: Let_def)
    with Cons.IH [OF r] Cons.prems(2) skip show ?thesis by (simp add: selected_entries_def)
  next
    case runs
    obtain s1 r stop where t: "run_test env t e ?name s = (s1, r, stop)" by (metis prod_cases3)
    note one = run_test_steady [OF t assms]
    obtain s2 rs2 where rest: "run_tests env t prefix left_out es s1 = (s2, rs2)" by fastforce
    from runs Cons.prems(1) live t one rest have "s' = s2" "rs = r # rs2" by (auto simp: Let_def split: if_splits)
    with Cons.IH [OF rest] Cons.prems(2) one runs show ?thesis by (simp add: selected_entries_def)
  qed
qed

text \<open>No step of a scope's setup throws an abort.\<close>

lemma run_hooks_steady: "steady env \<Longrightarrow> run_hooks env k hs s = (s', Some e) \<Longrightarrow> err_kind e \<noteq> Test_Aborted"
  by (induction env k hs s rule: run_hooks.induct) (auto split: prod.splits option.splits dest: steady_call)

lemma teardown_hooks_steady: "steady env \<Longrightarrow> teardown_hooks env hs s = (s', Some e) \<Longrightarrow> err_kind e \<noteq> Test_Aborted"
  by (induction env hs s rule: teardown_hooks.induct) (auto split: prod.splits option.splits if_splits dest: steady_call)

lemma rebuild_steps_steady: "steady env \<Longrightarrow> rebuild_steps env sts s = (s', Some e) \<Longrightarrow> err_kind e \<noteq> Test_Aborted"
proof (induction sts arbitrary: s)
  case (Cons st sts)
  obtain s1 e1 where r: "(case step_reset st of None \<Rightarrow> (s, None)
      | Some p \<Rightarrow> (case call_env env (Reset_Call p True) s of
           (s', Some e) \<Rightarrow> (s', Some e)
         | (s', None) \<Rightarrow> (s'\<lparr> applied_policy := Some p \<rparr>, None))) = (s1, e1)" by fastforce
  have e1: "e1 = Some x \<Longrightarrow> err_kind x \<noteq> Test_Aborted" for x
    using r Cons.prems(1) by (auto split: option.splits prod.splits dest: steady_call)
  obtain s2 e2 where h: "run_hooks env Before_All (step_before_all st) s1 = (s2, e2)" by fastforce
  show ?case
  proof (cases e1)
    case (Some x)
    with e1 r Cons.prems(2) show ?thesis by simp
  next
    case None
    with Cons r h run_hooks_steady [OF Cons.prems(1), of Before_All "step_before_all st" s1 s2] show ?thesis
      by (cases e2) auto
  qed
qed simp

lemma run_retry_setup_steady:
  assumes "steady env" and "run_retry_setup env chain s = (s', Some e)"
  shows "err_kind e \<noteq> Test_Aborted"
  using assms(2) teardown_hooks_steady [OF assms(1)] rebuild_steps_steady [OF assms(1)]
  unfolding run_retry_setup_def run_retry_rebuild_def run_retry_teardown_def Let_def
  by (auto split: option.splits prod.splits)

lemma merge_unhandled_kind:
  "merge_unhandled_errors None errs = Some e \<Longrightarrow> \<exists>x \<in> set errs. err_kind e = err_kind x"
  by (cases errs) (auto simp: merge_unhandled_errors_def Let_def append_message_def split: if_splits)

lemma setup_hooks_steady:
  assumes "steady env" and "setup_hooks env hooks s = (s', r)"
  shows "r = Some e \<Longrightarrow> err_kind e \<noteq> Test_Aborted" "file_aborted s' = file_aborted s"
proof -
  obtain s1 e1 where h: "run_hooks env Before_All hooks s = (s1, e1)" by fastforce
  show "file_aborted s' = file_aborted s"
    using assms(2) h run_hooks_flag [OF h] by (auto simp: setup_hooks_def split: option.splits prod.splits)
  show "err_kind e \<noteq> Test_Aborted" if r: "r = Some e"
  proof (cases e1)
    case (Some x)
    with assms(2) h r run_hooks_steady [OF assms(1) h [unfolded Some]] show ?thesis by (simp add: setup_hooks_def)
  next
    case None
    obtain w errs where u: "unhandled env (world s1) = (w, errs)" by fastforce
    from assms(2) h None u r have "merge_unhandled_errors None errs = Some e" by (simp add: setup_hooks_def)
    from merge_unhandled_kind [OF this] u assms(1) show ?thesis unfolding steady_def by (metis snd_conv)
  qed
qed

lemma scope_setup_steady:
  assumes "steady env" and "scope_setup env plan chain is_root hooks s = (s', r)"
  shows "r = Some (e, b) \<Longrightarrow> err_kind e \<noteq> Test_Aborted" "file_aborted s' = file_aborted s"
proof -
  obtain s1 e1 where f: "(if plan_fresh_start plan then run_retry_setup env chain s else (s, None)) = (s1, e1)" by fastforce
  have k1: "file_aborted s1 = file_aborted s"
    using f run_retry_setup_flag [of env chain s s1 e1] by (cases "plan_fresh_start plan") simp_all
  have k1': "err_kind x \<noteq> Test_Aborted" if "e1 = Some x" for x
    using f that run_retry_setup_steady [OF assms(1), of chain s s1 x] by (cases "plan_fresh_start plan") simp_all
  obtain s2 e2 where g: "scope_reset env plan is_root s1 = (s2, e2)" by fastforce
  have k2: "file_aborted s2 = file_aborted s1"
    using g by (auto simp: scope_reset_def split: if_splits prod.splits option.splits dest: call_env_flagD)
  have k2': "err_kind x \<noteq> Test_Aborted" if "e2 = Some (x, y)" for x y
    using g that by (auto simp: scope_reset_def split: if_splits prod.splits option.splits dest: steady_call [OF assms(1)])
  obtain s3 e3 where h: "setup_hooks env hooks s2 = (s3, e3)" by fastforce
  note k3 = setup_hooks_steady [OF assms(1) h]
  have "(s', r) = (if \<not> plan_runnable plan then (s, None) else case e1 of Some e \<Rightarrow> (s1, Some (e, False)) | None \<Rightarrow>
      (case e2 of Some f \<Rightarrow> (s2, Some f) | None \<Rightarrow> (case e3 of Some e \<Rightarrow> (s3, Some (e, False)) | None \<Rightarrow> (s3, None))))"
    using assms(2) unfolding scope_setup_def f by (auto simp: g h split: option.splits)
  with k1 k1' k2 k2' k3 show "r = Some (e, b) \<Longrightarrow> err_kind e \<noteq> Test_Aborted" "file_aborted s' = file_aborted s"
    by (auto split: if_splits option.splits)
qed

lemma setup_failed_names:
  assumes "setup_failed env c prefix plan e s = (s', r)"
  shows "map res_full_name (collect_results r) = selected_names c prefix (plan_opts plan)" "file_aborted s' = file_aborted s"
proof -
  show "file_aborted s' = file_aborted s"
    using assms by (auto simp: setup_failed_def Let_def split: prod.splits if_splits)
  have "\<exists>shot trace. collect_results r = collect_results (fail_all c prefix e (plan_opts plan) shot trace)"
    using assms by (auto simp: setup_failed_def Let_def split: prod.splits; blast)
  then show "map res_full_name (collect_results r) = selected_names c prefix (plan_opts plan)"
    using fail_all_names(1) by metis
qed

lemma plan_scope_opts:
  "\<exists>cfg. plan_opts (plan_scope env c prefix opts policy serial chain s) = opts\<lparr> opt_config := cfg \<rparr>"
proof -
  have "plan_opts (plan_scope env c prefix opts policy serial chain s) =
      fst (resolve_scope (env_cwd env) (scope_use (scope_of c)) opts policy)"
    by (simp add: plan_scope_def Let_def split: prod.splits)
  then show ?thesis using resolve_scope_opts by metis
qed

text \<open>Entering a scope: it fails with all of its selected tests, or its own tests have their results.\<close>

definition entered_names ::
  "scope_data \<Rightarrow> suite_context list \<Rightarrow> string \<Rightarrow> run_options \<Rightarrow> (run_error + suite_result) + entered_scope \<Rightarrow> bool" where
  "entered_names d cs prefix opts res \<longleftrightarrow>
     (\<exists>r. res = Inl (Inr r) \<and> map res_full_name (collect_results r) = selected_names (Context d cs) prefix opts) \<or>
     (\<exists>i cfg. res = Inr i \<and> ts_opts (in_test_scope i) = opts\<lparr> opt_config := cfg \<rparr> \<and>
        map res_full_name (in_results i) = map (\<lambda>e. child_name prefix (entry_name e)) (selected_entries prefix opts (scope_tests d)))"

lemma enter_scope_steady:
  assumes "steady env" and "\<not> file_aborted s"
    and "enter_scope env (Context d cs) prefix before after opts policy serial chain s = (s', res)"
  shows "\<not> file_aborted s' \<and> entered_names d cs prefix opts res"
proof -
  define plan where "plan = plan_scope env (Context d cs) prefix opts policy serial chain s"
  define t where "t = make_test_scope d plan before after (serial \<or> opens_serial d serial) chain"
  obtain cfg where cfg: "plan_opts plan = opts\<lparr> opt_config := cfg \<rparr>" using plan_scope_opts plan_def by metis
  have t: "ts_opts t = opts\<lparr> opt_config := cfg \<rparr>" by (simp add: t_def make_test_scope_def Let_def cfg)
  obtain s1 e1 where u: "scope_setup env plan chain (prefix = []) (before_all d) s = (s1, e1)" by fastforce
  note su = scope_setup_steady [OF assms(1) u]
  have body: "\<not> file_aborted s2 \<and> (\<exists>i. r2 = Inr i \<and> in_test_scope i = t \<and>
      map res_full_name (in_results i) = map (\<lambda>e. child_name prefix (entry_name e)) (selected_entries prefix opts (scope_tests d)))"
    if b: "scope_body env (Context d cs) prefix t run skipped s1 = (s2, r2)" for run skipped s2 r2
  proof -
    obtain s3 rs where r: "run_tests env t prefix (\<lambda>e. (scope_skipped d \<or> skipped) \<or> has_only d cs \<and> \<not> entry_only e) (scope_tests d) s1 = (s3, rs)"
      by fastforce
    have "\<not> file_aborted s1" using su(2) assms(2) by simp
    from run_tests_steady [OF assms(1) r this] b r t show ?thesis by (auto simp: scope_body_def Let_def)
  qed
  show ?thesis
  proof (cases e1)
    case None
    then have "scope_body env (Context d cs) prefix t (plan_runnable plan) False s1 = (s', res)"
      using assms(3) u by (simp add: enter_scope_def Let_def plan_def [symmetric] t_def [symmetric])
    from body [OF this] t show ?thesis by (auto simp: entered_names_def)
  next
    case (Some eb)
    obtain e b where eb: "eb = (e, b)" by fastforce
    have live: "(err_kind e = Test_Aborted \<or> aborted env s1) = False" "aborts_file env e = False"
      using su assms(2) Some eb steady_aborted [OF assms(1)] steady_aborts_file [OF assms(1)] by auto
    have r: "(if err_kind e = Test_Skip then scope_body env (Context d cs) prefix t (plan_runnable plan) True s1
        else let (s2, r) = setup_failed env (Context d cs) prefix plan e s1 in (s2, Inl (Inr r))) = (s', res)"
      using assms(3)
      by (simp only: enter_scope_def Let_def suite_context.sel plan_def [symmetric] t_def [symmetric] u Some eb live prod.case
          option.case if_False simp_thms)
    show ?thesis
    proof (cases "err_kind e = Test_Skip")
      case True
      with r have "scope_body env (Context d cs) prefix t (plan_runnable plan) True s1 = (s', res)" by simp
      from body [OF this] t show ?thesis by (auto simp: entered_names_def)
    next
      case False
      obtain s2 r2 where f: "setup_failed env (Context d cs) prefix plan e s1 = (s2, r2)" by fastforce
      with r False have "s' = s2" "res = Inl (Inr r2)" by simp_all
      with setup_failed_names [OF f] su(2) assms(2) cfg show ?thesis by (simp add: entered_names_def)
    qed
  qed
qed

lemma child_skipped_steady:
  assumes "child_skipped env d all c name t skipped s = Some (s1, r)"
  shows "map res_full_name (collect_results r) = selected_names c name (ts_opts t)" "file_aborted s1 = file_aborted s"
  using assms by (auto simp: child_skipped_def Let_def mark_skipped_names skip_all_names split: if_splits)

text \<open>A run of a scope: all the selected tests below it have one result each, in order.\<close>

lemma run_suite_steady:
  "run_suite env c prefix before after opts policy serial chain s = (s', res) \<Longrightarrow> steady env \<Longrightarrow> \<not> file_aborted s \<Longrightarrow>
     \<not> file_aborted s' \<and> (\<exists>r. res = Inr r \<and> map res_full_name (collect_results r) = selected_names c prefix opts)"
  "run_children env d all cs prefix t skipped s = (s', ress) \<Longrightarrow> steady env \<Longrightarrow> \<not> file_aborted s \<Longrightarrow>
     \<not> file_aborted s' \<and> (\<exists>rs. ress = Inr rs \<and> map res_full_name (collect_all rs) = selected_names_children cs prefix (ts_opts t))"
proof (induction env c prefix before after opts policy serial chain s and env d all cs prefix t skipped s
    arbitrary: s' res and s' ress rule: run_suite_run_children.induct)
  case (1 env d cs prefix before after opts policy serial chain s)
  let ?s = "open_serial d serial s"
  have open_flag: "\<not> file_aborted ?s" using "1.prems"(3) by (simp add: open_serial_def)
  have close_flag: "file_aborted (close_serial d serial b x) = file_aborted x" for b and x :: "'a runner_state"
    by (simp add: close_serial_def)
  obtain s1 entered where e: "enter_scope env (Context d cs) prefix before after opts policy serial chain ?s = (s1, entered)"
    by fastforce
  note entry = enter_scope_steady [OF "1.prems"(2) open_flag e, unfolded entered_names_def]
  show ?case
  proof (cases entered)
    case (Inl r)
    with "1.prems"(1) e have "s' = close_serial d serial (serial_failed s) s1" "res = r" by (simp_all add: run_suite.simps)
    with entry Inl close_flag show ?thesis by auto
  next
    case (Inr i)
    with entry obtain cfg where opts: "ts_opts (in_test_scope i) = opts\<lparr> opt_config := cfg \<rparr>"
      and own: "map res_full_name (in_results i) = map (\<lambda>e. child_name prefix (entry_name e)) (selected_entries prefix opts (scope_tests d))"
      and flag: "\<not> file_aborted s1" by auto
    obtain s2 ress where r: "run_children env d cs cs prefix (in_test_scope i) (in_skipped i) s1 = (s2, ress)" by fastforce
    from "1.IH" [OF e [symmetric] Inr r "1.prems"(2) flag] opts obtain rs where
      below: "\<not> file_aborted s2" "ress = Inr rs" "map res_full_name (collect_all rs) = selected_names_children cs prefix opts" by auto
    have "res = Inr (Suite_Result prefix (in_results i) rs)" "file_aborted s' = file_aborted s2"
      using "1.prems"(1) e Inr r below(2) by (cases "in_runnable i"; auto simp: run_suite.simps leave_scope_def close_flag)+
    with own below show ?thesis by simp
  qed
next
  case (2 env d all prefix t skipped s)
  then show ?case by auto
next
  case (3 env d all c rest prefix t skipped s)
  let ?name = "child_name prefix (scope_name (scope_of c))"
  have live: "\<not> aborted env s" using "3.prems"(2,3) steady_aborted by blast
  show ?case
  proof (cases "child_skipped env d all c ?name t skipped s")
    case (Some sr)
    obtain s1 r where sr: "sr = (s1, r)" by fastforce
    note one = child_skipped_steady [OF Some [unfolded sr]]
    obtain s2 ress2 where r2: "run_children env d all rest prefix t skipped s1 = (s2, ress2)" by fastforce
    have "\<not> file_aborted s1" using one(2) "3.prems"(3) by simp
    from "3.IH"(3) [OF live Some sr [symmetric] r2 "3.prems"(2) this] obtain rs where
      below: "\<not> file_aborted s2" "ress2 = Inr rs" "map res_full_name (collect_all rs) = selected_names_children rest prefix (ts_opts t)" by blast
    have "run_children env d all (c # rest) prefix t skipped s = push_result r (s2, ress2)"
      using live Some sr r2 by (simp add: run_children.simps)
    with "3.prems"(1) below have "s' = s2" "ress = Inr (r # rs)" by (simp_all add: push_result_def)
    with below one(1) show ?thesis by simp
  next
    case None
    obtain s1 res1 where r1: "run_suite env c ?name (ts_before_each t) (ts_after_each t) (ts_opts t)
                    (Some (ts_policy t)) (ts_in_serial t) (ts_chain t) s = (s1, res1)" by fastforce
    from "3.IH"(1) [OF live None r1 "3.prems"(2,3)] obtain r where
      one: "\<not> file_aborted s1" "res1 = Inr r" "map res_full_name (collect_results r) = selected_names c ?name (ts_opts t)" by blast
    obtain s2 ress2 where r2: "run_children env d all rest prefix t skipped (note_failures t r s1) = (s2, ress2)" by fastforce
    have r1': "(s1, Inr r) = run_suite env c ?name (ts_before_each t) (ts_after_each t) (ts_opts t)
                    (Some (ts_policy t)) (ts_in_serial t) (ts_chain t) s" using r1 one(2) by simp
    have "\<not> file_aborted (note_failures t r s1)" using one(1) by (simp add: note_failures_def)
    from "3.IH"(2) [OF live None r1' refl r2 "3.prems"(2) this] obtain rs where
      below: "\<not> file_aborted s2" "ress2 = Inr rs" "map res_full_name (collect_all rs) = selected_names_children rest prefix (ts_opts t)" by blast
    have "run_children env d all (c # rest) prefix t skipped s = push_result r (s2, ress2)"
      using live None r1 one(2) r2 by (simp add: run_children.simps)
    with "3.prems"(1) below have "s' = s2" "ress = Inr (r # rs)" by (simp_all add: push_result_def)
    with below one(3) show ?thesis by simp
  qed
qed

lemma selected_names_project_use: "selected_names (with_project_use u c) prefix opts = selected_names c prefix opts"
  by (cases c; cases u) (simp_all add: with_project_use_def)


lemma flaky_steady: "steady flaky_env"
  by (auto simp: steady_def flaky_env_def calm_env_def split: call.splits nat.splits)


end
