(* ===== verification/Dispatch_Wave.thy ===== *)
theory Dispatch_Wave
  imports Projects Test_Tree "HOL-Library.Multiset"
begin

text \<open>
  The dispatch of a wave of test files over the workers of a parallel run (\<open>dispatchWaveInner\<close> in
  \<open>dispatcher.ts\<close>): an idle worker takes the next file of the queue, a worker that becomes unavailable
  gives its file back, and the wave ends when the queue and every worker are through or no worker is
  left. Every operation is a function on the wave's state; the worker processes are the step relation's
  environment, which may send any message, exit, break their channel at any time, or be shut down. The
  state logs what the reporter is told and what is sent to the workers.
\<close>

section \<open>Files, results and workers\<close>

record tagged_file =
  file_path :: string
  file_use :: "js_object option"
  file_project :: "string option"

record worker_handle =
  worker_id :: nat
  busy :: bool
  current_file :: "tagged_file option"
  retired :: bool

text \<open>A result with the worker it came from, and the suites workers return.\<close>

record reported =
  rep_result :: test_result
  rep_worker :: "nat option"

datatype reported_suite = Reported_Suite string (rs_tests: "reported list") (rs_suites: "reported_suite list")

text \<open>A base of 0 or none changes nothing; a result without a worker keeps none.\<close>

definition apply_worker_index_base :: "nat option \<Rightarrow> reported \<Rightarrow> reported" where
  "apply_worker_index_base base r =
     (case base of
        None \<Rightarrow> r
      | Some b \<Rightarrow> if b = 0 \<or> rep_worker r = None then r else r\<lparr> rep_worker := map_option (\<lambda>i. i + b) (rep_worker r) \<rparr>)"

fun apply_worker_index_base_to_suite :: "nat option \<Rightarrow> reported_suite \<Rightarrow> reported_suite"
  and apply_worker_index_base_to_all :: "nat option \<Rightarrow> reported_suite list \<Rightarrow> reported_suite list" where
  "apply_worker_index_base_to_suite base (Reported_Suite n ts ss) =
     (if base = None \<or> base = Some 0 then Reported_Suite n ts ss
      else Reported_Suite n (map (apply_worker_index_base base) ts) (apply_worker_index_base_to_all base ss))"
| "apply_worker_index_base_to_all base [] = []"
| "apply_worker_index_base_to_all base (s # ss) = apply_worker_index_base_to_suite base s # apply_worker_index_base_to_all base ss"

text \<open>What a worker process sends; every message carries the id of the worker that sends it.\<close>

datatype worker_message =
    Msg_Test_Start string
  | Msg_Test_End reported
  | Msg_File_Start
  | Msg_File_Retry string
  | Msg_File_Done string "reported list" reported_suite
  | Msg_Progress string
  | Msg_Error string

datatype wave_event =
    Sent_File nat tagged_file
  | File_Started string
  | Test_Started string nat
  | Test_Ended reported
  | File_Retried string nat
  | File_Ended string "reported list"
  | Progress_Printed nat string

datatype wave_outcome = Wave_Done | Wave_Failed string

record wave_state =
  wave_queue :: "tagged_file list"
  wave_workers :: "worker_handle list"
  test_counts :: "(nat, nat) jsmap"
  has_error :: bool
  settled :: bool
  wave_end :: "wave_outcome option"
  shutting_down :: bool
  all_results :: "reported list"
  all_suites :: "reported_suite list"
  wave_log :: "wave_event list"

definition log_event :: "wave_event \<Rightarrow> wave_state \<Rightarrow> wave_state" where
  "log_event e s = s\<lparr> wave_log := wave_log s @ [e] \<rparr>"

definition put_worker :: "nat \<Rightarrow> worker_handle \<Rightarrow> wave_state \<Rightarrow> wave_state" where
  "put_worker i w s = s\<lparr> wave_workers := (wave_workers s)[i := w] \<rparr>"

section \<open>Operations\<close>

definition maybe_resolve :: "wave_state \<Rightarrow> wave_state" where
  "maybe_resolve s =
     (if settled s \<or> has_error s then s
      else if wave_queue s \<noteq> [] then s
      else if list_all (\<lambda>w. retired w \<or> \<not> busy w) (wave_workers s) then s\<lparr> settled := True, wave_end := Some Wave_Done \<rparr>
      else s)"

definition fail_run :: "string \<Rightarrow> wave_state \<Rightarrow> wave_state" where
  "fail_run reason s =
     (if settled s \<or> has_error s then s
      else s\<lparr> has_error := True, settled := True, wave_end := Some (Wave_Failed reason) \<rparr>)"

definition dispatch_next :: "nat \<Rightarrow> wave_state \<Rightarrow> wave_state" where
  "dispatch_next i s =
     (let w = wave_workers s ! i in
      if retired w then s
      else case wave_queue s of
          [] \<Rightarrow> maybe_resolve (put_worker i (w\<lparr> busy := False, current_file := None \<rparr>) s)
        | f # fs \<Rightarrow>
            log_event (Sent_File (worker_id w) f) (log_event (File_Started (file_path f))
              (put_worker i (w\<lparr> busy := True, current_file := Some f \<rparr>) (s\<lparr> wave_queue := fs \<rparr>))))"

fun find_index :: "('a \<Rightarrow> bool) \<Rightarrow> nat \<Rightarrow> 'a list \<Rightarrow> nat option" where
  "find_index p n [] = None"
| "find_index p n (x # xs) = (if p x then Some n else find_index p (Suc n) xs)"

text \<open>The file of a retired worker goes back to the head of the queue, the results it reported discarded.\<close>

definition requeue :: "worker_handle \<Rightarrow> wave_state \<Rightarrow> wave_state" where
  "requeue w s =
     (case current_file w of
        None \<Rightarrow> s
      | Some f \<Rightarrow>
          let discarded = nullish (map_get (test_counts s) (worker_id w)) 0;
              s1 = s\<lparr> test_counts := map_del (worker_id w) (test_counts s) \<rparr>;
              s2 = (if discarded > 0 then log_event (File_Retried (file_path f) discarded) s1 else s1)
          in s2\<lparr> wave_queue := f # wave_queue s2 \<rparr>)"

definition retire_worker :: "nat \<Rightarrow> string \<Rightarrow> wave_state \<Rightarrow> wave_state" where
  "retire_worker i reason s =
     (let w = wave_workers s ! i in
      if retired w then s
      else if shutting_down s \<or> settled s then put_worker i (w\<lparr> retired := True \<rparr>) s
      else let s1 = requeue w (put_worker i (w\<lparr> retired := True, current_file := None, busy := False \<rparr>) s) in
           if list_all retired (wave_workers s1) then fail_run reason s1
           else maybe_resolve (case find_index (\<lambda>x. \<not> retired x \<and> \<not> busy x) 0 (wave_workers s1) of
                                 Some j \<Rightarrow> dispatch_next j s1
                               | None \<Rightarrow> s1))"

text \<open>The messages' handlers; the counts are of results that are not followed by a retry.\<close>

definition handle_parallel_test_end :: "nat option \<Rightarrow> nat \<Rightarrow> reported \<Rightarrow> wave_state \<Rightarrow> wave_state" where
  "handle_parallel_test_end base wid r s =
     (let r' = apply_worker_index_base base r;
          s1 = (if res_will_retry (rep_result r') then s
                else s\<lparr> test_counts := map_set wid (nullish (map_get (test_counts s) wid) 0 + 1) (test_counts s) \<rparr>)
      in log_event (Test_Ended r') s1)"

definition handle_parallel_file_retry :: "nat \<Rightarrow> string \<Rightarrow> wave_state \<Rightarrow> wave_state" where
  "handle_parallel_file_retry wid path s =
     (let discarded = nullish (map_get (test_counts s) wid) 0
      in log_event (File_Retried path discarded) (s\<lparr> test_counts := map_set wid 0 (test_counts s) \<rparr>))"

definition handle_parallel_file_done ::
  "nat option \<Rightarrow> nat \<Rightarrow> reported list \<Rightarrow> reported_suite \<Rightarrow> wave_state \<Rightarrow> wave_state \<times> reported list \<times> reported_suite" where
  "handle_parallel_file_done base wid rs suite s =
     (s\<lparr> test_counts := map_del wid (test_counts s) \<rparr>,
      map (apply_worker_index_base base) rs, apply_worker_index_base_to_suite base suite)"

definition on_message :: "nat option \<Rightarrow> nat \<Rightarrow> worker_message \<Rightarrow> wave_state \<Rightarrow> wave_state" where
  "on_message base i m s =
     (let w = wave_workers s ! i; wid = worker_id w in
      if has_error s \<or> retired w then s
      else case m of
          Msg_Test_Start name \<Rightarrow> log_event (Test_Started name (wid + nullish base 0)) s
        | Msg_Test_End r \<Rightarrow> handle_parallel_test_end base wid r s
        | Msg_File_Start \<Rightarrow> s\<lparr> test_counts := map_set wid 0 (test_counts s) \<rparr>
        | Msg_File_Retry path \<Rightarrow> handle_parallel_file_retry wid path s
        | Msg_File_Done path rs suite \<Rightarrow>
            (let (s1, results, suite') = handle_parallel_file_done base wid rs suite (put_worker i (w\<lparr> current_file := None \<rparr>) s);
                 s2 = s1\<lparr> all_results := all_results s1 @ results, all_suites := all_suites s1 @ [suite'] \<rparr>
             in dispatch_next i (log_event (File_Ended path results) s2))
        | Msg_Progress text \<Rightarrow> log_event (Progress_Printed (wid + nullish base 0) text) s
        | Msg_Error reason \<Rightarrow> retire_worker i reason s)"

definition on_exit :: "nat \<Rightarrow> string \<Rightarrow> wave_state \<Rightarrow> wave_state" where
  "on_exit i reason s =
     (if shutting_down s then s
      else if \<not> has_error s \<and> \<not> retired (wave_workers s ! i) then retire_worker i reason s
      else s)"

text \<open>A wave starts on the workers earlier waves left.\<close>

definition start_wave :: "tagged_file list \<Rightarrow> wave_state \<Rightarrow> wave_state" where
  "start_wave files s0 =
     (let s = s0\<lparr> wave_queue := files, test_counts := [], has_error := False, settled := False, wave_end := None \<rparr> in
      if list_all retired (wave_workers s)
      then fail_run ''All workers became unavailable before the run completed.'' s
      else fold dispatch_next [0..<length (wave_workers s)] s)"

section \<open>The workers' processes\<close>

text \<open>
  What may happen to a wave: a message (\<open>worker-runner.ts\<close> reports a file done once per file it was sent,
  under the path it was sent, its results with the project it was sent with), an exit, a failed send or a broken channel, the shutdown of the run.
\<close>

inductive wave_step :: "nat option \<Rightarrow> wave_state \<Rightarrow> wave_state \<Rightarrow> bool" for base where
  message: "i < length (wave_workers s) \<Longrightarrow>
    (\<And>path rs suite. m = Msg_File_Done path rs suite \<Longrightarrow>
       \<exists>f. current_file (wave_workers s ! i) = Some f \<and> file_path f = path \<and>
           (\<forall>r \<in> set rs. res_project (rep_result r) = file_project f)) \<Longrightarrow>
    wave_step base s (on_message base i m s)"
| exited: "i < length (wave_workers s) \<Longrightarrow> wave_step base s (on_exit i reason s)"
| channel: "i < length (wave_workers s) \<Longrightarrow> wave_step base s (retire_worker i reason s)"
| shutdown: "wave_step base s (s\<lparr> shutting_down := True \<rparr>)"

inductive wave_run :: "nat option \<Rightarrow> wave_state \<Rightarrow> wave_state \<Rightarrow> bool" for base where
  start: "wave_run base s s"
| step: "wave_run base s t \<Longrightarrow> wave_step base t u \<Longrightarrow> wave_run base s u"

end
