(* ===== verification/Dispatch_Safety.thy ===== *)
theory Dispatch_Safety
  imports Dispatch_Wave
begin

text \<open>
  What the dispatch of a wave promises, whatever its worker processes do: no file is lost or run by two
  workers at once, the wave never stalls while a worker is left, and it ends when its work is done or
  no worker is left.
\<close>

section \<open>Where the files are\<close>

definition in_hand :: "worker_handle \<Rightarrow> string multiset" where
  "in_hand w = (case current_file w of None \<Rightarrow> {#} | Some f \<Rightarrow> {#file_path f#})"

primrec in_flight :: "worker_handle list \<Rightarrow> string multiset" where
  "in_flight [] = {#}"
| "in_flight (w # ws) = in_hand w + in_flight ws"

fun ended_file :: "wave_event \<Rightarrow> string option" where
  "ended_file (File_Ended p _) = Some p"
| "ended_file _ = None"

definition ended_files :: "wave_state \<Rightarrow> string list" where
  "ended_files s = List.map_filter ended_file (wave_log s)"

definition wave_files :: "wave_state \<Rightarrow> string multiset" where
  "wave_files s = mset (map file_path (wave_queue s)) + in_flight (wave_workers s) + mset (ended_files s)"

lemma in_flight_update:
  "i < length ws \<Longrightarrow> in_flight (ws[i := w]) + in_hand (ws ! i) = in_flight ws + in_hand w"
  by (induction ws arbitrary: i) (auto split: nat.splits simp: add_ac)

lemma in_flight_swap:
  assumes "i < length ws" and "in_hand (ws ! i) = {#}"
  shows "in_flight (ws[i := w]) = in_flight ws + in_hand w"
  using in_flight_update [OF assms(1), of w] assms(2) by simp

lemma in_flight_none: "in_flight ws = {#} \<longleftrightarrow> (\<forall>w \<in> set ws. current_file w = None)"
  by (induction ws) (auto simp: in_hand_def split: option.splits)

lemma in_hand_simps [simp]:
  "current_file w = None \<Longrightarrow> in_hand w = {#}" "in_hand (w\<lparr> busy := b \<rparr>) = in_hand w" "in_hand (w\<lparr> retired := b \<rparr>) = in_hand w"
  "in_hand (w\<lparr> current_file := Some f \<rparr>) = {#file_path f#}" "in_hand (w\<lparr> current_file := None \<rparr>) = {#}"
  by (simp_all add: in_hand_def)

text \<open>Bundles: what an operation leaves alone.\<close>

lemma log_event_simps [simp]:
  "wave_queue (log_event e s) = wave_queue s" "wave_workers (log_event e s) = wave_workers s"
  "settled (log_event e s) = settled s" "has_error (log_event e s) = has_error s" "wave_end (log_event e s) = wave_end s"
  "shutting_down (log_event e s) = shutting_down s" "test_counts (log_event e s) = test_counts s"
  "wave_log (log_event e s) = wave_log s @ [e]"
  by (simp_all add: log_event_def)

lemma put_worker_simps [simp]:
  "wave_queue (put_worker i w s) = wave_queue s" "wave_workers (put_worker i w s) = (wave_workers s)[i := w]"
  "settled (put_worker i w s) = settled s" "has_error (put_worker i w s) = has_error s" "wave_end (put_worker i w s) = wave_end s"
  "shutting_down (put_worker i w s) = shutting_down s" "wave_log (put_worker i w s) = wave_log s"
  "test_counts (put_worker i w s) = test_counts s"
  by (simp_all add: put_worker_def)

lemma maybe_resolve_simps [simp]:
  "wave_queue (maybe_resolve s) = wave_queue s" "wave_workers (maybe_resolve s) = wave_workers s"
  "has_error (maybe_resolve s) = has_error s" "shutting_down (maybe_resolve s) = shutting_down s"
  "wave_log (maybe_resolve s) = wave_log s"
  by (simp_all add: maybe_resolve_def)

lemma fail_run_simps [simp]:
  "wave_queue (fail_run r s) = wave_queue s" "wave_workers (fail_run r s) = wave_workers s"
  "shutting_down (fail_run r s) = shutting_down s" "wave_log (fail_run r s) = wave_log s"
  by (simp_all add: fail_run_def)

lemma ended_files_log: "ended_file e = None \<Longrightarrow> ended_files (log_event e s) = ended_files s"
  by (simp add: ended_files_def List.map_filter_def)

lemma ended_files_same: "wave_log s' = wave_log s \<Longrightarrow> ended_files s' = ended_files s"
  by (simp add: ended_files_def)

text \<open>No operation loses or doubles a file.\<close>

lemma dispatch_next_shutting [simp]: "shutting_down (dispatch_next i s) = shutting_down s"
  by (simp add: dispatch_next_def Let_def split: list.split)

lemma dispatch_next_length [simp]: "length (wave_workers (dispatch_next i s)) = length (wave_workers s)"
  by (simp add: dispatch_next_def Let_def split: list.split)

lemma dispatch_next_files:
  assumes "i < length (wave_workers s)" and "current_file (wave_workers s ! i) = None"
  shows "wave_files (dispatch_next i s) = wave_files s"
  using in_flight_swap [OF assms(1)] assms(2)
  by (auto simp: dispatch_next_def Let_def wave_files_def ended_files_def List.map_filter_def split: list.split)

lemma requeue_simps [simp]:
  "wave_workers (requeue w s) = wave_workers s" "settled (requeue w s) = settled s" "has_error (requeue w s) = has_error s"
  "wave_end (requeue w s) = wave_end s" "shutting_down (requeue w s) = shutting_down s"
  by (simp_all add: requeue_def Let_def split: option.split)

lemma requeue_queue: "wave_queue (requeue w s) = (case current_file w of None \<Rightarrow> wave_queue s | Some f \<Rightarrow> f # wave_queue s)"
  by (simp add: requeue_def Let_def split: option.split)

lemma requeue_ended [simp]: "ended_files (requeue w s) = ended_files s"
  by (simp add: requeue_def Let_def ended_files_def List.map_filter_def split: option.split)

lemma find_index_Some: "find_index p n xs = Some j \<Longrightarrow> n \<le> j \<and> j < n + length xs \<and> p (xs ! (j - n))"
proof (induction p n xs rule: find_index.induct)
  case (2 p n x xs)
  then show ?case by (cases "p x") (auto simp: nth_Cons' Suc_diff_Suc)
qed simp

lemma find_index_None: "find_index p n xs = None \<longleftrightarrow> (\<forall>x \<in> set xs. \<not> p x)"
  by (induction p n xs rule: find_index.induct) auto

section \<open>The invariant of a wave\<close>

definition coherent :: "worker_handle \<Rightarrow> bool" where
  "coherent w \<longleftrightarrow> (\<not> retired w \<longrightarrow> (busy w \<longleftrightarrow> current_file w \<noteq> None))"

definition ends_right :: "wave_state \<Rightarrow> bool" where
  "ends_right s \<longleftrightarrow> (settled s \<longleftrightarrow> wave_end s \<noteq> None) \<and> (has_error s \<longleftrightarrow> (\<exists>r. wave_end s = Some (Wave_Failed r))) \<and>
     (has_error s \<longrightarrow> (\<forall>w \<in> set (wave_workers s). retired w)) \<and>
     (wave_end s = Some Wave_Done \<longrightarrow> wave_queue s = [] \<and> (\<forall>w \<in> set (wave_workers s). \<not> retired w \<longrightarrow> \<not> busy w))"

definition working :: "wave_state \<Rightarrow> bool" where
  "working s \<longleftrightarrow> (wave_end s = None \<and> \<not> shutting_down s \<longrightarrow> (\<exists>w \<in> set (wave_workers s). \<not> retired w \<and> busy w) \<and>
     (wave_queue s \<noteq> [] \<longrightarrow> (\<forall>w \<in> set (wave_workers s). \<not> retired w \<longrightarrow> busy w)))"

definition empty_handed :: "wave_state \<Rightarrow> bool" where
  "empty_handed s \<longleftrightarrow> (\<not> shutting_down s \<longrightarrow> (\<forall>w \<in> set (wave_workers s). retired w \<longrightarrow> current_file w = None))"

definition wave_inv :: "wave_state \<Rightarrow> bool" where
  "wave_inv s \<longleftrightarrow> (\<forall>w \<in> set (wave_workers s). coherent w) \<and> ends_right s \<and> working s \<and> empty_handed s"

lemmas wave_inv_defs = wave_inv_def ends_right_def working_def empty_handed_def coherent_def

lemma wave_inv_keep:
  assumes "wave_inv s" and "wave_workers s' = wave_workers s" and "wave_queue s' = wave_queue s"
    and "settled s' = settled s" and "has_error s' = has_error s" and "wave_end s' = wave_end s" and "shutting_down s \<longrightarrow> shutting_down s'"
  shows "wave_inv s'"
  using assms by (auto simp: wave_inv_defs)

lemma ball_update:
  "i < length ws \<Longrightarrow> (\<forall>w \<in> set (ws[i := x]). P w) \<longleftrightarrow> P x \<and> (\<forall>j < length ws. j \<noteq> i \<longrightarrow> P (ws ! j))"
  unfolding all_set_conv_all_nth by (auto simp: nth_list_update)

lemma bex_update:
  "i < length ws \<Longrightarrow> (\<exists>w \<in> set (ws[i := x]). P w) \<longleftrightarrow> P x \<or> (\<exists>j < length ws. j \<noteq> i \<and> P (ws ! j))"
  unfolding Bex_def in_set_conv_nth by (auto simp: nth_list_update)

lemma maybe_resolve_inv:
  assumes "\<forall>w \<in> set (wave_workers s). coherent w" and "ends_right s" and "empty_handed s"
    and "wave_end s = None \<and> \<not> shutting_down s \<and> wave_queue s \<noteq> [] \<longrightarrow> (\<forall>w \<in> set (wave_workers s). \<not> retired w \<longrightarrow> busy w) \<and> (\<exists>w \<in> set (wave_workers s). \<not> retired w)"
  shows "wave_inv (maybe_resolve s)"
  using assms unfolding wave_inv_defs maybe_resolve_def by (auto simp: list_all_iff)

lemma dispatch_next_inv:
  assumes i: "i < length (wave_workers s)" "\<not> retired (wave_workers s ! i)" and "ends_right (put_worker i ((wave_workers s ! i)\<lparr> busy := False \<rparr>) s)"
    and "wave_end s = None \<or> wave_queue s = []"
    and others: "\<And>j. j < length (wave_workers s) \<Longrightarrow> j \<noteq> i \<Longrightarrow> coherent (wave_workers s ! j) \<and>
      (\<not> shutting_down s \<longrightarrow> (retired (wave_workers s ! j) \<longrightarrow> current_file (wave_workers s ! j) = None) \<and>
         (wave_queue s \<noteq> [] \<longrightarrow> \<not> retired (wave_workers s ! j) \<longrightarrow> busy (wave_workers s ! j)))"
  shows "wave_inv (dispatch_next i s)"
proof (cases "wave_queue s")
  case Nil
  have "dispatch_next i s = maybe_resolve (put_worker i ((wave_workers s ! i)\<lparr> busy := False, current_file := None \<rparr>) s)"
    using i Nil by (simp add: dispatch_next_def Let_def)
  moreover have "wave_inv (maybe_resolve (put_worker i ((wave_workers s ! i)\<lparr> busy := False, current_file := None \<rparr>) s))"
    by (rule maybe_resolve_inv)
      (use assms Nil in \<open>auto simp: ball_update [OF i(1)] coherent_def empty_handed_def ends_right_def\<close>)
  ultimately show ?thesis by simp
next
  case (Cons f fs)
  with assms show ?thesis
    by (auto simp: dispatch_next_def Let_def wave_inv_defs ball_update [OF i(1)] bex_update [OF i(1)])
qed

text \<open>Retiring a worker: its file goes back and is picked up by an idle worker, if there is one.\<close>

lemma retire_worker_keeps:
  assumes i: "i < length (wave_workers s)" and inv: "wave_inv s"
  shows "wave_inv (retire_worker i reason s)" "wave_files (retire_worker i reason s) = wave_files s"
proof -
  let ?w = "wave_workers s ! i"
  have mem: "?w \<in> set (wave_workers s)" using i by simp
  consider (gone) "retired ?w" | (late) "\<not> retired ?w" "shutting_down s \<or> settled s"
    | (live) "\<not> retired ?w" "\<not> shutting_down s" "\<not> settled s" by blast
  then have "wave_inv (retire_worker i reason s) \<and> wave_files (retire_worker i reason s) = wave_files s"
  proof cases
    case gone
    with inv show ?thesis by (simp add: retire_worker_def Let_def)
  next
    case late
    then have r: "retire_worker i reason s = put_worker i (?w\<lparr> retired := True \<rparr>) s" by (simp add: retire_worker_def Let_def)
    have "wave_files (retire_worker i reason s) = wave_files s"
      using in_flight_update [OF i, of "?w\<lparr> retired := True \<rparr>"] by (simp add: r wave_files_def ended_files_def)
    moreover have "wave_inv (put_worker i (?w\<lparr> retired := True \<rparr>) s)"
    proof -
      have others: "P (wave_workers s ! j)" if "\<forall>w \<in> set (wave_workers s). P w" "j < length (wave_workers s)" for P j
        using that by simp
      have free: "current_file ?w = None" if "\<not> shutting_down s"
      proof -
        have "wave_end s \<noteq> None" "\<not> has_error s" using inv late that mem by (auto simp: wave_inv_def ends_right_def)
        then have "wave_end s = Some Wave_Done" using inv by (metis wave_inv_def ends_right_def option.exhaust wave_outcome.exhaust)
        with inv late mem have "\<not> busy ?w" by (auto simp: wave_inv_def ends_right_def)
        with inv late mem show ?thesis by (auto simp: wave_inv_def coherent_def)
      qed
      have "\<forall>w \<in> set ((wave_workers s)[i := ?w\<lparr> retired := True \<rparr>]). coherent w"
        unfolding ball_update [OF i] using inv by (simp add: wave_inv_def coherent_def)
      moreover have "ends_right (put_worker i (?w\<lparr> retired := True \<rparr>) s)"
        using inv others unfolding wave_inv_def ends_right_def by (simp add: ball_update [OF i])
      moreover have "working (put_worker i (?w\<lparr> retired := True \<rparr>) s)"
        using inv late by (auto simp: working_def wave_inv_def ends_right_def)
      moreover have "empty_handed (put_worker i (?w\<lparr> retired := True \<rparr>) s)"
        using inv free others unfolding wave_inv_def empty_handed_def by (simp add: ball_update [OF i])
      ultimately show ?thesis by (simp add: wave_inv_def)
    qed
    ultimately show ?thesis by (simp add: r)
  next
    case live
    have e: "wave_end s = None" "has_error s = False" using inv live by (auto simp: wave_inv_defs)
    define s1 where "s1 = requeue ?w (put_worker i (?w\<lparr> retired := True, current_file := None, busy := False \<rparr>) s)"
    have workers: "wave_workers s1 = (wave_workers s)[i := ?w\<lparr> retired := True, current_file := None, busy := False \<rparr>]"
      and flags: "settled s1 = False" "has_error s1 = False" "wave_end s1 = None" "shutting_down s1 = False"
      using live e by (simp_all add: s1_def)
    have files: "wave_files s1 = wave_files s"
    proof -
      have "in_flight (wave_workers s1) + in_hand ?w = in_flight (wave_workers s)"
        using in_flight_update [OF i, of "?w\<lparr> retired := True, current_file := None, busy := False \<rparr>"] by (simp add: workers)
      moreover have "mset (map file_path (wave_queue s1)) = mset (map file_path (wave_queue s)) + in_hand ?w"
        by (simp add: s1_def requeue_queue in_hand_def split: option.split)
      moreover have "ended_files s1 = ended_files s" unfolding s1_def requeue_ended by (simp add: ended_files_def)
      ultimately show ?thesis by (simp add: wave_files_def) (metis union_assoc union_commute)
    qed
    have coh: "\<forall>w \<in> set (wave_workers s1). coherent w" and hand: "\<forall>w \<in> set (wave_workers s1). retired w \<longrightarrow> current_file w = None"
      using inv live(2) unfolding workers ball_update [OF i] wave_inv_defs by auto
    show ?thesis
    proof (cases "list_all retired (wave_workers s1)")
      case True
      then have "retire_worker i reason s = fail_run reason s1"
        using live by (simp add: retire_worker_def Let_def s1_def)
      moreover have "wave_inv (fail_run reason s1)"
        using True coh hand flags by (auto simp: wave_inv_defs fail_run_def list_all_iff)
      moreover have "wave_files (fail_run reason s1) = wave_files s1" by (simp add: wave_files_def ended_files_def)
      ultimately show ?thesis using files by simp
    next
      case False
      show ?thesis
      proof (cases "find_index (\<lambda>x. \<not> retired x \<and> \<not> busy x) 0 (wave_workers s1)")
        case None
        then have r: "retire_worker i reason s = maybe_resolve s1"
          using live False by (simp add: retire_worker_def Let_def s1_def)
        have busy: "\<forall>w \<in> set (wave_workers s1). \<not> retired w \<longrightarrow> busy w" using None unfolding find_index_None by blast
        have "wave_inv (maybe_resolve s1)"
          by (rule maybe_resolve_inv [OF coh])
            (use hand busy flags False in \<open>auto simp: ends_right_def empty_handed_def list_all_iff\<close>)
        with r files show ?thesis by (simp add: wave_files_def ended_files_def)
      next
        case (Some j)
        then have r: "retire_worker i reason s = maybe_resolve (dispatch_next j s1)"
          using live False by (simp add: retire_worker_def Let_def s1_def)
        from find_index_Some [OF Some] have j: "j < length (wave_workers s1)" "\<not> retired (wave_workers s1 ! j)" "\<not> busy (wave_workers s1 ! j)"
          by auto
        have none: "current_file (wave_workers s1 ! j) = None"
          using coh j nth_mem [OF j(1)] by (auto simp: coherent_def)
        text \<open>An idle worker means that no file was waiting.\<close>
        have ij: "i \<noteq> j" "j < length (wave_workers s)" using j i workers by auto
        then have wj: "wave_workers s1 ! j = wave_workers s ! j" using workers by simp
        have "wave_queue s = []"
          using inv e live j ij wj nth_mem [OF ij(2)] unfolding wave_inv_defs by metis
        then have q: "wave_queue s1 = [] \<or> (\<exists>f. wave_queue s1 = [f])"
          by (simp add: s1_def requeue_queue split: option.split)
        have inv2: "wave_inv (dispatch_next j s1)"
        proof (cases "wave_queue s1")
          case Nil
          show ?thesis
            by (rule dispatch_next_inv [OF j(1,2)])
              (use Nil flags coh hand in \<open>auto simp: ends_right_def\<close>)
        next
          case (Cons f fs)
          with q have one: "wave_queue s1 = [f]" by auto
          have "dispatch_next j s1 = log_event (Sent_File (worker_id (wave_workers s1 ! j)) f) (log_event (File_Started (file_path f))
              (put_worker j ((wave_workers s1 ! j)\<lparr> busy := True, current_file := Some f \<rparr>) (s1\<lparr> wave_queue := [] \<rparr>)))"
            using j one by (simp add: dispatch_next_def Let_def)
          then show ?thesis using coh hand flags j(2)
            unfolding wave_inv_defs by (auto simp: ball_update [OF j(1)] bex_update [OF j(1)])
        qed
        have "wave_inv (maybe_resolve (dispatch_next j s1))"
          by (rule maybe_resolve_inv) (use inv2 in \<open>auto simp: wave_inv_def working_def\<close>)
        moreover have "wave_files (maybe_resolve (dispatch_next j s1)) = wave_files s1"
          using dispatch_next_files [OF j(1) none] by (simp add: wave_files_def ended_files_def)
        ultimately show ?thesis using r files by simp
      qed
    qed
  qed
  then show "wave_inv (retire_worker i reason s)" "wave_files (retire_worker i reason s) = wave_files s" by simp_all
qed

text \<open>A finished file leaves the worker's hand for the list of ended files.\<close>

lemma file_done_keeps:
  assumes i: "i < length (wave_workers s)" and inv: "wave_inv s" and live: "\<not> has_error s" "\<not> retired (wave_workers s ! i)"
    and f: "map_option file_path (current_file (wave_workers s ! i)) = Some path"
  shows "wave_inv (on_message base i (Msg_File_Done path rs suite) s)"
    "wave_files (on_message base i (Msg_File_Done path rs suite) s) = wave_files s"
proof -
  let ?w = "wave_workers s ! i"
  define s2 where "s2 = log_event (File_Ended path (map (apply_worker_index_base base) rs))
    ((put_worker i (?w\<lparr> current_file := None \<rparr>) s)\<lparr> test_counts := map_del (worker_id ?w) (test_counts s),
       all_results := all_results s @ map (apply_worker_index_base base) rs,
       all_suites := all_suites s @ [apply_worker_index_base_to_suite base suite] \<rparr>)"
  have r: "on_message base i (Msg_File_Done path rs suite) s = dispatch_next i s2"
    using live by (simp add: on_message_def Let_def handle_parallel_file_done_def s2_def put_worker_def)
  have w: "wave_workers s2 = (wave_workers s)[i := ?w\<lparr> current_file := None \<rparr>]" and q: "wave_queue s2 = wave_queue s"
    and flags: "settled s2 = settled s" "has_error s2 = has_error s" "wave_end s2 = wave_end s" "shutting_down s2 = shutting_down s"
    by (simp_all add: s2_def)
  have mem: "?w \<in> set (wave_workers s)" using i by simp
  have busy: "busy ?w" using inv live(2) f mem by (auto simp: wave_inv_defs)
  then have open_end: "wave_end s = None" using inv live mem unfolding wave_inv_defs
    by (metis option.exhaust wave_outcome.exhaust)
  show "wave_inv (on_message base i (Msg_File_Done path rs suite) s)" unfolding r
  proof (rule dispatch_next_inv)
    show "i < length (wave_workers s2)" "\<not> retired (wave_workers s2 ! i)" using i live w by simp_all
    show "ends_right (put_worker i ((wave_workers s2 ! i)\<lparr> busy := False \<rparr>) s2)"
      using inv flags open_end by (auto simp: wave_inv_defs)
    show "wave_end s2 = None \<or> wave_queue s2 = []" using flags open_end by simp
    fix j
    assume "j < length (wave_workers s2)" "j \<noteq> i"
    then have "wave_workers s2 ! j = wave_workers s ! j" "wave_workers s ! j \<in> set (wave_workers s)" using w by auto
    with inv flags q open_end show "coherent (wave_workers s2 ! j) \<and>
      (\<not> shutting_down s2 \<longrightarrow> (retired (wave_workers s2 ! j) \<longrightarrow> current_file (wave_workers s2 ! j) = None) \<and>
         (wave_queue s2 \<noteq> [] \<longrightarrow> \<not> retired (wave_workers s2 ! j) \<longrightarrow> busy (wave_workers s2 ! j)))"
      by (auto simp: wave_inv_defs)
  qed
  have "wave_files (dispatch_next i s2) = wave_files s2" by (rule dispatch_next_files) (use i w in simp_all)
  also have "\<dots> = wave_files s"
  proof -
    have "in_hand ?w = {#path#}" using f by (auto simp: in_hand_def split: option.splits)
    then have "in_flight (wave_workers s2) + {#path#} = in_flight (wave_workers s)"
      using in_flight_update [OF i, of "?w\<lparr> current_file := None \<rparr>"] w by simp
    moreover have "ended_files s2 = ended_files s @ [path]"
      by (simp add: s2_def ended_files_def List.map_filter_def)
    ultimately show ?thesis by (simp add: wave_files_def q)
  qed
  finally show "wave_files (on_message base i (Msg_File_Done path rs suite) s) = wave_files s" by (simp add: r)
qed

lemma wave_step_keeps:
  assumes "wave_step base s s'" and "wave_inv s"
  shows "wave_inv s' \<and> wave_files s' = wave_files s"
  using assms(1)
proof cases
  case (message i m)
  note i = message(2)
  show ?thesis
  proof (cases "has_error s \<or> retired (wave_workers s ! i)")
    case True
    with message(1) assms(2) show ?thesis by (simp add: on_message_def Let_def)
  next
    case False
    show ?thesis
    proof (cases m)
      case (Msg_File_Done path rs suite)
      with message(3) have "map_option file_path (current_file (wave_workers s ! i)) = Some path" by auto
      with file_done_keeps [OF i assms(2)] message(1) Msg_File_Done False show ?thesis by simp
    next
      case (Msg_Error r)
      with retire_worker_keeps [OF i assms(2)] message(1) False show ?thesis by (simp add: on_message_def Let_def)
    next
      case (Msg_Test_End r)
      with message(1) False have "wave_inv s'" by (auto intro: wave_inv_keep [OF assms(2)]
        simp: on_message_def Let_def handle_parallel_test_end_def)
      with Msg_Test_End message(1) False show ?thesis
        by (simp add: on_message_def Let_def handle_parallel_test_end_def wave_files_def ended_files_def List.map_filter_def)
    next
      case (Msg_File_Retry r)
      with message(1) False have "wave_inv s'" by (auto intro: wave_inv_keep [OF assms(2)]
        simp: on_message_def Let_def handle_parallel_file_retry_def)
      with Msg_File_Retry message(1) False show ?thesis
        by (simp add: on_message_def Let_def handle_parallel_file_retry_def wave_files_def ended_files_def List.map_filter_def)
    qed (use message(1) False in \<open>auto intro: wave_inv_keep [OF assms(2)] simp: on_message_def Let_def wave_files_def
        ended_files_def List.map_filter_def\<close>)
  qed
next
  case (exited i reason)
  with retire_worker_keeps [OF exited(2) assms(2)] assms(2) show ?thesis by (simp add: on_exit_def)
next
  case (channel i reason)
  with retire_worker_keeps [OF channel(2) assms(2)] show ?thesis by simp
next
  case shutdown
  with assms(2) show ?thesis by (auto simp: wave_inv_defs wave_files_def ended_files_def)
qed

lemma wave_run_keeps: "wave_run base s t \<Longrightarrow> wave_inv s \<Longrightarrow> wave_inv t \<and> wave_files t = wave_files s"
  by (induction rule: wave_run.induct) (auto dest: wave_step_keeps)

section \<open>The start of a wave\<close>

text \<open>After the first \<open>k\<close> workers have been asked to take a file.\<close>

definition started_upto :: "nat \<Rightarrow> wave_state \<Rightarrow> bool" where
  "started_upto k s \<longleftrightarrow> (\<forall>w \<in> set (wave_workers s). coherent w \<and> (retired w \<longrightarrow> current_file w = None)) \<and> ends_right s \<and> \<not> has_error s \<and>
     (\<forall>j < length (wave_workers s). k \<le> j \<longrightarrow> \<not> retired (wave_workers s ! j) \<longrightarrow> \<not> busy (wave_workers s ! j)) \<and>
     (wave_end s = None \<longrightarrow>
        (\<forall>j < k. \<not> retired (wave_workers s ! j) \<longrightarrow> wave_queue s \<noteq> [] \<longrightarrow> busy (wave_workers s ! j)) \<and>
        ((\<exists>j < k. \<not> retired (wave_workers s ! j)) \<longrightarrow> (\<exists>j < k. \<not> retired (wave_workers s ! j) \<and> busy (wave_workers s ! j))))"

lemma started_idle:
  "started_upto k s \<Longrightarrow> k < length (wave_workers s) \<Longrightarrow> current_file (wave_workers s ! k) = None"
  unfolding started_upto_def coherent_def by (metis order_refl nth_mem)

lemma started_step:
  assumes k: "k < length (wave_workers s)" and inv: "started_upto k s"
  shows "started_upto (Suc k) (dispatch_next k s)"
proof -
  let ?w = "wave_workers s ! k"
  have none: "current_file ?w = None" by (rule started_idle [OF inv k])
  show ?thesis
  proof (cases "retired ?w")
    case True
    then have "dispatch_next k s = s" by (simp add: dispatch_next_def Let_def)
    with True inv show ?thesis unfolding started_upto_def by (auto simp: less_Suc_eq)
  next
    case live: False
    have idle: "\<not> busy ?w" using inv live k by (simp add: started_upto_def)
    show ?thesis
    proof (cases "wave_queue s")
      case Nil
      have "?w\<lparr> busy := False, current_file := None \<rparr> = ?w" using idle none by simp
      then have r: "dispatch_next k s = maybe_resolve s"
        using live Nil by (simp add: dispatch_next_def Let_def put_worker_def)
      show ?thesis
      proof (cases "wave_end s = None \<and> list_all (\<lambda>w. retired w \<or> \<not> busy w) (wave_workers s)")
        case True
        then have "maybe_resolve s = s\<lparr> settled := True, wave_end := Some Wave_Done \<rparr>"
          using Nil inv by (simp add: maybe_resolve_def started_upto_def ends_right_def)
        with True inv Nil show ?thesis unfolding r by (auto simp: started_upto_def ends_right_def list_all_iff)
      next
        case False
        moreover have "settled s \<longleftrightarrow> wave_end s \<noteq> None" using inv by (simp add: started_upto_def ends_right_def)
        ultimately have "maybe_resolve s = s" by (auto simp: maybe_resolve_def)
        moreover have "\<exists>j < Suc k. \<not> retired (wave_workers s ! j) \<and> busy (wave_workers s ! j)" if open_end: "wave_end s = None"
        proof -
          from False open_end obtain w where "w \<in> set (wave_workers s)" "\<not> retired w" "busy w" by (auto simp: list_all_iff)
          then obtain j where "j < length (wave_workers s)" "\<not> retired (wave_workers s ! j)" "busy (wave_workers s ! j)"
            by (metis in_set_conv_nth)
          with inv show ?thesis unfolding started_upto_def by (metis less_SucI not_le)
        qed
        moreover have "\<forall>w \<in> set (wave_workers s). coherent w \<and> (retired w \<longrightarrow> current_file w = None)" "ends_right s" "\<not> has_error s"
          "\<forall>j < length (wave_workers s). Suc k \<le> j \<longrightarrow> \<not> retired (wave_workers s ! j) \<longrightarrow> \<not> busy (wave_workers s ! j)"
          using inv by (simp_all add: started_upto_def)
        ultimately show ?thesis unfolding r by (simp add: started_upto_def Nil)
      qed
    next
      case (Cons f fs)
      have open_end: "wave_end s = None"
        using inv Cons unfolding started_upto_def ends_right_def by (metis option.exhaust list.distinct(1) wave_outcome.exhaust)
      have "dispatch_next k s = log_event (Sent_File (worker_id ?w) f) (log_event (File_Started (file_path f))
            (put_worker k (?w\<lparr> busy := True, current_file := Some f \<rparr>) (s\<lparr> wave_queue := fs \<rparr>)))"
        using live Cons by (simp add: dispatch_next_def Let_def)
      moreover have "\<forall>w \<in> set ((wave_workers s)[k := ?w\<lparr> busy := True, current_file := Some f \<rparr>]).
          coherent w \<and> (retired w \<longrightarrow> current_file w = None)"
        unfolding ball_update [OF k] using inv live by (simp add: started_upto_def coherent_def)
      ultimately show ?thesis
        using inv live k open_end Cons unfolding started_upto_def ends_right_def
        by (auto simp: nth_list_update less_Suc_eq)
    qed
  qed
qed

lemma map_retired_update: "retired w = retired (ws ! i) \<Longrightarrow> map retired (ws[i := w]) = map retired ws"
proof (cases "i < length ws")
  case True
  assume "retired w = retired (ws ! i)"
  with True show ?thesis by (simp add: map_update) (metis list_update_id nth_map)
qed (simp add: list_update_beyond)

lemma dispatch_next_retired: "map retired (wave_workers (dispatch_next i s)) = map retired (wave_workers s)"
  by (simp add: dispatch_next_def Let_def map_retired_update split: list.split)

lemma started_fold:
  assumes "started_upto 0 s" and "k \<le> length (wave_workers s)"
  shows "let t = fold dispatch_next [0..<k] s in started_upto k t \<and> length (wave_workers t) = length (wave_workers s) \<and>
           wave_files t = wave_files s \<and> shutting_down t = shutting_down s \<and>
           map retired (wave_workers t) = map retired (wave_workers s)"
  using assms(2)
proof (induction k)
  case 0
  with assms(1) show ?case by simp
next
  case (Suc k)
  define t where "t = fold dispatch_next [0..<k] s"
  from Suc have t: "started_upto k t" "length (wave_workers t) = length (wave_workers s)" "wave_files t = wave_files s"
    "shutting_down t = shutting_down s" "map retired (wave_workers t) = map retired (wave_workers s)"
    by (simp_all add: t_def Let_def)
  have k: "k < length (wave_workers t)" using Suc.prems t(2) by simp
  have "fold dispatch_next [0..<Suc k] s = dispatch_next k t" by (simp add: t_def)
  with started_step [OF k t(1)] dispatch_next_files [OF k started_idle [OF t(1) k]] t dispatch_next_retired [of k t] show ?case by simp
qed

text \<open>A fresh wave: the workers earlier waves left are idle, one of them still there.\<close>

definition ready_for_wave :: "wave_state \<Rightarrow> bool" where
  "ready_for_wave s \<longleftrightarrow> \<not> shutting_down s \<and> (\<forall>w \<in> set (wave_workers s). current_file w = None \<and> (\<not> retired w \<longrightarrow> \<not> busy w))"

lemma start_wave_inv:
  assumes "ready_for_wave s"
  shows "wave_inv (start_wave files s)"
    "wave_files (start_wave files s) = mset (map file_path files) + mset (ended_files s)"
    "\<not> shutting_down (start_wave files s)"
proof -
  define s0 where "s0 = s\<lparr> wave_queue := files, test_counts := [], has_error := False, settled := False, wave_end := None \<rparr>"
  have files0: "wave_files s0 = mset (map file_path files) + mset (ended_files s)"
  proof -
    have "in_flight (wave_workers s) = {#}" using assms by (simp add: in_flight_none ready_for_wave_def)
    then show ?thesis by (simp add: s0_def wave_files_def ended_files_def)
  qed
  have "wave_inv (start_wave files s) \<and> wave_files (start_wave files s) = wave_files s0 \<and> \<not> shutting_down (start_wave files s)"
  proof (cases "list_all retired (wave_workers s)")
    case True
    then have "start_wave files s = fail_run ''All workers became unavailable before the run completed.'' s0"
      by (simp add: start_wave_def s0_def)
    with True assms show ?thesis
      by (auto simp: fail_run_def s0_def wave_inv_defs ready_for_wave_def list_all_iff wave_files_def ended_files_def)
  next
    case False
    define t where "t = fold dispatch_next [0..<length (wave_workers s0)] s0"
    have r: "start_wave files s = t" using False by (simp add: start_wave_def s0_def t_def)
    have "started_upto 0 s0"
      using assms by (auto simp: started_upto_def s0_def ready_for_wave_def coherent_def ends_right_def)
    note f = started_fold [OF this order_refl]
    have t: "started_upto (length (wave_workers t)) t" "wave_files t = wave_files s0" "\<not> shutting_down t"
      using f assms by (simp_all add: t_def Let_def s0_def ready_for_wave_def)
    have "map retired (wave_workers t) = map retired (wave_workers s)" using f by (simp add: t_def Let_def s0_def)
    then have "retired ` set (wave_workers t) = retired ` set (wave_workers s)" by (metis set_map)
    moreover have "False \<in> retired ` set (wave_workers s)" using False by (auto simp: list_all_iff image_iff)
    ultimately have some: "\<exists>w \<in> set (wave_workers t). \<not> retired w" by (metis imageE)
    have "wave_inv t"
      using t some unfolding started_upto_def wave_inv_defs all_set_conv_all_nth Bex_def in_set_conv_nth by auto
    with r t show ?thesis by simp
  qed
  with files0 show "wave_inv (start_wave files s)"
    "wave_files (start_wave files s) = mset (map file_path files) + mset (ended_files s)"
    "\<not> shutting_down (start_wave files s)" by simp_all
qed

section \<open>Properties\<close>

text \<open>
  A wave loses no file and runs none twice: whatever its workers do (exit, break their channel,
  report errors, finish in any order), every file of the wave is at each moment in exactly one place:
  waiting in the queue, in the hands of one worker, or ended. When the wave ends as done, every file has
  been ended exactly once (no run of it discarded counts); it fails only when no worker is left.
\<close>

theorem wave_loses_no_file:
  assumes "ready_for_wave s0" and "ended_files s0 = []" and "wave_run base (start_wave files s0) s" and "\<not> shutting_down s"
  shows "mset (map file_path (wave_queue s)) + in_flight (wave_workers s) + mset (ended_files s) = mset (map file_path files) \<and>
         (wave_end s = Some Wave_Done \<longrightarrow> mset (ended_files s) = mset (map file_path files)) \<and>
         (\<forall>reason. wave_end s = Some (Wave_Failed reason) \<longrightarrow> list_all retired (wave_workers s))"
proof -
  from wave_run_keeps [OF assms(3) start_wave_inv(1) [OF assms(1)]]
  have inv: "wave_inv s" and files: "wave_files s = mset (map file_path files)"
    using start_wave_inv(2) [OF assms(1), of files] assms(2) by simp_all
  have "wave_end s = Some Wave_Done \<longrightarrow> in_flight (wave_workers s) = {#} \<and> wave_queue s = []"
    using inv assms(4) unfolding in_flight_none by (auto simp: wave_inv_defs)
  with files inv show ?thesis by (auto simp: wave_files_def wave_inv_def ends_right_def list_all_iff)
qed

text \<open>A run of one wave for concrete inputs: two workers, of which the first is lost while it has a file.\<close>

definition demo_worker :: "nat \<Rightarrow> worker_handle" where
  "demo_worker i = \<lparr> worker_id = i, busy = False, current_file = None, retired = False \<rparr>"

definition demo_wave :: wave_state where
  "demo_wave = \<lparr> wave_queue = [], wave_workers = [demo_worker 0, demo_worker 1], test_counts = [], has_error = False, settled = False,
     wave_end = None, shutting_down = False, all_results = [], all_suites = [], wave_log = [] \<rparr>"

definition demo_file :: "string \<Rightarrow> tagged_file" where
  "demo_file p = \<lparr> file_path = p, file_use = None, file_project = None \<rparr>"

definition demo_wave_end :: wave_state where
  "demo_wave_end =
     (let s1 = start_wave [demo_file ''a'', demo_file ''b''] demo_wave;
          s2 = retire_worker 0 ''lost'' s1;
          s3 = on_message None 1 (Msg_File_Done ''b'' [] (Reported_Suite [] [] [])) s2
      in on_message None 1 (Msg_File_Done ''a'' [] (Reported_Suite [] [] [])) s3)"

lemmas demo_wave_defs = demo_wave_end_def demo_wave_def demo_file_def demo_worker_def start_wave_def dispatch_next_def
  retire_worker_def on_message_def requeue_def handle_parallel_file_done_def put_worker_def log_event_def maybe_resolve_def
  fail_run_def

lemma demo_wave_ready: "ready_for_wave demo_wave" "ended_files demo_wave = []"
  by (simp_all add: ready_for_wave_def demo_wave_def demo_worker_def ended_files_def List.map_filter_def)

lemma demo_wave_run: "wave_run None (start_wave [demo_file ''a'', demo_file ''b''] demo_wave) demo_wave_end"
proof -
  define s1 where "s1 = start_wave [demo_file ''a'', demo_file ''b''] demo_wave"
  define s2 where "s2 = retire_worker 0 ''lost'' s1"
  define s3 where "s3 = on_message None 1 (Msg_File_Done ''b'' [] (Reported_Suite [] [] [])) s2"
  note evals = s3_def s2_def s1_def demo_wave_defs
  have "wave_step None s1 s2" unfolding s2_def by (rule wave_step.channel) (simp add: s1_def demo_wave_defs)
  moreover have "wave_step None s2 s3" unfolding s3_def
    by (rule wave_step.message) (simp_all add: s2_def s1_def demo_wave_defs)
  moreover have "wave_step None s3 demo_wave_end"
  proof -
    have "wave_step None s3 (on_message None 1 (Msg_File_Done ''a'' [] (Reported_Suite [] [] [])) s3)"
      by (rule wave_step.message) (simp_all add: evals)
    then show ?thesis by (simp add: demo_wave_end_def Let_def s3_def s2_def s1_def)
  qed
  ultimately show ?thesis unfolding s1_def [symmetric] by (blast intro: wave_run.intros)
qed

theorem wave_loses_no_file_witness:
  "wave_end demo_wave_end = Some Wave_Done \<and> mset (ended_files demo_wave_end) = {#''a'', ''b''#}"
proof -
  have "wave_end demo_wave_end = Some Wave_Done" "\<not> shutting_down demo_wave_end" by (simp_all add: demo_wave_defs)
  with wave_loses_no_file [OF demo_wave_ready demo_wave_run] show ?thesis by (simp add: demo_file_def)
qed

section \<open>Progress\<close>

text \<open>What can only grow: the files ended and the workers lost.\<close>

definition progress :: "wave_state \<Rightarrow> nat" where
  "progress s = length (ended_files s) + count_list (map retired (wave_workers s)) True"

lemma dispatch_next_ended [simp]: "ended_files (dispatch_next i s) = ended_files s"
  by (simp add: dispatch_next_def Let_def ended_files_def List.map_filter_def split: list.split)

lemma dispatch_next_progress [simp]: "progress (dispatch_next i s) = progress s"
  by (simp add: progress_def dispatch_next_retired)

lemma maybe_resolve_ended [simp]: "ended_files (maybe_resolve s) = ended_files s" "progress (maybe_resolve s) = progress s"
  by (simp_all add: ended_files_def progress_def)

lemma fail_run_ended [simp]: "ended_files (fail_run r s) = ended_files s" "progress (fail_run r s) = progress s"
  by (simp_all add: ended_files_def progress_def)

lemma count_true_update: "i < length bs \<Longrightarrow> \<not> bs ! i \<Longrightarrow> count_list (bs[i := True]) True = Suc (count_list bs True)"
  by (induction bs arbitrary: i) (auto split: nat.splits)

lemma retire_worker_progress:
  assumes i: "i < length (wave_workers s)" and live: "\<not> retired (wave_workers s ! i)"
  shows "progress (retire_worker i reason s) = Suc (progress s)"
proof -
  let ?w = "wave_workers s ! i"
  have lost: "progress (put_worker i w s) = Suc (progress s)" if "retired w" for w
    using count_true_update [of i "map retired (wave_workers s)"] i live that
    by (simp add: progress_def ended_files_def map_update)
  have given_back: "progress (requeue w s') = progress s'" for w s' by (simp add: progress_def)
  show ?thesis
  proof (cases "shutting_down s \<or> settled s")
    case True
    with live lost show ?thesis by (simp add: retire_worker_def Let_def)
  next
    case False
    define s1 where "s1 = requeue ?w (put_worker i (?w\<lparr> retired := True, current_file := None, busy := False \<rparr>) s)"
    have s1: "progress s1 = Suc (progress s)" unfolding s1_def given_back by (rule lost) simp
    have "retire_worker i reason s =
        (if list_all retired (wave_workers s1) then fail_run reason s1
           else maybe_resolve (case find_index (\<lambda>x. \<not> retired x \<and> \<not> busy x) 0 (wave_workers s1) of
                                 Some j \<Rightarrow> dispatch_next j s1
                               | None \<Rightarrow> s1))"
      using False live unfolding retire_worker_def Let_def s1_def [symmetric] by simp
    with s1 show ?thesis by (auto split: option.split)
  qed
qed

lemma file_done_progress:
  assumes "i < length (wave_workers s)" and "\<not> has_error s" and "\<not> retired (wave_workers s ! i)"
  shows "progress (on_message base i (Msg_File_Done path rs suite) s) = Suc (progress s)"
proof -
  let ?s = "put_worker i ((wave_workers s ! i)\<lparr> current_file := None \<rparr>) s"
  have "map retired (wave_workers ?s) = map retired (wave_workers s)" by (simp add: map_retired_update)
  then have "progress (log_event (File_Ended path rs') (?s\<lparr> test_counts := tc, all_results := ar, all_suites := asu \<rparr>)) = Suc (progress s)"
    for rs' tc ar asu
    by (simp add: progress_def ended_files_def List.map_filter_def)
  then show ?thesis using assms by (simp add: on_message_def Let_def handle_parallel_file_done_def)
qed

lemma wave_step_progress:
  assumes "wave_step base s s'"
  shows "progress s \<le> progress s'"
proof -
  have retire: "progress s \<le> progress (retire_worker i reason s)" if "i < length (wave_workers s)" for i reason
  proof (cases "retired (wave_workers s ! i)")
    case True
    then show ?thesis by (simp add: retire_worker_def Let_def)
  next
    case False
    with retire_worker_progress [OF that] show ?thesis by simp
  qed
  from assms show ?thesis
  proof cases
    case (message i m)
    show ?thesis
    proof (cases "has_error s \<or> retired (wave_workers s ! i)")
      case True
      with message show ?thesis by (simp add: on_message_def Let_def)
    next
      case False
      with message retire [OF message(2)] file_done_progress [OF message(2)] show ?thesis
        by (cases m) (auto simp: on_message_def Let_def handle_parallel_test_end_def handle_parallel_file_retry_def
            progress_def ended_files_def List.map_filter_def)
    qed
  next
    case (exited i reason)
    with retire show ?thesis by (simp add: on_exit_def)
  next
    case (channel i reason)
    with retire show ?thesis by simp
  next
    case shutdown
    then show ?thesis by (simp add: progress_def ended_files_def)
  qed
qed

text \<open>
  C17. A wave never stalls: while it has not ended, some worker that is left has a file in its hands (all
  of them do while files wait), and either answer to it, the file's end or the loss of the worker, is
  progress. Progress is never undone and bounded by the number of files and workers, so a wave whose
  workers each finish or fail the files they are given ends.
\<close>

theorem wave_never_stalls:
  assumes "ready_for_wave s0" and "ended_files s0 = []" and "wave_run base (start_wave files s0) s" and "\<not> shutting_down s"
    and "wave_end s = None"
  shows "(\<exists>i f. i < length (wave_workers s) \<and> \<not> retired (wave_workers s ! i) \<and> current_file (wave_workers s ! i) = Some f \<and>
            (\<forall>rs suite. progress (on_message base i (Msg_File_Done (file_path f) rs suite) s) = Suc (progress s)) \<and>
            (\<forall>reason. progress (retire_worker i reason s) = Suc (progress s))) \<and>
         (wave_queue s \<noteq> [] \<longrightarrow> list_all (\<lambda>w. retired w \<or> busy w) (wave_workers s)) \<and>
         progress s \<le> length files + length (wave_workers s) \<and>
         (\<forall>s'. wave_step base s s' \<longrightarrow> progress s \<le> progress s')"
proof -
  from wave_run_keeps [OF assms(3) start_wave_inv(1) [OF assms(1)]]
  have inv: "wave_inv s" and files: "wave_files s = mset (map file_path files)"
    using start_wave_inv(2) [OF assms(1), of files] assms(2) by simp_all
  obtain w where w: "w \<in> set (wave_workers s)" "\<not> retired w" "busy w"
    using inv assms(4,5) unfolding wave_inv_def working_def by blast
  then obtain i where i: "i < length (wave_workers s)" "wave_workers s ! i = w" by (auto simp: in_set_conv_nth)
  have "current_file w \<noteq> None" using inv w by (auto simp: wave_inv_def coherent_def)
  then obtain f where f: "current_file w = Some f" by blast
  have "\<not> has_error s" using inv assms(5) by (simp add: wave_inv_def ends_right_def)
  with file_done_progress [OF i(1)] retire_worker_progress [OF i(1)] i w f
  have work: "\<exists>i f. i < length (wave_workers s) \<and> \<not> retired (wave_workers s ! i) \<and> current_file (wave_workers s ! i) = Some f \<and>
      (\<forall>rs suite. progress (on_message base i (Msg_File_Done (file_path f) rs suite) s) = Suc (progress s)) \<and>
      (\<forall>reason. progress (retire_worker i reason s) = Suc (progress s))" by blast
  have "wave_queue s \<noteq> [] \<longrightarrow> list_all (\<lambda>w. retired w \<or> busy w) (wave_workers s)"
    using inv assms(4,5) unfolding wave_inv_def working_def list_all_iff by blast
  moreover have "length (ended_files s) \<le> length files"
    using arg_cong [OF files, of size] by (simp add: wave_files_def)
  then have "progress s \<le> length files + length (wave_workers s)"
    using count_le_length [of "map retired (wave_workers s)" True] by (simp add: progress_def)
  ultimately show ?thesis using work wave_step_progress by blast
qed

theorem wave_never_stalls_witness:
  "\<exists>i f. i < 2 \<and> current_file (wave_workers (start_wave [demo_file ''a'', demo_file ''b''] demo_wave) ! i) = Some f"
proof -
  have "\<not> shutting_down (start_wave [demo_file ''a'', demo_file ''b''] demo_wave)"
    "wave_end (start_wave [demo_file ''a'', demo_file ''b''] demo_wave) = None"
    "length (wave_workers (start_wave [demo_file ''a'', demo_file ''b''] demo_wave)) = 2"
    by (simp_all add: demo_wave_defs)
  with wave_never_stalls [OF demo_wave_ready wave_run.start] show ?thesis by metis
qed

end
