(* ===== verification/Error_Detail.thy ===== *)
theory Error_Detail
  imports Device_Groups
begin

text \<open>
  How an error message with more than one line is bounded and nested (\<open>error-detail.ts\<close>): a headline,
  then at most forty detail lines indented under it, each layer adding a label and a level of
  indentation. A character stands for one UTF-16 unit; the ellipsis, which is not among the 256
  characters, is stood for by its code in Windows-1252.
\<close>

section \<open>Lines\<close>

fun split_on :: "char \<Rightarrow> string \<Rightarrow> string list" where
  "split_on c [] = [[]]"
| "split_on c (x # xs) =
     (if x = c then [] # split_on c xs
      else case split_on c xs of [] \<Rightarrow> [[x]] | y # ys \<Rightarrow> (x # y) # ys)"

definition newline :: char where
  "newline = CHR 0x0A"

definition ellipsis :: string where
  "ellipsis = [CHR 0x85]"

definition lines_of :: "string \<Rightarrow> string list" where
  "lines_of s = split_on newline s"

definition unlines :: "string list \<Rightarrow> string" where
  "unlines ls = join_with [newline] ls"

definition js_trim_end :: "string \<Rightarrow> string" where
  "js_trim_end s = rev (dropWhile js_space (rev s))"

definition js_trim :: "string \<Rightarrow> string" where
  "js_trim s = js_trim_end (dropWhile js_space s)"

definition last_n :: "nat \<Rightarrow> 'a list \<Rightarrow> 'a list" where
  "last_n n xs = drop (length xs - n) xs"

section \<open>\<open>error-detail.ts\<close>\<close>

definition max_detail_lines :: nat where
  "max_detail_lines = 40"

definition tail_detail_lines :: nat where
  "tail_detail_lines = 5"

definition max_line_length :: nat where
  "max_line_length = 1000"

definition cap_line :: "string \<Rightarrow> string" where
  "cap_line l = (if length l > max_line_length then take max_line_length l @ ellipsis else l)"

definition bound_detail_lines :: "string list \<Rightarrow> string list" where
  "bound_detail_lines ls =
     (let capped = map cap_line ls in
      if length capped \<le> max_detail_lines then capped
      else let head = max_detail_lines - tail_detail_lines - 1;
               omitted = length capped - head - tail_detail_lines
           in take head capped @ [ellipsis @ '' ('' @ show_nat omitted @ '' more lines)''] @ last_n tail_detail_lines capped)"

text \<open>The two loops stop at each other's end: all lines blank leave none.\<close>

definition trim_blank_ends :: "string list \<Rightarrow> string list" where
  "trim_blank_ends ls = rev (dropWhile (\<lambda>l. js_trim l = []) (rev (dropWhile (\<lambda>l. js_trim l = []) ls)))"

definition indent_line :: "string \<Rightarrow> string" where
  "indent_line l = (if l = [] then [] else ''  '' @ l)"

definition with_detail :: "string \<Rightarrow> string list \<Rightarrow> string" where
  "with_detail headline detail = unlines (headline # map indent_line (bound_detail_lines (trim_blank_ends detail)))"

definition labelled_message :: "string \<Rightarrow> string \<Rightarrow> string" where
  "labelled_message label message =
     (case lines_of message of
        first # rest \<Rightarrow> with_detail (label @ first) rest
      | [] \<Rightarrow> with_detail label [])"

definition split_headline :: "string \<Rightarrow> string \<times> string" where
  "split_headline message =
     (case lines_of message of
        headline # rest \<Rightarrow> (headline, js_trim_end (unlines (trim_blank_ends rest)))
      | [] \<Rightarrow> ([], []))"

section \<open>Lines and their joining\<close>

lemma split_on_nonempty [simp]: "split_on c s \<noteq> []"
  by (induction s) (auto split: list.splits)

lemma split_on_no_sep: "l \<in> set (split_on c s) \<Longrightarrow> c \<notin> set l"
  by (induction s arbitrary: l) (auto split: list.splits if_splits)

lemma split_on_plain: "c \<notin> set l \<Longrightarrow> split_on c l = [l]"
  by (induction l) auto

lemma split_on_append: "c \<notin> set l \<Longrightarrow> split_on c (l @ c # s) = l # split_on c s"
  by (induction l) auto

lemma lines_of_unlines:
  "ls \<noteq> [] \<Longrightarrow> \<forall>l \<in> set ls. newline \<notin> set l \<Longrightarrow> lines_of (unlines ls) = ls"
  unfolding lines_of_def unlines_def
  by (induction "[newline]" ls rule: join_with.induct) (auto simp: split_on_plain split_on_append)

lemma unlines_lines_of: "unlines (lines_of s) = s"
proof -
  have "join_with [c] (split_on c s) = s" for c
  proof (induction s)
    case (Cons x s)
    then show ?case by (cases "split_on c s" rule: list.exhaust; cases "tl (split_on c s)") auto
  qed simp
  then show ?thesis by (simp add: unlines_def lines_of_def)
qed

section \<open>Bounds\<close>

lemma length_cap_line: "length (cap_line l) \<le> Suc max_line_length"
  by (simp add: cap_line_def ellipsis_def)

lemma cap_line_idem: "cap_line (cap_line l) = cap_line l"
  by (simp add: cap_line_def ellipsis_def)

lemma length_last_n: "length (last_n n xs) = min n (length xs)"
  by (simp add: last_n_def)

lemma length_bound_detail_lines: "length (bound_detail_lines ls) = min (length ls) max_detail_lines"
  by (simp add: bound_detail_lines_def Let_def length_last_n max_detail_lines_def tail_detail_lines_def)

lemma bound_detail_lines_short: "length ls \<le> max_detail_lines \<Longrightarrow> bound_detail_lines ls = map cap_line ls"
  by (simp add: bound_detail_lines_def Let_def)

section \<open>Nesting\<close>

definition blank :: "string \<Rightarrow> bool" where
  "blank l \<longleftrightarrow> js_trim l = []"

lemma blank_iff: "blank l \<longleftrightarrow> (\<forall>c \<in> set l. js_space c)"
  by (auto simp: blank_def js_trim_def js_trim_end_def dropWhile_eq_Nil_conv dest: set_dropWhileD)
    (metis dropWhile_eq_Nil_conv set_rev empty_iff list.set(1) takeWhile_dropWhile_id Un_iff set_append set_takeWhileD)

text \<open>Detail lines whose ends are not blank: what trimming leaves, and what bounding and indenting keep.\<close>

definition solid :: "string list \<Rightarrow> bool" where
  "solid ls \<longleftrightarrow> (ls \<noteq> [] \<longrightarrow> \<not> blank (hd ls) \<and> \<not> blank (last ls))"

lemma trim_blank_ends_solid: "solid (trim_blank_ends ls)"
proof -
  let ?d = "dropWhile (\<lambda>l. js_trim l = [])"
  have "\<not> blank (hd (trim_blank_ends ls))" if ne: "trim_blank_ends ls \<noteq> []"
  proof -
    have "?d ls \<noteq> []"
    proof
      assume "?d ls = []"
      with ne show False by (simp add: trim_blank_ends_def)
    qed
    then have hd: "\<not> blank (hd (?d ls))" using hd_dropWhile [of "\<lambda>l. js_trim l = []" ls] by (simp only: blank_def not_False_eq_True)
    have "?d (rev (?d ls)) \<noteq> []" using ne by (simp add: trim_blank_ends_def)
    moreover obtain zs where "rev (?d ls) = zs @ ?d (rev (?d ls))" by (metis takeWhile_dropWhile_id)
    ultimately have "last (?d (rev (?d ls))) = hd (?d ls)" by (metis last_appendR last_rev)
    with hd show ?thesis by (simp add: trim_blank_ends_def hd_rev)
  qed
  moreover have "\<not> blank (last (trim_blank_ends ls))" if "trim_blank_ends ls \<noteq> []"
    using that hd_dropWhile [of "\<lambda>l. js_trim l = []" "rev (?d ls)"] by (simp only: trim_blank_ends_def last_rev blank_def rev_is_Nil_conv not_False_eq_True)
  ultimately show ?thesis by (simp add: solid_def)
qed

lemma trim_blank_ends_id: "solid ls \<Longrightarrow> trim_blank_ends ls = ls"
proof -
  have d: "dropWhile P xs = xs" if "xs \<noteq> [] \<longrightarrow> \<not> P (hd xs)" for P and xs :: "string list"
    using that by (cases xs) auto
  show "solid ls \<Longrightarrow> trim_blank_ends ls = ls"
    unfolding trim_blank_ends_def solid_def blank_def by (subst (2) d) (auto simp: d hd_rev)
qed

lemma not_blank_cap_line: "\<not> blank l \<Longrightarrow> \<not> blank (cap_line l)"
  by (auto simp: cap_line_def blank_iff ellipsis_def js_space_def)

lemma not_blank_indent: "\<not> blank l \<Longrightarrow> \<not> blank (indent_line l)"
  by (auto simp: indent_line_def blank_iff)

lemma solid_indented_bound:
  assumes "solid ls"
  shows "solid (map indent_line (bound_detail_lines ls))"
proof (cases "ls = []")
  case True
  then show ?thesis by (simp add: bound_detail_lines_def solid_def)
next
  case False
  let ?c = "map cap_line ls"
  have ends: "hd (bound_detail_lines ls) = hd ?c" "last (bound_detail_lines ls) = last ?c" "bound_detail_lines ls \<noteq> []"
    using False by (auto simp: bound_detail_lines_def Let_def max_detail_lines_def tail_detail_lines_def last_n_def hd_append
        hd_take last_drop)
  with False assms show ?thesis
    by (simp add: solid_def hd_map last_map not_blank_cap_line not_blank_indent)
qed

lemma no_newline_show: "newline \<notin> set (show_nat n)"
  using set_show_nat [of n] by (auto simp: newline_def)

lemma no_newline_bound:
  assumes "\<forall>l \<in> set ls. newline \<notin> set l" and "l \<in> set (bound_detail_lines ls)"
  shows "newline \<notin> set (indent_line l)"
proof -
  have "newline \<notin> set (cap_line x)" if "x \<in> set ls" for x
    using assms(1) that by (auto simp: cap_line_def ellipsis_def newline_def dest: in_set_takeD)
  then have "newline \<notin> set l" using assms(2)
    by (auto simp: bound_detail_lines_def Let_def last_n_def no_newline_show dest!: in_set_takeD in_set_dropD split: if_splits)
      (auto simp: ellipsis_def newline_def)
  then show ?thesis by (auto simp: indent_line_def newline_def)
qed

lemma set_trim_blank_ends: "set (trim_blank_ends ls) \<subseteq> set ls"
  by (auto simp: trim_blank_ends_def dest!: set_dropWhileD)

lemma lines_of_with_detail:
  assumes "newline \<notin> set h" and "\<forall>l \<in> set ls. newline \<notin> set l"
  shows "lines_of (with_detail h ls) = h # map indent_line (bound_detail_lines (trim_blank_ends ls))"
proof -
  have "\<forall>l \<in> set (trim_blank_ends ls). newline \<notin> set l" using assms(2) set_trim_blank_ends [of ls] by blast
  with assms(1) show ?thesis unfolding with_detail_def
    by (intro lines_of_unlines) (auto dest: no_newline_bound)
qed

lemma lines_of_labelled:
  assumes "newline \<notin> set label" and "lines_of m = first # rest"
  shows "lines_of (labelled_message label m) = (label @ first) # map indent_line (bound_detail_lines (trim_blank_ends rest))"
proof -
  have "\<forall>l \<in> set (first # rest). newline \<notin> set l" using assms(2) split_on_no_sep by (metis lines_of_def)
  with assms show ?thesis by (simp add: labelled_message_def lines_of_with_detail)
qed

text \<open>
  Labelling an error message keeps its detail: the label goes in front of the first line, at most
  forty detail lines follow, and they are all the message's own, capped and indented one level, when it
  has no more than forty (blank ends aside). A message once labelled is never cut again: each further label keeps every
  line of it, so the innermost reason reaches the outermost message.
\<close>

theorem labels_keep_detail:
  assumes "newline \<notin> set label" and "newline \<notin> set outer" and "lines_of m = first # rest"
  shows "\<exists>detail. lines_of (labelled_message label m) = (label @ first) # map indent_line detail \<and>
           length detail = min (length (trim_blank_ends rest)) max_detail_lines \<and>
           (length (trim_blank_ends rest) \<le> max_detail_lines \<longrightarrow> detail = map cap_line (trim_blank_ends rest)) \<and>
           lines_of (labelled_message outer (labelled_message label m)) =
             (outer @ label @ first) # map (\<lambda>l. indent_line (cap_line (indent_line l))) detail"
proof (intro exI conjI)
  let ?d = "bound_detail_lines (trim_blank_ends rest)"
  show once: "lines_of (labelled_message label m) = (label @ first) # map indent_line ?d"
    by (rule lines_of_labelled [OF assms(1,3)])
  show len: "length ?d = min (length (trim_blank_ends rest)) max_detail_lines" by (rule length_bound_detail_lines)
  show "length (trim_blank_ends rest) \<le> max_detail_lines \<longrightarrow> ?d = map cap_line (trim_blank_ends rest)"
    by (simp add: bound_detail_lines_short)
  have "trim_blank_ends (map indent_line ?d) = map indent_line ?d"
    by (rule trim_blank_ends_id [OF solid_indented_bound [OF trim_blank_ends_solid]])
  with lines_of_labelled [OF assms(2) once] len
  show "lines_of (labelled_message outer (labelled_message label m)) =
      (outer @ label @ first) # map (\<lambda>l. indent_line (cap_line (indent_line l))) ?d"
    by (simp add: bound_detail_lines_short)
qed

theorem labels_keep_detail_witness:
  "lines_of (labelled_message ''a: '' (labelled_message ''b: '' (''x'' @ newline # ''why''))) = [''a: b: x'', ''    why'']"
proof -
  let ?m = "''x'' @ newline # ''why''"
  have m: "lines_of ?m = [''x'', ''why'']" by (simp add: lines_of_def newline_def)
  have "trim_blank_ends [''why''] = [''why'']"
    by (simp add: trim_blank_ends_def js_trim_def js_trim_end_def js_space_def)
  with labels_keep_detail [of "''b: ''" "''a: ''", OF _ _ m] show ?thesis
    by (auto simp: newline_def max_detail_lines_def cap_line_def max_line_length_def indent_line_def)
qed

end
