(* ===== verification/Bucket_Plan.thy ===== *)
theory Bucket_Plan
  imports Worker_Allocation Dispatch_Wave App_Reset Error_Detail
begin

text \<open>
  A parallel run over several device targets (\<open>dispatcher.ts\<close>): the projects of one device signature
  form a bucket, \<open>planMultiBucket\<close> gives every bucket with workers its options, its waves, its range of
  ports and of worker numbers, and \<open>mergeBucketResults\<close> puts the buckets' results together. A target
  that cannot start reports one failed result per file. Starting daemons, devices and workers is not
  modelled.
\<close>

section \<open>Options and plans\<close>

record dispatcher_options =
  opts_config :: config_object
  opts_files :: "string list"
  opts_workers :: int
  opts_projects :: "resolved_project list option"
  opts_waves :: "resolved_project list list option"
  opts_label :: "string option"
  opts_index_base :: "nat option"
  opts_cap :: "int option"

record bucket_plan =
  port_offset :: nat
  bucket_opts :: dispatcher_options

definition ports_per_bucket :: nat where
  "ports_per_bucket = 50"

definition device_target_label :: "string \<Rightarrow> string" where
  "device_target_label sig = js_trim (join_with '' '' (take 2 (split_on (CHR ''|'') sig)))"

section \<open>\<open>planMultiBucket\<close>\<close>

text \<open>The projects of each signature, in the order the signatures first appear.\<close>

definition buckets_by_signature :: "resolved_project list \<Rightarrow> resolved_project list list" where
  "buckets_by_signature ps = map snd (bucketize_projects ps)"

definition bucket_key :: "nat \<Rightarrow> resolved_project list \<Rightarrow> string" where
  "bucket_key i ps = show_nat i @ ''-'' @ proj_signature (hd ps)"

definition waves_of_signature :: "string \<Rightarrow> resolved_project list list \<Rightarrow> resolved_project list list" where
  "waves_of_signature sig waves =
     filter (\<lambda>w. w \<noteq> []) (map (filter (\<lambda>p. proj_signature p = sig)) waves)"

definition plan_bucket :: "dispatcher_options \<Rightarrow> nat \<Rightarrow> nat \<Rightarrow> nat \<Rightarrow> resolved_project list \<Rightarrow> bucket_plan" where
  "plan_bucket opts i n base ps =
     (let sig = proj_signature (hd ps)
      in \<lparr> port_offset = i * ports_per_bucket,
           bucket_opts = opts\<lparr> opts_config := effective_config (hd ps), opts_files := concat (map test_files ps),
             opts_workers := int n, opts_projects := Some ps,
             opts_waves := Some (waves_of_signature sig (nullish (opts_waves opts) [])),
             opts_label := Some (device_target_label sig), opts_index_base := Some base \<rparr> \<rparr>)"

fun plan_buckets :: "dispatcher_options \<Rightarrow> allocation \<Rightarrow> nat \<Rightarrow> nat \<Rightarrow> resolved_project list list \<Rightarrow> bucket_plan list" where
  "plan_buckets opts alloc i base [] = []"
| "plan_buckets opts alloc i base (ps # bs) =
     (let n = nullish (map_get alloc (bucket_key i ps)) 0
      in if n = 0 then plan_buckets opts alloc (Suc i) base bs
         else plan_bucket opts i n base ps # plan_buckets opts alloc (Suc i) (base + n) bs)"

definition plan_multi_bucket :: "dispatcher_options \<Rightarrow> allocation \<Rightarrow> bucket_plan list" where
  "plan_multi_bucket opts alloc = plan_buckets opts alloc 0 0 (buckets_by_signature (nullish (opts_projects opts) []))"

text \<open>The plan of \<open>runMultiBucket\<close>: the allocation over the buckets' entries, and the plan with it.\<close>

definition bucket_entries :: "resolved_project list \<Rightarrow> bucket list" where
  "bucket_entries ps = (let bs = buckets_by_signature ps in map (\<lambda>(i, b). (bucket_key i b, b)) (zip [0..<length bs] bs))"

definition run_allocation :: "dispatcher_options \<Rightarrow> allocation" where
  "run_allocation opts =
     (let entries = bucket_entries (nullish (opts_projects opts) [])
      in allocate_bucket_workers (opts_workers opts) entries (opts_cap opts)
           (\<lambda>sig. map_get (pinned_bucket_signatures entries) sig \<noteq> None))"

definition run_plans :: "dispatcher_options \<Rightarrow> bucket_plan list" where
  "run_plans opts = plan_multi_bucket opts (run_allocation opts)"

text \<open>\<open>runParallel\<close> splits a run into buckets when its projects have more than one signature.\<close>

definition splits_into_buckets :: "dispatcher_options \<Rightarrow> nat \<Rightarrow> bool" where
  "splits_into_buckets opts offset \<longleftrightarrow>
     (case opts_projects opts of
        None \<Rightarrow> False
      | Some ps \<Rightarrow> ps \<noteq> [] \<and> offset = 0 \<and> length (set_of_list (map proj_signature ps)) > 1)"

section \<open>Results\<close>

record full_result =
  full_failed :: bool
  full_duration :: int
  full_setup_duration :: "int option"
  full_tests :: "reported list"
  full_suites :: "reported_suite list"

definition max_of :: "int list \<Rightarrow> int" where
  "max_of xs = fold max xs 0"

definition merge_bucket_results :: "full_result list \<Rightarrow> full_result" where
  "merge_bucket_results rs =
     \<lparr> full_failed = list_ex full_failed rs, full_duration = max_of (map full_duration rs),
       full_setup_duration = Some (max_of (map (\<lambda>r. nullish (full_setup_duration r) 0) rs)),
       full_tests = concat (map full_tests rs), full_suites = concat (map full_suites rs) \<rparr>"

text \<open>The failed result of every file of a target that could not start, each without a stack, and its suite.\<close>

definition target_unavailable_message :: "string \<Rightarrow> string \<Rightarrow> string" where
  "target_unavailable_message label reason = labelled_message (''Device target \"'' @ label @ ''\" could not start: '') reason"

definition target_start_failure_results :: "string \<Rightarrow> resolved_project list \<Rightarrow> string \<Rightarrow> reported list" where
  "target_start_failure_results label ps reason =
     (let message = target_unavailable_message label reason
      in concat (map (\<lambda>p. map (\<lambda>path.
           \<lparr> rep_result = (plain_result (path_basename path) (path_basename path) Failed)
               \<lparr> res_file := Some path, res_project := Some (proj_name p),
                 res_error := Some \<lparr> err_kind = Ordinary_Error, err_message = message \<rparr> \<rparr>,
             rep_worker = None \<rparr>) (test_files p)) ps))"

definition start_failure_suite :: "reported \<Rightarrow> reported_suite" where
  "start_failure_suite r = Reported_Suite (res_name (rep_result r)) [r] []"

definition no_target_could_start :: "(string \<times> string) list \<Rightarrow> string" where
  "no_target_could_start failures =
     ''No device target could start'' @ newline #
     unlines (map (\<lambda>(label, reason). labelled_message (label @ '': '') reason) failures)"

end
