(* ===== verification/Bucket_Safety.thy ===== *)
theory Bucket_Safety
  imports Bucket_Plan Allocation_Safety Project_Order
begin

text \<open>
  What the plan of a run over several device targets promises: no test file is lost or planned twice,
  the waves of a bucket keep the order of its projects, and no two buckets share a port or a worker number.
\<close>

section \<open>Buckets\<close>

abbreviation of_signature :: "resolved_project list \<Rightarrow> string \<Rightarrow> resolved_project list" where
  "of_signature ps sig \<equiv> filter (\<lambda>p. proj_signature p = sig) ps"

lemma map_set_new: "k \<notin> set (map fst m) \<Longrightarrow> map_set k v m = m @ [(k, v)]"
  by (induction m) auto

lemma map_set_tabulated:
  "distinct ks \<Longrightarrow> k \<in> set ks \<Longrightarrow> map_set k v (map (\<lambda>x. (x, f x)) ks) = map (\<lambda>x. (x, if x = k then v else f x)) ks"
  by (induction ks) (auto simp: map_idI)

lemma bucketize_eq:
  "bucketize_projects ps = map (\<lambda>sig. (sig, of_signature ps sig)) (set_of_list (map proj_signature ps))"
proof (induction ps rule: rev_induct)
  case Nil
  show ?case by (simp add: bucketize_projects_def)
next
  case (snoc p ps)
  let ?ks = "set_of_list (map proj_signature ps)"
  have step: "bucketize_projects (ps @ [p]) =
      map_set (proj_signature p) (nullish (map_get (bucketize_projects ps) (proj_signature p)) [] @ [p]) (bucketize_projects ps)"
    by (simp add: bucketize_projects_def)
  have keys: "set_of_list (map proj_signature (ps @ [p])) = set_add (proj_signature p) ?ks"
    by (simp add: set_add_all_append set_add_all_Cons)
  show ?case
  proof (cases "proj_signature p \<in> set ?ks")
    case True
    then have "map_get (bucketize_projects ps) (proj_signature p) = Some (of_signature ps (proj_signature p))"
      by (simp add: snoc.IH map_of_map_restrict)
    with True show ?thesis
      unfolding step keys set_add_def by (simp add: snoc.IH map_set_tabulated)
  next
    case False
    then have none: "map_get (bucketize_projects ps) (proj_signature p) = None"
      by (auto simp: snoc.IH map_of_eq_None_iff image_image)
    have other: "proj_signature q \<noteq> proj_signature p" if "q \<in> set ps" for q
      using False that by (metis image_eqI list.set_map set_set_add_all Un_iff)
    then have "of_signature ps (proj_signature p) = []" by (simp add: filter_empty_conv)
    moreover have "map (\<lambda>sig. (sig, of_signature (ps @ [p]) sig)) ?ks = bucketize_projects ps"
      using False by (auto simp: snoc.IH intro!: map_cong)
    ultimately show ?thesis
      using False none unfolding step keys set_add_def
      by (subst map_set_new) (simp_all add: snoc.IH image_image)
  qed
qed

lemma buckets_eq: "buckets_by_signature ps = map (of_signature ps) (set_of_list (map proj_signature ps))"
  by (simp add: buckets_by_signature_def bucketize_eq)

lemma bucket_nonempty: "b \<in> set (buckets_by_signature ps) \<Longrightarrow> b \<noteq> [] \<and> b = of_signature ps (proj_signature (hd b))"
proof -
  assume "b \<in> set (buckets_by_signature ps)"
  then obtain sig where sig: "sig \<in> proj_signature ` set ps" "b = of_signature ps sig" by (auto simp: buckets_eq)
  then have "b \<noteq> []" by (auto simp: filter_empty_conv)
  then have "hd b \<in> set b" by simp
  with sig \<open>b \<noteq> []\<close> show ?thesis by simp
qed

lemma mset_split_by:
  "distinct ks \<Longrightarrow> f ` set xs \<subseteq> set ks \<Longrightarrow> mset (concat (map (\<lambda>k. filter (\<lambda>x. f x = k) xs) ks)) = mset xs"
proof (induction ks arbitrary: xs)
  case Nil
  then show ?case by simp
next
  case (Cons k ks)
  let ?r = "filter (\<lambda>x. f x \<noteq> k) xs"
  have "filter (\<lambda>x. f x = j) xs = filter (\<lambda>x. f x = j) ?r" if "j \<in> set ks" for j
    using that Cons.prems(1) by (auto simp: conj_commute intro!: filter_cong)
  then have "map (\<lambda>j. filter (\<lambda>x. f x = j) xs) ks = map (\<lambda>j. filter (\<lambda>x. f x = j) ?r) ks" by (intro map_cong) simp_all
  moreover have "mset (concat (map (\<lambda>j. filter (\<lambda>x. f x = j) ?r) ks)) = mset ?r"
    using Cons.prems by (intro Cons.IH) auto
  ultimately have "mset (concat (map (\<lambda>j. filter (\<lambda>x. f x = j) xs) (k # ks))) = mset (filter (\<lambda>x. f x = k) xs) + mset ?r"
    by (simp only: list.map concat.simps mset_append)
  then show ?case by (simp add: union_filter_mset_complement)
qed

lemma mset_buckets: "mset (concat (buckets_by_signature ps)) = mset ps"
  unfolding buckets_eq by (rule mset_split_by) simp_all

lemma mset_concat_map_cong: "mset xs = mset ys \<Longrightarrow> mset (concat (map f xs)) = mset (concat (map f ys))"
proof -
  assume "mset xs = mset ys"
  then have "mset (map (mset \<circ> f) xs) = mset (map (mset \<circ> f) ys)" by simp
  then have "sum_list (map (mset \<circ> f) xs) = sum_list (map (mset \<circ> f) ys)" by (metis sum_mset_sum_list)
  then show ?thesis by (simp add: mset_concat comp_def)
qed

section \<open>Keys\<close>

lemma bucket_key_inj: "bucket_key i b = bucket_key j c \<Longrightarrow> i = j"
proof -
  assume eq: "bucket_key i b = bucket_key j c"
  have tw: "takeWhile (\<lambda>x. x \<noteq> CHR ''-'') (bucket_key k d) = show_nat k" for k d
    using set_show_nat [of k] unfolding bucket_key_def by (subst takeWhile_append2) auto
  from arg_cong [OF eq, of "takeWhile (\<lambda>x. x \<noteq> CHR ''-'')"] have "show_nat i = show_nat j" by (simp add: tw)
  then show "i = j" by (rule show_nat_inj)
qed

lemma bucket_entries_nth:
  "length (bucket_entries ps) = length (buckets_by_signature ps)"
  "i < length (buckets_by_signature ps) \<Longrightarrow>
     bucket_entries ps ! i = (bucket_key i (buckets_by_signature ps ! i), buckets_by_signature ps ! i)"
  by (simp_all add: bucket_entries_def Let_def)

lemma distinct_entries: "distinct (map fst (bucket_entries ps))"
  by (auto simp: distinct_conv_nth bucket_entries_nth dest: bucket_key_inj)

section \<open>The plans of some buckets\<close>

lemma plan_bucket_simps [simp]:
  "port_offset (plan_bucket opts i n base ps) = i * ports_per_bucket"
  "opts_files (bucket_opts (plan_bucket opts i n base ps)) = concat (map test_files ps)"
  "opts_workers (bucket_opts (plan_bucket opts i n base ps)) = int n"
  "opts_projects (bucket_opts (plan_bucket opts i n base ps)) = Some ps"
  "opts_index_base (bucket_opts (plan_bucket opts i n base ps)) = Some base"
  "opts_waves (bucket_opts (plan_bucket opts i n base ps)) =
     Some (waves_of_signature (proj_signature (hd ps)) (nullish (opts_waves opts) []))"
  by (simp_all add: plan_bucket_def Let_def)

definition staff :: "allocation \<Rightarrow> nat \<Rightarrow> resolved_project list \<Rightarrow> nat" where
  "staff alloc i b = nullish (map_get alloc (bucket_key i b)) 0"

definition plan_base :: "bucket_plan \<Rightarrow> nat" where
  "plan_base p = nullish (opts_index_base (bucket_opts p)) 0"

definition plan_workers :: "bucket_plan \<Rightarrow> nat" where
  "plan_workers p = nat (opts_workers (bucket_opts p))"

text \<open>The later of two plans has its ports and its worker numbers after the earlier's.\<close>

definition plan_before :: "bucket_plan \<Rightarrow> bucket_plan \<Rightarrow> bool" where
  "plan_before p q \<longleftrightarrow> port_offset p + ports_per_bucket \<le> port_offset q \<and> plan_base p + plan_workers p \<le> plan_base q"

lemma plan_buckets_mem:
  "x \<in> set (plan_buckets opts alloc i base bs) \<Longrightarrow>
     \<exists>k b. k < length bs \<and> staff alloc (i + k) (bs ! k) \<noteq> 0 \<and> base \<le> b \<and>
       x = plan_bucket opts (i + k) (staff alloc (i + k) (bs ! k)) b (bs ! k)"
proof (induction opts alloc i base bs rule: plan_buckets.induct)
  case (2 opts alloc i base ps bs)
  let ?n = "staff alloc i ps"
  have tail: ?case if "x \<in> set (plan_buckets opts alloc (Suc i) c bs)" "base \<le> c"
    and ih: "\<exists>k b. k < length bs \<and> staff alloc (Suc i + k) (bs ! k) \<noteq> 0 \<and> c \<le> b \<and>
       x = plan_bucket opts (Suc i + k) (staff alloc (Suc i + k) (bs ! k)) b (bs ! k)" for c
  proof -
    from ih obtain k b where "k < length bs" "staff alloc (Suc i + k) (bs ! k) \<noteq> 0" "c \<le> b"
      "x = plan_bucket opts (Suc i + k) (staff alloc (Suc i + k) (bs ! k)) b (bs ! k)" by blast
    with that(2) show ?thesis by (intro exI [of _ "Suc k"] exI [of _ b]) simp
  qed
  show ?case
  proof (cases "?n = 0")
    case True
    with 2 show ?thesis by (intro tail [of base]) (simp_all add: staff_def)
  next
    case False
    with "2.prems" consider "x = plan_bucket opts i ?n base ps" | "x \<in> set (plan_buckets opts alloc (Suc i) (base + ?n) bs)"
      by (auto simp: staff_def Let_def)
    then show ?thesis
    proof cases
      case 1
      with False show ?thesis by (intro exI [of _ 0] exI [of _ base]) simp
    next
      case later: 2
      have "\<exists>k b. k < length bs \<and> staff alloc (Suc i + k) (bs ! k) \<noteq> 0 \<and> base + ?n \<le> b \<and>
        x = plan_bucket opts (Suc i + k) (staff alloc (Suc i + k) (bs ! k)) b (bs ! k)"
        using "2.IH"(2) [OF refl] False later by (simp add: staff_def)
      with later show ?thesis by (intro tail [of "base + ?n"]) simp_all
    qed
  qed
qed simp

lemma plan_buckets_ordered: "sorted_wrt plan_before (plan_buckets opts alloc i base bs)"
proof (induction opts alloc i base bs rule: plan_buckets.induct)
  case (2 opts alloc i base ps bs)
  let ?n = "staff alloc i ps"
  show ?case
  proof (cases "?n = 0")
    case True
    with 2 show ?thesis by (simp add: staff_def)
  next
    case False
    have "plan_before (plan_bucket opts i ?n base ps) x" if "x \<in> set (plan_buckets opts alloc (Suc i) (base + ?n) bs)" for x
      using plan_buckets_mem [OF that] by (auto simp: plan_before_def plan_base_def plan_workers_def ports_per_bucket_def)
    with False 2 show ?thesis by (simp add: staff_def Let_def)
  qed
qed simp

lemma plan_buckets_files:
  "\<forall>k < length bs. staff alloc (i + k) (bs ! k) = 0 \<longrightarrow> concat (map test_files (bs ! k)) = [] \<Longrightarrow>
     concat (map (opts_files \<circ> bucket_opts) (plan_buckets opts alloc i base bs)) = concat (map test_files (concat bs))"
proof (induction opts alloc i base bs rule: plan_buckets.induct)
  case (2 opts alloc i base ps bs)
  have later: "\<forall>k < length bs. staff alloc (Suc i + k) (bs ! k) = 0 \<longrightarrow> concat (map test_files (bs ! k)) = []"
    using "2.prems" by force
  have first: "staff alloc i ps = 0 \<longrightarrow> concat (map test_files ps) = []" using "2.prems" [rule_format, of 0] by simp
  show ?case
  proof (cases "staff alloc i ps = 0")
    case True
    with 2 later first show ?thesis by (simp add: staff_def)
  next
    case False
    with 2 later show ?thesis by (simp add: staff_def Let_def)
  qed
qed simp

lemma plan_buckets_total:
  "sum_list (map plan_workers (plan_buckets opts alloc i base bs)) = (\<Sum>k < length bs. staff alloc (i + k) (bs ! k))"
proof (induction opts alloc i base bs rule: plan_buckets.induct)
  case (2 opts alloc i base ps bs)
  have split: "(\<Sum>k < length (ps # bs). staff alloc (i + k) ((ps # bs) ! k)) =
      staff alloc i ps + (\<Sum>k < length bs. staff alloc (Suc i + k) (bs ! k))"
    by (simp add: sum.lessThan_Suc_shift del: sum.lessThan_Suc)
  show ?case unfolding split using 2 by (cases "staff alloc i ps = 0") (simp_all add: staff_def Let_def plan_workers_def)
qed simp

lemma plan_buckets_length:
  "length (plan_buckets opts alloc i base bs) = (\<Sum>k < length bs. if staff alloc (i + k) (bs ! k) = 0 then 0 else 1)"
proof (induction opts alloc i base bs rule: plan_buckets.induct)
  case (2 opts alloc i base ps bs)
  have split: "(\<Sum>k < length (ps # bs). if staff alloc (i + k) ((ps # bs) ! k) = 0 then 0 else 1 :: nat) =
      (if staff alloc i ps = 0 then 0 else 1) + (\<Sum>k < length bs. if staff alloc (Suc i + k) (bs ! k) = 0 then 0 else 1)"
    by (simp add: sum.lessThan_Suc_shift del: sum.lessThan_Suc)
  show ?case unfolding split using 2 by (cases "staff alloc i ps = 0") (simp_all add: staff_def Let_def)
qed simp

section \<open>The waves of a bucket\<close>

lemma concat_waves_of_signature: "concat (waves_of_signature sig waves) = of_signature (concat waves) sig"
  unfolding waves_of_signature_def by (induction waves) auto

lemma waves_of_signature_split:
  "waves_of_signature sig waves = pre @ w # post \<Longrightarrow>
     \<exists>pre' w' post'. waves = pre' @ w' # post' \<and> w = of_signature w' sig \<and> concat pre = of_signature (concat pre') sig"
proof (induction waves arbitrary: pre)
  case (Cons v waves)
  have tail: ?case if "waves_of_signature sig waves = pre0 @ w # post" "concat pre = of_signature v sig @ concat pre0" for pre0
  proof -
    from Cons.IH [OF that(1)] obtain pre' w' post' where
      "waves = pre' @ w' # post'" "w = of_signature w' sig" "concat pre0 = of_signature (concat pre') sig" by blast
    with that(2) show ?thesis by (intro exI [of _ "v # pre'"] exI [of _ w'] exI [of _ post']) simp
  qed
  show ?case
  proof (cases "of_signature v sig = []")
    case True
    with Cons.prems have "waves_of_signature sig waves = pre @ w # post" by (simp add: waves_of_signature_def)
    with True show ?thesis by (intro tail) simp_all
  next
    case False
    with Cons.prems have eq: "of_signature v sig # waves_of_signature sig waves = pre @ w # post"
      by (simp add: waves_of_signature_def)
    show ?thesis
    proof (cases pre)
      case Nil
      with eq show ?thesis by (intro exI [of _ "[]"] exI [of _ v] exI [of _ waves]) simp
    next
      case (Cons u us)
      with eq show ?thesis by (intro tail [of us]) auto
    qed
  qed
qed (simp add: waves_of_signature_def)

text \<open>Waves in which every project comes after its dependencies among the projects.\<close>

definition ordered_waves :: "resolved_project list list \<Rightarrow> bool" where
  "ordered_waves W \<longleftrightarrow> [] \<notin> set W \<and> distinct (concat W) \<and>
     (\<forall>i < length W. \<forall>p \<in> set (W ! i). \<forall>q \<in> set (concat W). proj_name q \<in> set (dependencies p) \<longrightarrow> q \<in> set (concat (take i W)))"

lemma ordered_waves_of_signature:
  assumes "distinct (map proj_name ps)" and "\<forall>p \<in> set ps. set (dependencies p) \<subseteq> names_of ps" and "topological_sort ps = Inr waves"
  shows "ordered_waves (waves_of_signature sig waves) \<and> set (concat (waves_of_signature sig waves)) = set (of_signature ps sig)"
proof -
  let ?W = "waves_of_signature sig waves"
  from topological_sort_spec [OF assms(1,2)] assms(3) have
    waves: "distinct (concat waves)" "set (concat waves) = set ps" and
    deps: "\<And>i p. i < length waves \<Longrightarrow> p \<in> set (waves ! i) \<Longrightarrow> set (dependencies p) \<subseteq> names_of (concat (take i waves))"
    by blast+
  have inj: "p = q" if "p \<in> set ps" "q \<in> set ps" "proj_name p = proj_name q" for p q
    using assms(1) that by (auto simp: distinct_map inj_on_def)
  have "q \<in> set (concat (take i ?W))"
    if i: "i < length ?W" and p: "p \<in> set (?W ! i)" and q: "q \<in> set (concat ?W)" and dep: "proj_name q \<in> set (dependencies p)" for i p q
  proof -
    from waves_of_signature_split [OF id_take_nth_drop [OF i]] obtain pre w post where
      split: "waves = pre @ w # post" "?W ! i = of_signature w sig" "concat (take i ?W) = of_signature (concat pre) sig" by blast
    have "set (dependencies p) \<subseteq> names_of (concat (take (length pre) waves))"
      using p split by (intro deps) auto
    with dep have "proj_name q \<in> names_of (concat pre)" by (auto simp: split(1))
    then obtain q' where q': "q' \<in> set (concat pre)" "proj_name q' = proj_name q" by (metis imageE)
    have qps: "q \<in> set ps" "proj_signature q = sig" using q waves unfolding concat_waves_of_signature by auto
    moreover have "q' \<in> set ps" using q'(1) waves(2) split(1) by auto
    ultimately have "q' = q" using q'(2) by (intro inj)
    with q'(1) qps split(3) show ?thesis by simp
  qed
  moreover have "[] \<notin> set ?W" by (auto simp: waves_of_signature_def)
  moreover have "distinct (concat ?W)" unfolding concat_waves_of_signature using waves(1) by simp
  moreover have "set (concat ?W) = set (of_signature ps sig)" unfolding concat_waves_of_signature using waves(2) by auto
  ultimately show ?thesis unfolding ordered_waves_def by blast
qed

section \<open>The plan of a run\<close>

lemma concat_files_Nil: "concat (map test_files ps) = [] \<longleftrightarrow> (\<Sum>p\<leftarrow>ps. length (test_files p)) = 0"
  by (induction ps) auto

lemma run_allocation_active:
  assumes "opts_projects opts = Some ps" and "k < length (buckets_by_signature ps)"
  shows "staff (run_allocation opts) k (buckets_by_signature ps ! k) = 0 \<longleftrightarrow>
           concat (map test_files (buckets_by_signature ps ! k)) = []"
proof -
  let ?e = "bucket_entries ps"
  have b: "?e ! k \<in> set ?e" "?e ! k = (bucket_key k (buckets_by_signature ps ! k), buckets_by_signature ps ! k)"
    using assms(2) nth_mem [of k ?e] by (simp_all add: bucket_entries_nth)
  have alloc: "run_allocation opts = allocate_bucket_workers (opts_workers opts) ?e (opts_cap opts)
      (\<lambda>sig. map_get (pinned_bucket_signatures ?e) sig \<noteq> None)"
    by (simp only: run_allocation_def assms(1) nullish_simps Let_def)
  from allocation_spec [OF distinct_entries [of ps], of "opts_workers opts" "opts_cap opts"
      "\<lambda>sig. map_get (pinned_bucket_signatures ?e) sig \<noteq> None"] b(1)
  have "if active_bucket (?e ! k) then 0 < workers_of (run_allocation opts) 0 (fst (?e ! k))
        else map_get (run_allocation opts) (fst (?e ! k)) = Some 0"
    unfolding Let_def alloc by blast
  then show ?thesis
    unfolding concat_files_Nil
    by (simp add: b(2) staff_def workers_of_def active_bucket_def bucket_files_def del: sum_list_eq_0_iff split: if_splits)
qed

text \<open>With a cap on the workers, the plans together keep to it, unless it is below one worker per bucket.\<close>

lemma run_plans_capped:
  assumes "opts_projects opts = Some ps" and "opts_cap opts = Some c"
  shows "sum_list (map plan_workers (run_plans opts)) \<le> max (nat c) (length (run_plans opts))"
proof -
  let ?bs = "buckets_by_signature ps" and ?e = "bucket_entries ps"
  let ?pin = "\<lambda>sig. map_get (pinned_bucket_signatures ?e) sig \<noteq> None"
  let ?m = "run_allocation opts"
  let ?f = "\<lambda>b. workers_of ?m 0 (fst b)"
  have alloc: "?m = allocate_bucket_workers (opts_workers opts) ?e (Some c) ?pin"
    by (simp only: run_allocation_def assms nullish_simps Let_def)
  note spec = allocation_spec [OF distinct_entries [of ps], of "opts_workers opts" "Some c" ?pin, folded alloc, unfolded Let_def]
  have f0: "?f b = 0 \<longleftrightarrow> \<not> active_bucket b" if "b \<in> set ?e" for b
    using spec that by (auto simp: workers_of_def split: if_splits)
  have f1: "?f b = 1" if "b \<in> set (pinned_buckets ?pin ?e)" for b
    using spec that by (auto simp: workers_of_def)
  have staffed: "staff ?m k (?bs ! k) = ?f (?e ! k)" if "k < length ?bs" for k
    using that by (simp add: staff_def workers_of_def bucket_entries_nth)
  have plans: "run_plans opts = plan_buckets opts ?m 0 0 ?bs"
    by (simp add: run_plans_def plan_multi_bucket_def assms(1))
  have sums: "sum_list (map g ?e) = (\<Sum>k < length ?bs. g (?e ! k))" for g :: "bucket \<Rightarrow> nat"
    by (simp add: sum_list_sum_nth bucket_entries_nth(1) atLeast0LessThan)
  have total: "sum_list (map plan_workers (run_plans opts)) = sum_list (map ?f ?e)"
    unfolding plans plan_buckets_total sums by (simp add: staffed)
  have len: "length (run_plans opts) = length (filter active_bucket ?e)"
  proof -
    have "length (run_plans opts) = sum_list (map (\<lambda>b. if ?f b = 0 then 0 else 1) ?e)"
      unfolding plans plan_buckets_length sums by (simp add: staffed)
    also have "\<dots> = sum_list (map (\<lambda>b. if active_bucket b then 1 else 0) ?e)"
      using f0 by (intro arg_cong [of _ _ sum_list] map_cong) auto
    finally show ?thesis by (simp add: sum_list_map_filter' [symmetric] sum_list_triv)
  qed
  have split: "sum_list (map ?f xs) = sum_list (map ?f (filter P xs)) + sum_list (map ?f (filter (\<lambda>b. \<not> P b) xs))" for P xs
    by (induction xs) simp_all
  have inactive: "sum_list (map ?f (filter (\<lambda>b. \<not> active_bucket b) ?e)) = 0"
    using f0 by (simp add: sum_list_eq_0_iff)
  have "sum_list (map ?f (pinned_buckets ?pin ?e)) = sum_list (map (\<lambda>_. 1) (pinned_buckets ?pin ?e))"
    using f1 by (intro arg_cong [of _ _ sum_list] map_cong) simp_all
  then have pinned: "sum_list (map ?f (pinned_buckets ?pin ?e)) = length (pinned_buckets ?pin ?e)"
    by (simp add: sum_list_triv)
  have sum: "sum_list (map ?f ?e) = length (pinned_buckets ?pin ?e) + sum_list (map ?f (scalable_buckets ?pin ?e))"
    using split [of ?e active_bucket] split [of "filter active_bucket ?e" "\<lambda>b. ?pin (fst b)"] inactive pinned
    by (simp only: pinned_buckets_def scalable_buckets_def)
  have parts: "length (filter active_bucket ?e) = length (pinned_buckets ?pin ?e) + length (scalable_buckets ?pin ?e)"
    unfolding pinned_buckets_def scalable_buckets_def by (rule sum_length_filter_compl [symmetric])
  show ?thesis
  proof (cases "scalable_buckets ?pin ?e = []")
    case True
    then show ?thesis unfolding total sum len parts by simp
  next
    case False
    with spec have "int (total_of ?m (map fst (scalable_buckets ?pin ?e))) =
        max (c - int (length (pinned_buckets ?pin ?e))) (int (length (scalable_buckets ?pin ?e)))" by simp
    then show ?thesis unfolding total sum len parts total_of_def by (simp add: comp_def)
  qed
qed

text \<open>
  C18. A run over several device targets is planned without loss or overlap. Every test file of its
  projects is in the plans as often as in the projects; a plan holds all projects of one device
  signature, with a worker at least and their waves in dependency order; and of two plans the later has
  its ports and its worker numbers after all of the earlier's (\<open>PORTS_PER_BUCKET\<close> ports each).
\<close>

theorem bucket_plans_cover_run:
  assumes "opts_projects opts = Some ps" and "opts_waves opts = Some waves" and "topological_sort ps = Inr waves"
    and "distinct (map proj_name ps)" and "\<forall>p \<in> set ps. set (dependencies p) \<subseteq> names_of ps"
  shows "mset (concat (map (opts_files \<circ> bucket_opts) (run_plans opts))) = mset (concat (map test_files ps)) \<and>
         sorted_wrt plan_before (run_plans opts) \<and>
         (\<forall>plan \<in> set (run_plans opts). 0 < plan_workers plan \<and>
            (\<exists>sig W. opts_projects (bucket_opts plan) = Some (of_signature ps sig) \<and> opts_waves (bucket_opts plan) = Some W \<and>
               set (concat W) = set (of_signature ps sig) \<and> ordered_waves W)) \<and>
         (\<forall>c. opts_cap opts = Some c \<longrightarrow>
            sum_list (map plan_workers (run_plans opts)) \<le> max (nat c) (length (run_plans opts)))"
proof (intro conjI ballI allI impI)
  let ?bs = "buckets_by_signature ps" and ?alloc = "run_allocation opts"
  have plans: "run_plans opts = plan_buckets opts ?alloc 0 0 ?bs"
    by (simp add: run_plans_def plan_multi_bucket_def assms(1))
  have "concat (map (opts_files \<circ> bucket_opts) (run_plans opts)) = concat (map test_files (concat ?bs))"
    unfolding plans by (rule plan_buckets_files) (simp add: run_allocation_active [OF assms(1)])
  moreover have "mset (concat (map test_files (concat ?bs))) = mset (concat (map test_files ps))"
    by (rule mset_concat_map_cong [OF mset_buckets])
  ultimately show "mset (concat (map (opts_files \<circ> bucket_opts) (run_plans opts))) = mset (concat (map test_files ps))" by simp
  show "sorted_wrt plan_before (run_plans opts)" unfolding plans by (rule plan_buckets_ordered)
  fix plan assume "plan \<in> set (run_plans opts)"
  from plan_buckets_mem [OF this [unfolded plans]] obtain k b where
    k: "k < length ?bs" and n: "staff ?alloc k (?bs ! k) \<noteq> 0" and
    plan: "plan = plan_bucket opts k (staff ?alloc k (?bs ! k)) b (?bs ! k)" by auto
  show "0 < plan_workers plan" using n by (simp add: plan plan_workers_def)
  let ?sig = "proj_signature (hd (?bs ! k))"
  have "?bs ! k = of_signature ps ?sig" using bucket_nonempty k by (metis nth_mem)
  with ordered_waves_of_signature [OF assms(4,5,3), of ?sig]
  show "\<exists>sig W. opts_projects (bucket_opts plan) = Some (of_signature ps sig) \<and> opts_waves (bucket_opts plan) = Some W \<and>
      set (concat W) = set (of_signature ps sig) \<and> ordered_waves W"
    by (intro exI [of _ ?sig] exI [of _ "waves_of_signature ?sig waves"]) (simp add: plan assms(2))
qed (rule run_plans_capped [OF assms(1)])

definition demo_options :: "resolved_project list \<Rightarrow> resolved_project list list \<Rightarrow> dispatcher_options" where
  "demo_options ps waves = \<lparr> opts_config = plain_config [], opts_files = concat (map test_files ps), opts_workers = 2,
     opts_projects = Some ps, opts_waves = Some waves, opts_label = None, opts_index_base = None, opts_cap = None \<rparr>"

theorem bucket_plans_cover_run_witness:
  "let p = demo_project ''a'' [] [''x'', ''y'']
   in \<exists>waves. mset (concat (map (opts_files \<circ> bucket_opts) (run_plans (demo_options [p] waves)))) = {#''x'', ''y''#}"
proof -
  let ?p = "demo_project ''a'' [] [''x'', ''y'']"
  have ps: "distinct (map proj_name [?p])" "\<forall>p \<in> set [?p]. set (dependencies p) \<subseteq> names_of [?p]"
    "project_edges [?p] = {}" "\<forall>p \<in> set [?p]. distinct (dependencies p)"
    by (simp_all add: demo_project_def project_edges_def)
  then have "\<exists>waves. topological_sort [?p] = Inr waves"
    using topological_sort_spec [OF ps(1,2)] by (simp only: acyclic_def trancl_empty empty_iff) blast
  then obtain waves where "topological_sort [?p] = Inr waves" by blast
  from bucket_plans_cover_run [OF _ _ this ps(1,2), of "demo_options [?p] waves"] show ?thesis
    by (auto simp: demo_options_def demo_project_def)
qed

end
