(* ===== verification/Project_Waves.thy ===== *)
theory Project_Waves
  imports Dispatch_Safety Bucket_Safety
begin

text \<open>
  The loop of \<open>runParallel\<close> over the waves of projects (\<open>dispatcher.ts\<close>): the files of a wave's projects
  are dispatched together once the wave before has ended, a project is skipped when a dependency failed
  or was skipped, and the projects with a failed result are noted. The dispatch of a wave is the step
  relation of \<open>Dispatch_Wave\<close>, so the theorems hold whatever the workers do.
\<close>

section \<open>The loop\<close>

record wave_loop =
  loop_wave :: wave_state
  failed_projects :: "string list"

definition tag_files :: "resolved_project \<Rightarrow> tagged_file list" where
  "tag_files p = map (\<lambda>f. \<lparr> file_path = f, file_use = proj_use p, file_project = Some (proj_name p) \<rparr>) (test_files p)"

definition skipped_file :: "resolved_project \<Rightarrow> string \<Rightarrow> reported" where
  "skipped_file p path = \<lparr> rep_result = (plain_result (path_basename path) (path_basename path) Skipped)
     \<lparr> res_project := Some (proj_name p) \<rparr>, rep_worker = None \<rparr>"

definition push_skipped :: "resolved_project \<Rightarrow> string \<Rightarrow> wave_state \<Rightarrow> wave_state" where
  "push_skipped p path s =
     log_event (Test_Ended (skipped_file p path)) (s\<lparr> all_results := all_results s @ [skipped_file p path] \<rparr>)"

definition skip_project :: "resolved_project \<Rightarrow> wave_loop \<Rightarrow> wave_loop" where
  "skip_project p l = l\<lparr> loop_wave := fold (push_skipped p) (test_files p) (loop_wave l),
     failed_projects := set_add (proj_name p) (failed_projects l) \<rparr>"

text \<open>The names of projects are not empty (\<open>validateProjects\<close>), so the truth test of \<open>blockedBy\<close> is \<open>find\<close>'s.\<close>

definition blocked_by :: "string list \<Rightarrow> resolved_project \<Rightarrow> string option" where
  "blocked_by failed p = find (\<lambda>d. d \<in> set failed) (dependencies p)"

fun enter_wave :: "resolved_project list \<Rightarrow> wave_loop \<Rightarrow> wave_loop \<times> tagged_file list" where
  "enter_wave [] l = (l, [])"
| "enter_wave (p # ps) l =
     (case blocked_by (failed_projects l) p of
        Some d \<Rightarrow> enter_wave ps (skip_project p l)
      | None \<Rightarrow> (case enter_wave ps l of (l', files) \<Rightarrow> (l', tag_files p @ files)))"

definition is_failed :: "reported \<Rightarrow> bool" where
  "is_failed r \<longleftrightarrow> res_status (rep_result r) = Failed"

definition note_wave_failures :: "reported list \<Rightarrow> resolved_project list \<Rightarrow> string list \<Rightarrow> string list" where
  "note_wave_failures wave_results ps failed =
     fold (\<lambda>p failed.
       if proj_name p \<in> set failed then failed
       else if list_ex (\<lambda>r. is_failed r \<and> res_project (rep_result r) = Some (proj_name p)) wave_results
       then set_add (proj_name p) failed
       else failed) ps failed"

text \<open>After a wave: its results are the ones after \<open>resultsBefore\<close>.\<close>

definition leave_wave :: "resolved_project list \<Rightarrow> wave_loop \<Rightarrow> wave_state \<Rightarrow> wave_loop" where
  "leave_wave ps l s =
     \<lparr> loop_wave = s,
       failed_projects = note_wave_failures (drop (length (all_results (loop_wave l))) (all_results s)) ps (failed_projects l) \<rparr>"

text \<open>A run of the loop; a wave that fails ends it with the wave's error.\<close>

inductive project_waves ::
  "nat option \<Rightarrow> resolved_project list list \<Rightarrow> wave_loop \<Rightarrow> wave_loop \<Rightarrow> wave_outcome \<Rightarrow> bool" for base where
  no_more: "project_waves base [] l l Wave_Done"
| nothing_left: "enter_wave ps l = (l1, []) \<Longrightarrow> project_waves base ws l1 l2 out \<Longrightarrow> project_waves base (ps # ws) l l2 out"
| dispatched: "enter_wave ps l = (l1, f # fs) \<Longrightarrow> wave_run base (start_wave (f # fs) (loop_wave l1)) s \<Longrightarrow>
    wave_end s = Some Wave_Done \<Longrightarrow> project_waves base ws (leave_wave ps l1 s) l2 out \<Longrightarrow>
    project_waves base (ps # ws) l l2 out"
| broken: "enter_wave ps l = (l1, f # fs) \<Longrightarrow> wave_run base (start_wave (f # fs) (loop_wave l1)) s \<Longrightarrow>
    wave_end s = Some (Wave_Failed reason) \<Longrightarrow>
    project_waves base (ps # ws) l (l1\<lparr> loop_wave := s \<rparr>) (Wave_Failed reason)"

section \<open>What a wave adds\<close>

fun event_results :: "wave_event \<Rightarrow> reported list" where
  "event_results (File_Ended path rs) = rs"
| "event_results _ = []"

definition reported_results :: "wave_event list \<Rightarrow> reported list" where
  "reported_results log = concat (map event_results log)"

lemma reported_results_simps [simp]:
  "reported_results [] = []" "reported_results (xs @ ys) = reported_results xs @ reported_results ys"
  "reported_results (e # xs) = event_results e @ reported_results xs"
  by (simp_all add: reported_results_def)

text \<open>The events a wave adds send files of the wave only and its results are those of the files that ended.\<close>

definition wave_adds :: "tagged_file list \<Rightarrow> wave_state \<Rightarrow> wave_event list \<Rightarrow> wave_state \<Rightarrow> bool" where
  "wave_adds files s new t \<longleftrightarrow>
     wave_log t = wave_log s @ new \<and> all_results t = all_results s @ reported_results new \<and>
     (\<forall>i f. Sent_File i f \<in> set new \<longrightarrow> f \<in> set files) \<and>
     (\<forall>r \<in> set (reported_results new). \<exists>f \<in> set files. res_project (rep_result r) = file_project f)"

definition holds_only :: "tagged_file list \<Rightarrow> wave_state \<Rightarrow> bool" where
  "holds_only files s \<longleftrightarrow> set (wave_queue s) \<subseteq> set files \<and>
     (\<forall>i < length (wave_workers s). \<forall>f. current_file (wave_workers s ! i) = Some f \<longrightarrow> f \<in> set files)"

definition stays_within :: "tagged_file list \<Rightarrow> wave_state \<Rightarrow> wave_state \<Rightarrow> bool" where
  "stays_within files s t \<longleftrightarrow> (holds_only files s \<longrightarrow> holds_only files t \<and> (\<exists>new. wave_adds files s new t))"

lemma stays_withinI: "holds_only files t \<Longrightarrow> wave_adds files s new t \<Longrightarrow> stays_within files s t"
  by (auto simp: stays_within_def)

lemma stays_within_trans: "stays_within files s t \<Longrightarrow> stays_within files t u \<Longrightarrow> stays_within files s u"
proof -
  have "wave_adds files s (xs @ ys) u" if "wave_adds files s xs t" "wave_adds files t ys u" for xs ys
    using that by (auto simp: wave_adds_def)
  then show "stays_within files s t \<Longrightarrow> stays_within files t u \<Longrightarrow> stays_within files s u"
    unfolding stays_within_def by blast
qed

lemma stays_within_quiet:
  assumes "wave_log t = wave_log s" and "all_results t = all_results s" and "holds_only files s \<longrightarrow> holds_only files t"
  shows "stays_within files s t"
  using assms unfolding stays_within_def wave_adds_def by (auto intro!: exI [of _ "[]"])

lemma stays_within_log:
  "event_results e = [] \<Longrightarrow> (\<forall>i f. e = Sent_File i f \<longrightarrow> f \<in> set files) \<Longrightarrow> stays_within files s (log_event e s)"
  unfolding stays_within_def wave_adds_def
  by (auto simp: holds_only_def log_event_def intro!: exI [of _ "[e]"])

lemma holds_only_put:
  "holds_only files s \<Longrightarrow> (\<forall>f. current_file w = Some f \<longrightarrow> f \<in> set files) \<Longrightarrow> holds_only files (put_worker i w s)"
  by (cases "i < length (wave_workers s)") (auto simp: holds_only_def put_worker_def nth_list_update list_update_beyond split: if_splits)

lemma stays_within_put:
  "(\<And>f. holds_only files s \<Longrightarrow> current_file w = Some f \<Longrightarrow> f \<in> set files) \<Longrightarrow> stays_within files s (put_worker i w s)"
  by (rule stays_within_quiet) (simp_all add: holds_only_put, simp add: put_worker_def)

lemma stays_within_maybe_resolve: "stays_within files s (maybe_resolve s)"
  by (rule stays_within_quiet) (auto simp: maybe_resolve_def holds_only_def)

lemma stays_within_fail_run: "stays_within files s (fail_run reason s)"
  by (rule stays_within_quiet) (auto simp: fail_run_def holds_only_def)

lemma stays_within_dispatch_next: "stays_within files s (dispatch_next i s)"
proof (cases "retired (wave_workers s ! i) \<or> wave_queue s = []")
  case True
  then show ?thesis
    by (cases "retired (wave_workers s ! i)")
      (auto simp: dispatch_next_def Let_def intro: stays_within_quiet
        intro!: stays_within_trans [OF stays_within_put stays_within_maybe_resolve])
next
  case False
  then obtain f fs where q: "wave_queue s = f # fs" by (meson list.exhaust)
  let ?w = "wave_workers s ! i"
  let ?t = "put_worker i (?w\<lparr> busy := True, current_file := Some f \<rparr>) (s\<lparr> wave_queue := fs \<rparr>)"
  have r: "dispatch_next i s = log_event (Sent_File (worker_id ?w) f) (log_event (File_Started (file_path f)) ?t)"
    using False q by (simp add: dispatch_next_def Let_def)
  show ?thesis
  proof (cases "holds_only files s")
    case holds: True
    with q have f: "f \<in> set files" by (simp add: holds_only_def)
    have "holds_only files (s\<lparr> wave_queue := fs \<rparr>)" using holds q by (simp add: holds_only_def)
    then have "holds_only files ?t" using f by (intro holds_only_put) auto
    then have "stays_within files s ?t" by (intro stays_within_quiet) (simp_all add: put_worker_def)
    moreover have "stays_within files ?t (dispatch_next i s)"
      unfolding r by (intro stays_within_trans [OF stays_within_log stays_within_log]) (simp_all add: f)
    ultimately show ?thesis by (rule stays_within_trans)
  qed (simp add: stays_within_def)
qed

lemma stays_within_retire_worker:
  assumes "i < length (wave_workers s)"
  shows "stays_within files s (retire_worker i reason s)"
proof -
  let ?w = "wave_workers s ! i"
  let ?p = "put_worker i (?w\<lparr> retired := True, current_file := None, busy := False \<rparr>) s"
  let ?q = "requeue ?w ?p"
  have put: "stays_within files s (put_worker i (?w\<lparr> retired := True \<rparr>) s)"
    using assms by (intro stays_within_put) (auto simp: holds_only_def)
  have q: "stays_within files s ?q"
  proof (cases "holds_only files s")
    case True
    have p: "holds_only files ?p" using True by (intro holds_only_put) auto
    have f: "f \<in> set files" if "current_file ?w = Some f" for f using True that assms by (simp add: holds_only_def)
    have "holds_only files ?q"
      using p f by (auto simp: requeue_def Let_def holds_only_def log_event_def split: option.splits)
    moreover have "wave_adds files s [] ?q \<or> (\<exists>f n. wave_adds files s [File_Retried f n] ?q)"
      by (auto simp: requeue_def Let_def wave_adds_def log_event_def put_worker_def split: option.splits)
    ultimately show ?thesis by (auto intro: stays_withinI)
  qed (simp add: stays_within_def)
  have rest: "stays_within files ?q (maybe_resolve (case x of Some j \<Rightarrow> dispatch_next j ?q | None \<Rightarrow> ?q))" for x
    by (cases x) (auto intro: stays_within_maybe_resolve stays_within_trans [OF stays_within_dispatch_next])
  show ?thesis
    unfolding retire_worker_def Let_def
    by (auto intro: put stays_within_quiet stays_within_trans [OF q stays_within_fail_run] stays_within_trans [OF q rest])
qed

lemma stays_within_file_done:
  assumes "i < length (wave_workers s)" and "current_file (wave_workers s ! i) = Some f"
    and "\<forall>r \<in> set rs. res_project (rep_result r) = file_project f"
  shows "stays_within files s (on_message base i (Msg_File_Done path rs suite) s)"
proof (cases "(has_error s \<or> retired (wave_workers s ! i)) \<or> \<not> holds_only files s")
  case True
  then show ?thesis by (auto simp: on_message_def Let_def stays_within_def wave_adds_def intro!: exI [of _ "[]"])
next
  case False
  let ?w = "wave_workers s ! i" and ?rs = "map (apply_worker_index_base base) rs"
  let ?p = "put_worker i (?w\<lparr> current_file := None \<rparr>) s"
  define s2 where "s2 = log_event (File_Ended path ?rs)
    (?p\<lparr> test_counts := map_del (worker_id ?w) (test_counts s), all_results := all_results s @ ?rs,
       all_suites := all_suites s @ [apply_worker_index_base_to_suite base suite] \<rparr>)"
  have r: "on_message base i (Msg_File_Done path rs suite) s = dispatch_next i s2"
    using False by (simp add: on_message_def Let_def handle_parallel_file_done_def s2_def put_worker_def)
  have "f \<in> set files" using False assms(1,2) by (simp add: holds_only_def)
  moreover have "res_project (rep_result (apply_worker_index_base base x)) = res_project (rep_result x)" for x
    by (simp add: apply_worker_index_base_def split: option.splits)
  ultimately have "wave_adds files s [File_Ended path ?rs] s2"
    using assms(3) by (auto simp: wave_adds_def s2_def log_event_def put_worker_def)
  moreover have "holds_only files ?p" using False by (intro holds_only_put) auto
  then have "holds_only files s2" by (simp add: s2_def holds_only_def log_event_def)
  ultimately have "stays_within files s s2" by (intro stays_withinI)
  then show ?thesis unfolding r by (rule stays_within_trans) (rule stays_within_dispatch_next)
qed

lemma stays_within_step: "wave_step base s t \<Longrightarrow> stays_within files s t"
proof (induction rule: wave_step.cases)
  case (message i s' m)
  then show ?case
  proof (cases m)
    case (Msg_File_Done path rs suite)
    with message show ?thesis by (auto intro: stays_within_file_done)
  next
    case (Msg_Error reason)
    with message stays_within_retire_worker [of i s files reason] show ?thesis
      by (auto simp: on_message_def Let_def intro: stays_within_quiet)
  qed (auto simp: on_message_def Let_def handle_parallel_test_end_def handle_parallel_file_retry_def holds_only_def
      intro: stays_within_quiet stays_within_log stays_within_trans [OF stays_within_quiet stays_within_log])
next
  case (exited i s' reason)
  with stays_within_retire_worker [of i s files reason] show ?case by (auto simp: on_exit_def intro: stays_within_quiet)
next
  case (channel i s' reason)
  with stays_within_retire_worker [of i s files reason] show ?case by simp
next
  case (shutdown s')
  then show ?case by (auto simp: holds_only_def intro: stays_within_quiet)
qed

lemma stays_within_run: "wave_run base s t \<Longrightarrow> stays_within files s t"
  by (induction rule: wave_run.induct)
    (auto intro: stays_within_quiet stays_within_trans stays_within_step)

lemma start_wave_adds:
  assumes "ready_for_wave s" and "wave_run base (start_wave files s) t"
  shows "\<exists>new. wave_adds files s new t"
proof -
  let ?s = "s\<lparr> wave_queue := files, test_counts := [], has_error := False, settled := False, wave_end := None \<rparr>"
  have "holds_only files ?s" using assms(1) by (simp add: ready_for_wave_def holds_only_def)
  moreover have fold: "stays_within files x (fold dispatch_next is x)" for x "is"
    by (induction "is" arbitrary: x) (auto intro: stays_within_quiet stays_within_trans [OF stays_within_dispatch_next])
  then have "stays_within files ?s (start_wave files s)"
    by (auto simp: start_wave_def Let_def intro: stays_within_fail_run)
  then have "stays_within files ?s t" using stays_within_run [OF assms(2)] by (rule stays_within_trans)
  ultimately show ?thesis by (auto simp: stays_within_def wave_adds_def)
qed

lemma wave_done_ready: "wave_inv s \<Longrightarrow> \<not> shutting_down s \<Longrightarrow> wave_end s = Some Wave_Done \<Longrightarrow> ready_for_wave s"
  by (auto simp: wave_inv_defs ready_for_wave_def)

text \<open>A wave that is through, in one statement: every file ended once, and the workers are ready for the next wave.\<close>

lemma wave_through:
  assumes "ready_for_wave s" and "wave_run base (start_wave files s) t" and "wave_end t = Some Wave_Done" and "\<not> shutting_down t"
  shows "ready_for_wave t \<and> mset (ended_files t) = mset (map file_path files) + mset (ended_files s) \<and> (\<exists>new. wave_adds files s new t)"
proof -
  from wave_run_keeps [OF assms(2) start_wave_inv(1) [OF assms(1)]]
  have inv: "wave_inv t" and files: "wave_files t = mset (map file_path files) + mset (ended_files s)"
    using start_wave_inv(2) [OF assms(1), of files] by simp_all
  have "in_flight (wave_workers t) = {#}" "wave_queue t = []"
    using inv assms(3,4) unfolding in_flight_none by (auto simp: wave_inv_defs)
  with files wave_done_ready [OF inv assms(4,3)] start_wave_adds [OF assms(1,2)] show ?thesis by (simp add: wave_files_def)
qed

end
