(* ===== verification/Wave_Order.thy ===== *)
theory Wave_Order
  imports Project_Waves
begin

text \<open>
  What the loop over the waves of projects promises: every file is run once or reported skipped once, a
  project is skipped exactly when a dependency failed, and no file is sent before its project's
  dependencies are through.
\<close>

section \<open>Entering and leaving a wave\<close>

definition blocked :: "string list \<Rightarrow> resolved_project \<Rightarrow> bool" where
  "blocked failed p \<longleftrightarrow> (\<exists>d \<in> set (dependencies p). d \<in> set failed)"

definition skips :: "resolved_project list \<Rightarrow> reported list" where
  "skips ps = concat (map (\<lambda>p. map (skipped_file p) (test_files p)) ps)"

lemma skips_simps [simp]: "skips [] = []" "skips (xs @ ys) = skips xs @ skips ys"
  "skips (p # ps) = map (skipped_file p) (test_files p) @ skips ps"
  by (simp_all add: skips_def)

lemma blocked_by_None: "blocked_by failed p = None \<longleftrightarrow> \<not> blocked failed p"
  by (auto simp: blocked_by_def blocked_def find_None_iff)

lemma blocked_cong:
  "set failed' - set failed \<subseteq> N \<Longrightarrow> set failed \<subseteq> set failed' \<Longrightarrow> set (dependencies p) \<inter> N = {} \<Longrightarrow> blocked failed' p = blocked failed p"
  by (auto simp: blocked_def)

lemma fold_push_skipped:
  "wave_log (fold (push_skipped p) fs s) = wave_log s @ map (\<lambda>f. Test_Ended (skipped_file p f)) fs"
  "all_results (fold (push_skipped p) fs s) = all_results s @ map (skipped_file p) fs"
  "wave_workers (fold (push_skipped p) fs s) = wave_workers s"
  "shutting_down (fold (push_skipped p) fs s) = shutting_down s"
  by (induction fs arbitrary: s) (simp_all add: push_skipped_def log_event_def)

lemma enter_wave_effect:
  assumes "\<forall>p \<in> set ps. set (dependencies p) \<inter> names_of ps = {}" and "enter_wave ps l = (l1, files)"
  shows "set (failed_projects l1) = set (failed_projects l) \<union> names_of (filter (blocked (failed_projects l)) ps) \<and>
    files = concat (map tag_files (filter (\<lambda>p. \<not> blocked (failed_projects l) p) ps)) \<and>
    wave_log (loop_wave l1) = wave_log (loop_wave l) @ map Test_Ended (skips (filter (blocked (failed_projects l)) ps)) \<and>
    all_results (loop_wave l1) = all_results (loop_wave l) @ skips (filter (blocked (failed_projects l)) ps) \<and>
    wave_workers (loop_wave l1) = wave_workers (loop_wave l) \<and> shutting_down (loop_wave l1) = shutting_down (loop_wave l)"
  using assms
proof (induction ps arbitrary: l files)
  case (Cons p ps)
  from Cons.prems(1) have deps: "\<forall>q \<in> set ps. set (dependencies q) \<inter> names_of ps = {}" by auto
  show ?case
  proof (cases "blocked (failed_projects l) p")
    case True
    then obtain d where d: "blocked_by (failed_projects l) p = Some d" using blocked_by_None by blast
    have same: "blocked (failed_projects (skip_project p l)) q = blocked (failed_projects l) q" if "q \<in> set ps" for q
      using Cons.prems(1) that by (intro blocked_cong [of _ _ "{proj_name p}"]) (auto simp: skip_project_def)
    then have f: "filter (blocked (failed_projects (skip_project p l))) ps = filter (blocked (failed_projects l)) ps"
      "filter (\<lambda>p'. \<not> blocked (failed_projects (skip_project p l)) p') ps = filter (\<lambda>p. \<not> blocked (failed_projects l) p) ps"
      by (auto intro: filter_cong)
    from Cons.prems(2) d have "enter_wave ps (skip_project p l) = (l1, files)" by simp
    from Cons.IH [OF deps this, unfolded f] True show ?thesis
      by (auto simp: skip_project_def fold_push_skipped)
  next
    case False
    then have "blocked_by (failed_projects l) p = None" by (simp add: blocked_by_None)
    with Cons.prems(2) obtain fs where "enter_wave ps l = (l1, fs)" "files = tag_files p @ fs" by (auto split: prod.splits)
    with Cons.IH [OF deps this(1)] False show ?thesis by simp
  qed
qed simp

lemma set_note_wave_failures:
  "set (note_wave_failures rs ps failed) =
     set failed \<union> {n. \<exists>p \<in> set ps. n = proj_name p \<and> (\<exists>r \<in> set rs. is_failed r \<and> res_project (rep_result r) = Some n)}"
  unfolding note_wave_failures_def by (induction ps arbitrary: failed) (auto simp: list_ex_iff)

section \<open>The invariant of the loop\<close>

definition ended_in :: "wave_event list \<Rightarrow> string list" where
  "ended_in log = List.map_filter ended_file log"

text \<open>
  Whenever a file is sent, it is one of a project that is not blocked, and every file of each of the
  project's dependencies has ended.
\<close>

definition sent_in_order :: "resolved_project list \<Rightarrow> string list \<Rightarrow> wave_event list \<Rightarrow> bool" where
  "sent_in_order ps failed log \<longleftrightarrow>
     (\<forall>xs i f ys. log = xs @ Sent_File i f # ys \<longrightarrow>
        (\<exists>p \<in> set ps. f \<in> set (tag_files p) \<and> \<not> blocked failed p \<and>
           (\<forall>q \<in> set ps. proj_name q \<in> set (dependencies p) \<longrightarrow> mset (test_files q) \<subseteq># mset (ended_in xs))))"

text \<open>The projects that failed: skipped for a dependency, or with a failed result of their own.\<close>

definition failed_right :: "resolved_project list \<Rightarrow> string list \<Rightarrow> reported list \<Rightarrow> bool" where
  "failed_right ps failed rs \<longleftrightarrow>
     (\<forall>n. n \<in> set failed \<longleftrightarrow> (\<exists>p \<in> set ps. proj_name p = n \<and>
        (blocked failed p \<or> (\<exists>r \<in> set rs. is_failed r \<and> res_project (rep_result r) = Some n))))"

definition loop_inv :: "resolved_project list \<Rightarrow> wave_loop \<Rightarrow> bool" where
  "loop_inv ps l \<longleftrightarrow>
     (let s = loop_wave l; failed = failed_projects l; rs = reported_results (wave_log s) in
      ready_for_wave s \<and>
      mset (ended_files s) = mset (concat (map test_files (filter (\<lambda>p. \<not> blocked failed p) ps))) \<and>
      mset (all_results s) = mset rs + mset (skips (filter (blocked failed) ps)) \<and>
      failed_right ps failed rs \<and> (\<forall>r \<in> set rs. \<exists>p \<in> set ps. res_project (rep_result r) = Some (proj_name p)) \<and>
      sent_in_order ps failed (wave_log s))"

lemma ended_files_eq: "ended_files s = ended_in (wave_log s)"
  by (simp add: ended_files_def ended_in_def)

lemma ended_in_simps [simp]:
  "ended_in [] = []" "ended_in (xs @ ys) = ended_in xs @ ended_in ys" "ended_in (map Test_Ended rs) = []"
  by (induction rs) (simp_all add: ended_in_def List.map_filter_def)

lemma reported_Test_Ended [simp]: "reported_results (map Test_Ended rs) = []"
  by (induction rs) simp_all

lemma split_event:
  "a @ b = xs @ e # ys \<Longrightarrow> (\<exists>ys'. a = xs @ e # ys') \<or> (\<exists>xs'. xs = a @ xs' \<and> b = xs' @ e # ys)"
  by (auto simp: append_eq_append_conv2 append_eq_Cons_conv)

lemma map_file_path_tags: "map file_path (concat (map tag_files ps)) = concat (map test_files ps)"
  by (induction ps) (auto simp: tag_files_def comp_def)

lemma tag_files_project: "f \<in> set (tag_files p) \<Longrightarrow> file_project f = Some (proj_name p)"
  by (auto simp: tag_files_def)

text \<open>
  One wave: entering it, running its files to their end (\<open>new\<close> is what that logs) and noting its
  failures keeps the invariant.
\<close>

lemma loop_inv_step:
  assumes inv: "loop_inv ps l" and names: "distinct (map proj_name (ps @ w))"
    and deps: "\<forall>p \<in> set (ps @ w). set (dependencies p) \<inter> names_of w = {}"
    and enter: "enter_wave w l = (l1, files)"
    and ready: "ready_for_wave s" and ended: "mset (ended_files s) = mset (map file_path files) + mset (ended_files (loop_wave l1))"
    and adds: "wave_adds files (loop_wave l1) new s"
    and failed: "set failed' = set (note_wave_failures (reported_results new) w (failed_projects l1))"
  shows "loop_inv (ps @ w) \<lparr> loop_wave = s, failed_projects = failed' \<rparr>"
proof -
  let ?f = "failed_projects l" and ?log = "wave_log (loop_wave l)"
  let ?old = "reported_results ?log" and ?new = "reported_results new"
  have "\<forall>p \<in> set w. set (dependencies p) \<inter> names_of w = {}" using deps by auto
  note entered = enter_wave_effect [OF this enter]
  have inv': "ready_for_wave (loop_wave l)" "mset (ended_files (loop_wave l)) = mset (concat (map test_files (filter (\<lambda>p. \<not> blocked ?f p) ps)))"
    "mset (all_results (loop_wave l)) = mset ?old + mset (skips (filter (blocked ?f) ps))" "failed_right ps ?f ?old"
    "\<forall>r \<in> set ?old. \<exists>p \<in> set ps. res_project (rep_result r) = Some (proj_name p)" "sent_in_order ps ?f ?log"
    using inv by (auto simp: loop_inv_def Let_def)
  have log: "wave_log s = ?log @ map Test_Ended (skips (filter (blocked ?f) w)) @ new"
    and results: "all_results s = all_results (loop_wave l) @ skips (filter (blocked ?f) w) @ ?new"
    using adds entered by (simp_all add: wave_adds_def)
  have reported: "reported_results (wave_log s) = ?old @ ?new" by (simp add: log)
  have set_failed: "set failed' = set ?f \<union> names_of (filter (blocked ?f) w) \<union>
      {n. \<exists>p \<in> set w. n = proj_name p \<and> (\<exists>r \<in> set ?new. is_failed r \<and> res_project (rep_result r) = Some n)}"
    unfolding failed set_note_wave_failures using entered by blast
  have same: "blocked failed' p = blocked ?f p" if "p \<in> set (ps @ w)" for p
    using deps that by (intro blocked_cong [of _ _ "names_of w"]) (auto simp: set_failed)
  have filters: "filter (blocked failed') (ps @ w) = filter (blocked ?f) (ps @ w)"
    "filter (\<lambda>p. \<not> blocked failed' p) (ps @ w) = filter (\<lambda>p. \<not> blocked ?f p) (ps @ w)"
    by (rule filter_cong [OF refl], simp only: same)+
  have new_projects: "\<exists>p \<in> set w. res_project (rep_result r) = Some (proj_name p)" if "r \<in> set ?new" for r
    using adds that entered by (fastforce simp: wave_adds_def dest: tag_files_project)
  have apart: "proj_name p \<noteq> proj_name q" if "p \<in> set ps" "q \<in> set w" for p q using names that by auto
  have "failed_right (ps @ w) failed' (?old @ ?new)"
    unfolding failed_right_def
  proof (intro allI)
    fix n
    let ?bad = "\<lambda>rs. \<exists>r \<in> set rs. is_failed r \<and> res_project (rep_result r) = Some n"
    have old: "n \<in> set ?f \<longleftrightarrow> (\<exists>p \<in> set ps. proj_name p = n \<and> (blocked ?f p \<or> ?bad ?old))"
      using inv'(4) by (simp add: failed_right_def)
    have in_ps: "?bad (?old @ ?new) \<longleftrightarrow> ?bad ?old" if "p \<in> set ps" "proj_name p = n" for p
      using new_projects apart [OF that(1)] that(2) by fastforce
    have in_w: "?bad (?old @ ?new) \<longleftrightarrow> ?bad ?new" if "p \<in> set w" "proj_name p = n" for p
      using inv'(5) apart [OF _ that(1)] that(2) by fastforce
    have "n \<in> set failed' \<longleftrightarrow> (\<exists>p \<in> set ps. proj_name p = n \<and> (blocked ?f p \<or> ?bad ?old)) \<or>
        (\<exists>p \<in> set w. proj_name p = n \<and> (blocked ?f p \<or> ?bad ?new))"
      unfolding set_failed Un_iff old by auto
    then show "n \<in> set failed' \<longleftrightarrow> (\<exists>p \<in> set (ps @ w). proj_name p = n \<and> (blocked failed' p \<or> ?bad (?old @ ?new)))"
      using in_ps in_w same by (metis Un_iff set_append)
  qed
  moreover have "sent_in_order (ps @ w) failed' (wave_log s)"
    unfolding sent_in_order_def
  proof (intro allI impI)
    fix xs i f ys assume at: "wave_log s = xs @ Sent_File i f # ys"
    have all_ended: "mset (test_files q) \<subseteq># mset (ended_in ?log)" if "q \<in> set ps" "proj_name q \<notin> set ?f" for q
    proof -
      have "\<not> blocked ?f q" using that inv'(4) by (auto simp: failed_right_def)
      with that(1) have "q \<in> set (filter (\<lambda>p. \<not> blocked ?f p) ps)" by simp
      then obtain as bs where "filter (\<lambda>p. \<not> blocked ?f p) ps = as @ q # bs" by (meson split_list)
      with inv'(2) show ?thesis by (simp add: ended_files_eq)
    qed
    from split_event [OF at [unfolded log]] consider
      (before) ys' where "?log = xs @ Sent_File i f # ys'"
    | (later) xs' where "xs = ?log @ xs'" "map Test_Ended (skips (filter (blocked ?f) w)) @ new = xs' @ Sent_File i f # ys" by blast
    then show "\<exists>p \<in> set (ps @ w). f \<in> set (tag_files p) \<and> \<not> blocked failed' p \<and>
        (\<forall>q \<in> set (ps @ w). proj_name q \<in> set (dependencies p) \<longrightarrow> mset (test_files q) \<subseteq># mset (ended_in xs))"
    proof cases
      case before
      with inv'(6) obtain p where "p \<in> set ps" "f \<in> set (tag_files p)" "\<not> blocked ?f p"
        "\<forall>q \<in> set ps. proj_name q \<in> set (dependencies p) \<longrightarrow> mset (test_files q) \<subseteq># mset (ended_in xs)"
        unfolding sent_in_order_def by blast
      moreover have "proj_name q \<notin> set (dependencies p)" if "q \<in> set w" for q using deps \<open>p \<in> set ps\<close> that by auto
      ultimately show ?thesis using same by auto
    next
      case later
      then have "Sent_File i f \<in> set new" by (metis Un_iff in_set_conv_decomp set_append wave_event.distinct(6) imageE list.set_map)
      with adds have "f \<in> set files" by (auto simp: wave_adds_def)
      with entered obtain p where p: "p \<in> set w" "\<not> blocked ?f p" "f \<in> set (tag_files p)" by auto
      have "mset (test_files q) \<subseteq># mset (ended_in xs)" if "q \<in> set (ps @ w)" "proj_name q \<in> set (dependencies p)" for q
      proof -
        have "q \<in> set ps" using that deps p(1) by auto
        moreover have "proj_name q \<notin> set ?f" using p(2) that(2) by (auto simp: blocked_def)
        ultimately have "mset (test_files q) \<subseteq># mset (ended_in ?log)" by (rule all_ended)
        then show ?thesis by (simp add: later(1) subset_mset.add_increasing2)
      qed
      with p same show ?thesis by auto
    qed
  qed
  moreover have "mset (ended_files s) = mset (concat (map test_files (filter (\<lambda>p. \<not> blocked ?f p) (ps @ w))))"
    using ended inv'(2) entered by (simp add: map_file_path_tags ended_files_eq)
  moreover have "mset (all_results s) = mset (?old @ ?new) + mset (skips (filter (blocked ?f) (ps @ w)))"
    using inv'(3) by (simp add: results)
  moreover have "\<forall>r \<in> set (?old @ ?new). \<exists>p \<in> set (ps @ w). res_project (rep_result r) = Some (proj_name p)"
    using inv'(5) new_projects by auto
  ultimately show ?thesis using ready by (simp only: loop_inv_def Let_def wave_loop.simps reported filters)
qed

section \<open>The whole loop\<close>

lemma retire_worker_shutting: "shutting_down (retire_worker i reason s) = shutting_down s"
  by (auto simp: retire_worker_def requeue_def Let_def split: option.splits)

lemma wave_run_shutting: "wave_run base s t \<Longrightarrow> shutting_down s \<Longrightarrow> shutting_down t"
proof (induction rule: wave_run.induct)
  case (step s t u)
  from step.hyps(2) have "shutting_down t \<Longrightarrow> shutting_down u"
  proof cases
    case (message i m)
    then show "shutting_down t \<Longrightarrow> shutting_down u"
      by (cases m) (simp_all add: on_message_def Let_def handle_parallel_test_end_def handle_parallel_file_retry_def
          handle_parallel_file_done_def retire_worker_shutting)
  qed (simp_all add: on_exit_def retire_worker_shutting)
  with step show ?case by simp
qed simp

lemma enter_wave_shutting: "enter_wave w l = (l1, files) \<Longrightarrow> shutting_down (loop_wave l1) = shutting_down (loop_wave l)"
  by (induction w arbitrary: l files) (auto simp: skip_project_def fold_push_skipped split: option.splits prod.splits)

lemma project_waves_shutting:
  "project_waves base ws l l' out \<Longrightarrow> shutting_down (loop_wave l) \<Longrightarrow> shutting_down (loop_wave l')"
proof (induction rule: project_waves.induct)
  have start: "shutting_down (start_wave fs s) = shutting_down s" for fs s
  proof -
    have "shutting_down (fold dispatch_next is x) = shutting_down x" for x "is"
      by (induction "is" arbitrary: x) simp_all
    then show ?thesis by (simp add: start_wave_def Let_def)
  qed
  {
    case (dispatched ps l l1 f fs s ws l2 out)
    then show ?case by (simp add: leave_wave_def enter_wave_shutting start wave_run_shutting)
  next
    case (broken ps l l1 f fs s reason ws)
    then show ?case by (simp add: enter_wave_shutting start wave_run_shutting)
  }
qed (simp_all add: enter_wave_shutting)

lemma ready_for_wave_enter:
  "loop_inv ps l \<Longrightarrow> wave_workers s = wave_workers (loop_wave l) \<Longrightarrow> shutting_down s = shutting_down (loop_wave l) \<Longrightarrow>
     ready_for_wave s"
  by (simp add: loop_inv_def Let_def ready_for_wave_def)

lemma wave_names_distinct:
  "distinct (map proj_name (concat (pre @ w # ws))) \<Longrightarrow> distinct (map proj_name (concat pre @ w))"
proof -
  have "map proj_name (concat (pre @ w # ws)) = map proj_name (concat pre @ w) @ map proj_name (concat ws)" by simp
  then show "distinct (map proj_name (concat (pre @ w # ws))) \<Longrightarrow> distinct (map proj_name (concat pre @ w))"
    by (metis distinct_append)
qed

text \<open>No project up to a wave depends on one of that wave.\<close>

lemma wave_deps:
  assumes "ordered_waves (pre @ w # ws)" and "distinct (map proj_name (concat (pre @ w # ws)))"
  shows "\<forall>p \<in> set (concat pre @ w). set (dependencies p) \<inter> names_of w = {}"
proof (rule ballI, rule ccontr)
  fix p assume p: "p \<in> set (concat pre @ w)" and "set (dependencies p) \<inter> names_of w \<noteq> {}"
  then obtain q where q: "q \<in> set w" "proj_name q \<in> set (dependencies p)" by auto
  let ?W = "pre @ w # ws"
  obtain i where i: "i \<le> length pre" "p \<in> set (?W ! i)"
  proof (cases "p \<in> set w")
    case True
    then show ?thesis by (intro that [of "length pre"]) simp_all
  next
    case False
    with p obtain v where v: "v \<in> set pre" "p \<in> set v" by auto
    then obtain i where "i < length pre" "p \<in> set (pre ! i)" by (metis in_set_conv_nth)
    then show ?thesis by (intro that [of i]) (simp_all add: nth_append)
  qed
  have "i < length ?W" "q \<in> set (concat ?W)" using i(1) q(1) by simp_all
  then have "q \<in> set (concat (take i ?W))"
    using assms(1) i(2) q(2) unfolding ordered_waves_def by blast
  moreover have "take i ?W = take i pre" using i(1) by simp
  ultimately have "q \<in> set (concat pre)" by (auto dest: in_set_takeD)
  moreover have "names_of (concat pre) \<inter> names_of w = {}" using wave_names_distinct [OF assms(2)] by simp
  ultimately show False using q(1) by blast
qed

lemma project_waves_inv:
  assumes "project_waves base ws l l' out" and "out = Wave_Done" and "\<not> shutting_down (loop_wave l')"
    and "loop_inv (concat pre) l" and "ordered_waves (pre @ ws)" and "distinct (map proj_name (concat (pre @ ws)))"
  shows "loop_inv (concat (pre @ ws)) l'"
  using assms
proof (induction arbitrary: pre rule: project_waves.induct)
  case (no_more l)
  then show ?case by simp
next
  case (nothing_left w l l1 ws l2 out)
  have deps: "\<forall>p \<in> set (concat pre @ w). set (dependencies p) \<inter> names_of w = {}"
    by (rule wave_deps [OF nothing_left.prems(4,5)])
  have names: "distinct (map proj_name (concat pre @ w))" by (rule wave_names_distinct [OF nothing_left.prems(5)])
  have "\<forall>p \<in> set w. set (dependencies p) \<inter> names_of w = {}" using deps by auto
  note e = enter_wave_effect [OF this nothing_left.hyps(1)]
  have "loop_inv (concat pre @ w) \<lparr> loop_wave = loop_wave l1, failed_projects = failed_projects l1 \<rparr>"
  proof (rule loop_inv_step [OF nothing_left.prems(3) names deps nothing_left.hyps(1), where new = "[]"])
    show "ready_for_wave (loop_wave l1)"
      using e by (intro ready_for_wave_enter [OF nothing_left.prems(3)]) blast+
  qed (simp_all add: wave_adds_def set_note_wave_failures)
  then have "loop_inv (concat (pre @ [w])) l1" by (cases l1) simp
  from nothing_left.IH [OF nothing_left.prems(1,2) this] nothing_left.prems(4,5) show ?case by simp
next
  case (dispatched w l l1 f fs s ws l2 out)
  have deps: "\<forall>p \<in> set (concat pre @ w). set (dependencies p) \<inter> names_of w = {}"
    by (rule wave_deps [OF dispatched.prems(4,5)])
  have names: "distinct (map proj_name (concat pre @ w))" by (rule wave_names_distinct [OF dispatched.prems(5)])
  have "\<forall>p \<in> set w. set (dependencies p) \<inter> names_of w = {}" using deps by auto
  note e = enter_wave_effect [OF this dispatched.hyps(1)]
  have ready: "ready_for_wave (loop_wave l1)"
    using e by (intro ready_for_wave_enter [OF dispatched.prems(3)]) blast+
  have up: "\<not> shutting_down s"
    using project_waves_shutting [OF dispatched.hyps(4)] dispatched.prems(2) by (auto simp: leave_wave_def)
  from wave_through [OF ready dispatched.hyps(2,3) up] obtain new where
    through: "ready_for_wave s" "mset (ended_files s) = mset (map file_path (f # fs)) + mset (ended_files (loop_wave l1))"
    and adds: "wave_adds (f # fs) (loop_wave l1) new s" by blast
  have "drop (length (all_results (loop_wave l1))) (all_results s) = reported_results new" using adds by (simp add: wave_adds_def)
  with loop_inv_step [OF dispatched.prems(3) names deps dispatched.hyps(1) through adds]
  have "loop_inv (concat (pre @ [w])) (leave_wave w l1 s)" by (simp add: leave_wave_def)
  from dispatched.IH [OF dispatched.prems(1,2) this] dispatched.prems(4,5) show ?case by simp
next
  case (broken w l l1 f fs s reason ws)
  then show ?case by simp
qed

definition start_loop :: "wave_state \<Rightarrow> wave_loop" where
  "start_loop s = \<lparr> loop_wave = s, failed_projects = [] \<rparr>"

text \<open>A run's workers before its first wave: idle, nothing logged.\<close>

definition fresh_wave :: "wave_state \<Rightarrow> bool" where
  "fresh_wave s \<longleftrightarrow> ready_for_wave s \<and> wave_log s = [] \<and> all_results s = []"

lemma project_waves_loop_inv:
  assumes "fresh_wave s0" and "ordered_waves W" and "distinct (map proj_name (concat W))"
    and "project_waves base W (start_loop s0) l Wave_Done" and "\<not> shutting_down (loop_wave l)"
  shows "loop_inv (concat W) l"
proof -
  have "loop_inv (concat []) (start_loop s0)"
    using assms(1) by (simp add: fresh_wave_def start_loop_def loop_inv_def Let_def ended_files_eq failed_right_def sent_in_order_def)
  from project_waves_inv [OF assms(4) refl assms(5) this] assms(2,3) show ?thesis by simp
qed

text \<open>
  C19. When the waves of projects are through, whatever became of the workers: every test file of a project
  that is not blocked ended exactly once, and every file of a blocked project has exactly one skipped
  result beside the results the finished files reported. A project is blocked exactly when a
  dependency failed, and it counts as failed exactly when it is blocked or one of its results failed.
\<close>

theorem project_waves_complete:
  assumes "fresh_wave s0" and "ordered_waves W" and "distinct (map proj_name (concat W))"
    and "project_waves base W (start_loop s0) l Wave_Done" and "\<not> shutting_down (loop_wave l)"
  shows "let ps = concat W; s = loop_wave l; failed = failed_projects l; rs = reported_results (wave_log s) in
         mset (ended_files s) = mset (concat (map test_files (filter (\<lambda>p. \<not> blocked failed p) ps))) \<and>
         mset (all_results s) = mset rs + mset (skips (filter (blocked failed) ps)) \<and>
         (\<forall>n. n \<in> set failed \<longleftrightarrow> (\<exists>p \<in> set ps. proj_name p = n \<and>
            (blocked failed p \<or> (\<exists>r \<in> set rs. is_failed r \<and> res_project (rep_result r) = Some n))))"
  using project_waves_loop_inv [OF assms] unfolding loop_inv_def failed_right_def Let_def
  by (elim conjE) (intro conjI; assumption)


section \<open>A run of two projects\<close>

text \<open>A setup project and one that depends on it, and the wave of the setup's file, which ends as told.\<close>

definition demo_setup :: resolved_project where
  "demo_setup = demo_project ''setup'' [] [''s'']"

definition demo_tests :: resolved_project where
  "demo_tests = demo_project ''tests'' [''setup''] [''t'']"

definition demo_result :: "test_status \<Rightarrow> reported" where
  "demo_result st = \<lparr> rep_result = (plain_result ''x'' ''x'' st)\<lparr> res_project := Some ''setup'' \<rparr>, rep_worker = None \<rparr>"

definition demo_setup_wave :: "test_status \<Rightarrow> wave_state" where
  "demo_setup_wave st = on_message None 0 (Msg_File_Done ''s'' [demo_result st] (Reported_Suite [] [] []))
     (start_wave (tag_files demo_setup) demo_wave)"

definition demo_tests_wave :: wave_state where
  "demo_tests_wave = on_message None 0 (Msg_File_Done ''t'' [] (Reported_Suite [] [] []))
     (start_wave (tag_files demo_tests) (demo_setup_wave Passed))"

lemmas demo_run_defs = demo_setup_wave_def demo_tests_wave_def demo_setup_def demo_tests_def demo_result_def tag_files_def
  demo_project_def apply_worker_index_base_def demo_wave_defs

lemma demo_fresh: "fresh_wave demo_wave" "ordered_waves [[demo_setup], [demo_tests]]"
  "distinct (map proj_name (concat [[demo_setup], [demo_tests]]))"
  by (simp_all add: fresh_wave_def ready_for_wave_def ordered_waves_def less_Suc_eq demo_run_defs)

lemma demo_setup_run: "wave_run None (start_wave (tag_files demo_setup) demo_wave) (demo_setup_wave st)"
  "wave_end (demo_setup_wave st) = Some Wave_Done" "\<not> shutting_down (demo_setup_wave st)"
proof -
  have "wave_step None (start_wave (tag_files demo_setup) demo_wave) (demo_setup_wave st)"
    unfolding demo_setup_wave_def by (rule wave_step.message) (simp_all add: demo_run_defs plain_result_def)
  then show "wave_run None (start_wave (tag_files demo_setup) demo_wave) (demo_setup_wave st)"
    by (rule wave_run.step [OF wave_run.start])
qed (simp_all add: demo_run_defs)

lemma demo_tests_run: "wave_run None (start_wave (tag_files demo_tests) (demo_setup_wave Passed)) demo_tests_wave"
  "wave_end demo_tests_wave = Some Wave_Done" "\<not> shutting_down demo_tests_wave"
proof -
  have "wave_step None (start_wave (tag_files demo_tests) (demo_setup_wave Passed)) demo_tests_wave"
    unfolding demo_tests_wave_def by (rule wave_step.message) (simp_all add: demo_run_defs)
  then show "wave_run None (start_wave (tag_files demo_tests) (demo_setup_wave Passed)) demo_tests_wave"
    by (rule wave_run.step [OF wave_run.start])
qed (simp_all add: demo_run_defs)

lemma demo_enter_setup: "enter_wave [demo_setup] (start_loop demo_wave) = (start_loop demo_wave, tag_files demo_setup)"
  "tag_files demo_setup = [\<lparr> file_path = ''s'', file_use = None, file_project = Some ''setup'' \<rparr>]"
  "tag_files demo_tests = [\<lparr> file_path = ''t'', file_use = None, file_project = Some ''tests'' \<rparr>]"
  by (simp_all add: blocked_by_def start_loop_def demo_setup_def demo_tests_def demo_project_def tag_files_def)

lemma demo_after_setup:
  "leave_wave [demo_setup] (start_loop demo_wave) (demo_setup_wave st) =
     \<lparr> loop_wave = demo_setup_wave st, failed_projects = (if st = Failed then [''setup''] else []) \<rparr>"
  by (simp add: leave_wave_def start_loop_def note_wave_failures_def is_failed_def set_add_def plain_result_def demo_run_defs)

lemma demo_from_setup:
  assumes "project_waves None ws
    \<lparr> loop_wave = demo_setup_wave st, failed_projects = (if st = Failed then [''setup''] else []) \<rparr> l out"
  shows "project_waves None ([demo_setup] # ws) (start_loop demo_wave) l out"
proof (rule project_waves.dispatched [OF demo_enter_setup(1) [unfolded demo_enter_setup(2)] _ demo_setup_run(2)])
  show "wave_run None (start_wave [\<lparr> file_path = ''s'', file_use = None, file_project = Some ''setup'' \<rparr>]
      (loop_wave (start_loop demo_wave))) (demo_setup_wave st)"
    using demo_setup_run(1) [of st] by (simp add: start_loop_def demo_enter_setup(2))
  show "project_waves None ws (leave_wave [demo_setup] (start_loop demo_wave) (demo_setup_wave st)) l out"
    using assms by (simp only: demo_after_setup)
qed

text \<open>The setup fails: the tests are skipped. It passes: they are sent after it.\<close>

definition demo_skipped :: wave_loop where
  "demo_skipped = skip_project demo_tests \<lparr> loop_wave = demo_setup_wave Failed, failed_projects = [''setup''] \<rparr>"

lemma demo_skipped_run: "project_waves None [[demo_setup], [demo_tests]] (start_loop demo_wave) demo_skipped Wave_Done"
proof (rule demo_from_setup [of _ Failed])
  show "project_waves None [[demo_tests]]
      \<lparr> loop_wave = demo_setup_wave Failed, failed_projects = (if Failed = Failed then [''setup''] else []) \<rparr> demo_skipped Wave_Done"
    by (rule project_waves.nothing_left [OF _ project_waves.no_more])
      (simp add: demo_skipped_def blocked_by_def demo_tests_def demo_project_def)
qed

lemma demo_sent_run:
  "\<exists>failed. project_waves None [[demo_setup], [demo_tests]] (start_loop demo_wave)
     \<lparr> loop_wave = demo_tests_wave, failed_projects = failed \<rparr> Wave_Done"
proof (intro exI, rule demo_from_setup [of _ Passed])
  let ?l = "\<lparr> loop_wave = demo_setup_wave Passed, failed_projects = (if Passed = Failed then [''setup''] else []) \<rparr>"
  have enter: "enter_wave [demo_tests] ?l = (?l, tag_files demo_tests)"
    by (simp add: blocked_by_def demo_tests_def demo_project_def)
  have "project_waves None [] (leave_wave [demo_tests] ?l demo_tests_wave)
      \<lparr> loop_wave = demo_tests_wave, failed_projects = failed_projects (leave_wave [demo_tests] ?l demo_tests_wave) \<rparr> Wave_Done"
    using project_waves.no_more [of None "leave_wave [demo_tests] ?l demo_tests_wave"] by (simp add: leave_wave_def)
  from project_waves.dispatched [OF enter [unfolded demo_enter_setup(3)] _ demo_tests_run(2) this]
  show "project_waves None [[demo_tests]] ?l
      \<lparr> loop_wave = demo_tests_wave, failed_projects = failed_projects (leave_wave [demo_tests] ?l demo_tests_wave) \<rparr> Wave_Done"
    using demo_tests_run(1) by (simp add: demo_enter_setup(3))
qed

theorem project_waves_complete_witness:
  "skipped_file demo_tests ''t'' \<in> set (all_results (loop_wave demo_skipped))"
proof -
  have up: "\<not> shutting_down (loop_wave demo_skipped)"
    using demo_setup_run(3) by (simp add: demo_skipped_def skip_project_def fold_push_skipped)
  have "blocked (failed_projects demo_skipped) demo_tests"
    by (simp add: blocked_def demo_skipped_def skip_project_def demo_tests_def demo_project_def)
  then have "skipped_file demo_tests ''t'' \<in> set (skips (filter (blocked (failed_projects demo_skipped)) (concat [[demo_setup], [demo_tests]])))"
    by (simp add: skips_def) (simp add: demo_tests_def demo_project_def)
  moreover have "mset (all_results (loop_wave demo_skipped)) = mset (reported_results (wave_log (loop_wave demo_skipped))) +
      mset (skips (filter (blocked (failed_projects demo_skipped)) (concat [[demo_setup], [demo_tests]])))"
    using project_waves_complete [OF demo_fresh demo_skipped_run up] unfolding Let_def by blast
  ultimately show ?thesis by (metis Un_iff set_mset_mset set_mset_union)
qed


end
