(* ===== verification/Bucket_Barrier.thy ===== *)
theory Bucket_Barrier
  imports Bucket_Plan
begin

text \<open>
  The launch barrier of a run over several device targets (\<open>coordinateBuckets\<close> in \<open>dispatcher.ts\<close>): no
  bucket dispatches a file until every bucket has finished starting or failed to, the files of a target
  that could not start are reported failed, and the buckets' results are put together when all have
  settled. The buckets themselves are the environment: one may get ready, fail to start, finish or
  break. The lines written to the terminal and reporters that throw are not modelled.
\<close>

section \<open>State\<close>

record bucket_runner =
  runner_label :: string
  runner_projects :: "resolved_project list"

text \<open>\<open>isProgrammingError\<close> asks for a \<open>TypeError\<close> and the like; an error is its message and the answer.\<close>

record launch_error =
  launch_message :: string
  is_programming_error :: bool

datatype bucket_phase =
    Starting
  | At_Barrier
  | Dispatching
  | Finished full_result
  | Start_Failed launch_error
  | Run_Failed launch_error

datatype barrier_event = Run_Started | Start_Failure_Reported reported

record barrier =
  phases :: "bucket_phase list"
  arrived :: "bool list"
  arrived_count :: nat
  start_failures :: "(nat, launch_error) jsmap"
  released :: bool
  start_failure_results :: "reported list"
  barrier_log :: "barrier_event list"

definition new_barrier :: "bucket_runner list \<Rightarrow> barrier" where
  "new_barrier bs = \<lparr> phases = map (\<lambda>_. Starting) bs, arrived = map (\<lambda>_. False) bs, arrived_count = 0,
     start_failures = [], released = False, start_failure_results = [], barrier_log = [] \<rparr>"

section \<open>Operations\<close>

definition failures_in_order :: "barrier \<Rightarrow> (nat \<times> launch_error) list" where
  "failures_in_order b = sort_by (\<lambda>x y. fst x \<le> fst y) (start_failures b)"

definition bucket_failure_results :: "bucket_runner list \<Rightarrow> nat \<times> launch_error \<Rightarrow> reported list" where
  "bucket_failure_results bs f =
     target_start_failure_results (runner_label (bs ! fst f)) (runner_projects (bs ! fst f)) (launch_message (snd f))"

text \<open>The part of \<open>renderStarted\<close> that reports: the run's start, then every start failure in bucket order.\<close>

definition render_started :: "bucket_runner list \<Rightarrow> barrier \<Rightarrow> barrier" where
  "render_started bs b =
     (let rs = concat (map (bucket_failure_results bs) (failures_in_order b))
      in b\<lparr> start_failure_results := start_failure_results b @ rs,
            barrier_log := barrier_log b @ [Run_Started] @ map Start_Failure_Reported rs \<rparr>)"

definition arrive :: "bucket_runner list \<Rightarrow> nat \<Rightarrow> barrier \<Rightarrow> barrier" where
  "arrive bs i b =
     (if arrived b ! i then b
      else let b1 = b\<lparr> arrived := (arrived b)[i := True], arrived_count := arrived_count b + 1 \<rparr>
           in if arrived_count b1 < length bs then b1
              else (if length (start_failures b1) = length bs then b1 else render_started bs b1)\<lparr> released := True \<rparr>)"

definition set_phase :: "nat \<Rightarrow> bucket_phase \<Rightarrow> barrier \<Rightarrow> barrier" where
  "set_phase i p b = b\<lparr> phases := (phases b)[i := p] \<rparr>"

text \<open>
  The settling of one bucket's promise: before it has arrived, a rejection is a failed start; after, it is
  a failure of the run.
\<close>

definition reject_bucket :: "bucket_runner list \<Rightarrow> nat \<Rightarrow> launch_error \<Rightarrow> barrier \<Rightarrow> barrier" where
  "reject_bucket bs i err b =
     (if arrived b ! i then set_phase i (Run_Failed err) b
      else set_phase i (Start_Failed err) (arrive bs i (b\<lparr> start_failures := map_set i err (start_failures b) \<rparr>)))"

text \<open>
  A bucket awaits the barrier once its workers are ready (the contract of \<open>BucketRunner.run\<close>) and goes on
  when it is released.
\<close>

inductive barrier_step :: "bucket_runner list \<Rightarrow> barrier \<Rightarrow> barrier \<Rightarrow> bool" for bs where
  ready: "i < length bs \<Longrightarrow> phases b ! i = Starting \<Longrightarrow> barrier_step bs b (set_phase i At_Barrier (arrive bs i b))"
| pass: "i < length bs \<Longrightarrow> phases b ! i = At_Barrier \<Longrightarrow> released b \<Longrightarrow> barrier_step bs b (set_phase i Dispatching b)"
| finish: "i < length bs \<Longrightarrow> phases b ! i = Dispatching \<Longrightarrow> barrier_step bs b (set_phase i (Finished r) b)"
| reject: "i < length bs \<Longrightarrow> phases b ! i \<in> {Starting, Dispatching} \<Longrightarrow> barrier_step bs b (reject_bucket bs i err b)"

inductive barrier_run :: "bucket_runner list \<Rightarrow> barrier \<Rightarrow> bool" for bs where
  start: "barrier_run bs (new_barrier bs)"
| step: "barrier_run bs b \<Longrightarrow> barrier_step bs b b' \<Longrightarrow> barrier_run bs b'"

section \<open>The result\<close>

definition is_settled :: "bucket_phase \<Rightarrow> bool" where
  "is_settled p \<longleftrightarrow> p \<notin> {Starting, At_Barrier, Dispatching}"

datatype coordination_error = Bucket_Error launch_error | No_Target_Started string

definition run_failures :: "bucket_phase list \<Rightarrow> launch_error list" where
  "run_failures ps = concat (map (\<lambda>p. case p of Run_Failed e \<Rightarrow> [e] | _ \<Rightarrow> []) ps)"

definition bucket_results :: "bucket_phase list \<Rightarrow> full_result list" where
  "bucket_results ps = concat (map (\<lambda>p. case p of Finished r \<Rightarrow> [r] | _ \<Rightarrow> []) ps)"

definition all_start_failed :: "bucket_runner list \<Rightarrow> barrier \<Rightarrow> coordination_error" where
  "all_start_failed bs b =
     (let errors = map snd (failures_in_order b) in
      if length errors = 1 then Bucket_Error (hd errors)
      else case find is_programming_error errors of
             Some bug \<Rightarrow> Bucket_Error bug
           | None \<Rightarrow> No_Target_Started (no_target_could_start
               (map (\<lambda>(i, e). (runner_label (bs ! i), launch_message e)) (failures_in_order b))))"

text \<open>What \<open>coordinateBuckets\<close> returns or throws once every bucket has settled.\<close>

definition coordinate_result :: "bucket_runner list \<Rightarrow> barrier \<Rightarrow> coordination_error + full_result" where
  "coordinate_result bs b =
     (case run_failures (phases b) of
        e # _ \<Rightarrow> Inl (Bucket_Error e)
      | [] \<Rightarrow>
          if bs \<noteq> [] \<and> length (start_failures b) = length bs then Inl (all_start_failed bs b)
          else let merged = merge_bucket_results (bucket_results (phases b))
               in Inr (merged\<lparr> full_failed := (start_failures b \<noteq> [] \<or> full_failed merged),
                         full_tests := start_failure_results b @ full_tests merged,
                         full_suites := map start_failure_suite (start_failure_results b) @ full_suites merged \<rparr>))"

end
