(* ===== verification/Barrier_Safety.thy ===== *)
theory Barrier_Safety
  imports Bucket_Barrier
begin

text \<open>
  What the launch barrier promises: it is released exactly when every bucket has arrived, so none
  dispatches early and none waits for ever; and the result of the run has one failed result per file of
  every target that could not start, then the other buckets' results.
\<close>

section \<open>Failures in bucket order\<close>

lemma sorted_by_key_unique:
  fixes f :: "'a \<Rightarrow> 'b::linorder"
  assumes "sorted_wrt (\<lambda>x y. f x < f y) xs" and "sorted_wrt (\<lambda>x y. f x < f y) ys" and "set xs = set ys"
  shows "xs = ys"
proof -
  have sorted: "sorted_wrt (<) (map f xs)" "sorted_wrt (<) (map f ys)" using assms(1,2) by (simp_all add: sorted_wrt_map)
  then have eq: "map f xs = map f ys" using assms(3) by (intro strict_sorted_equal) simp_all
  have "inj_on f (set xs)" using sorted(1) strict_sorted_iff distinct_map by blast
  with eq assms(3) show ?thesis by (simp add: map_inj_on)
qed

definition start_failed :: "bucket_phase \<Rightarrow> launch_error option" where
  "start_failed p = (case p of Start_Failed e \<Rightarrow> Some e | _ \<Rightarrow> None)"

lemma start_failed_iff [simp]:
  "start_failed p = Some e \<longleftrightarrow> p = Start_Failed e" "Some e = start_failed p \<longleftrightarrow> p = Start_Failed e"
  by (cases p; auto simp: start_failed_def)+

lemma start_failed_Start_Failed [simp]: "start_failed (Start_Failed e) = Some e"
  by simp

definition failed_buckets :: "bucket_phase list \<Rightarrow> (nat \<times> launch_error) list" where
  "failed_buckets ps = concat (map (\<lambda>i. case start_failed (ps ! i) of Some e \<Rightarrow> [(i, e)] | None \<Rightarrow> []) [0..<length ps])"

lemma set_failed_buckets: "set (failed_buckets ps) = {(i, e). i < length ps \<and> ps ! i = Start_Failed e}"
  by (auto simp: failed_buckets_def split: option.splits)

lemma failed_buckets_sorted: "sorted_wrt (\<lambda>x y. fst x < fst y) (failed_buckets ps)"
proof -
  have "sorted_wrt (\<lambda>x y. fst x < fst y) (concat (map (\<lambda>i. case g i of Some e \<Rightarrow> [(i, e)] | None \<Rightarrow> []) [0..<k]))"
    for g :: "nat \<Rightarrow> launch_error option" and k
    by (induction k) (auto simp: sorted_wrt_append split: option.splits)
  then show ?thesis by (simp add: failed_buckets_def)
qed

definition failures_match :: "(nat, launch_error) jsmap \<Rightarrow> bucket_phase list \<Rightarrow> bool" where
  "failures_match m ps \<longleftrightarrow> map_wf m \<and> (\<forall>i e. map_get m i = Some e \<longleftrightarrow> i < length ps \<and> ps ! i = Start_Failed e)"

lemma map_wf_iff: "map_wf m \<longleftrightarrow> distinct (map fst m)"
  by (simp add: map_wf_def map_keys_def)

lemma failures_in_order_eq:
  assumes "failures_match (start_failures b) ps"
  shows "failures_in_order b = failed_buckets ps" "length (start_failures b) = length (failed_buckets ps)"
proof -
  let ?m = "start_failures b" and ?xs = "failures_in_order b"
  have d: "distinct (map fst ?m)" using assms by (simp add: failures_match_def map_wf_iff)
  have set: "set ?xs = set ?m" and len: "length ?xs = length ?m" and dm: "distinct ?m"
    using d by (simp_all add: failures_in_order_def distinct_map)
  have dx: "distinct ?xs" using dm by (simp add: failures_in_order_def)
  have inj: "inj_on fst (set ?m)" using d by (simp add: distinct_map)
  have sorted: "sorted_wrt (\<lambda>x y. fst x \<le> fst y) ?xs" unfolding failures_in_order_def by (rule sorted_wrt_sort_by) auto
  have "fst (?xs ! i) < fst (?xs ! j)" if "i < j" "j < length ?xs" for i j
  proof -
    have "?xs ! i \<in> set ?m" "?xs ! j \<in> set ?m" "?xs ! i \<noteq> ?xs ! j"
      using that dx set nth_eq_iff_index_eq [OF dx] by (metis nth_mem less_trans, metis nth_mem, simp)
    then have "fst (?xs ! i) \<noteq> fst (?xs ! j)" using inj by (meson inj_onD)
    moreover have "fst (?xs ! i) \<le> fst (?xs ! j)" using sorted that by (simp add: sorted_wrt_iff_nth_less)
    ultimately show ?thesis by simp
  qed
  then have "sorted_wrt (\<lambda>x y. fst x < fst y) ?xs" by (simp add: sorted_wrt_iff_nth_less)
  moreover have "set ?xs = set (failed_buckets ps)"
    using assms map_of_eq_Some_iff [OF d] unfolding set set_failed_buckets failures_match_def by auto
  ultimately show eq: "?xs = failed_buckets ps"
    using sorted_by_key_unique [where f = fst, OF _ failed_buckets_sorted] by blast
  from eq len show "length ?m = length (failed_buckets ps)" by simp
qed

section \<open>The invariant\<close>

definition is_past :: "bucket_phase \<Rightarrow> bool" where
  "is_past p \<longleftrightarrow> p = Dispatching \<or> (\<exists>r. p = Finished r) \<or> (\<exists>e. p = Run_Failed e)"

definition barrier_inv :: "bucket_runner list \<Rightarrow> barrier \<Rightarrow> bool" where
  "barrier_inv bs b \<longleftrightarrow>
     length (phases b) = length bs \<and> arrived b = map (\<lambda>p. p \<noteq> Starting) (phases b) \<and>
     arrived_count b = length (filter (\<lambda>x. x) (arrived b)) \<and>
     (released b \<longleftrightarrow> bs \<noteq> [] \<and> arrived_count b = length bs) \<and>
     failures_match (start_failures b) (phases b) \<and> ((\<exists>p \<in> set (phases b). is_past p) \<longrightarrow> released b) \<and>
     start_failure_results b =
       (if released b \<and> length (start_failures b) \<noteq> length bs
        then concat (map (bucket_failure_results bs) (failed_buckets (phases b))) else [])"

lemma count_arrived:
  "i < length xs \<Longrightarrow> \<not> xs ! i \<Longrightarrow> length (filter (\<lambda>x. x) (xs[i := True])) = Suc (length (filter (\<lambda>x. x) xs))"
  by (induction xs arbitrary: i) (auto split: nat.splits)

lemma all_arrived: "length (filter (\<lambda>x. x) xs) = length xs \<longleftrightarrow> (\<forall>x \<in> set xs. x)"
proof (induction xs)
  case (Cons x xs)
  have "length (filter (\<lambda>x. x) xs) \<noteq> Suc (length xs)"
    using length_filter_le [of "\<lambda>x. x" xs] by (metis Suc_n_not_le_n)
  with Cons show ?case by (cases x) auto
qed simp

lemma arrive_keeps:
  assumes inv: "barrier_inv bs b" and i: "i < length bs" "phases b ! i = Starting" and p: "p \<noteq> Starting" "\<not> is_past p"
    and m: "failures_match m ((phases b)[i := p])"
  shows "barrier_inv bs (set_phase i p (arrive bs i (b\<lparr> start_failures := m \<rparr>)))"
proof -
  let ?n = "length bs" and ?ps = "(phases b)[i := p]"
  let ?b1 = "b\<lparr> start_failures := m, arrived := (arrived b)[i := True], arrived_count := arrived_count b + 1 \<rparr>"
  have inv': "length (phases b) = ?n" "arrived b = map (\<lambda>p. p \<noteq> Starting) (phases b)"
    "arrived_count b = length (filter (\<lambda>x. x) (arrived b))" "released b \<longleftrightarrow> bs \<noteq> [] \<and> arrived_count b = ?n"
    "\<forall>p \<in> set (phases b). is_past p \<longrightarrow> released b"
    "start_failure_results b = (if released b \<and> length (start_failures b) \<noteq> ?n
       then concat (map (bucket_failure_results bs) (failed_buckets (phases b))) else [])"
    using inv by (auto simp: barrier_inv_def)
  have not_yet: "\<not> arrived b ! i" using inv'(1,2) i by simp
  have flags: "(arrived b)[i := True] = map (\<lambda>p. p \<noteq> Starting) ?ps" using inv'(1,2) i p(1) by (simp add: map_update)
  have count: "arrived_count b + 1 = length (filter (\<lambda>x. x) ((arrived b)[i := True]))"
    using inv'(1,2,3) i not_yet by (simp add: count_arrived)
  have bound: "arrived_count b + 1 \<le> ?n" unfolding count using inv'(1,2) length_filter_le by (metis length_list_update length_map)
  then have closed: "\<not> released b" using inv'(4) by simp
  then have none: "start_failure_results b = []" "\<not> (\<exists>p \<in> set ?ps. is_past p)"
    using inv'(5,6) p(2) by (auto dest!: set_update_subset_insert [THEN subsetD])
  have arrive: "arrive bs i (b\<lparr> start_failures := m \<rparr>) =
      (if arrived_count b + 1 < ?n then ?b1
       else (if length m = ?n then ?b1 else render_started bs ?b1)\<lparr> released := True \<rparr>)"
    using not_yet by (simp add: arrive_def Let_def)
  have order: "failures_in_order ?b1 = failed_buckets ?ps" using m by (intro failures_in_order_eq) simp
  have lens: "length ?ps = ?n" using inv'(1) by simp
  show ?thesis
  proof (cases "arrived_count b + 1 < ?n")
    case True
    then show ?thesis
      using lens flags count m closed none unfolding barrier_inv_def arrive
      by (simp add: set_phase_def)
  next
    case False
    with bound have full: "arrived_count b + 1 = ?n" by simp
    show ?thesis
      using lens flags count m none full i(1) order unfolding barrier_inv_def arrive
      by (auto simp: set_phase_def render_started_def Let_def)
  qed
qed

lemma failures_match_update:
  "failures_match m ps \<Longrightarrow> start_failed (ps ! i) = None \<Longrightarrow> start_failed p = None \<Longrightarrow> failures_match m (ps[i := p])"
  unfolding failures_match_def by (metis length_list_update nth_list_update_eq nth_list_update_neq option.distinct(1) start_failed_iff)

lemma failed_buckets_update:
  "start_failed (ps ! i) = None \<Longrightarrow> start_failed p = None \<Longrightarrow> failed_buckets (ps[i := p]) = failed_buckets ps"
proof (rule sorted_by_key_unique [where f = fst, OF failed_buckets_sorted failed_buckets_sorted])
  assume "start_failed (ps ! i) = None" "start_failed p = None"
  then show "set (failed_buckets (ps[i := p])) = set (failed_buckets ps)"
    unfolding set_failed_buckets
    by (metis (mono_tags, lifting) length_list_update nth_list_update_eq nth_list_update_neq option.distinct(1) start_failed_iff)
qed

text \<open>After the release a bucket's phase changes and nothing else.\<close>

lemma set_phase_keeps:
  assumes inv: "barrier_inv bs b" and "released b" and "phases b ! i \<noteq> Starting" and "p \<noteq> Starting"
    and "start_failed (phases b ! i) = None" and "start_failed p = None"
  shows "barrier_inv bs (set_phase i p b)"
proof (cases "i < length bs")
  case True
  have "map (\<lambda>p. p \<noteq> Starting) ((phases b)[i := p]) = map (\<lambda>p. p \<noteq> Starting) (phases b)"
    using assms(3,4) inv True by (intro nth_equalityI) (auto simp: nth_list_update barrier_inv_def)
  then show ?thesis
    using inv assms(2) failures_match_update [of "start_failures b" "phases b" i p] failed_buckets_update [of "phases b" i p] assms(5,6)
    by (auto simp: barrier_inv_def set_phase_def)
next
  case False
  then have "(phases b)[i := p] = phases b" using inv by (intro list_update_beyond) (simp add: barrier_inv_def)
  with inv show ?thesis by (simp add: set_phase_def)
qed

lemma barrier_inv_released: "barrier_inv bs b \<Longrightarrow> i < length bs \<Longrightarrow> is_past (phases b ! i) \<Longrightarrow> released b"
  unfolding barrier_inv_def by (metis nth_mem)

lemma barrier_step_keeps: "barrier_step bs b b' \<Longrightarrow> barrier_inv bs b \<Longrightarrow> barrier_inv bs b'"
proof (induction rule: barrier_step.cases)
  case (ready i b)
  have "failures_match (start_failures b) ((phases b)[i := At_Barrier])"
    using ready by (intro failures_match_update) (simp_all add: barrier_inv_def start_failed_def)
  with arrive_keeps [of bs b i At_Barrier "start_failures b"] ready show ?case by (simp add: is_past_def)
next
  case (pass i b)
  then show ?case by (auto intro!: set_phase_keeps simp: start_failed_def)
next
  case (finish i b r)
  with barrier_inv_released [of bs b i] show ?case by (auto intro!: set_phase_keeps simp: start_failed_def is_past_def)
next
  case (reject i b err)
  have arrived: "arrived b ! i \<longleftrightarrow> phases b ! i \<noteq> Starting" using reject by (simp add: barrier_inv_def)
  show ?case
  proof (cases "phases b ! i = Starting")
    case True
    let ?m = "map_set i err (start_failures b)"
    have "failures_match ?m ((phases b)[i := Start_Failed err])"
      using reject True by (auto simp: failures_match_def barrier_inv_def nth_list_update)
    with arrive_keeps [of bs b i "Start_Failed err" ?m] reject True arrived show ?thesis
      by (simp add: reject_bucket_def is_past_def)
  next
    case False
    with reject barrier_inv_released [of bs b i] arrived show ?thesis
      by (auto simp: reject_bucket_def is_past_def start_failed_def intro!: set_phase_keeps)
  qed
qed

lemma barrier_run_inv: "barrier_run bs b \<Longrightarrow> barrier_inv bs b"
proof (induction rule: barrier_run.induct)
  case start
  have "filter (\<lambda>x. x) (map (\<lambda>_. False) bs) = []" by (simp add: filter_empty_conv)
  then show ?case
    by (auto simp: barrier_inv_def new_barrier_def failures_match_def is_past_def map_wf_def map_keys_def)
qed (rule barrier_step_keeps)

section \<open>The barrier\<close>

lemma released_iff: "barrier_inv bs b \<Longrightarrow> released b \<longleftrightarrow> bs \<noteq> [] \<and> (\<forall>i < length bs. phases b ! i \<noteq> Starting)"
proof -
  assume inv: "barrier_inv bs b"
  then have "length (arrived b) = length bs" by (simp add: barrier_inv_def)
  then have "arrived_count b = length bs \<longleftrightarrow> (\<forall>x \<in> set (arrived b). x)"
    using inv all_arrived [of "arrived b"] by (simp add: barrier_inv_def)
  also have "\<dots> \<longleftrightarrow> (\<forall>i < length bs. phases b ! i \<noteq> Starting)"
    using inv by (simp add: barrier_inv_def all_set_conv_all_nth)
  finally show ?thesis using inv by (simp add: barrier_inv_def)
qed

text \<open>
  C21. The barrier opens for everybody at once: it is released exactly when every bucket has finished
  starting or failed to; a bucket that dispatches, has finished or broke during the run did so after
  every other had arrived; and no bucket is left waiting: until all have settled, one of them can go on.
\<close>

theorem barrier_opens_for_all:
  assumes "barrier_run bs b"
  shows "(released b \<longleftrightarrow> bs \<noteq> [] \<and> (\<forall>i < length bs. phases b ! i \<noteq> Starting)) \<and>
         (\<forall>i < length bs. is_past (phases b ! i) \<longrightarrow> (\<forall>j < length bs. phases b ! j \<noteq> Starting)) \<and>
         ((\<exists>i < length bs. \<not> is_settled (phases b ! i)) \<longrightarrow> (\<exists>b'. barrier_step bs b b'))"
proof -
  have inv: "barrier_inv bs b" by (rule barrier_run_inv [OF assms])
  have open_iff: "released b \<longleftrightarrow> bs \<noteq> [] \<and> (\<forall>i < length bs. phases b ! i \<noteq> Starting)" by (rule released_iff [OF inv])
  have "\<exists>b'. barrier_step bs b b'" if "i < length bs" "\<not> is_settled (phases b ! i)" for i
  proof -
    from that(2) consider "phases b ! i = Starting" | "phases b ! i = Dispatching" | "phases b ! i = At_Barrier"
      by (auto simp: is_settled_def)
    then show ?thesis
    proof cases
      case 1
      with that(1) show ?thesis using barrier_step.ready by blast
    next
      case 2
      with that(1) show ?thesis using barrier_step.finish by blast
    next
      case 3
      show ?thesis
      proof (cases "released b")
        case True
        with 3 that(1) show ?thesis using barrier_step.pass by blast
      next
        case False
        with open_iff that(1) obtain j where "j < length bs" "phases b ! j = Starting" by auto
        then show ?thesis using barrier_step.ready by blast
      qed
    qed
  qed
  with open_iff barrier_inv_released [OF inv] show ?thesis by blast
qed

section \<open>The result of the run\<close>

lemma target_start_failure_files:
  "map (\<lambda>r. res_file (rep_result r)) (target_start_failure_results label ps reason) = map Some (concat (map test_files ps))"
  "\<forall>r \<in> set (target_start_failure_results label ps reason). res_status (rep_result r) = Failed"
  unfolding target_start_failure_results_def Let_def by (induction ps) (auto simp: plain_result_def)

lemma all_start_failed_iff:
  "length (failed_buckets ps) = length ps \<longleftrightarrow> (\<forall>p \<in> set ps. \<exists>e. p = Start_Failed e)"
proof -
  have keys: "map fst (failed_buckets ps) = filter (\<lambda>i. start_failed (ps ! i) \<noteq> None) [0..<length ps]"
  proof -
    have "map fst (concat (map (\<lambda>i. case g i of Some e \<Rightarrow> [(i, e)] | None \<Rightarrow> []) xs)) = filter (\<lambda>i. g i \<noteq> None) xs"
      for g :: "nat \<Rightarrow> launch_error option" and xs
      by (induction xs) (auto split: option.splits)
    then show ?thesis by (simp add: failed_buckets_def)
  qed
  have "length (failed_buckets ps) = length (filter (\<lambda>i. start_failed (ps ! i) \<noteq> None) [0..<length ps])"
    using keys by (metis length_map)
  also have "\<dots> = length ps \<longleftrightarrow> (\<forall>i < length ps. start_failed (ps ! i) \<noteq> None)"
    using length_filter_less [of _ "[0..<length ps]" "\<lambda>i. start_failed (ps ! i) \<noteq> None"]
      filter_True [of "[0..<length ps]" "\<lambda>i. start_failed (ps ! i) \<noteq> None"] by fastforce
  also have "\<dots> \<longleftrightarrow> (\<forall>p \<in> set ps. start_failed p \<noteq> None)" by (simp add: all_set_conv_all_nth)
  finally show ?thesis by simp
qed

text \<open>
  When every bucket has settled: a failure during the run is thrown, the first in bucket order; if no
  target started the run fails; otherwise the result's tests are one failed result per file of each
  target that could not start, in bucket order, then the results of the other buckets, and the run has
  failed if a target could not start or a bucket failed.
\<close>

theorem coordinated_result:
  assumes "barrier_run bs b" and "\<forall>p \<in> set (phases b). is_settled p"
  shows "case run_failures (phases b) of
           e # _ \<Rightarrow> coordinate_result bs b = Inl (Bucket_Error e)
         | [] \<Rightarrow>
             if bs \<noteq> [] \<and> (\<forall>p \<in> set (phases b). \<exists>e. p = Start_Failed e) then \<exists>e. coordinate_result bs b = Inl e
             else \<exists>r. coordinate_result bs b = Inr r \<and>
               full_tests r = concat (map (bucket_failure_results bs) (failed_buckets (phases b))) @
                 concat (map full_tests (bucket_results (phases b))) \<and>
               (full_failed r \<longleftrightarrow> (\<exists>e. Start_Failed e \<in> set (phases b)) \<or> (\<exists>r' \<in> set (bucket_results (phases b)). full_failed r')) \<and>
               (\<forall>(i, e) \<in> set (failed_buckets (phases b)).
                  map (\<lambda>r. res_file (rep_result r)) (bucket_failure_results bs (i, e)) =
                    map Some (concat (map test_files (runner_projects (bs ! i)))) \<and>
                  (\<forall>r \<in> set (bucket_failure_results bs (i, e)). res_status (rep_result r) = Failed))"
proof -
  have inv: "barrier_inv bs b" by (rule barrier_run_inv [OF assms(1)])
  have lens: "length (start_failures b) = length (failed_buckets (phases b))" "length (phases b) = length bs"
    using inv failures_in_order_eq(2) by (auto simp: barrier_inv_def)
  have all: "length (start_failures b) = length bs \<longleftrightarrow> (\<forall>p \<in> set (phases b). \<exists>e. p = Start_Failed e)"
    using all_start_failed_iff [of "phases b"] lens by simp
  have some: "start_failures b \<noteq> [] \<longleftrightarrow> (\<exists>e. Start_Failed e \<in> set (phases b))"
  proof -
    have "start_failures b \<noteq> [] \<longleftrightarrow> failed_buckets (phases b) \<noteq> []" using lens(1) by (metis length_0_conv)
    also have "\<dots> \<longleftrightarrow> set (failed_buckets (phases b)) \<noteq> {}" by simp
    also have "\<dots> \<longleftrightarrow> (\<exists>e. Start_Failed e \<in> set (phases b))" by (auto simp: set_failed_buckets in_set_conv_nth)
    finally show ?thesis .
  qed
  have results: "start_failure_results b = concat (map (bucket_failure_results bs) (failed_buckets (phases b)))"
    if "\<not> (bs \<noteq> [] \<and> length (start_failures b) = length bs)"
  proof (cases "bs = []")
    case True
    then show ?thesis using inv by (simp add: barrier_inv_def failed_buckets_def)
  next
    case False
    have "\<forall>i < length bs. phases b ! i \<noteq> Starting" using assms(2) lens(2) by (metis insertI1 is_settled_def nth_mem)
    with False that inv released_iff [OF inv] show ?thesis by (simp add: barrier_inv_def)
  qed
  have files: "\<forall>(i, e) \<in> set (failed_buckets (phases b)).
      map (\<lambda>r. res_file (rep_result r)) (bucket_failure_results bs (i, e)) =
        map Some (concat (map test_files (runner_projects (bs ! i)))) \<and>
      (\<forall>r \<in> set (bucket_failure_results bs (i, e)). res_status (rep_result r) = Failed)"
    using target_start_failure_files by (simp add: bucket_failure_results_def)
  show ?thesis
  proof (cases "run_failures (phases b)")
    case Nil
    show ?thesis
    proof (cases "bs \<noteq> [] \<and> length (start_failures b) = length bs")
      case True
      with Nil all show ?thesis by (simp add: coordinate_result_def)
    next
      case False
      with Nil show ?thesis
        unfolding all [symmetric] some [symmetric] using files results [OF False]
        by (simp add: coordinate_result_def merge_bucket_results_def list_ex_iff)
    qed
  qed (simp add: coordinate_result_def)
qed

section \<open>A run of two targets\<close>

definition demo_runners :: "bucket_runner list" where
  "demo_runners = [\<lparr> runner_label = ''ios'', runner_projects = [demo_project ''p'' [] [''x'']] \<rparr>,
     \<lparr> runner_label = ''android'', runner_projects = [demo_project ''q'' [] [''y'']] \<rparr>]"

definition demo_bucket_result :: full_result where
  "demo_bucket_result = \<lparr> full_failed = False, full_duration = 5, full_setup_duration = None, full_tests = [], full_suites = [] \<rparr>"

text \<open>The second target is ready, the first cannot start, the second runs to its end.\<close>

definition demo_waiting :: barrier where
  "demo_waiting = set_phase 1 At_Barrier (arrive demo_runners 1 (new_barrier demo_runners))"

definition demo_open :: barrier where
  "demo_open = reject_bucket demo_runners 0 \<lparr> launch_message = ''no'', is_programming_error = False \<rparr> demo_waiting"

definition demo_through :: barrier where
  "demo_through = set_phase 1 (Finished demo_bucket_result) (set_phase 1 Dispatching demo_open)"

lemmas demo_barrier_defs = demo_through_def demo_open_def demo_waiting_def new_barrier_def arrive_def reject_bucket_def set_phase_def
  render_started_def demo_runners_def Let_def

lemma demo_barrier_runs: "barrier_run demo_runners demo_waiting" "barrier_run demo_runners demo_open"
  "barrier_run demo_runners demo_through"
proof -
  have "barrier_step demo_runners (new_barrier demo_runners) demo_waiting"
    unfolding demo_waiting_def by (rule barrier_step.ready) (simp_all add: demo_runners_def new_barrier_def)
  then show w: "barrier_run demo_runners demo_waiting" by (rule barrier_run.step [OF barrier_run.start])
  have "barrier_step demo_runners demo_waiting demo_open"
    unfolding demo_open_def by (rule barrier_step.reject) (simp_all add: demo_barrier_defs)
  with w show o1: "barrier_run demo_runners demo_open" by (rule barrier_run.step)
  have "barrier_step demo_runners demo_open (set_phase 1 Dispatching demo_open)"
    by (rule barrier_step.pass) (simp_all add: demo_barrier_defs)
  with o1 have d: "barrier_run demo_runners (set_phase 1 Dispatching demo_open)" by (rule barrier_run.step)
  have "barrier_step demo_runners (set_phase 1 Dispatching demo_open) demo_through"
    unfolding demo_through_def by (rule barrier_step.finish) (simp_all add: demo_barrier_defs)
  with d show "barrier_run demo_runners demo_through" by (rule barrier_run.step)
qed

theorem barrier_opens_for_all_witness:
  "\<not> released demo_waiting \<and> released demo_open"
proof -
  have "phases demo_waiting ! 0 = Starting" "length demo_runners = 2" "demo_runners \<noteq> []"
    "phases demo_open ! 0 \<noteq> Starting" "phases demo_open ! 1 \<noteq> Starting"
    by (simp_all add: demo_barrier_defs)
  moreover have "(\<forall>i < (2::nat). P i) \<longleftrightarrow> P 0 \<and> P 1" for P by (auto simp: numeral_2_eq_2 less_Suc_eq)
  ultimately show ?thesis
    using barrier_opens_for_all [OF demo_barrier_runs(1)] barrier_opens_for_all [OF demo_barrier_runs(2)] by simp
qed

theorem coordinated_result_witness:
  "\<exists>r. coordinate_result demo_runners demo_through = Inr r \<and> full_failed r"
proof -
  have ph: "phases demo_through = [Start_Failed \<lparr> launch_message = ''no'', is_programming_error = False \<rparr>, Finished demo_bucket_result]"
    by (simp add: demo_barrier_defs)
  have "\<forall>p \<in> set (phases demo_through). is_settled p" unfolding ph by (simp add: is_settled_def)
  from coordinated_result [OF demo_barrier_runs(3) this] show ?thesis
    unfolding ph by (auto simp: run_failures_def)
qed

end
