(* ===== verification/Fixture_Parsing.thy ===== *)
theory Fixture_Parsing
  imports Error_Detail
begin

text \<open>
  How the fixtures a function asks for are read off its source text (\<open>fixtures.ts\<close>): comments are
  filtered out, the parameter list is cut out, and the names of a destructured first parameter are
  split at commas. Each scanner walks the text with the string literal it is in; the characters before
  the current one (reversed, as \<open>prev\<close>) tell whether a quote is escaped. The cache of signatures is a
  memo of a pure function and is left out. A list of nothing but commas, which is no parameter list,
  has no first parameter; the source would throw there.
\<close>

section \<open>String literals\<close>

datatype string_state = No_String | Single_Quoted | Double_Quoted | Template

definition backslash :: char where
  "backslash = CHR 0x5C"

definition single_quote :: char where
  "single_quote = CHR 0x27"

definition is_escaped :: "string \<Rightarrow> bool" where
  "is_escaped prev = odd (length (takeWhile (\<lambda>c. c = backslash) prev))"

definition quote_of :: "string_state \<Rightarrow> char option" where
  "quote_of st = (case st of No_String \<Rightarrow> None | Single_Quoted \<Rightarrow> Some single_quote | Double_Quoted \<Rightarrow> Some (CHR 0x22)
                   | Template \<Rightarrow> Some (CHR 0x60))"

text \<open>The state after the current character; a scanner that looks for brackets acts when it stays outside.\<close>

definition string_step :: "string_state \<Rightarrow> string \<Rightarrow> char \<Rightarrow> string_state" where
  "string_step st prev c =
     (case st of
        No_String \<Rightarrow>
          if is_escaped prev then No_String
          else if c = single_quote then Single_Quoted
          else if c = CHR 0x22 then Double_Quoted
          else if c = CHR 0x60 then Template
          else No_String
      | _ \<Rightarrow> if quote_of st = Some c \<and> \<not> is_escaped prev then No_String else st)"

section \<open>\<open>filterOutComments\<close>\<close>

datatype comment_state = No_Comment | Line_Comment | Block_Comment

fun filter_comments :: "comment_state \<Rightarrow> string_state \<Rightarrow> string \<Rightarrow> string \<Rightarrow> string" where
  "filter_comments cs st prev [] = []"
| "filter_comments No_Comment st prev (c # s) =
     (let st' = string_step st prev c in
      if st = No_String \<and> st' = No_String \<and> c = CHR ''/'' \<and> s \<noteq> [] \<and> hd s = CHR ''/''
      then filter_comments Line_Comment st (c # prev) s
      else if st = No_String \<and> st' = No_String \<and> c = CHR ''/'' \<and> s \<noteq> [] \<and> hd s = CHR ''*''
      then filter_comments Block_Comment st (hd s # c # prev) (tl s)
      else c # filter_comments No_Comment st' (c # prev) s)"
| "filter_comments Line_Comment st prev (c # s) =
     (if c = newline then newline # filter_comments No_Comment st (c # prev) s
      else filter_comments Line_Comment st (c # prev) s)"
| "filter_comments Block_Comment st prev (c # s) =
     (if prev \<noteq> [] \<and> hd prev = CHR ''*'' \<and> c = CHR ''/'' then filter_comments No_Comment st (c # prev) s
      else filter_comments Block_Comment st (c # prev) s)"

definition filter_out_comments :: "string \<Rightarrow> string" where
  "filter_out_comments s = filter_comments No_Comment No_String [] s"

section \<open>\<open>splitByComma\<close>\<close>

definition closer :: "char \<Rightarrow> char option" where
  "closer c = (if c = CHR ''{'' then Some (CHR ''}'') else if c = CHR ''['' then Some (CHR '']'')
               else if c = CHR ''('' then Some (CHR '')'') else None)"

definition push_token :: "string \<Rightarrow> string list \<Rightarrow> string list" where
  "push_token token rest = (let t = js_trim (rev token) in if t = [] then rest else t # rest)"

fun split_commas :: "string_state \<Rightarrow> char list \<Rightarrow> string \<Rightarrow> string \<Rightarrow> string \<Rightarrow> string list" where
  "split_commas st stack prev token [] = push_token token []"
| "split_commas st stack prev token (c # s) =
     (let st' = string_step st prev c in
      if st \<noteq> No_String \<or> st' \<noteq> No_String then split_commas st' stack (c # prev) (c # token) s
      else case closer c of
          Some d \<Rightarrow> split_commas st' (d # stack) (c # prev) (c # token) s
        | None \<Rightarrow>
            if stack \<noteq> [] \<and> c = hd stack then split_commas st' (tl stack) (c # prev) (c # token) s
            else if stack = [] \<and> c = CHR '','' then push_token token (split_commas st' stack (c # prev) [] s)
            else split_commas st' stack (c # prev) (c # token) s)"

definition split_by_comma :: "string \<Rightarrow> string list" where
  "split_by_comma s = split_commas No_String [] [] [] s"

section \<open>Parameter lists\<close>

text \<open>
  The text up to the bracket that closes, and what follows it: \<open>findMatchingParen\<close> starts after an opening
  parenthesis at depth one, \<open>findMatchingBrace\<close> at the opening brace at depth zero.
\<close>

fun to_closing :: "char \<Rightarrow> char \<Rightarrow> nat \<Rightarrow> string_state \<Rightarrow> string \<Rightarrow> string \<Rightarrow> (string \<times> string) option" where
  "to_closing open_c close_c depth st prev [] = None"
| "to_closing open_c close_c depth st prev (c # s) =
     (let st' = string_step st prev c;
          go = (\<lambda>d. map_option (\<lambda>(inside, rest). (c # inside, rest)) (to_closing open_c close_c d st' (c # prev) s))
      in if st \<noteq> No_String \<or> st' \<noteq> No_String then go depth
         else if c = open_c then go (depth + 1)
         else if c = close_c then (if depth = 1 then Some ([], s) else go (depth - 1))
         else go depth)"

text \<open>What stands before the first parenthesis, what it encloses and what follows.\<close>

definition find_parens :: "string \<Rightarrow> (string \<times> string) option" where
  "find_parens s =
     (let before = takeWhile (\<lambda>c. c \<noteq> CHR ''('') s in
      case dropWhile (\<lambda>c. c \<noteq> CHR ''('') s of
        [] \<Rightarrow> None
      | p # rest \<Rightarrow> to_closing (CHR ''('') (CHR '')'') 1 No_String (p # rev before) rest)"

definition extract_param_list :: "string \<Rightarrow> string option" where
  "extract_param_list s =
     (case find_parens s of
        None \<Rightarrow> None
      | Some (params, _) \<Rightarrow> let t = js_trim params in if t = [] then None else Some t)"

definition prop_name :: "string \<Rightarrow> string" where
  "prop_name prop =
     (let before_eq = takeWhile (\<lambda>c. c \<noteq> CHR ''='') prop; before_colon = takeWhile (\<lambda>c. c \<noteq> CHR '':'') prop;
          eq = before_eq \<noteq> prop; colon = before_colon \<noteq> prop
      in if colon \<and> (\<not> eq \<or> length before_colon < length before_eq) then js_trim before_colon
         else if eq then js_trim before_eq
         else js_trim prop)"

definition is_rest :: "string \<Rightarrow> bool" where
  "is_rest prop = (take 3 prop = ''...'')"

text \<open>The names of a destructured parameter; the opening brace is the first character of the list.\<close>

definition destructured_names :: "string \<Rightarrow> string list" where
  "destructured_names params =
     (case to_closing (CHR ''{'') (CHR ''}'') 0 No_String [] params of
        None \<Rightarrow> []
      | Some (inside, _) \<Rightarrow>
          let props = map prop_name (split_by_comma (tl inside))
          in if list_ex is_rest props then [] else props)"

definition fixture_parameter_names :: "string \<Rightarrow> string list" where
  "fixture_parameter_names text =
     (case extract_param_list (filter_out_comments text) of
        None \<Rightarrow> []
      | Some params \<Rightarrow> if hd params = CHR ''{'' then destructured_names params else [])"

section \<open>\<open>fixtureDepsFromFn\<close>\<close>

text \<open>The text without everything from the first \<open>:\<close> or \<open>=\<close> to the end of its line.\<close>

definition strip_annotation :: "string \<Rightarrow> string" where
  "strip_annotation s =
     takeWhile (\<lambda>c. c \<notin> {CHR '':'', CHR ''=''}) s @
     dropWhile (\<lambda>c. c \<notin> {newline, CHR 0x0D}) (dropWhile (\<lambda>c. c \<notin> {CHR '':'', CHR ''=''}) s)"

definition word_char :: "char \<Rightarrow> bool" where
  "word_char c \<longleftrightarrow>
     (let n = of_char c :: nat in 48 \<le> n \<and> n \<le> 57 \<or> 65 \<le> n \<and> n \<le> 90 \<or> 97 \<le> n \<and> n \<le> 122 \<or> c \<in> {CHR ''_'', CHR ''$''})"

text \<open>An occurrence of the identifier between characters that do not belong to a word, or an end.\<close>

fun occurs_word :: "bool \<Rightarrow> string \<Rightarrow> string \<Rightarrow> bool" where
  "occurs_word bounded ident [] = (bounded \<and> ident = [])"
| "occurs_word bounded ident (c # s) =
     ((bounded \<and> take (length ident) (c # s) = ident \<and>
        (case drop (length ident) (c # s) of [] \<Rightarrow> True | d # _ \<Rightarrow> \<not> word_char d)) \<or>
      occurs_word (\<not> word_char c) ident s)"

definition body_references_identifier :: "string \<Rightarrow> string \<Rightarrow> bool" where
  "body_references_identifier text ident =
     occurs_word True ident (case find_parens text of None \<Rightarrow> text | Some (_, body) \<Rightarrow> body)"

definition fixture_deps_from_fn :: "string \<Rightarrow> string list option" where
  "fixture_deps_from_fn text =
     (let names = fixture_parameter_names text in
      if names \<noteq> [] then Some names
      else let clean = filter_out_comments text in
        case extract_param_list clean of
          None \<Rightarrow> Some []
        | Some params \<Rightarrow>
            let first = js_trim (hd (split_by_comma params @ [[]])) in
            if take 1 first = ''{'' then Some []
            else let ident = js_trim (strip_annotation first) in
              if take 1 ident = ''_'' \<and> \<not> body_references_identifier clean ident then Some [] else None)"

text \<open>\<open>functionHasParameters\<close>: the function's own \<open>length\<close> is an argument.\<close>

definition function_has_parameters :: "nat \<Rightarrow> string \<Rightarrow> bool" where
  "function_has_parameters len text \<longleftrightarrow> len > 0 \<or> extract_param_list (filter_out_comments text) \<noteq> None"

end
