(* ===== verification/Fixtures.thy ===== *)
theory Fixtures
  imports Fixture_Parsing
begin

text \<open>
  Fixtures (\<open>fixtures.ts\<close>): the registry of \<open>test.extend()\<close>, the order in which the requested fixtures are
  set up, and their life: each provides its value through \<open>use()\<close>, waits, and is torn down in reverse
  order. The fixture functions are the parameter \<open>fixture_env\<close>: what each does before \<open>use()\<close>, given the
  fixtures so far, and after it. Fixture names are not integer-like, so \<open>Object.entries\<close> keeps the order
  they are written in.
\<close>

section \<open>The registry\<close>

datatype fixture_scope = Test_Scope | Worker_Scope

record fixture =
  fx_scope :: fixture_scope
  fx_deps :: "string list option"

type_synonym registry = "(string, fixture) jsmap"

text \<open>A definition is a function (its source text), or one with a scope.\<close>

datatype fixture_definition = Bare string | Scoped string fixture_scope

definition resolved_fixture :: "fixture_definition \<Rightarrow> fixture" where
  "resolved_fixture d =
     (case d of
        Bare fn \<Rightarrow> \<lparr> fx_scope = Test_Scope, fx_deps = fixture_deps_from_fn fn \<rparr>
      | Scoped fn sc \<Rightarrow> \<lparr> fx_scope = sc, fx_deps = fixture_deps_from_fn fn \<rparr>)"

definition register :: "(string \<times> fixture_definition) list \<Rightarrow> registry \<Rightarrow> registry" where
  "register defs reg = fold (\<lambda>(name, d). map_set name (resolved_fixture d)) defs reg"

definition by_scope :: "fixture_scope \<Rightarrow> registry \<Rightarrow> registry" where
  "by_scope sc reg = filter (\<lambda>(_, fx). fx_scope fx = sc) reg"

definition merge_registry :: "registry \<Rightarrow> registry \<Rightarrow> registry" where
  "merge_registry reg other = fold (\<lambda>(name, fx). map_set name fx) other (fold (\<lambda>(name, fx). map_set name fx) reg [])"

section \<open>\<open>collectDeps\<close>\<close>

definition in_scope :: "registry \<Rightarrow> fixture_scope \<Rightarrow> string \<Rightarrow> fixture option" where
  "in_scope reg sc name =
     (case map_get reg name of Some fx \<Rightarrow> if fx_scope fx = sc then Some fx else None | None \<Rightarrow> None)"

datatype collect_result = Ordered "string list" | Unknown_Deps | Circular "string list" | Too_Deep

text \<open>
  The visit of a list of names. A name enters \<open>visited\<close> when it enters \<open>ordered\<close>, so one list is kept.
\<close>

fun visit_all :: "nat \<Rightarrow> registry \<Rightarrow> fixture_scope \<Rightarrow> string list \<Rightarrow> string list \<Rightarrow> string list \<Rightarrow> collect_result" where
  "visit_all fuel reg sc visiting ordered [] = Ordered ordered"
| "visit_all 0 reg sc visiting ordered (n # ns) = Too_Deep"
| "visit_all (Suc fuel) reg sc visiting ordered (n # ns) =
     (case in_scope reg sc n of
        None \<Rightarrow> visit_all (Suc fuel) reg sc visiting ordered ns
      | Some fx \<Rightarrow>
          if n \<in> set visiting then Circular (visiting @ [n])
          else if n \<in> set ordered then visit_all (Suc fuel) reg sc visiting ordered ns
          else case fx_deps fx of
              None \<Rightarrow> Unknown_Deps
            | Some deps \<Rightarrow>
                (case visit_all fuel reg sc (visiting @ [n]) ordered deps of
                   Ordered ordered' \<Rightarrow> visit_all (Suc fuel) reg sc visiting (ordered' @ [n]) ns
                 | r \<Rightarrow> r))"

definition collect_deps :: "registry \<Rightarrow> string list \<Rightarrow> fixture_scope \<Rightarrow> collect_result" where
  "collect_deps reg names sc = visit_all (Suc (length reg)) reg sc [] [] names"

section \<open>\<open>resolveFixtures\<close>\<close>

text \<open>A thrown value with what \<open>if (fixtureError)\<close> asks of it.\<close>

record thrown =
  thrown_message :: string
  thrown_truthy :: bool

datatype 'v setup_outcome =
    Uses 'v
  | Throws_Early thrown
  | Never_Uses

datatype teardown_outcome = Tears_Down | Teardown_Throws string

record 'v fixture_env =
  setup_of :: "string \<Rightarrow> (string, 'v option) jsmap \<Rightarrow> 'v setup_outcome"
  teardown_of :: "string \<Rightarrow> teardown_outcome"

datatype fixture_event =
    Set_Up string
  | Provided string
  | Torn_Down string
  | Teardown_Error string string

text \<open>\<open>undefined\<close> is no value; the teardowns are queued in front.\<close>

record 'v resolution =
  fx_values :: "(string, 'v option) jsmap"
  fx_teardowns :: "string list"
  fx_log :: "fixture_event list"

datatype 'v resolved =
    Resolved "'v resolution"
  | Setup_Threw thrown "fixture_event list"
  | Waits_For_Ever "fixture_event list"

text \<open>
  The teardown loop: a throwing teardown is logged and the others go on. A fixture whose error was falsy
  has returned, so its teardown does nothing.
\<close>

definition tear_down :: "'v fixture_env \<Rightarrow> (string, 'v option) jsmap \<Rightarrow> string list \<Rightarrow> fixture_event list" where
  "tear_down env values names =
     concat (map (\<lambda>n. Torn_Down n #
       (case map_get values n of
          Some (Some _) \<Rightarrow> (case teardown_of env n of Tears_Down \<Rightarrow> [] | Teardown_Throws msg \<Rightarrow> [Teardown_Error n msg])
        | _ \<Rightarrow> [])) names)"

fun set_up_all :: "'v fixture_env \<Rightarrow> string list \<Rightarrow> 'v resolution \<Rightarrow> 'v resolved" where
  "set_up_all env [] r = Resolved r"
| "set_up_all env (n # ns) r =
     (let provide = (\<lambda>v. r\<lparr> fx_values := map_set n v (fx_values r), fx_teardowns := n # fx_teardowns r,
                             fx_log := fx_log r @ [Set_Up n, Provided n] \<rparr>)
      in case setup_of env n (fx_values r) of
           Uses v \<Rightarrow> set_up_all env ns (provide (Some v))
         | Throws_Early e \<Rightarrow>
             if thrown_truthy e
             then Setup_Threw e (fx_log r @ Set_Up n # tear_down env (fx_values r) (fx_teardowns r))
             else set_up_all env ns (provide None)
         | Never_Uses \<Rightarrow> Waits_For_Ever (fx_log r @ [Set_Up n]))"

definition fixtures_to_resolve :: "registry \<Rightarrow> fixture_scope \<Rightarrow> string list option \<Rightarrow> string list + string list" where
  "fixtures_to_resolve reg sc requested =
     (let all_in_scope = map fst (by_scope sc reg) in
      case requested of
        None \<Rightarrow> Inr all_in_scope
      | Some names \<Rightarrow>
          (case collect_deps reg names sc of
             Ordered order \<Rightarrow> Inr order
           | Circular path \<Rightarrow> Inl path
           | _ \<Rightarrow> Inr all_in_scope))"

definition resolve_fixtures ::
  "'v fixture_env \<Rightarrow> registry \<Rightarrow> fixture_scope \<Rightarrow> (string, 'v option) jsmap \<Rightarrow> string list option \<Rightarrow> string list + 'v resolved" where
  "resolve_fixtures env reg sc base requested =
     (case fixtures_to_resolve reg sc requested of
        Inl path \<Rightarrow> Inl path
      | Inr names \<Rightarrow> Inr (set_up_all env names \<lparr> fx_values = base, fx_teardowns = [], fx_log = [] \<rparr>))"

text \<open>The \<open>teardown\<close> function of a resolution, called when the test or the worker is through.\<close>

definition teardown_fixtures :: "'v fixture_env \<Rightarrow> 'v resolution \<Rightarrow> fixture_event list" where
  "teardown_fixtures env r = fx_log r @ tear_down env (fx_values r) (fx_teardowns r)"

end
