(* ===== verification/Fixture_Safety.thy ===== *)
theory Fixture_Safety
  imports Fixtures
begin

text \<open>
  What fixtures promise: \<open>collectDeps\<close> orders exactly the fixtures a test needs, dependencies first, or
  reports a true cycle; and every fixture that provided its value is torn down once, in reverse order,
  however the setup and the teardowns end.
\<close>

section \<open>The dependency graph of a scope\<close>

definition scope_deps :: "registry \<Rightarrow> fixture_scope \<Rightarrow> string \<Rightarrow> string list" where
  "scope_deps reg sc n =
     (case in_scope reg sc n of
        None \<Rightarrow> []
      | Some fx \<Rightarrow> filter (\<lambda>d. in_scope reg sc d \<noteq> None) (nullish (fx_deps fx) []))"

definition dep_edges :: "registry \<Rightarrow> fixture_scope \<Rightarrow> (string \<times> string) set" where
  "dep_edges reg sc = {(a, b). b \<in> set (scope_deps reg sc a)}"

text \<open>The fixtures of the scope some names need.\<close>

definition needed :: "registry \<Rightarrow> fixture_scope \<Rightarrow> string set \<Rightarrow> string set" where
  "needed reg sc names = {n. \<exists>m \<in> names. in_scope reg sc m \<noteq> None \<and> (m, n) \<in> (dep_edges reg sc)\<^sup>*}"

definition deps_known :: "registry \<Rightarrow> fixture_scope \<Rightarrow> string \<Rightarrow> bool" where
  "deps_known reg sc n \<longleftrightarrow> (\<exists>fx. in_scope reg sc n = Some fx \<and> fx_deps fx \<noteq> None)"

text \<open>In an order, latest first, every name comes after its dependencies.\<close>

fun deps_before :: "(string \<Rightarrow> string list) \<Rightarrow> string list \<Rightarrow> bool" where
  "deps_before succ [] = True"
| "deps_before succ (n # ns) = (set (succ n) \<subseteq> set ns \<and> deps_before succ ns)"

lemma needed_mono: "A \<subseteq> B \<Longrightarrow> needed reg sc A \<subseteq> needed reg sc B"
  by (auto simp: needed_def)

lemma needed_self: "n \<in> A \<Longrightarrow> in_scope reg sc n \<noteq> None \<Longrightarrow> n \<in> needed reg sc A"
  by (auto simp: needed_def)

lemma needed_deps:
  assumes "n \<in> A" and "in_scope reg sc n = Some fx" and "fx_deps fx = Some ds"
  shows "needed reg sc (set ds) \<subseteq> needed reg sc A"
proof
  fix x assume "x \<in> needed reg sc (set ds)"
  then obtain m where m: "m \<in> set ds" "in_scope reg sc m \<noteq> None" "(m, x) \<in> (dep_edges reg sc)\<^sup>*" by (auto simp: needed_def)
  then have "(n, m) \<in> dep_edges reg sc" using assms by (simp add: dep_edges_def scope_deps_def)
  then have "(n, x) \<in> (dep_edges reg sc)\<^sup>*" using m(3) by (rule converse_rtrancl_into_rtrancl)
  with assms show "x \<in> needed reg sc A" by (auto simp: needed_def)
qed

lemma visit_ConsE [consumes 1, case_names deep other seen circular unknown below]:
  assumes "visit_all fuel reg sc visiting ordered (n # ns) = r"
  obtains (deep) "fuel = 0" "r = Too_Deep"
    | (other) k where "fuel = Suc k" "in_scope reg sc n = None" "visit_all fuel reg sc visiting ordered ns = r"
    | (seen) k where "fuel = Suc k" "n \<notin> set visiting" "n \<in> set ordered" "visit_all fuel reg sc visiting ordered ns = r"
    | (circular) k fx where "fuel = Suc k" "in_scope reg sc n = Some fx" "n \<in> set visiting" "r = Circular (visiting @ [n])"
    | (unknown) k fx where "fuel = Suc k" "in_scope reg sc n = Some fx" "fx_deps fx = None" "r = Unknown_Deps"
    | (below) k fx ds where "fuel = Suc k" "in_scope reg sc n = Some fx" "fx_deps fx = Some ds" "n \<notin> set visiting" "n \<notin> set ordered"
        "(\<exists>o'. visit_all k reg sc (visiting @ [n]) ordered ds = Ordered o' \<and> visit_all fuel reg sc visiting (o' @ [n]) ns = r) \<or>
         (visit_all k reg sc (visiting @ [n]) ordered ds = r \<and> (\<forall>o'. r \<noteq> Ordered o'))"
proof (cases fuel)
  case 0
  with assms show ?thesis by (intro deep) simp_all
next
  case (Suc k)
  show ?thesis
  proof (cases "in_scope reg sc n")
    case None
    with assms Suc show ?thesis by (intro other) simp_all
  next
    case (Some fx)
    consider "n \<in> set visiting" | "n \<notin> set visiting" "n \<in> set ordered" | "n \<notin> set visiting" "n \<notin> set ordered" by blast
    then show ?thesis
    proof cases
      case 1
      with assms Suc Some show ?thesis by (intro circular) simp_all
    next
      case 2
      with assms Suc Some show ?thesis by (intro seen) simp_all
    next
      case 3
      show ?thesis
      proof (cases "fx_deps fx")
        case None
        with assms Suc Some 3 show ?thesis by (intro unknown) simp_all
      next
        case ds: (Some ds)
        with assms Suc Some 3 show ?thesis
          by (intro below [of k fx ds]) (auto split: collect_result.splits)
      qed
    qed
  qed
qed

lemma visit_ordered:
  "visit_all fuel reg sc visiting ordered ns = Ordered o' \<Longrightarrow> distinct ordered \<Longrightarrow>
   \<exists>new. o' = ordered @ new \<and> distinct o' \<and> set new \<inter> set visiting = {} \<and>
     (\<forall>n \<in> set ns. in_scope reg sc n \<noteq> None \<longrightarrow> n \<in> set o') \<and> set new \<subseteq> needed reg sc (set ns) \<and>
     (\<forall>n \<in> set new. deps_known reg sc n) \<and>
     (deps_before (scope_deps reg sc) (rev ordered) \<longrightarrow> deps_before (scope_deps reg sc) (rev o'))"
proof (induction fuel arbitrary: visiting ordered ns o')
  case 0
  then show ?case by (cases ns) auto
next
  case (Suc fuel)
  note outer = Suc.IH
  from Suc.prems show ?case
  proof (induction ns arbitrary: ordered)
    case (Cons n ns)
    have mono: "needed reg sc (set ns) \<subseteq> needed reg sc (set (n # ns))" by (rule needed_mono) auto
    from Cons.prems(1) show ?case
    proof (cases rule: visit_ConsE)
      case (other k)
      with Cons.IH [OF other(3) Cons.prems(2)] mono show ?thesis by fastforce
    next
      case (seen k)
      with Cons.IH [OF seen(4) Cons.prems(2)] mono show ?thesis by fastforce
    next
      case (below k fx ds)
      then obtain o1 where o1: "visit_all fuel reg sc (visiting @ [n]) ordered ds = Ordered o1"
        "visit_all (Suc fuel) reg sc visiting (o1 @ [n]) ns = Ordered o'" by auto
      from outer [OF o1(1) Cons.prems(2)] obtain new1 where n1: "o1 = ordered @ new1" "distinct o1"
        "set new1 \<inter> set (visiting @ [n]) = {}" "\<forall>d \<in> set ds. in_scope reg sc d \<noteq> None \<longrightarrow> d \<in> set o1"
        "set new1 \<subseteq> needed reg sc (set ds)" "\<forall>n \<in> set new1. deps_known reg sc n"
        "deps_before (scope_deps reg sc) (rev ordered) \<longrightarrow> deps_before (scope_deps reg sc) (rev o1)" by blast
      have "distinct (o1 @ [n])" using n1(1-3) below(5) by auto
      from Cons.IH [OF o1(2) this] obtain new2 where n2: "o' = (o1 @ [n]) @ new2" "distinct o'" "set new2 \<inter> set visiting = {}"
        "\<forall>m \<in> set ns. in_scope reg sc m \<noteq> None \<longrightarrow> m \<in> set o'" "set new2 \<subseteq> needed reg sc (set ns)"
        "\<forall>n \<in> set new2. deps_known reg sc n"
        "deps_before (scope_deps reg sc) (rev (o1 @ [n])) \<longrightarrow> deps_before (scope_deps reg sc) (rev o')" by blast
      have deps: "set (scope_deps reg sc n) \<subseteq> set o1" using n1(4) below(2,3) by (auto simp: scope_deps_def)
      have "set new1 \<subseteq> needed reg sc (set (n # ns))"
        using n1(5) needed_deps [of n "set (n # ns)" reg sc fx ds] below(2,3) by auto
      moreover have "n \<in> needed reg sc (set (n # ns))" by (rule needed_self) (simp_all add: below(2))
      moreover have "deps_known reg sc n" using below(2,3) by (simp add: deps_known_def)
      ultimately show ?thesis
        using n1 n2 below(4) deps mono by (intro exI [of _ "new1 @ n # new2"]) auto
    qed simp_all
  qed simp
qed

lemma visit_unknown:
  "visit_all fuel reg sc visiting ordered ns = Unknown_Deps \<Longrightarrow> \<exists>n \<in> needed reg sc (set ns). \<not> deps_known reg sc n"
proof (induction fuel arbitrary: visiting ordered ns)
  case 0
  then show ?case by (cases ns) auto
next
  case (Suc fuel)
  note outer = Suc.IH
  from Suc.prems show ?case
  proof (induction ns arbitrary: ordered)
    case (Cons n ns)
    have mono: "needed reg sc (set ns) \<subseteq> needed reg sc (set (n # ns))" by (rule needed_mono) auto
    from Cons.prems show ?case
    proof (cases rule: visit_ConsE)
      case (unknown k fx)
      then have "n \<in> needed reg sc (set (n # ns))" by (intro needed_self) simp_all
      moreover have "\<not> deps_known reg sc n" using unknown by (simp add: deps_known_def)
      ultimately show ?thesis by blast
    next
      case (below k fx ds)
      have down: "needed reg sc (set ds) \<subseteq> needed reg sc (set (n # ns))"
        by (rule needed_deps [OF _ below(2,3)]) simp
      from below(6) show ?thesis
      proof (elim disjE exE conjE)
        fix o1 assume "visit_all (Suc fuel) reg sc visiting (o1 @ [n]) ns = Unknown_Deps"
        with Cons.IH mono show ?thesis by blast
      next
        assume "visit_all k reg sc (visiting @ [n]) ordered ds = Unknown_Deps"
        with outer down below(1) show ?thesis by blast
      qed
    qed (use Cons.IH mono in blast)+
  qed simp
qed

definition true_cycle :: "registry \<Rightarrow> fixture_scope \<Rightarrow> string list \<Rightarrow> bool" where
  "true_cycle reg sc c \<longleftrightarrow> 2 \<le> length c \<and> hd c = last c \<and> successively (\<lambda>a b. b \<in> set (scope_deps reg sc a)) c"

lemma visit_circular:
  "visit_all fuel reg sc visiting ordered ns = Circular c \<Longrightarrow>
   successively (\<lambda>a b. b \<in> set (scope_deps reg sc a)) visiting \<Longrightarrow>
   (visiting \<noteq> [] \<Longrightarrow> \<forall>m \<in> set ns. in_scope reg sc m \<noteq> None \<longrightarrow> m \<in> set (scope_deps reg sc (last visiting))) \<Longrightarrow>
   \<exists>pre cyc. c = pre @ cyc \<and> true_cycle reg sc cyc"
proof (induction fuel arbitrary: visiting ordered ns)
  case 0
  then show ?case by (cases ns) auto
next
  case (Suc fuel)
  note outer = Suc.IH
  from Suc.prems show ?case
  proof (induction ns arbitrary: ordered)
    case (Cons n ns)
    from Cons.prems(1) show ?case
    proof (cases rule: visit_ConsE)
      case (circular k fx)
      then obtain as bs where split: "visiting = as @ n # bs" by (meson split_list)
      have "n \<in> set (scope_deps reg sc (last (n # bs)))" using Cons.prems(3) circular(2) split by auto
      then have "true_cycle reg sc (n # bs @ [n])"
        using Cons.prems(2) by (cases "bs = []") (auto simp: true_cycle_def split successively_append_iff successively_Cons)
      moreover have "c = as @ n # bs @ [n]" using circular(4) split by simp
      ultimately show ?thesis by blast
    next
      case (below k fx ds)
      have path: "successively (\<lambda>a b. b \<in> set (scope_deps reg sc a)) (visiting @ [n])"
        using Cons.prems(2,3) below(2) by (cases visiting rule: rev_cases) (auto simp: successively_append_iff)
      have "\<forall>m \<in> set ds. in_scope reg sc m \<noteq> None \<longrightarrow> m \<in> set (scope_deps reg sc (last (visiting @ [n])))"
        using below(2,3) by (simp add: scope_deps_def)
      with outer [OF _ path] have inner: "visit_all k reg sc (visiting @ [n]) ordered ds = Circular c \<Longrightarrow> ?thesis"
        using below(1) by blast
      from below(6) inner Cons.IH Cons.prems(2,3) show ?thesis by (metis list.set_intros(2))
    qed (use Cons.IH Cons.prems(2,3) in auto)
  qed simp
qed

lemma visit_fuel:
  "set visiting \<subseteq> fst ` set reg \<Longrightarrow> distinct visiting \<Longrightarrow> length reg < fuel + length visiting \<Longrightarrow>
   visit_all fuel reg sc visiting ordered ns \<noteq> Too_Deep"
proof (induction fuel arbitrary: visiting ordered ns)
  case 0
  have "length visiting \<le> length reg"
    using 0 card_mono [of "fst ` set reg" "set visiting"] card_image_le [of "set reg" fst] card_length [of reg]
    by (simp add: distinct_card)
  with 0 show ?case by simp
next
  case (Suc fuel)
  note outer = Suc.IH
  from Suc.prems show ?case
  proof (induction ns arbitrary: ordered)
    case (Cons n ns)
    show ?case
    proof
      assume deep: "visit_all (Suc fuel) reg sc visiting ordered (n # ns) = Too_Deep"
      then show False
      proof (cases rule: visit_ConsE)
        case (below k fx ds)
        have "map_get reg n = Some fx" using below(2) by (auto simp: in_scope_def split: option.splits if_splits)
        then have "n \<in> fst ` set reg" by (force dest: map_of_SomeD)
        moreover have k: "k = fuel" using below(1) by simp
        ultimately have "visit_all k reg sc (visiting @ [n]) ordered ds \<noteq> Too_Deep"
          unfolding k using Cons.prems below(4) by (intro outer) auto
        with below(6) Cons.IH Cons.prems show ?thesis by blast
      qed (use Cons.IH Cons.prems in auto)
    qed
  qed simp
qed

lemma deps_before_nth:
  "deps_before succ (rev xs) \<Longrightarrow> i < length xs \<Longrightarrow> set (succ (xs ! i)) \<subseteq> set (take i xs)"
proof (induction xs rule: rev_induct)
  case (snoc x xs)
  then show ?case by (cases "i < length xs") (auto simp: nth_append less_Suc_eq)
qed simp

lemma closed_needed:
  assumes "\<forall>n \<in> names. in_scope reg sc n \<noteq> None \<longrightarrow> n \<in> S" and "\<forall>n \<in> S. set (scope_deps reg sc n) \<subseteq> S"
  shows "needed reg sc names \<subseteq> S"
proof
  fix x assume "x \<in> needed reg sc names"
  then obtain m where "(m, x) \<in> (dep_edges reg sc)\<^sup>*" "m \<in> S" using assms(1) by (auto simp: needed_def)
  then show "x \<in> S" by (induction rule: rtrancl_induct) (use assms(2) in \<open>auto simp: dep_edges_def\<close>)
qed

lemma collect_deps_spec:
  "case collect_deps reg names sc of
     Ordered order \<Rightarrow> distinct order \<and> set order = needed reg sc (set names) \<and>
       (\<forall>i < length order. deps_known reg sc (order ! i) \<and> set (scope_deps reg sc (order ! i)) \<subseteq> set (take i order))
   | Circular path \<Rightarrow> (\<exists>pre cyc. path = pre @ cyc \<and> true_cycle reg sc cyc)
   | Unknown_Deps \<Rightarrow> (\<exists>n \<in> needed reg sc (set names). \<not> deps_known reg sc n)
   | Too_Deep \<Rightarrow> False"
proof (cases "collect_deps reg names sc")
  case (Ordered order)
  from visit_ordered [OF Ordered [unfolded collect_deps_def]] have
    d: "distinct order" and sub: "set order \<subseteq> needed reg sc (set names)" and known: "\<forall>n \<in> set order. deps_known reg sc n"
    and all: "\<forall>n \<in> set names. in_scope reg sc n \<noteq> None \<longrightarrow> n \<in> set order"
    and before: "deps_before (scope_deps reg sc) (rev order)"
    by auto
  have take: "\<forall>i < length order. set (scope_deps reg sc (order ! i)) \<subseteq> set (take i order)"
    using deps_before_nth [OF before] by blast
  then have "\<forall>n \<in> set order. set (scope_deps reg sc n) \<subseteq> set order" by (metis in_set_conv_nth set_take_subset subset_trans)
  then have "needed reg sc (set names) \<subseteq> set order" by (rule closed_needed [OF all])
  moreover have "\<forall>i < length order. deps_known reg sc (order ! i)" using known by simp
  ultimately show ?thesis using d sub take Ordered by auto
next
  case (Circular path)
  with visit_circular [of _ reg sc "[]" "[]" names path] show ?thesis by (simp add: collect_deps_def)
next
  case Unknown_Deps
  with visit_unknown [of _ reg sc "[]" "[]" names] show ?thesis by (simp add: collect_deps_def)
next
  case Too_Deep
  with visit_fuel [of "[]" reg "Suc (length reg)" sc "[]" names] show ?thesis by (simp add: collect_deps_def)
qed

lemma collect_deps_order:
  "collect_deps reg names sc = Ordered order \<Longrightarrow> \<forall>i < length order. set (scope_deps reg sc (order ! i)) \<subseteq> set (take i order)"
  using collect_deps_spec [where reg = reg and names = names and sc = sc] by simp

text \<open>
  C22. \<open>collectDeps\<close> returns in every case. An order it returns holds exactly the fixtures of the scope that
  the names need, each once and after all of its own dependencies. It throws only for a true cycle,
  which ends the path it names, and it gives up (null) only when a needed fixture does not tell its
  dependencies.
\<close>

theorem collect_deps_correct:
  "case collect_deps reg names sc of
     Ordered order \<Rightarrow> distinct order \<and> set order = needed reg sc (set names) \<and>
       (\<forall>i < length order. deps_known reg sc (order ! i) \<and> set (scope_deps reg sc (order ! i)) \<subseteq> set (take i order))
   | Circular path \<Rightarrow> (\<exists>pre cyc. path = pre @ cyc \<and> true_cycle reg sc cyc)
   | Unknown_Deps \<Rightarrow> (\<exists>n \<in> needed reg sc (set names). \<not> deps_known reg sc n)
   | Too_Deep \<Rightarrow> False"
  by (rule collect_deps_spec)

section \<open>Setup and teardown\<close>

fun set_up_name :: "fixture_event \<Rightarrow> string option" where
  "set_up_name (Set_Up n) = Some n"
| "set_up_name _ = None"

fun provided_name :: "fixture_event \<Rightarrow> string option" where
  "provided_name (Provided n) = Some n"
| "provided_name _ = None"

fun torn_down_name :: "fixture_event \<Rightarrow> string option" where
  "torn_down_name (Torn_Down n) = Some n"
| "torn_down_name _ = None"

abbreviation names_in :: "(fixture_event \<Rightarrow> string option) \<Rightarrow> fixture_event list \<Rightarrow> string list" where
  "names_in f log \<equiv> List.map_filter f log"

lemma names_in_simps [simp]:
  "names_in f [] = []" "names_in f (xs @ ys) = names_in f xs @ names_in f ys"
  "f e = Some n \<Longrightarrow> names_in f (e # xs) = n # names_in f xs" "f e = None \<Longrightarrow> names_in f (e # xs) = names_in f xs"
  by (simp_all add: List.map_filter_def)

lemma tear_down_names:
  "names_in torn_down_name (tear_down env values ns) = ns" "names_in provided_name (tear_down env values ns) = []"
  "names_in set_up_name (tear_down env values ns) = []"
  unfolding tear_down_def by (induction ns) (auto split: option.splits teardown_outcome.splits)

text \<open>
  The life of some fixtures as its events tell it: they were set up in order, each after the ones before
  had provided their values, and then torn down in reverse.
\<close>

definition set_up_log :: "string list \<Rightarrow> fixture_event list" where
  "set_up_log ns = concat (map (\<lambda>n. [Set_Up n, Provided n]) ns)"

lemma set_up_log_simps [simp]:
  "set_up_log [] = []" "set_up_log (xs @ ys) = set_up_log xs @ set_up_log ys" "set_up_log (n # ns) = Set_Up n # Provided n # set_up_log ns"
  by (simp_all add: set_up_log_def)

lemma set_up_log_names [simp]:
  "names_in provided_name (set_up_log ns) = ns" "names_in torn_down_name (set_up_log ns) = []" "names_in set_up_name (set_up_log ns) = ns"
  by (induction ns) simp_all

text \<open>What setting up \<open>ns\<close> after \<open>ms\<close> may end in.\<close>

definition threw_at :: "'v fixture_env \<Rightarrow> string list \<Rightarrow> string list \<Rightarrow> thrown \<Rightarrow> fixture_event list \<Rightarrow> bool" where
  "threw_at env ms ns e log \<longleftrightarrow> (\<exists>us n vs vals. ns = us @ n # vs \<and> thrown_truthy e \<and>
     log = set_up_log (ms @ us) @ Set_Up n # tear_down env vals (rev (ms @ us)))"

definition waits_at :: "string list \<Rightarrow> string list \<Rightarrow> fixture_event list \<Rightarrow> bool" where
  "waits_at ms ns log \<longleftrightarrow> (\<exists>us n vs. ns = us @ n # vs \<and> log = set_up_log (ms @ us) @ [Set_Up n])"

lemma threw_at_first: "thrown_truthy e \<Longrightarrow> threw_at env ms (n # ns) e (set_up_log ms @ Set_Up n # tear_down env vals (rev ms))"
proof -
  assume "thrown_truthy e"
  then have "n # ns = [] @ n # ns \<and> thrown_truthy e \<and>
      set_up_log ms @ Set_Up n # tear_down env vals (rev ms) = set_up_log (ms @ []) @ Set_Up n # tear_down env vals (rev (ms @ []))" by simp
  then show ?thesis unfolding threw_at_def by blast
qed

lemma waits_at_first: "waits_at ms (n # ns) (set_up_log ms @ [Set_Up n])"
proof -
  have "n # ns = [] @ n # ns \<and> set_up_log ms @ [Set_Up n] = set_up_log (ms @ []) @ [Set_Up n]" by simp
  then show ?thesis unfolding waits_at_def by blast
qed

lemma threw_at_Cons: "threw_at env (ms @ [n]) ns e log \<Longrightarrow> threw_at env ms (n # ns) e log"
proof -
  assume "threw_at env (ms @ [n]) ns e log"
  then obtain us k vs vals where "ns = us @ k # vs" "thrown_truthy e"
    "log = set_up_log ((ms @ [n]) @ us) @ Set_Up k # tear_down env vals (rev ((ms @ [n]) @ us))" unfolding threw_at_def by blast
  then have "n # ns = (n # us) @ k # vs" "thrown_truthy e"
    "log = set_up_log (ms @ n # us) @ Set_Up k # tear_down env vals (rev (ms @ n # us))" by simp_all
  then show ?thesis unfolding threw_at_def by blast
qed

lemma waits_at_Cons: "waits_at (ms @ [n]) ns log \<Longrightarrow> waits_at ms (n # ns) log"
proof -
  assume "waits_at (ms @ [n]) ns log"
  then obtain us k vs where "ns = us @ k # vs" "log = set_up_log ((ms @ [n]) @ us) @ [Set_Up k]" unfolding waits_at_def by blast
  then have "n # ns = (n # us) @ k # vs" "log = set_up_log (ms @ n # us) @ [Set_Up k]" by simp_all
  then show ?thesis unfolding waits_at_def by blast
qed

lemma set_up_all_effect:
  "fx_log r = set_up_log ms \<Longrightarrow> fx_teardowns r = rev ms \<Longrightarrow>
   case set_up_all env ns r of
     Resolved r' \<Rightarrow> fx_log r' = set_up_log (ms @ ns) \<and> fx_teardowns r' = rev (ms @ ns)
   | Setup_Threw e log \<Rightarrow> threw_at env ms ns e log
   | Waits_For_Ever log \<Rightarrow> waits_at ms ns log"
proof (induction ns arbitrary: r ms)
  case (Cons n ns)
  let ?provide = "\<lambda>v. r\<lparr> fx_values := map_set n v (fx_values r), fx_teardowns := n # fx_teardowns r,
                         fx_log := fx_log r @ [Set_Up n, Provided n] \<rparr>"
  have go: ?case if "set_up_all env (n # ns) r = set_up_all env ns (?provide v)" for v
  proof -
    have "fx_log (?provide v) = set_up_log (ms @ [n])" "fx_teardowns (?provide v) = rev (ms @ [n])" using Cons.prems by simp_all
    note ih = Cons.IH [OF this]
    show ?thesis unfolding that
    proof (cases "set_up_all env ns (?provide v)")
      case (Resolved r')
      with ih show "case set_up_all env ns (?provide v) of
          Resolved r' \<Rightarrow> fx_log r' = set_up_log (ms @ n # ns) \<and> fx_teardowns r' = rev (ms @ n # ns)
        | Setup_Threw e log \<Rightarrow> threw_at env ms (n # ns) e log | Waits_For_Ever log \<Rightarrow> waits_at ms (n # ns) log" by simp
    qed (use ih threw_at_Cons waits_at_Cons in \<open>auto\<close>)
  qed
  show ?case
  proof (cases "setup_of env n (fx_values r)")
    case (Uses v)
    then show ?thesis by (intro go [of "Some v"]) simp
  next
    case (Throws_Early e)
    show ?thesis
    proof (cases "thrown_truthy e")
      case True
      have "set_up_all env (n # ns) r = Setup_Threw e (fx_log r @ Set_Up n # tear_down env (fx_values r) (fx_teardowns r))"
        using Throws_Early True by simp
      moreover have "threw_at env ms (n # ns) e (fx_log r @ Set_Up n # tear_down env (fx_values r) (fx_teardowns r))"
        unfolding Cons.prems by (rule threw_at_first [OF True])
      ultimately show ?thesis by simp
    next
      case False
      with Throws_Early show ?thesis by (intro go [of None]) simp
    qed
  next
    case Never_Uses
    have "waits_at ms (n # ns) (fx_log r @ [Set_Up n])"
      unfolding Cons.prems by (rule waits_at_first)
    with Never_Uses show ?thesis by simp
  qed
qed simp

lemma set_up_log_split:
  "set_up_log ns @ rest = xs @ Set_Up n # ys \<Longrightarrow>
   (\<exists>us vs. ns = us @ n # vs \<and> xs = set_up_log us) \<or> (\<exists>zs. rest = zs @ Set_Up n # ys \<and> xs = set_up_log ns @ zs)"
proof (induction ns arbitrary: xs)
  case (Cons m ns)
  show ?case
  proof (cases xs)
    case Nil
    with Cons.prems have "m = n" by simp
    with Nil have "m # ns = [] @ n # ns \<and> xs = set_up_log []" by simp
    then show ?thesis by blast
  next
    case xs: (Cons x xs')
    with Cons.prems obtain xs'' where x: "x = Set_Up m" "xs' = Provided m # xs''" "set_up_log ns @ rest = xs'' @ Set_Up n # ys"
      by (cases xs') auto
    from Cons.IH [OF x(3)] show ?thesis
    proof (elim disjE exE conjE)
      fix us vs assume "ns = us @ n # vs" "xs'' = set_up_log us"
      with xs x have "m # ns = (m # us) @ n # vs \<and> xs = set_up_log (m # us)" by simp
      then show ?thesis by blast
    next
      fix zs assume "rest = zs @ Set_Up n # ys" "xs'' = set_up_log ns @ zs"
      with xs x have "rest = zs @ Set_Up n # ys \<and> xs = set_up_log (m # ns) @ zs" by simp
      then show ?thesis by blast
    qed
  qed
qed simp

text \<open>
  C23. Fixtures are released: when a setup throws, and when the test or the worker is through, every
  fixture that had provided its value is torn down exactly once, in the reverse order of the setups, also when
  teardowns throw; the fixture whose setup threw is not torn down.
\<close>

theorem fixtures_released:
  assumes "resolve_fixtures env reg sc base requested = Inr res"
  shows "case res of
           Resolved r \<Rightarrow>
             names_in torn_down_name (teardown_fixtures env r) = rev (names_in provided_name (teardown_fixtures env r)) \<and>
             names_in torn_down_name (fx_log r) = [] \<and> fixtures_to_resolve reg sc requested = Inr (names_in provided_name (fx_log r))
         | Setup_Threw e log \<Rightarrow>
             names_in torn_down_name log = rev (names_in provided_name log) \<and>
             (\<exists>n. names_in set_up_name log = names_in provided_name log @ [n])
         | Waits_For_Ever log \<Rightarrow> (\<exists>n. names_in set_up_name log = names_in provided_name log @ [n])"
proof -
  obtain names where names: "fixtures_to_resolve reg sc requested = Inr names"
    and res: "res = set_up_all env names \<lparr> fx_values = base, fx_teardowns = [], fx_log = [] \<rparr>"
    using assms by (auto simp: resolve_fixtures_def split: sum.splits)
  from set_up_all_effect [where r = "\<lparr> fx_values = base, fx_teardowns = [], fx_log = [] \<rparr>" and ms = "[]" and env = env and ns = names]
  show ?thesis
    unfolding res [symmetric] names
    by (auto simp: tear_down_names teardown_fixtures_def threw_at_def waits_at_def split: resolved.splits)
qed

definition resolved_log :: "'v resolved \<Rightarrow> fixture_event list" where
  "resolved_log res = (case res of Resolved r \<Rightarrow> fx_log r | Setup_Threw e log \<Rightarrow> log | Waits_For_Ever log \<Rightarrow> log)"

lemma Set_Up_not_in_teardown: "tear_down env vals ns \<noteq> zs @ Set_Up n # ys"
  using tear_down_names(3) [of env vals ns] by (metis names_in_simps(2,3) append_is_Nil_conv list.distinct(1) set_up_name.simps(1))

text \<open>
  When the fixtures a test needs tell their dependencies, every fixture is set up after all of its own
  dependencies have provided their values, whatever the fixtures do.
\<close>

theorem dependencies_provided_first:
  assumes "collect_deps reg names sc = Ordered order" and "resolve_fixtures env reg sc base (Some names) = Inr res"
    and "resolved_log res = before @ Set_Up n # rest" and "d \<in> set (scope_deps reg sc n)"
  shows "Provided d \<in> set before"
proof -
  have order: "\<forall>i < length order. set (scope_deps reg sc (order ! i)) \<subseteq> set (take i order)"
    using collect_deps_order assms(1) by blast
  have res: "res = set_up_all env order \<lparr> fx_values = base, fx_teardowns = [], fx_log = [] \<rparr>"
    using assms(1,2) by (simp add: resolve_fixtures_def fixtures_to_resolve_def)
  have provided: "Provided m \<in> set (set_up_log us)" if "m \<in> set us" for m us
    using that by (induction us) auto
  have early: "d \<in> set us" if "order = us @ n # vs" for us vs
    using order assms(4) that by (auto dest!: spec [of _ "length us"])
  have split: "\<exists>us vs. order = us @ n # vs \<and> before = set_up_log us"
  proof (cases res)
    case (Resolved r)
    with set_up_all_effect [where r = "\<lparr> fx_values = base, fx_teardowns = [], fx_log = [] \<rparr>" and ms = "[]" and env = env and ns = order]
      assms(3) have "set_up_log order @ [] = before @ Set_Up n # rest" by (simp add: res resolved_log_def)
    from set_up_log_split [OF this] show ?thesis by simp
  next
    case (Setup_Threw e log)
    with set_up_all_effect [where r = "\<lparr> fx_values = base, fx_teardowns = [], fx_log = [] \<rparr>" and ms = "[]" and env = env and ns = order]
      assms(3) have "threw_at env [] order e (before @ Set_Up n # rest)" by (simp add: res resolved_log_def)
    then obtain us k vs vals where order: "order = us @ k # vs"
      and log: "before @ Set_Up n # rest = set_up_log us @ Set_Up k # tear_down env vals (rev us)" unfolding threw_at_def by auto
    from set_up_log_split [OF log [symmetric]] show ?thesis
    proof (elim disjE exE conjE)
      fix us' vs' assume "us = us' @ n # vs'" "before = set_up_log us'"
      with order show ?thesis by auto
    next
      fix zs assume zs: "Set_Up k # tear_down env vals (rev us) = zs @ Set_Up n # rest" "before = set_up_log us @ zs"
      then have "zs = []" using Set_Up_not_in_teardown [of env vals "rev us"] by (cases zs) auto
      with zs order show ?thesis by auto
    qed
  next
    case (Waits_For_Ever log)
    with set_up_all_effect [where r = "\<lparr> fx_values = base, fx_teardowns = [], fx_log = [] \<rparr>" and ms = "[]" and env = env and ns = order]
      assms(3) have "waits_at [] order (before @ Set_Up n # rest)" by (simp add: res resolved_log_def)
    then obtain us k vs where order: "order = us @ k # vs" and log: "before @ Set_Up n # rest = set_up_log us @ [Set_Up k]"
      unfolding waits_at_def by auto
    from set_up_log_split [OF log [symmetric]] show ?thesis
    proof (elim disjE exE conjE)
      fix us' vs' assume "us = us' @ n # vs'" "before = set_up_log us'"
      with order show ?thesis by auto
    next
      fix zs assume "[Set_Up k] = zs @ Set_Up n # rest" "before = set_up_log us @ zs"
      with order show ?thesis by (auto simp: Cons_eq_append_conv)
    qed
  qed
  with early provided show ?thesis by blast
qed

section \<open>Fixtures for concrete inputs\<close>

definition demo_registry :: registry where
  "demo_registry = register
     [(''a'', Bare ''async ({ b }, use) => { await use(b); }''), (''b'', Bare ''async ({}, use) => { await use(1); }''),
      (''c'', Bare ''async (fixtures, use) => { await use(2); }'')] []"

lemma demo_registry_eq:
  "demo_registry =
     [(''a'', \<lparr> fx_scope = Test_Scope, fx_deps = Some [''b''] \<rparr>), (''b'', \<lparr> fx_scope = Test_Scope, fx_deps = Some [] \<rparr>),
      (''c'', \<lparr> fx_scope = Test_Scope, fx_deps = None \<rparr>)]"
  by code_simp

definition demo_fixture_env :: "nat fixture_env" where
  "demo_fixture_env = \<lparr> setup_of = (\<lambda>n _. Uses (length n)), teardown_of = (\<lambda>_. Teardown_Throws ''no'') \<rparr>"

lemma demo_collect: "collect_deps demo_registry [''a''] Test_Scope = Ordered [''b'', ''a'']"
  unfolding demo_registry_eq by code_simp

theorem collect_deps_correct_witness:
  "needed demo_registry Test_Scope {''a''} = {''a'', ''b''} \<and>
   set (scope_deps demo_registry Test_Scope ''a'') \<subseteq> {''b''}"
  using collect_deps_correct [where reg = demo_registry and names = "[''a'']" and sc = Test_Scope] unfolding demo_collect
  by (auto simp: less_Suc_eq)

lemma demo_resolved:
  "resolve_fixtures demo_fixture_env demo_registry Test_Scope [] (Some [''a'']) =
     Inr (Resolved \<lparr> fx_values = [(''b'', Some 1), (''a'', Some 1)], fx_teardowns = [''a'', ''b''],
       fx_log = [Set_Up ''b'', Provided ''b'', Set_Up ''a'', Provided ''a''] \<rparr>)"
  unfolding resolve_fixtures_def fixtures_to_resolve_def Let_def option.case demo_collect collect_result.case
  by (simp add: demo_fixture_env_def)

theorem fixtures_released_witness:
  "\<exists>r. resolve_fixtures demo_fixture_env demo_registry Test_Scope [] (Some [''a'']) = Inr (Resolved r) \<and>
     names_in torn_down_name (teardown_fixtures demo_fixture_env r) = [''a'', ''b'']"
  using fixtures_released [OF demo_resolved] demo_resolved by (simp add: teardown_fixtures_def tear_down_names)

theorem dependencies_provided_first_witness: "Provided ''b'' \<in> set [Set_Up ''b'', Provided ''b'']"
proof -
  have deps: "''b'' \<in> set (scope_deps demo_registry Test_Scope ''a'')"
    unfolding demo_registry_eq by code_simp
  show ?thesis
    by (rule dependencies_provided_first [OF demo_collect demo_resolved _ deps, where rest = "[Provided ''a'']"])
      (simp add: resolved_log_def)
qed

text \<open>
  The order is lost when one of the fixtures asked for does not destructure its parameter: every fixture
  of the scope is then set up in the order of registration, and a fixture registered before its
  dependency is set up without it.
\<close>

theorem undestructured_fixture_loses_order:
  "fixtures_to_resolve demo_registry Test_Scope (Some [''a'']) = Inr [''b'', ''a''] \<and>
   fixtures_to_resolve demo_registry Test_Scope (Some [''a'', ''c'']) = Inr [''a'', ''b'', ''c''] \<and>
   ''b'' \<in> set (scope_deps demo_registry Test_Scope ''a'')"
  unfolding demo_registry_eq by code_simp

end
