(* ===== verification/Fixture_Names.thy ===== *)
theory Fixture_Names
  imports Fixture_Parsing
begin

text \<open>
  The parser of parameter names reads back what a function with a destructured first parameter declares:
  plain names, renamed ones (\<open>name: alias\<close>) and defaults (\<open>name = value\<close>), whatever the function's body is.
\<close>

section \<open>Declarations\<close>

datatype param = Plain string | Renamed string string | Defaulted string string

fun param_name :: "param \<Rightarrow> string" where
  "param_name (Plain n) = n"
| "param_name (Renamed n a) = n"
| "param_name (Defaulted n d) = n"

fun render_param :: "param \<Rightarrow> string" where
  "render_param (Plain n) = n"
| "render_param (Renamed n a) = n @ '': '' @ a"
| "render_param (Defaulted n d) = n @ '' = '' @ d"

definition is_ident :: "string \<Rightarrow> bool" where
  "is_ident s \<longleftrightarrow> s \<noteq> [] \<and> (\<forall>c \<in> set s. word_char c)"

fun valid_param :: "param \<Rightarrow> bool" where
  "valid_param (Plain n) = is_ident n"
| "valid_param (Renamed n a) = (is_ident n \<and> is_ident a)"
| "valid_param (Defaulted n d) = (is_ident n \<and> is_ident d)"

text \<open>The text around the names: words, spaces and commas only.\<close>

definition bland :: "string \<Rightarrow> bool" where
  "bland s \<longleftrightarrow> (\<forall>c \<in> set s. word_char c \<or> c = CHR '' '' \<or> c = CHR '','')"

fun render_params :: "param list \<Rightarrow> string" where
  "render_params [] = []"
| "render_params (p # ps) = render_param p @ (if ps = [] then [] else '', '' @ render_params ps)"

definition fn_text :: "string \<Rightarrow> param list \<Rightarrow> string \<Rightarrow> string \<Rightarrow> string" where
  "fn_text before ps after body =
     before @ ''({ '' @ render_params ps @ '' }'' @ after @ '')'' @ body"

section \<open>Characters that no scanner acts on\<close>

definition quotes :: "char set" where
  "quotes = {single_quote, CHR 0x22, CHR 0x60}"

definition brackets :: "char set" where
  "brackets = {CHR ''('', CHR '')'', CHR ''{'', CHR ''}'', CHR ''['', CHR '']''}"

lemma word_char_plain:
  "word_char c \<Longrightarrow> c \<notin> quotes \<and> c \<notin> brackets \<and> c \<notin> {CHR ''/'', CHR '','', CHR '':'', CHR ''='', CHR ''.''} \<and> \<not> js_space c"
  by (auto simp: quotes_def brackets_def word_char_def single_quote_def js_space_def)

lemma string_step_plain [simp]: "c \<notin> quotes \<Longrightarrow> string_step No_String prev c = No_String"
  by (auto simp: string_step_def quotes_def)

lemma filter_comments_plain:
  "\<forall>c \<in> set s. c \<notin> quotes \<and> c \<noteq> CHR ''/'' \<Longrightarrow>
     filter_comments No_Comment No_String prev (s @ t) = s @ filter_comments No_Comment No_String (rev s @ prev) t"
  by (induction s arbitrary: prev) auto

lemma to_closing_plain:
  "\<forall>c \<in> set s. c \<notin> quotes \<and> c \<noteq> open_c \<and> c \<noteq> close_c \<Longrightarrow>
     to_closing open_c close_c d No_String prev (s @ t) =
       map_option (\<lambda>(inside, rest). (s @ inside, rest)) (to_closing open_c close_c d No_String (rev s @ prev) t)"
proof (induction s arbitrary: prev)
  case Nil
  show ?case by (cases "to_closing open_c close_c d No_String prev t") auto
next
  case (Cons c s)
  then show ?case by (auto simp: Let_def option.map_comp comp_def case_prod_unfold)
qed

lemma split_commas_plain:
  "\<forall>c \<in> set s. c \<notin> quotes \<and> c \<notin> brackets \<and> c \<noteq> CHR '','' \<Longrightarrow>
     split_commas No_String [] prev token (s @ t) = split_commas No_String [] (rev s @ prev) (rev s @ token) t"
  by (induction s arbitrary: prev token) (auto simp: closer_def brackets_def)

section \<open>Trimming\<close>

lemma js_space_blank [simp]: "js_space (CHR '' '')"
  by (simp add: js_space_def)

lemma js_trim_end_blanks: "js_trim_end (s @ '' '') = js_trim_end s"
  by (simp add: js_trim_end_def)

lemma js_trim_end_keep: "\<not> js_space c \<Longrightarrow> js_trim_end (s @ c # t) = s @ c # js_trim_end t"
  by (simp add: js_trim_end_def dropWhile_append3 dropWhile_append)

lemma js_trim_solid:
  assumes "s \<noteq> []" and "\<not> js_space (hd s)" and "\<not> js_space (last s)"
  shows "js_trim s = s"
proof -
  have "dropWhile js_space s = s" using assms(1,2) by (cases s) auto
  moreover have "dropWhile js_space (rev s) = rev s" using assms(1,3) by (cases s rule: rev_cases) auto
  ultimately show ?thesis by (simp add: js_trim_def js_trim_end_def)
qed

lemma js_trim_blank: "js_trim ('' '' @ s) = js_trim s"
  by (simp add: js_trim_def)

lemma js_trim_blank_end: "js_trim (s @ '' '') = js_trim s"
proof (cases "\<forall>c \<in> set s. js_space c")
  case True
  then have "dropWhile js_space s = []" "dropWhile js_space (s @ '' '') = []" by auto
  then show ?thesis by (simp only: js_trim_def)
next
  case False
  then have "dropWhile js_space (s @ '' '') = dropWhile js_space s @ '' ''" by (auto simp: dropWhile_append)
  then show ?thesis by (simp add: js_trim_def js_trim_end_blanks)
qed

section \<open>One parameter\<close>

lemma ident_hd_last:
  "is_ident s \<Longrightarrow> s \<noteq> [] \<and> word_char (hd s) \<and> word_char (last s)"
  by (simp add: is_ident_def)

lemma render_param_ends:
  "valid_param p \<Longrightarrow> render_param p \<noteq> [] \<and> word_char (hd (render_param p)) \<and> word_char (last (render_param p))"
  by (cases p) (auto dest!: ident_hd_last)

lemma render_param_chars:
  "valid_param p \<Longrightarrow> c \<in> set (render_param p) \<Longrightarrow> word_char c \<or> c \<in> {CHR '' '', CHR '':'', CHR ''=''}"
  by (cases p) (auto simp: is_ident_def)

lemma render_param_trim: "valid_param p \<Longrightarrow> js_trim (render_param p) = render_param p"
  using render_param_ends [of p] word_char_plain by (intro js_trim_solid) auto

lemma takeWhile_ident:
  assumes "is_ident n" and "\<not> word_char x"
  shows "takeWhile (\<lambda>c. c \<noteq> x) (n @ s) = n @ takeWhile (\<lambda>c. c \<noteq> x) s"
  using assms by (intro takeWhile_append2) (auto simp: is_ident_def)

lemma prop_name_render: "valid_param p \<Longrightarrow> prop_name (render_param p) = param_name p"
proof -
  have sep: "\<not> word_char (CHR '':'')" "\<not> word_char (CHR ''='')" using word_char_plain by blast+
  have trim: "js_trim n = n" "js_trim (n @ '' '') = n" if "is_ident n" for n
    using ident_hd_last [OF that] word_char_plain js_trim_blank_end by (auto intro!: js_trim_solid)
  show "valid_param p \<Longrightarrow> prop_name (render_param p) = param_name p"
  proof (cases p)
    case (Plain n)
    moreover assume "valid_param p"
    ultimately show ?thesis
      using takeWhile_ident [of n _ "[]"] sep by (simp add: prop_name_def trim)
  next
    case (Renamed n a)
    moreover assume "valid_param p"
    ultimately show ?thesis
      using takeWhile_ident [of n _ "'': '' @ a"] takeWhile_ident [of a _ "[]"] sep
      by (simp add: prop_name_def trim Let_def)
  next
    case (Defaulted n d)
    moreover assume "valid_param p"
    ultimately show ?thesis
      using takeWhile_ident [of n _ "'' = '' @ d"] takeWhile_ident [of d _ "[]"] sep
      by (simp add: prop_name_def trim Let_def)
  qed
qed

section \<open>The whole list\<close>

lemma plain_punctuation:
  "c \<in> {CHR '' '', CHR '':'', CHR ''='', CHR '',''} \<Longrightarrow> c \<notin> quotes \<and> c \<notin> brackets \<and> c \<noteq> CHR ''/''"
  by (auto simp: quotes_def brackets_def single_quote_def)

lemma render_param_plain:
  assumes "valid_param p" and "c \<in> set (render_param p)"
  shows "c \<notin> quotes \<and> c \<notin> brackets \<and> c \<noteq> CHR '',''"
proof (cases "word_char c")
  case True
  then show ?thesis using word_char_plain by blast
next
  case False
  then have "c \<in> {CHR '' '', CHR '':'', CHR ''=''}" using render_param_chars [OF assms] by blast
  then show ?thesis by (auto simp: quotes_def brackets_def single_quote_def)
qed

lemma render_params_chars:
  "\<forall>p \<in> set ps. valid_param p \<Longrightarrow> c \<in> set (render_params ps) \<Longrightarrow> word_char c \<or> c \<in> {CHR '' '', CHR '':'', CHR ''='', CHR '',''}"
proof (induction ps)
  case (Cons p ps)
  then show ?case using render_param_chars [of p c] by (auto split: if_splits)
qed simp

lemma push_token_render:
  "valid_param p \<Longrightarrow> push_token (rev (render_param p) @ '' '') rest = render_param p # rest"
  using render_param_trim [of p] render_param_ends [of p] js_trim_blank [of "render_param p"]
  by (simp add: push_token_def)

lemma push_token_render_last:
  "valid_param p \<Longrightarrow> push_token ('' '' @ rev (render_param p) @ '' '') rest = render_param p # rest"
  using render_param_trim [of p] render_param_ends [of p] js_trim_blank_end [of "'' '' @ render_param p"]
    js_trim_blank [of "render_param p"]
  by (simp add: push_token_def)

lemma split_commas_render:
  "\<forall>p \<in> set ps. valid_param p \<Longrightarrow> ps \<noteq> [] \<Longrightarrow>
     split_commas No_String [] prev [] ('' '' @ render_params ps @ '' '') = map render_param ps"
proof (induction ps arbitrary: prev)
  case (Cons p ps)
  have plain: "\<forall>c \<in> set ('' '' @ render_param p). c \<notin> quotes \<and> c \<notin> brackets \<and> c \<noteq> CHR '',''"
    using render_param_plain [of p] Cons.prems plain_punctuation by auto
  have other: "CHR '' '' \<notin> quotes" "CHR '','' \<notin> quotes" by (auto simp: quotes_def single_quote_def)
  have split: "split_commas No_String [] prev [] (('' '' @ render_param p) @ t) =
                 split_commas No_String [] (rev ('' '' @ render_param p) @ prev) (rev (render_param p) @ '' '') t" for t
    using split_commas_plain [OF plain] by simp
  show ?case
  proof (cases "ps = []")
    case True
    have "split_commas No_String [] prev [] ('' '' @ render_params (p # ps) @ '' '') =
            split_commas No_String [] (rev ('' '' @ render_param p) @ prev) (rev (render_param p) @ '' '') '' ''"
      unfolding split [symmetric] using True by simp
    also have "\<dots> = push_token ('' '' @ rev (render_param p) @ '' '') []"
      using other by (simp add: closer_def)
    finally show ?thesis using True Cons.prems push_token_render_last by simp
  next
    case False
    have "split_commas No_String [] prev [] ('' '' @ render_params (p # ps) @ '' '') =
            split_commas No_String [] (rev ('' '' @ render_param p) @ prev) (rev (render_param p) @ '' '')
              (CHR '','' # '' '' @ render_params ps @ '' '')"
      unfolding split [symmetric] using False by simp
    also have "\<dots> = push_token (rev (render_param p) @ '' '')
                        (split_commas No_String [] (CHR '','' # rev ('' '' @ render_param p) @ prev) []
                           ('' '' @ render_params ps @ '' ''))"
      using other by (subst split_commas.simps) (simp add: closer_def del: split_commas.simps)
    also have "\<dots> = map render_param (p # ps)"
      using Cons False push_token_render [of p] by (simp del: split_commas.simps)
    finally show ?thesis .
  qed
qed simp

lemma render_params_plain:
  assumes "\<forall>p \<in> set ps. valid_param p" and "c \<in> set ('' '' @ render_params ps @ '' '')"
  shows "c \<notin> quotes \<and> c \<notin> brackets \<and> c \<noteq> CHR ''/''"
proof (cases "word_char c")
  case True
  then show ?thesis using word_char_plain by blast
next
  case False
  then have "c \<in> {CHR '' '', CHR '':'', CHR ''='', CHR '',''}" using render_params_chars [OF assms(1)] assms(2) by auto
  then show ?thesis by (rule plain_punctuation)
qed

lemma bland_plain:
  assumes "bland s" and "c \<in> set s"
  shows "c \<notin> quotes \<and> c \<notin> brackets \<and> c \<noteq> CHR ''/''"
proof (cases "word_char c")
  case True
  then show ?thesis using word_char_plain by blast
next
  case False
  then have "c \<in> {CHR '' '', CHR '':'', CHR ''='', CHR '',''}" using assms by (auto simp: bland_def)
  then show ?thesis by (rule plain_punctuation)
qed

lemma render_params_names:
  assumes "\<forall>p \<in> set ps. valid_param p"
  shows "map prop_name (split_by_comma ('' '' @ render_params ps @ '' '')) = map param_name ps"
proof (cases "ps = []")
  case True
  show ?thesis unfolding True by code_simp
next
  case False
  then show ?thesis
    using split_commas_render [OF assms] assms by (simp add: split_by_comma_def prop_name_render)
qed

lemma names_not_rest:
  assumes "\<forall>p \<in> set ps. valid_param p"
  shows "\<not> list_ex is_rest (map param_name ps)"
proof -
  have "\<not> is_rest (param_name p)" if "p \<in> set ps" for p
  proof -
    have "is_ident (param_name p)" using assms that by (cases p) auto
    then have "word_char (hd (param_name p))" "param_name p \<noteq> []" by (auto dest: ident_hd_last)
    moreover have "\<not> word_char (CHR ''.'')" using word_char_plain by blast
    ultimately show ?thesis by (cases "param_name p") (auto simp: is_rest_def)
  qed
  then show ?thesis by (auto simp: list_ex_iff)
qed

section \<open>The whole text\<close>

definition in_parens :: "param list \<Rightarrow> string \<Rightarrow> string" where
  "in_parens ps after = CHR ''{'' # '' '' @ render_params ps @ '' '' @ CHR ''}'' # after"

lemma in_parens_chars:
  assumes "\<forall>p \<in> set ps. valid_param p" and "bland after" and "c \<in> set (in_parens ps after)"
  shows "c \<notin> quotes \<and> c \<notin> {CHR ''('', CHR '')'', CHR ''/''}"
proof (cases "c \<in> {CHR ''{'', CHR ''}''}")
  case True
  then show ?thesis by (auto simp: quotes_def single_quote_def)
next
  case False
  then have "c \<in> set ('' '' @ render_params ps @ '' '') \<or> c \<in> set after" using assms(3) by (auto simp: in_parens_def)
  then have "c \<notin> quotes \<and> c \<notin> brackets \<and> c \<noteq> CHR ''/''"
    using render_params_plain [OF assms(1)] bland_plain [OF assms(2)] by blast
  then show ?thesis by (simp add: brackets_def)
qed

lemma fn_text_parens: "fn_text before ps after body = before @ CHR ''('' # in_parens ps after @ CHR '')'' # body"
  by (simp add: fn_text_def in_parens_def)

lemma fn_text_uncommented:
  assumes "\<forall>p \<in> set ps. valid_param p" and "bland before" and "bland after"
  shows "\<exists>rest. filter_out_comments (fn_text before ps after body) = fn_text before ps after rest"
proof -
  let ?s = "before @ CHR ''('' # in_parens ps after @ [CHR '')'']"
  have "\<forall>c \<in> set ?s. c \<notin> quotes \<and> c \<noteq> CHR ''/''"
    using in_parens_chars [OF assms(1,3)] bland_plain [OF assms(2)] by (auto simp: quotes_def single_quote_def)
  from filter_comments_plain [OF this, of "[]" body] show ?thesis
    by (auto simp: filter_out_comments_def fn_text_parens)
qed

lemma fn_text_params:
  assumes "\<forall>p \<in> set ps. valid_param p" and "bland before" and "bland after"
  shows "find_parens (fn_text before ps after body) = Some (in_parens ps after, body)"
proof -
  have before: "\<forall>c \<in> set before. c \<noteq> CHR ''(''" using bland_plain [OF assms(2)] by (auto simp: brackets_def)
  have inside: "\<forall>c \<in> set (in_parens ps after). c \<notin> quotes \<and> c \<noteq> CHR ''('' \<and> c \<noteq> CHR '')''"
    using in_parens_chars [OF assms(1,3)] by blast
  have "takeWhile (\<lambda>c. c \<noteq> CHR ''('') (before @ CHR ''('' # t) = before"
    and "dropWhile (\<lambda>c. c \<noteq> CHR ''('') (before @ CHR ''('' # t) = CHR ''('' # t" for t
    using before by (simp_all add: takeWhile_append2 dropWhile_append2)
  moreover have "CHR '')'' \<notin> quotes" by (auto simp: quotes_def single_quote_def)
  ultimately show ?thesis
    by (simp add: find_parens_def fn_text_parens to_closing_plain [OF inside])
qed

lemma js_trim_in_parens: "js_trim (in_parens ps after) = CHR ''{'' # '' '' @ render_params ps @ '' '' @ CHR ''}'' # js_trim_end after"
proof -
  have solid: "\<not> js_space (CHR ''{'')" "\<not> js_space (CHR ''}'')" by (simp_all add: js_space_def)
  have "js_trim (in_parens ps after) =
          js_trim_end ((CHR ''{'' # '' '' @ render_params ps @ '' '') @ CHR ''}'' # after)"
    using solid by (simp add: js_trim_def in_parens_def)
  then show ?thesis by (simp only: js_trim_end_keep [OF solid(2)]) simp
qed

lemma destructured_names_in_parens:
  assumes "\<forall>p \<in> set ps. valid_param p"
  shows "destructured_names (CHR ''{'' # ('' '' @ render_params ps @ '' '') @ CHR ''}'' # t) = map param_name ps"
proof -
  let ?inside = "'' '' @ render_params ps @ '' ''"
  have inside: "\<forall>c \<in> set ?inside. c \<notin> quotes \<and> c \<noteq> CHR ''{'' \<and> c \<noteq> CHR ''}''"
    using render_params_plain [OF assms] by (auto simp: brackets_def)
  have "CHR ''{'' \<notin> quotes" "CHR ''}'' \<notin> quotes" by (auto simp: quotes_def single_quote_def)
  then have "to_closing (CHR ''{'') (CHR ''}'') 0 No_String [] (CHR ''{'' # ?inside @ CHR ''}'' # t) = Some (CHR ''{'' # ?inside, t)"
    using to_closing_plain [OF inside, of 1 "[CHR ''{'']" "CHR ''}'' # t"]
    by (subst to_closing.simps) (simp del: to_closing.simps, simp)
  then show ?thesis
    using render_params_names [OF assms] names_not_rest [OF assms] by (simp add: destructured_names_def)
qed

lemma fixture_parameter_names_spec:
  assumes "\<forall>p \<in> set ps. valid_param p" and "bland before" and "bland after"
  shows "fixture_parameter_names (fn_text before ps after body) = map param_name ps"
proof -
  obtain rest where "filter_out_comments (fn_text before ps after body) = fn_text before ps after rest"
    using fn_text_uncommented [OF assms] by blast
  then show ?thesis
    using fn_text_params [OF assms, of rest] destructured_names_in_parens [OF assms(1), of "js_trim_end after"]
    by (simp add: fixture_parameter_names_def extract_param_list_def js_trim_in_parens)
qed

text \<open>
  The names a fixture or test function destructures are read back from its source text: each parameter
  of a first parameter \<open>{ a, b: alias, c = value }\<close> yields the name before its colon or equals sign, in
  order, whatever stands in the function's body (strings, comments and brackets included) and however the
  text around the list is worded with names, spaces and commas.
\<close>
theorem destructured_parameters_read_back:
  assumes "\<forall>p \<in> set ps. valid_param p" and "bland before" and "bland after"
  shows "fixture_parameter_names (fn_text before ps after body) = map param_name ps"
  by (rule fixture_parameter_names_spec [OF assms])

lemma destructured_parameters_read_back_witness:
  "fixture_parameter_names (fn_text ''async '' [Plain ''page'', Renamed ''db'' ''pool'', Defaulted ''user'' ''guest'']
     '', use'' '' => { /* ({ no }) */ await use(1) }'') = [''page'', ''db'', ''user'']"
proof -
  let ?ps = "[Plain ''page'', Renamed ''db'' ''pool'', Defaulted ''user'' ''guest'']"
  have "\<forall>p \<in> set ?ps. valid_param p" by (simp add: is_ident_def word_char_def)
  moreover have "bland ''async ''" "bland '', use''" by (simp_all add: bland_def word_char_def)
  ultimately show ?thesis
    using destructured_parameters_read_back [of ?ps "''async ''" "'', use''" "'' => { /* ({ no }) */ await use(1) }''"]
    by simp
qed

end
