(* ===== verification/Grpc_Wire.thy ===== *)
theory Grpc_Wire
  imports TS_Prelude "HOL-Library.Word"
begin

text \<open>
  The decoder of captured gRPC bodies (\<open>trace/grpc-protobuf.ts\<close>): the framing of a body into messages and
  the protobuf wire format of a message. Bytes are 8-bit words; the cursor of the source is the list of
  the bytes that are left. Names come from a schema (\<open>trace/grpc-schema.ts\<close>), a table that is an argument of
  the definitions. \<open>Number\<close> rounds big integers above \<open>2 ^ 53\<close>, which only ever meet a comparison with a
  much smaller bound here; a rendered date is its number of milliseconds; a text is its code points.
\<close>

unbundle bit_operations_syntax

type_synonym byte = "8 word"

section \<open>gRPC framing\<close>

record grpc_frame =
  compressed :: bool
  message :: "byte list"

record grpc_framing =
  frames :: "grpc_frame list"
  trailing_bytes :: nat
  truncated_frame_length :: "nat option"

definition max_frame_length :: nat where
  "max_frame_length = 64 * 1024 * 1024"

definition read_uint32_be :: "byte \<Rightarrow> byte \<Rightarrow> byte \<Rightarrow> byte \<Rightarrow> nat" where
  "read_uint32_be a b c d = unat a * 0x1000000 + unat b * 0x10000 + unat c * 0x100 + unat d"

text \<open>The loop: the complete frames and the bytes left when it ends.\<close>

fun split_frames :: "byte list \<Rightarrow> grpc_frame list \<times> byte list" where
  "split_frames bytes =
     (case bytes of
        flag # a # b # c # d # rest \<Rightarrow>
          (let len = read_uint32_be a b c d in
           if flag \<noteq> 0 \<and> flag \<noteq> 1 then ([], bytes)
           else if len > max_frame_length then ([], bytes)
           else if len > length rest then ([], bytes)
           else let (fs, left) = split_frames (drop len rest)
                in (\<lparr> compressed = (flag = 1), message = take len rest \<rparr> # fs, left))
      | _ \<Rightarrow> ([], bytes))"

declare split_frames.simps [simp del]

definition declared_length :: "byte list \<Rightarrow> nat option" where
  "declared_length left =
     (case left of
        flag # a # b # c # d # rest \<Rightarrow>
          if (flag = 0 \<or> flag = 1) \<and> read_uint32_be a b c d \<le> max_frame_length then Some (read_uint32_be a b c d) else None
      | _ \<Rightarrow> None)"

definition decode_grpc_frames :: "byte list \<Rightarrow> grpc_framing option" where
  "decode_grpc_frames bytes =
     (let (fs, left) = split_frames bytes in
      if fs = [] then None
      else Some \<lparr> frames = fs, trailing_bytes = length left, truncated_frame_length = declared_length left \<rparr>)"

section \<open>Varints\<close>

text \<open>The number of bytes that may still be read, the result so far and the shift.\<close>

fun read_varint_from :: "nat \<Rightarrow> nat \<Rightarrow> nat \<Rightarrow> byte list \<Rightarrow> (nat \<times> byte list) option" where
  "read_varint_from 0 result shift bytes = None"
| "read_varint_from (Suc k) result shift [] = None"
| "read_varint_from (Suc k) result shift (b # bytes) =
     (let result' = result OR push_bit shift (unat (b AND 0x7F)) in
      if b AND 0x80 = 0 then Some (result', bytes) else read_varint_from k result' (shift + 7) bytes)"

definition read_varint :: "byte list \<Rightarrow> (nat \<times> byte list) option" where
  "read_varint bytes = read_varint_from 10 0 0 bytes"

lemma read_varint_from_shorter: "read_varint_from k r s bs = Some (v, rest) \<Longrightarrow> length rest < length bs"
proof (induction k arbitrary: r s bs)
  case (Suc k)
  then show ?case by (cases bs) (auto simp: Let_def split: if_splits, fastforce)
qed simp

lemma read_varint_shorter: "read_varint bs = Some (v, rest) \<Longrightarrow> length rest < length bs"
  unfolding read_varint_def by (rule read_varint_from_shorter)

section \<open>Wire records\<close>

text \<open>What a record holds before the schema is asked: the payload of its wire type.\<close>

datatype wire = W_Varint nat | W_Fixed64 nat | W_Bytes "byte list" | W_Fixed32 nat

text \<open>Little-endian: the first byte is the lowest.\<close>

fun little_endian :: "byte list \<Rightarrow> nat" where
  "little_endian [] = 0"
| "little_endian (b # bytes) = unat b + 256 * little_endian bytes"

definition read_payload :: "nat \<Rightarrow> byte list \<Rightarrow> (wire \<times> byte list) option" where
  "read_payload wire_type bytes =
     (if wire_type = 0 then map_option (\<lambda>(v, rest). (W_Varint v, rest)) (read_varint bytes)
      else if wire_type = 1 then
        (if length bytes < 8 then None else Some (W_Fixed64 (little_endian (take 8 bytes)), drop 8 bytes))
      else if wire_type = 2 then
        (case read_varint bytes of
           None \<Rightarrow> None
         | Some (len, rest) \<Rightarrow> if len > length rest then None else Some (W_Bytes (take len rest), drop len rest))
      else if wire_type = 5 then
        (if length bytes < 4 then None else Some (W_Fixed32 (little_endian (take 4 bytes)), drop 4 bytes))
      else None)"

lemma read_payload_shorter: "read_payload t bs = Some (w, rest) \<Longrightarrow> length rest \<le> length bs"
  by (auto simp: read_payload_def split: if_splits option.splits dest!: read_varint_shorter)

definition max_fields :: nat where
  "max_fields = 2000"

text \<open>The records of a message, with the number of those already read.\<close>

function wire_records :: "nat \<Rightarrow> byte list \<Rightarrow> (nat \<times> wire) list option" where
  "wire_records n bytes =
     (if bytes = [] then Some []
      else if n \<ge> max_fields then None
      else case read_varint bytes of
          None \<Rightarrow> None
        | Some (tag, rest) \<Rightarrow>
            (let field_number = drop_bit 3 tag in
             if field_number = 0 \<or> field_number > 536870911 then None
             else case read_payload (tag AND 7) rest of
                 None \<Rightarrow> None
               | Some (w, rest') \<Rightarrow> map_option (Cons (field_number, w)) (wire_records (Suc n) rest')))"
  by pat_completeness auto
termination
  by (relation "measure (length \<circ> snd)") (auto dest!: read_varint_shorter read_payload_shorter)

declare wire_records.simps [simp del]

section \<open>Fields\<close>

record field_def =
  fd_name :: string
  fd_message :: "string option"
  fd_enum :: "nat \<Rightarrow> string option"
  fd_bytes :: bool
  fd_packed :: bool
  fd_map :: "string option option"
  fd_bool :: bool
  fd_repeated :: bool

type_synonym schemas = "string \<Rightarrow> (nat \<Rightarrow> field_def option) option"

definition lookup_field :: "schemas \<Rightarrow> string option \<Rightarrow> nat \<Rightarrow> field_def option" where
  "lookup_field sch ty n =
     (case ty of None \<Rightarrow> None | Some t \<Rightarrow> (case sch t of None \<Rightarrow> None | Some defs \<Rightarrow> defs n))"

datatype proto_value =
    Varint nat "string option" "bool option"
  | Fixed64 nat
  | Fixed32 nat
  | Message "proto_field list"
  | Text "nat list"
  | Bytes "byte list"
  | Packed "nat list"
  | Map_Entry "nat list" proto_value
  | Timestamp nat
and proto_field = Proto_Field nat "string option" bool proto_value

fun field_number :: "proto_field \<Rightarrow> nat" where
  "field_number (Proto_Field n nm rep v) = n"

fun field_value :: "proto_field \<Rightarrow> proto_value" where
  "field_value (Proto_Field n nm rep v) = v"

section \<open>UTF-8\<close>

definition continuation :: "nat \<Rightarrow> bool" where
  "continuation b \<longleftrightarrow> 0x80 \<le> b \<and> b \<le> 0xBF"

text \<open>A fatal decoder: overlong forms, surrogates and numbers above \<open>0x10FFFF\<close> are refused.\<close>

fun utf8_points :: "nat list \<Rightarrow> nat list option" where
  "utf8_points [] = Some []"
| "utf8_points (a # bs) =
     (if a < 0x80 then map_option (Cons a) (utf8_points bs)
      else case bs of
          [] \<Rightarrow> None
        | b # bs1 \<Rightarrow>
            if 0xC2 \<le> a \<and> a \<le> 0xDF then
              (if continuation b then map_option (Cons ((a - 0xC0) * 64 + (b - 0x80))) (utf8_points bs1) else None)
            else case bs1 of
                [] \<Rightarrow> None
              | c # bs2 \<Rightarrow>
                  if 0xE0 \<le> a \<and> a \<le> 0xEF then
                    (if continuation b \<and> (a = 0xE0 \<longrightarrow> 0xA0 \<le> b) \<and> (a = 0xED \<longrightarrow> b \<le> 0x9F) \<and> continuation c
                     then map_option (Cons ((a - 0xE0) * 4096 + (b - 0x80) * 64 + (c - 0x80))) (utf8_points bs2) else None)
                  else case bs2 of
                      [] \<Rightarrow> None
                    | d # bs3 \<Rightarrow>
                        if 0xF0 \<le> a \<and> a \<le> 0xF4 \<and> continuation b \<and> (a = 0xF0 \<longrightarrow> 0x90 \<le> b) \<and> (a = 0xF4 \<longrightarrow> b \<le> 0x8F) \<and>
                           continuation c \<and> continuation d
                        then map_option (Cons ((a - 0xF0) * 262144 + (b - 0x80) * 4096 + (c - 0x80) * 64 + (d - 0x80)))
                               (utf8_points bs3)
                        else None)"

text \<open>The decoder takes off a byte order mark.\<close>

definition text_decode :: "byte list \<Rightarrow> nat list option" where
  "text_decode bytes =
     (let ns = map unat bytes in utf8_points (if take 3 ns = [0xEF, 0xBB, 0xBF] then drop 3 ns else ns))"

definition decode_utf8_strict :: "byte list \<Rightarrow> nat list option" where
  "decode_utf8_strict bytes =
     (case text_decode bytes of
        None \<Rightarrow> None
      | Some text \<Rightarrow>
          if list_ex (\<lambda>code. code \<notin> {9, 10, 13} \<and> (code < 0x20 \<or> code = 0x7F)) text then None else Some text)"

definition is_printable_ascii :: "byte list \<Rightarrow> bool" where
  "is_printable_ascii bytes = list_all (\<lambda>b. 0x20 \<le> b \<and> b \<le> 0x7E) bytes"

section \<open>What a length-delimited value is\<close>

definition field_with :: "nat \<Rightarrow> proto_field list \<Rightarrow> proto_field option" where
  "field_with n fs = find (\<lambda>f. field_number f = n) fs"

definition timestamp_value :: "proto_field list \<Rightarrow> proto_value option" where
  "timestamp_value fs =
     (if fs = [] \<or> length fs > 2 then None
      else case map_option field_value (field_with 1 fs) of
          Some (Varint secs _ _) \<Rightarrow>
            (let nanos = map_option field_value (field_with 2 fs);
                 of_part = (\<lambda>n. if secs < 1000000000 \<or> secs > 3000000000 then None
                               else if n \<ge> 1000000000 then None
                               else Some (Timestamp (secs * 1000 + n div 1000000)))
             in case nanos of None \<Rightarrow> of_part 0 | Some (Varint n _ _) \<Rightarrow> of_part n | Some _ \<Rightarrow> None)
        | _ \<Rightarrow> None)"

definition is_weak_parse :: "proto_field list \<Rightarrow> bool" where
  "is_weak_parse fs =
     (case fs of [Proto_Field n nm rep v] \<Rightarrow> (case v of Fixed32 _ \<Rightarrow> True | Fixed64 _ \<Rightarrow> True | _ \<Rightarrow> False) | _ \<Rightarrow> False)"

function packed_varints :: "nat \<Rightarrow> byte list \<Rightarrow> nat list option" where
  "packed_varints n bytes =
     (if bytes = [] then Some []
      else case read_varint bytes of
          None \<Rightarrow> None
        | Some (v, rest) \<Rightarrow> if Suc n > max_fields then None else map_option (Cons v) (packed_varints (Suc n) rest))"
  by pat_completeness auto
termination
  by (relation "measure (length \<circ> snd)") (auto dest!: read_varint_shorter)

declare packed_varints.simps [simp del]

definition decode_packed_varints :: "byte list \<Rightarrow> nat list option" where
  "decode_packed_varints bs =
     (case packed_varints 0 bs of Some [] \<Rightarrow> None | r \<Rightarrow> r)"

text \<open>
  The bytes of field 2 of a map entry. A skip past the end ends the loop of the source, as the empty list
  does here.
\<close>

function map_entry_value_bytes :: "byte list \<Rightarrow> byte list option" where
  "map_entry_value_bytes bs =
     (if bs = [] then None
      else case read_varint bs of
          None \<Rightarrow> None
        | Some (tag, rest) \<Rightarrow>
            (let wire_type = tag AND 7 in
             if wire_type = 0 then (case read_varint rest of None \<Rightarrow> None | Some (_, rest') \<Rightarrow> map_entry_value_bytes rest')
             else if wire_type = 1 then map_entry_value_bytes (drop 8 rest)
             else if wire_type = 5 then map_entry_value_bytes (drop 4 rest)
             else if wire_type \<noteq> 2 then None
             else case read_varint rest of
                 None \<Rightarrow> None
               | Some (len, rest') \<Rightarrow>
                   if len > length rest' then None
                   else if drop_bit 3 tag = 2 then Some (take len rest')
                   else map_entry_value_bytes (drop len rest')))"
  by pat_completeness auto
termination
  by (relation "measure length") (auto dest!: read_varint_shorter)

declare map_entry_value_bytes.simps [simp del]

definition timestamp_type :: string where
  "timestamp_type = ''google.protobuf.Timestamp''"

type_synonym decoder = "string option \<Rightarrow> byte list \<Rightarrow> proto_field list option"

text \<open>The decoder of the next level down is an argument.\<close>

definition decode_map_entry :: "decoder \<Rightarrow> byte list \<Rightarrow> string option \<Rightarrow> proto_value option" where
  "decode_map_entry dec bs value_type =
     (case dec None bs of
        None \<Rightarrow> None
      | Some fs \<Rightarrow>
          (case map_option field_value (field_with 1 fs) of
             Some (Text key) \<Rightarrow>
               (let value_field = field_with 2 fs;
                    value = (case value_field of Some f \<Rightarrow> field_value f | None \<Rightarrow> Bytes []);
                    typed = (case (value_type, value_field) of
                               (Some t, Some _) \<Rightarrow>
                                 (case map_entry_value_bytes bs of Some raw \<Rightarrow> dec (Some t) raw | None \<Rightarrow> None)
                             | _ \<Rightarrow> None)
                in Some (Map_Entry key (case typed of Some vs \<Rightarrow> Message vs | None \<Rightarrow> value)))
           | _ \<Rightarrow> None))"

definition nested_value :: "bool \<Rightarrow> proto_field list \<Rightarrow> proto_value" where
  "nested_value may_be_time fs =
     (case (if may_be_time then timestamp_value fs else None) of Some t \<Rightarrow> t | None \<Rightarrow> Message fs)"

text \<open>Without a word from the schema: message, text or bytes.\<close>

definition guess_value :: "decoder \<Rightarrow> byte list \<Rightarrow> proto_value" where
  "guess_value dec bs =
     (if bs = [] then Bytes bs
      else case dec None bs of
          Some nested \<Rightarrow>
            if is_weak_parse nested \<and> is_printable_ascii bs then Text (map unat bs)
            else nested_value True nested
        | None \<Rightarrow> (case decode_utf8_strict bs of Some text \<Rightarrow> Text text | None \<Rightarrow> Bytes bs))"

definition classify_length_delimited :: "decoder \<Rightarrow> field_def option \<Rightarrow> byte list \<Rightarrow> proto_value" where
  "classify_length_delimited dec fd bs =
     (case fd of
        None \<Rightarrow> guess_value dec bs
      | Some d \<Rightarrow>
          if fd_bytes d then Bytes bs
          else case (if fd_packed d then decode_packed_varints bs else None) of
              Some vs \<Rightarrow> Packed vs
            | None \<Rightarrow>
                (case (case fd_map d of Some vt \<Rightarrow> decode_map_entry dec bs vt | None \<Rightarrow> None) of
                   Some entry \<Rightarrow> entry
                 | None \<Rightarrow>
                     (case (case fd_message d of Some m \<Rightarrow> dec (Some m) bs | None \<Rightarrow> None) of
                        Some nested \<Rightarrow> nested_value (fd_message d = Some timestamp_type) nested
                      | None \<Rightarrow> guess_value dec bs)))"

section \<open>\<open>decodeProtobuf\<close>\<close>

definition wire_value :: "decoder \<Rightarrow> field_def option \<Rightarrow> wire \<Rightarrow> proto_value" where
  "wire_value dec fd w =
     (case w of
        W_Varint v \<Rightarrow>
          Varint v (case fd of Some d \<Rightarrow> (case fd_enum d v of Some [] \<Rightarrow> None | e \<Rightarrow> e) | None \<Rightarrow> None)
            (case fd of Some d \<Rightarrow> if fd_bool d then Some (v \<noteq> 0) else None | None \<Rightarrow> None)
      | W_Fixed64 v \<Rightarrow> Fixed64 v
      | W_Fixed32 v \<Rightarrow> Fixed32 v
      | W_Bytes bs \<Rightarrow> classify_length_delimited dec fd bs)"

definition wire_field :: "schemas \<Rightarrow> decoder \<Rightarrow> string option \<Rightarrow> nat \<times> wire \<Rightarrow> proto_field" where
  "wire_field sch dec ty r =
     (let (n, w) = r; fd = lookup_field sch ty n
      in Proto_Field n (map_option fd_name fd) (case fd of Some d \<Rightarrow> fd_repeated d | None \<Rightarrow> False) (wire_value dec fd w))"

definition max_depth :: nat where
  "max_depth = 12"

text \<open>The levels that are left: a message at depth \<open>d\<close> has \<open>max_depth + 1 - d\<close>.\<close>

primrec decode_level :: "schemas \<Rightarrow> nat \<Rightarrow> decoder" where
  "decode_level sch 0 = (\<lambda>ty bytes. None)"
| "decode_level sch (Suc levels) = (\<lambda>ty bytes.
     case wire_records 0 bytes of
       None \<Rightarrow> None
     | Some rs \<Rightarrow> if rs = [] then None else Some (map (wire_field sch (decode_level sch levels) ty) rs))"

definition decode_protobuf :: "schemas \<Rightarrow> nat \<Rightarrow> decoder" where
  "decode_protobuf sch depth = decode_level sch (Suc max_depth - depth)"

end
