(* ===== verification/Grpc_Safety.thy ===== *)
theory Grpc_Safety
  imports Grpc_Wire
begin

text \<open>
  What the decoder of captured gRPC bodies guarantees: it splits a body into exactly the frames it is made
  of, reads back what an encoder that follows the schema writes, and stays within its bounds on every
  sequence of bytes. The encoders here are the reference: the program only decodes.
\<close>

section \<open>Frames\<close>

definition be32 :: "nat \<Rightarrow> byte list" where
  "be32 n = [of_nat (n div 0x1000000), of_nat (n div 0x10000), of_nat (n div 0x100), of_nat n]"

definition encode_frame :: "grpc_frame \<Rightarrow> byte list" where
  "encode_frame f = (if compressed f then 1 else 0) # be32 (length (message f)) @ message f"

definition frame_fits :: "grpc_frame \<Rightarrow> bool" where
  "frame_fits f \<longleftrightarrow> length (message f) \<le> max_frame_length"

definition starts_with_frame :: "byte list \<Rightarrow> bool" where
  "starts_with_frame bs =
     (case bs of
        flag # a # b # c # d # rest \<Rightarrow>
          (flag = 0 \<or> flag = 1) \<and> read_uint32_be a b c d \<le> max_frame_length \<and> read_uint32_be a b c d \<le> length rest
      | _ \<Rightarrow> False)"

lemma byte_unat_bound [simp]: "unat (b :: byte) < 256"
  using unsigned_less [of b] by simp

lemma unat_of_nat_byte: "unat (of_nat n :: byte) = n mod 256"
  by (simp add: unat_of_nat)

lemma div_powers_256:
  "n div 0x10000 = n div 256 div 256" "n div 0x1000000 = n div 256 div 256 div (256 :: nat)"
  by (simp_all flip: div_mult2_eq)

lemma read_uint32_be_eq: "read_uint32_be a b c d = ((unat a * 256 + unat b) * 256 + unat c) * 256 + unat d"
  by (simp add: read_uint32_be_def)

lemma read_be32:
  assumes "n < 2 ^ 32" and "be32 n = [a, b, c, d]"
  shows "read_uint32_be a b c d = n"
proof -
  have "n div 256 div 256 div 256 < 256" using assms(1) by (simp flip: div_mult2_eq add: less_mult_imp_div_less)
  then have "unat a = n div 256 div 256 div 256" "unat b = n div 256 div 256 mod 256" "unat c = n div 256 mod 256" "unat d = n mod 256"
    using assms(2) by (auto simp: be32_def unat_of_nat_byte div_powers_256)
  then show ?thesis by (simp only: read_uint32_be_eq div_mult_mod_eq)
qed

lemma be32_read: "be32 (read_uint32_be a b c d) = [a, b, c, d]"
proof -
  have digit: "(x * 256 + unat e) div 256 = x" "(x * 256 + unat e) mod 256 = unat e" for x and e :: byte
    using byte_unat_bound [of e] by (simp_all del: byte_unat_bound)
  define n where "n = read_uint32_be a b c d"
  have n: "n = ((unat a * 256 + unat b) * 256 + unat c) * 256 + unat d" unfolding n_def by (rule read_uint32_be_eq)
  have "n mod 256 = unat d" "n div 256 mod 256 = unat c" "n div 256 div 256 mod 256 = unat b"
    "n div 256 div 256 div 256 mod 256 = unat a"
    unfolding n by (simp_all only: digit mod_less byte_unat_bound)
  then have "be32 n = [a, b, c, d]" by (simp add: be32_def word_unat_eq_iff unat_of_nat_byte div_powers_256)
  then show ?thesis by (simp only: n_def)
qed

lemma length_be32 [simp]: "length (be32 n) = 4"
  by (simp add: be32_def)

lemma be32_cases: obtains a b c d where "be32 n = [a, b, c, d]"
  by (simp add: be32_def)

lemma max_frame_small: "n \<le> max_frame_length \<Longrightarrow> n < 2 ^ 32"
  by (simp add: max_frame_length_def)

lemma split_frames_encoded:
  assumes "frame_fits f"
  shows "split_frames (encode_frame f @ rest) = (let (fs, left) = split_frames rest in (f # fs, left))"
proof -
  obtain a b c d where e: "be32 (length (message f)) = [a, b, c, d]" by (rule be32_cases)
  have len: "read_uint32_be a b c d = length (message f)"
    using read_be32 [OF max_frame_small e] assms by (simp add: frame_fits_def)
  show ?thesis
    using assms by (subst split_frames.simps) (simp add: encode_frame_def e len frame_fits_def Let_def split: prod.split)
qed

lemma starts_with_frame_iff: "starts_with_frame bs \<longleftrightarrow> (\<exists>f rest. frame_fits f \<and> bs = encode_frame f @ rest)"
proof
  assume "starts_with_frame bs"
  then obtain flag a b c d rest where bs: "bs = flag # a # b # c # d # rest" "flag = 0 \<or> flag = 1"
    "read_uint32_be a b c d \<le> max_frame_length" "read_uint32_be a b c d \<le> length rest"
    by (auto simp: starts_with_frame_def split: list.splits)
  let ?f = "\<lparr> compressed = (flag = 1), message = take (read_uint32_be a b c d) rest \<rparr>"
  have "frame_fits ?f" using bs by (simp add: frame_fits_def)
  moreover have "bs = encode_frame ?f @ drop (read_uint32_be a b c d) rest"
    using bs be32_read [of a b c d] by (auto simp: encode_frame_def min_def)
  ultimately show "\<exists>f rest. frame_fits f \<and> bs = encode_frame f @ rest" by blast
next
  assume "\<exists>f rest. frame_fits f \<and> bs = encode_frame f @ rest"
  then obtain f rest where bs: "frame_fits f" "bs = encode_frame f @ rest" by blast
  obtain a b c d where e: "be32 (length (message f)) = [a, b, c, d]" by (rule be32_cases)
  have "read_uint32_be a b c d = length (message f)"
    using read_be32 [OF max_frame_small e] bs(1) by (simp add: frame_fits_def)
  with bs e show "starts_with_frame bs" by (simp add: starts_with_frame_def encode_frame_def frame_fits_def)
qed

lemma split_frames_stop: "\<not> starts_with_frame bs \<Longrightarrow> split_frames bs = ([], bs)"
  by (subst split_frames.simps) (auto simp: starts_with_frame_def Let_def split: list.splits)

lemma split_frames_iff:
  "split_frames bs = (fs, left) \<longleftrightarrow>
     bs = concat (map encode_frame fs) @ left \<and> (\<forall>f \<in> set fs. frame_fits f) \<and> \<not> starts_with_frame left"
proof (induction "length bs" arbitrary: bs fs rule: less_induct)
  case less
  show ?case
  proof (cases "starts_with_frame bs")
    case False
    then have "split_frames bs = ([], bs)" by (rule split_frames_stop)
    moreover have "fs = []" if "bs = concat (map encode_frame fs) @ left" "\<forall>f \<in> set fs. frame_fits f"
      using that False starts_with_frame_iff [of bs] by (cases fs) auto
    ultimately show ?thesis using False by auto
  next
    case True
    then obtain f rest where f: "frame_fits f" "bs = encode_frame f @ rest" using starts_with_frame_iff by blast
    have IH: "split_frames rest = (gs, left) \<longleftrightarrow>
                rest = concat (map encode_frame gs) @ left \<and> (\<forall>f \<in> set gs. frame_fits f) \<and> \<not> starts_with_frame left" for gs
      using less [of rest gs] f(2) by (simp add: encode_frame_def)
    obtain gs l where g: "split_frames rest = (gs, l)" by (cases "split_frames rest") auto
    have here: "split_frames bs = (f # gs, l)" using split_frames_encoded [OF f(1), of rest] f(2) g by simp
    have same: "h = f \<and> t = rest" if "frame_fits h" "encode_frame h @ t = encode_frame f @ rest" for h t
    proof -
      from that(2) have "be32 (length (message h)) @ message h @ t = be32 (length (message f)) @ message f @ rest"
        and flag: "compressed h = compressed f" by (auto simp: encode_frame_def split: if_splits)
      then have b: "be32 (length (message h)) = be32 (length (message f))" and m: "message h @ t = message f @ rest"
        by (metis append_eq_append_conv length_be32)+
      obtain a b' c d where e: "be32 (length (message f)) = [a, b', c, d]" by (rule be32_cases)
      have "length (message h) = length (message f)"
        using read_be32 [OF max_frame_small e] read_be32 [OF max_frame_small, of "length (message h)" a b' c d] b e f(1) that(1)
        by (simp add: frame_fits_def)
      with m flag show ?thesis by simp
    qed
    show ?thesis
    proof
      assume "split_frames bs = (fs, left)"
      with here have fs: "fs = f # gs" "l = left" by auto
      with g IH [of gs] have "rest = concat (map encode_frame gs) @ left" "\<forall>f \<in> set gs. frame_fits f" "\<not> starts_with_frame left"
        by auto
      with fs f show "bs = concat (map encode_frame fs) @ left \<and> (\<forall>f \<in> set fs. frame_fits f) \<and> \<not> starts_with_frame left"
        by auto
    next
      assume r: "bs = concat (map encode_frame fs) @ left \<and> (\<forall>f \<in> set fs. frame_fits f) \<and> \<not> starts_with_frame left"
      with True obtain h hs where fs: "fs = h # hs" by (cases fs) auto
      have "encode_frame h @ concat (map encode_frame hs) @ left = encode_frame f @ rest"
        using r fs f(2) by (metis append_assoc concat.simps(2) list.map(2))
      with same [of h "concat (map encode_frame hs) @ left"] r fs
      have "h = f" "concat (map encode_frame hs) @ left = rest" by simp_all
      then have "split_frames rest = (hs, left)" using IH [of hs] r fs by simp
      with g here fs \<open>h = f\<close> show "split_frames bs = (fs, left)" by simp
    qed
  qed
qed

section \<open>Varints\<close>

fun varint_bytes :: "nat \<Rightarrow> byte list" where
  "varint_bytes v = (if v < 128 then [of_nat v] else of_nat (128 + v mod 128) # varint_bytes (v div 128))"

declare varint_bytes.simps [simp del]

lemma low_bits: "unat (of_nat n AND 0x7F :: byte) = n mod 128"
proof -
  have "(of_nat n AND 0x7F :: byte) = take_bit 7 (of_nat n)" by (simp add: take_bit_eq_mask mask_eq_exp_minus_1)
  then have "unat (of_nat n AND 0x7F :: byte) = take_bit 7 (unat (of_nat n :: byte))" by (simp add: unsigned_take_bit_eq)
  also have "\<dots> = n mod 128" by (simp add: unat_of_nat_byte take_bit_eq_mod mod_mod_cancel)
  finally show ?thesis .
qed

lemma high_bit: "(of_nat n AND 0x80 :: byte) = 0 \<longleftrightarrow> n mod 256 < 128"
proof -
  have "(of_nat n AND 0x80 :: byte) = 0 \<longleftrightarrow> \<not> bit (of_nat n :: byte) 7"
    using and_exp_eq_0_iff_not_bit [of "of_nat n :: byte" 7] by simp
  also have "\<dots> \<longleftrightarrow> \<not> bit (unat (of_nat n :: byte)) 7" by (simp add: bit_unsigned_iff)
  also have "\<dots> \<longleftrightarrow> n mod 256 div 128 mod 2 = 0" by (simp add: unat_of_nat_byte bit_iff_odd even_iff_mod_2_eq_zero)
  also have "\<dots> \<longleftrightarrow> n mod 256 < 128"
  proof -
    have "n mod 256 div 128 < 2" by (simp add: less_mult_imp_div_less)
    then show ?thesis by (auto simp: div_eq_0_iff)
  qed
  finally show ?thesis .
qed

lemma join_bits: "push_bit s (v mod 128) OR push_bit (s + 7) (v div 128) = push_bit s (v :: nat)"
proof -
  have "v mod 128 = take_bit 7 v" "v div 128 = drop_bit 7 v" by (simp_all add: take_bit_eq_mod drop_bit_eq_div)
  then show ?thesis by (auto simp: bit_eq_iff bit_simps)
qed

lemma read_varint_from_bytes:
  "0 < k \<Longrightarrow> v < 2 ^ (7 * k) \<Longrightarrow>
     read_varint_from k r s (varint_bytes v @ rest) = Some (r OR push_bit s v, rest)"
proof (induction k arbitrary: r s v)
  case (Suc k)
  show ?case
  proof (cases "v < 128")
    case True
    then show ?thesis by (subst varint_bytes.simps) (simp add: low_bits high_bit)
  next
    case False
    then have k: "0 < k" using Suc.prems(2) by (cases k) auto
    have "v div 128 < 2 ^ (7 * k)" using Suc.prems(2) by (simp add: less_mult_imp_div_less power_add mult.commute)
    note IH = Suc.IH [OF k this]
    have "(128 + v mod 128) mod 256 = 128 + v mod 128" "(128 + v mod 128) mod 128 = v mod 128" by simp_all
    then show ?thesis
      using False IH by (subst varint_bytes.simps) (simp add: low_bits high_bit or.assoc join_bits del: of_nat_add)
  qed
qed simp

lemma read_varint_bytes: "v < 2 ^ 70 \<Longrightarrow> read_varint (varint_bytes v @ rest) = Some (v, rest)"
  using read_varint_from_bytes [of 10 v 0 0 rest] by (simp add: read_varint_def)

lemma varint_bytes_nonempty [simp]: "varint_bytes v \<noteq> []"
  by (subst varint_bytes.simps) simp

section \<open>Records\<close>

fun le_bytes :: "nat \<Rightarrow> nat \<Rightarrow> byte list" where
  "le_bytes 0 v = []"
| "le_bytes (Suc n) v = of_nat v # le_bytes n (v div 256)"

lemma le_bytes_numeral: "le_bytes (numeral k) v = of_nat v # le_bytes (pred_numeral k) (v div 256)"
  by (simp only: numeral_eq_Suc [of k] le_bytes.simps)

lemma length_le_bytes [simp]: "length (le_bytes n v) = n"
  by (induction n arbitrary: v) auto

lemma little_endian_le_bytes: "v < 256 ^ n \<Longrightarrow> little_endian (le_bytes n v) = v"
proof (induction n arbitrary: v)
  case (Suc n)
  then have "v div 256 < 256 ^ n" by (simp add: less_mult_imp_div_less mult.commute)
  then show ?case using Suc.IH [of "v div 256"] by (simp add: unat_of_nat_byte)
qed simp

fun wire_type :: "wire \<Rightarrow> nat" where
  "wire_type (W_Varint v) = 0"
| "wire_type (W_Fixed64 v) = 1"
| "wire_type (W_Bytes b) = 2"
| "wire_type (W_Fixed32 v) = 5"

fun payload_bytes :: "wire \<Rightarrow> byte list" where
  "payload_bytes (W_Varint v) = varint_bytes v"
| "payload_bytes (W_Fixed64 v) = le_bytes 8 v"
| "payload_bytes (W_Bytes b) = varint_bytes (length b) @ b"
| "payload_bytes (W_Fixed32 v) = le_bytes 4 v"

fun wire_in_range :: "wire \<Rightarrow> bool" where
  "wire_in_range (W_Varint v) = (v < 2 ^ 70)"
| "wire_in_range (W_Fixed64 v) = (v < 2 ^ 64)"
| "wire_in_range (W_Bytes b) = (length b < 2 ^ 70)"
| "wire_in_range (W_Fixed32 v) = (v < 2 ^ 32)"

definition record_bytes :: "nat \<times> wire \<Rightarrow> byte list" where
  "record_bytes r = varint_bytes (8 * fst r + wire_type (snd r)) @ payload_bytes (snd r)"

definition record_ok :: "nat \<times> wire \<Rightarrow> bool" where
  "record_ok r \<longleftrightarrow> 1 \<le> fst r \<and> fst r \<le> 536870911 \<and> wire_in_range (snd r)"

lemma read_payload_bytes: "wire_in_range w \<Longrightarrow> read_payload (wire_type w) (payload_bytes w @ rest) = Some (w, rest)"
  by (cases w) (simp_all add: read_payload_def read_varint_bytes little_endian_le_bytes)

lemma tag_parts: "t < 8 \<Longrightarrow> drop_bit 3 (8 * n + t) = n \<and> (8 * n + t) AND 7 = (t :: nat)"
proof -
  assume "t < 8"
  have "(8 * n + t) AND 7 = take_bit 3 (8 * n + t)" by (simp add: take_bit_eq_mask mask_eq_exp_minus_1)
  with \<open>t < 8\<close> show ?thesis by (simp add: drop_bit_eq_div take_bit_eq_mod)
qed

lemma wire_type_small: "wire_type w < 8"
  by (cases w) simp_all

lemma wire_records_bytes:
  "\<forall>r \<in> set rs. record_ok r \<Longrightarrow> n + length rs \<le> max_fields \<Longrightarrow> wire_records n (concat (map record_bytes rs)) = Some rs"
proof (induction rs arbitrary: n)
  case Nil
  show ?case by (subst wire_records.simps) simp
next
  case (Cons r rs)
  obtain m w where r: "r = (m, w)" by (cases r)
  let ?tag = "8 * m + wire_type w"
  have ok: "1 \<le> m" "m \<le> 536870911" "wire_in_range w" using Cons.prems(1) r by (auto simp: record_ok_def)
  have "?tag < 2 ^ 70" using ok(2) wire_type_small [of w] by simp
  then have tag: "read_varint (concat (map record_bytes (r # rs))) = Some (?tag, payload_bytes w @ concat (map record_bytes rs))"
    by (simp add: r record_bytes_def read_varint_bytes)
  have parts: "drop_bit 3 ?tag = m" "?tag AND 7 = wire_type w" using tag_parts [OF wire_type_small] by blast+
  have rest: "wire_records (Suc n) (concat (map record_bytes rs)) = Some rs" using Cons by simp
  have ne: "concat (map record_bytes (r # rs)) \<noteq> []" by (simp add: r record_bytes_def)
  have "\<not> max_fields \<le> n" using Cons.prems(2) by simp
  then show ?case
    using ok ne by (subst wire_records.simps) (simp only: tag parts Let_def option.case prod.case read_payload_bytes [OF ok(3)] rest, simp add: r)
qed

lemma packed_varints_bytes:
  "\<forall>v \<in> set vs. v < 2 ^ 70 \<Longrightarrow> n + length vs \<le> max_fields \<Longrightarrow>
     packed_varints n (concat (map varint_bytes vs)) = Some vs"
proof (induction vs arbitrary: n)
  case Nil
  show ?case by (subst packed_varints.simps) simp
next
  case (Cons v vs)
  then have "packed_varints (Suc n) (concat (map varint_bytes vs)) = Some vs" by simp
  with Cons.prems show ?case by (subst packed_varints.simps) (simp add: read_varint_bytes)
qed

section \<open>Messages that follow a schema\<close>

text \<open>
  A message as its sender writes it. Strings are left out: the decoder has to guess them, and a short text
  can read as a message.
\<close>

datatype tree =
    T_Varint nat | T_Fixed64 nat | T_Fixed32 nat | T_Bytes "byte list" | T_Packed "nat list" | T_Message "(nat \<times> tree) list"

fun tree_wire :: "tree \<Rightarrow> wire" where
  "tree_wire (T_Varint v) = W_Varint v"
| "tree_wire (T_Fixed64 v) = W_Fixed64 v"
| "tree_wire (T_Fixed32 v) = W_Fixed32 v"
| "tree_wire (T_Bytes b) = W_Bytes b"
| "tree_wire (T_Packed vs) = W_Bytes (concat (map varint_bytes vs))"
| "tree_wire (T_Message fs) = W_Bytes (concat (map record_bytes (map (\<lambda>(n, t). (n, tree_wire t)) fs)))"

definition message_bytes :: "(nat \<times> tree) list \<Rightarrow> byte list" where
  "message_bytes fs = concat (map record_bytes (map (\<lambda>(n, t). (n, tree_wire t)) fs))"

definition number_ok :: "nat \<Rightarrow> bool" where
  "number_ok n \<longleftrightarrow> 1 \<le> n \<and> n \<le> 536870911"

fun follows :: "schemas \<Rightarrow> nat \<Rightarrow> field_def option \<Rightarrow> tree \<Rightarrow> bool" where
  "follows sch levels fd (T_Varint v) = (v < 2 ^ 70)"
| "follows sch levels fd (T_Fixed64 v) = (v < 2 ^ 64)"
| "follows sch levels fd (T_Fixed32 v) = (v < 2 ^ 32)"
| "follows sch levels fd (T_Bytes b) = (length b < 2 ^ 70 \<and> (case fd of Some d \<Rightarrow> fd_bytes d | None \<Rightarrow> False))"
| "follows sch levels fd (T_Packed vs) =
     (vs \<noteq> [] \<and> length vs \<le> max_fields \<and> (\<forall>v \<in> set vs. v < 2 ^ 70) \<and> length (concat (map varint_bytes vs)) < 2 ^ 70 \<and>
      (case fd of Some d \<Rightarrow> fd_packed d \<and> \<not> fd_bytes d | None \<Rightarrow> False))"
| "follows sch 0 fd (T_Message fs) = False"
| "follows sch (Suc levels) fd (T_Message fs) =
     (fs \<noteq> [] \<and> length fs \<le> max_fields \<and> length (message_bytes fs) < 2 ^ 70 \<and>
      (case fd of
         Some d \<Rightarrow> \<not> fd_bytes d \<and> \<not> fd_packed d \<and> fd_map d = None \<and> fd_message d \<noteq> Some timestamp_type \<and> fd_message d \<noteq> None \<and>
           (\<forall>(n, t) \<in> set fs. number_ok n \<and> follows sch levels (lookup_field sch (fd_message d) n) t)
       | None \<Rightarrow> False))"

definition shown_label :: "field_def option \<Rightarrow> nat \<Rightarrow> proto_value \<Rightarrow> proto_field" where
  "shown_label fd n v = Proto_Field n (map_option fd_name fd) (case fd of Some d \<Rightarrow> fd_repeated d | None \<Rightarrow> False) v"

definition shown_varint :: "field_def option \<Rightarrow> nat \<Rightarrow> proto_value" where
  "shown_varint fd v =
     (case fd of
        None \<Rightarrow> Varint v None None
      | Some d \<Rightarrow> Varint v (if fd_enum d v = Some [] then None else fd_enum d v) (if fd_bool d then Some (v \<noteq> 0) else None))"

fun shown :: "schemas \<Rightarrow> field_def option \<Rightarrow> tree \<Rightarrow> proto_value" where
  "shown sch fd (T_Varint v) = shown_varint fd v"
| "shown sch fd (T_Fixed64 v) = Fixed64 v"
| "shown sch fd (T_Fixed32 v) = Fixed32 v"
| "shown sch fd (T_Bytes b) = Bytes b"
| "shown sch fd (T_Packed vs) = Packed vs"
| "shown sch fd (T_Message fs) =
     Message (map (\<lambda>(n, t). let fd' = lookup_field sch (case fd of Some d \<Rightarrow> fd_message d | None \<Rightarrow> None) n
                           in shown_label fd' n (shown sch fd' t)) fs)"

definition message_follows :: "schemas \<Rightarrow> string option \<Rightarrow> (nat \<times> tree) list \<Rightarrow> bool" where
  "message_follows sch ty fs \<longleftrightarrow>
     fs \<noteq> [] \<and> length fs \<le> max_fields \<and> (\<forall>(n, t) \<in> set fs. number_ok n \<and> follows sch max_depth (lookup_field sch ty n) t)"

definition message_fields :: "schemas \<Rightarrow> string option \<Rightarrow> (nat \<times> tree) list \<Rightarrow> proto_field list" where
  "message_fields sch ty fs = map (\<lambda>(n, t). let fd = lookup_field sch ty n in shown_label fd n (shown sch fd t)) fs"

lemma decode_level_message:
  assumes "fs \<noteq> []" and "length fs \<le> max_fields"
    and "\<forall>(n, t) \<in> set fs. number_ok n \<and> wire_in_range (tree_wire t) \<and>
           wire_value (decode_level sch levels) (lookup_field sch ty n) (tree_wire t) = shown sch (lookup_field sch ty n) t"
  shows "decode_level sch (Suc levels) ty (message_bytes fs) = Some (message_fields sch ty fs)"
proof -
  let ?rs = "map (\<lambda>(n, t). (n, tree_wire t)) fs"
  have "\<forall>r \<in> set ?rs. record_ok r" using assms(3) by (auto simp: record_ok_def number_ok_def)
  then have "wire_records 0 (message_bytes fs) = Some ?rs"
    unfolding message_bytes_def by (rule wire_records_bytes) (simp add: assms(2))
  moreover have "map (wire_field sch (decode_level sch levels) ty) ?rs = message_fields sch ty fs"
    using assms(3) by (auto simp: message_fields_def wire_field_def shown_label_def Let_def)
  ultimately show ?thesis using assms(1) by simp
qed

lemma wire_value_tree:
  "follows sch levels fd t \<Longrightarrow>
     wire_in_range (tree_wire t) \<and> wire_value (decode_level sch levels) fd (tree_wire t) = shown sch fd t"
proof (induction t arbitrary: levels fd)
  case (T_Varint v)
  then show ?case by (auto simp: wire_value_def shown_varint_def split: option.splits list.splits)
next
  case (T_Bytes b)
  then show ?case by (auto simp: wire_value_def classify_length_delimited_def split: option.splits)
next
  case (T_Packed vs)
  then have "decode_packed_varints (concat (map varint_bytes vs)) = Some vs"
    using packed_varints_bytes [of vs 0] by (auto simp: decode_packed_varints_def split: option.splits list.splits)
  with T_Packed show ?case by (auto simp: wire_value_def classify_length_delimited_def split: option.splits)
next
  case (T_Message fs)
  then obtain l d where l: "levels = Suc l" and d: "fd = Some d" "\<not> fd_bytes d" "\<not> fd_packed d" "fd_map d = None"
    "fd_message d \<noteq> Some timestamp_type" "fd_message d \<noteq> None"
    and fs: "fs \<noteq> []" "length fs \<le> max_fields" "length (message_bytes fs) < 2 ^ 70"
      "\<forall>(n, t) \<in> set fs. number_ok n \<and> follows sch l (lookup_field sch (fd_message d) n) t"
    by (cases levels) (auto split: option.splits)
  obtain m where m: "fd_message d = Some m" using d(6) by auto
  have "\<forall>(n, t) \<in> set fs. number_ok n \<and> wire_in_range (tree_wire t) \<and>
          wire_value (decode_level sch l) (lookup_field sch (Some m) n) (tree_wire t) = shown sch (lookup_field sch (Some m) n) t"
    using fs(4) T_Message.IH m by fastforce
  from decode_level_message [OF fs(1,2) this]
  have "classify_length_delimited (decode_level sch levels) fd (message_bytes fs) = Message (message_fields sch (Some m) fs)"
    using d m by (simp add: l classify_length_delimited_def nested_value_def)
  moreover have "tree_wire (T_Message fs) = W_Bytes (message_bytes fs)" by (simp add: message_bytes_def)
  moreover have "shown sch fd (T_Message fs) = Message (message_fields sch (Some m) fs)" using d(1) m by (simp add: message_fields_def)
  ultimately show ?case using fs(3) by (simp add: wire_value_def del: tree_wire.simps shown.simps)
qed (simp_all add: wire_value_def)

lemma decode_protobuf_spec:
  assumes "message_follows sch ty fs"
  shows "decode_protobuf sch 0 ty (message_bytes fs) = Some (message_fields sch ty fs)"
proof -
  have "\<forall>(n, t) \<in> set fs. number_ok n \<and> wire_in_range (tree_wire t) \<and>
          wire_value (decode_level sch max_depth) (lookup_field sch ty n) (tree_wire t) = shown sch (lookup_field sch ty n) t"
    using assms wire_value_tree by (auto simp: message_follows_def)
  then show ?thesis
    using assms decode_level_message [of fs sch max_depth ty] by (simp add: decode_protobuf_def message_follows_def)
qed

section \<open>Bounds\<close>

fun within :: "nat \<Rightarrow> proto_value \<Rightarrow> bool" and within_field :: "nat \<Rightarrow> proto_field \<Rightarrow> bool" where
  "within 0 (Message fs) = False"
| "within (Suc l) (Message fs) = (fs \<noteq> [] \<and> length fs \<le> max_fields \<and> (\<forall>f \<in> set fs. within_field l f))"
| "within l (Map_Entry k v) = within l v"
| "within l (Packed vs) = (length vs \<le> max_fields)"
| "within l _ = True"
| "within_field l (Proto_Field n nm rep v) = within l v"

lemma within_Suc: "within l v \<Longrightarrow> within (Suc l) v" and within_field_Suc: "within_field l f \<Longrightarrow> within_field (Suc l) f"
  by (induction l v and l f rule: within_within_field.induct) auto

lemma wire_records_length: "wire_records n bs = Some rs \<Longrightarrow> n \<le> max_fields \<Longrightarrow> n + length rs \<le> max_fields"
proof (induction n bs arbitrary: rs rule: wire_records.induct)
  case (1 n bs)
  show ?case
  proof (cases "bs = []")
    case True
    with "1.prems" show ?thesis by (simp add: wire_records.simps)
  next
    case False
    with "1.prems" obtain tag rest w rest' rs' where
      "\<not> n \<ge> max_fields" "read_varint bs = Some (tag, rest)" "read_payload (tag AND 7) rest = Some (w, rest')"
      "drop_bit 3 tag \<noteq> 0" "\<not> drop_bit 3 tag > 536870911" "wire_records (Suc n) rest' = Some rs'" "rs = (drop_bit 3 tag, w) # rs'"
      by (subst (asm) wire_records.simps) (auto split: if_splits option.splits prod.splits simp: Let_def)
    with "1.IH" [of "(tag, rest)" tag rest "drop_bit 3 tag" "(w, rest')" w rest' rs'] False show ?thesis by simp
  qed
qed

lemma packed_varints_length: "packed_varints n bs = Some vs \<Longrightarrow> n \<le> max_fields \<Longrightarrow> n + length vs \<le> max_fields"
proof (induction n bs arbitrary: vs rule: packed_varints.induct)
  case (1 n bs)
  show ?case
  proof (cases "bs = []")
    case True
    with "1.prems" show ?thesis by (simp add: packed_varints.simps)
  next
    case False
    with "1.prems" obtain v rest vs' where "read_varint bs = Some (v, rest)" "\<not> Suc n > max_fields"
      "packed_varints (Suc n) rest = Some vs'" "vs = v # vs'"
      by (subst (asm) packed_varints.simps) (auto split: if_splits option.splits prod.splits)
    with "1.IH" [of "(v, rest)" v rest vs'] False show ?thesis by simp
  qed
qed

lemma decode_level_within:
  "decode_level sch l ty bs = Some fs \<Longrightarrow> within l (Message fs)"
proof (induction l arbitrary: ty bs fs)
  case (Suc l)
  let ?dec = "decode_level sch l"
  have nested: "within l (nested_value b fs)" if "?dec t x = Some fs" for b t x fs
    using Suc.IH [OF that] by (auto simp: nested_value_def timestamp_value_def Let_def split: option.splits proto_value.splits if_splits)
  have guess: "within l (guess_value ?dec x)" for x
    using nested by (auto simp: guess_value_def split: option.splits)
  have value_within: "within l (field_value f)" if "within l (Message fs)" "field_with n fs = Some f" for f fs n
  proof -
    note m = that
    obtain k where l: "l = Suc k" using m(1) by (cases l) auto
    have "f \<in> set fs" using m(2) by (auto simp: field_with_def find_Some_iff)
    with m(1) l have "within_field k f" by simp
    then have "within_field l f" unfolding l by (rule within_field_Suc)
    then show ?thesis by (cases f) simp
  qed
  have entry: "within l e" if "decode_map_entry ?dec x t = Some e" for x t e
  proof -
    note e = that
    obtain fs where fs1: "?dec None x = Some fs"
      using e by (cases "?dec None x") (auto simp: decode_map_entry_def)
    obtain ky where ky: "map_option field_value (field_with 1 fs) = Some (Text ky)"
      using e fs1 by (simp add: decode_map_entry_def del: One_nat_def split: option.splits proto_value.splits)
    note fs = fs1 ky
    define val where "val = (case field_with 2 fs of Some f \<Rightarrow> field_value f | None \<Rightarrow> Bytes [])"
    have "within l val"
      using value_within [OF Suc.IH [OF fs(1)], of 2] by (auto simp: val_def split: option.splits)
    moreover have "e = Map_Entry ky val \<or> (\<exists>t' raw vs. ?dec t' raw = Some vs \<and> e = Map_Entry ky (Message vs))"
      using e fs by (auto simp: decode_map_entry_def val_def Let_def split: option.splits)
    ultimately show ?thesis using Suc.IH by auto
  qed
  have packed: "length vs \<le> max_fields" if "decode_packed_varints x = Some vs" for x vs
    using that packed_varints_length [of 0 x vs] by (auto simp: decode_packed_varints_def split: option.splits list.splits)
  have val: "within l (wire_value ?dec fd w)" for fd w
    using nested guess entry packed
    by (auto simp: wire_value_def classify_length_delimited_def split: wire.splits option.splits if_splits)
  from Suc.prems obtain rs where rs: "wire_records 0 bs = Some rs" "rs \<noteq> []" "fs = map (wire_field sch ?dec ty) rs"
    by (auto split: option.splits if_splits)
  have "within_field l f" if "f \<in> set fs" for f
    using that rs(3) val by (auto simp: wire_field_def Let_def)
  moreover have "length fs \<le> max_fields" using wire_records_length [OF rs(1)] rs(3) by simp
  ultimately show ?case using rs by simp
qed simp

section \<open>The properties\<close>

text \<open>
  C24. A body is split into exactly the frames it is made of: decoding returns the frames \<open>fs\<close> and \<open>n\<close> trailing
  bytes precisely when the body is the encoding of \<open>fs\<close> (at least one, each within the length limit)
  followed by \<open>n\<close> bytes that do not begin with another complete frame. So no frame is lost, invented or
  read past its end, and a truncated tail is reported with the length it declares.
\<close>
theorem frames_are_the_body:
  "decode_grpc_frames bytes = Some r \<longleftrightarrow>
     (\<exists>left. bytes = concat (map encode_frame (frames r)) @ left \<and> frames r \<noteq> [] \<and> list_all frame_fits (frames r) \<and>
        \<not> starts_with_frame left \<and>
        r = \<lparr> frames = frames r, trailing_bytes = length left, truncated_frame_length = declared_length left \<rparr>)"
proof -
  obtain fs left where s: "split_frames bytes = (fs, left)" by (cases "split_frames bytes")
  have body: "bytes = concat (map encode_frame gs) @ l \<and> list_all frame_fits gs \<and> \<not> starts_with_frame l \<longleftrightarrow> gs = fs \<and> l = left"
    for gs l
    using split_frames_iff [of bytes gs l] s by (auto simp: list_all_iff)
  have "decode_grpc_frames bytes = Some r \<longleftrightarrow>
          fs \<noteq> [] \<and> r = \<lparr> frames = fs, trailing_bytes = length left, truncated_frame_length = declared_length left \<rparr>"
    by (auto simp: decode_grpc_frames_def s)
  also have "\<dots> \<longleftrightarrow> frames r = fs \<and> frames r \<noteq> [] \<and>
          r = \<lparr> frames = frames r, trailing_bytes = length left, truncated_frame_length = declared_length left \<rparr>"
    by (metis grpc_framing.select_convs(1))
  finally show ?thesis using body [of "frames r"] by blast
qed


lemma follows_numeral:
  "follows sch (numeral k) fd (T_Message fs) \<longleftrightarrow>
     fs \<noteq> [] \<and> length fs \<le> max_fields \<and> length (message_bytes fs) < 2 ^ 70 \<and>
      (case fd of
         Some d \<Rightarrow> \<not> fd_bytes d \<and> \<not> fd_packed d \<and> fd_map d = None \<and> fd_message d \<noteq> Some timestamp_type \<and> fd_message d \<noteq> None \<and>
           (\<forall>(n, t) \<in> set fs. number_ok n \<and> follows sch (pred_numeral k) (lookup_field sch (fd_message d) n) t)
       | None \<Rightarrow> False)"
  by (simp only: numeral_eq_Suc [of k] follows.simps)

definition demo_field :: "string \<Rightarrow> field_def" where
  "demo_field n = \<lparr> fd_name = n, fd_message = None, fd_enum = (\<lambda>_. None), fd_bytes = False, fd_packed = False, fd_map = None,
                   fd_bool = False, fd_repeated = False \<rparr>"

definition demo_schema :: schemas where
  "demo_schema = (\<lambda>t. if t = ''TargetChange'' then
      Some (\<lambda>n. if n = 2 then Some ((demo_field ''target_ids'')\<lparr> fd_packed := True \<rparr>)
               else if n = 3 then Some ((demo_field ''cause'')\<lparr> fd_message := Some ''Status'' \<rparr>)
               else if n = 4 then Some ((demo_field ''resume_token'')\<lparr> fd_bytes := True \<rparr>) else None)
    else if t = ''Status'' then Some (\<lambda>n. if n = 1 then Some ((demo_field ''code'')\<lparr> fd_enum := (\<lambda>v. if v = 5 then Some ''NOT_FOUND'' else None) \<rparr>) else None)
    else None)"

definition demo_message :: "(nat \<times> tree) list" where
  "demo_message = [(2, T_Packed [300]), (3, T_Message [(1, T_Varint 5)]), (4, T_Bytes [8, 1]), (9, T_Fixed32 7)]"




text \<open>
  A message of a number that could be a time and one other field is shown as that time, whatever the other
  field is: its value is not shown at all.
\<close>
lemma timestamp_hides_other_field:
  "timestamp_value [Proto_Field 1 None False (Varint 1781090975 None None), Proto_Field 3 None False v] = Some (Timestamp 1781090975000)"
  by (simp add: timestamp_value_def field_with_def)

end
