(* ===== verification/Worker_File.thy ===== *)
theory Worker_File
  imports Dispatch_Wave
begin

text \<open>
  A worker's side of one test file (\<open>worker-runner.ts\<close>, the message helpers of \<open>worker-protocol.ts\<close>): the file
  is run, and run once more after the group's devices are recovered when the first run met an
  infrastructure error; what the reporter hears and the final message go to the dispatcher. The runs of
  the file and the recovery are arguments: what each reports and how it ends.
\<close>

section \<open>Infrastructure errors\<close>

definition recoverable_infrastructure_patterns :: "string list" where
  "recoverable_infrastructure_patterns =
     [''Agent command timed out'', ''Agent returned empty response'', ''Agent connection dropped'',
      ''Agent connection lost'', ''Not connected to agent'', ''Timed out connecting to agent socket'',
      ''Failed to connect to agent socket'', ''Failed to reconnect to agent'', ''Agent socket not reachable'',
      ''Unable to lookup in current state'', ''server died'', ''xcodebuild exited with'', ''4 DEADLINE_EXCEEDED'',
      ''14 UNAVAILABLE'', ''No connection established'', ''ECONNREFUSED'', ''session recovered during before test'',
      ''Network capture disabled'']"

definition deterministic_capture_refusals :: "string list" where
  "deterministic_capture_refusals =
     [''so it is only used on CI'', ''it is refused for multi-device runs'', ''already routes the macOS system proxy'',
      ''Tapsmith will not overwrite it'']"

definition is_recoverable_infrastructure_error :: "string \<Rightarrow> bool" where
  "is_recoverable_infrastructure_error msg =
     (let refused = list_ex (includes_str msg) deterministic_capture_refusals in
      list_ex (\<lambda>p. includes_str msg p \<and> \<not> (refused \<and> p = ''Network capture disabled'')) recoverable_infrastructure_patterns)"

section \<open>Results over the channel\<close>

text \<open>An error crosses as its message: it is an ordinary error on the other side.\<close>

definition plain_error :: "run_error \<Rightarrow> run_error" where
  "plain_error e = \<lparr> err_kind = Ordinary_Error, err_message = err_message e \<rparr>"

definition some_warnings :: "string list option \<Rightarrow> string list option" where
  "some_warnings ws = (case ws of Some (w # rest) \<Rightarrow> ws | _ \<Rightarrow> None)"

definition serialize_test_result :: "nat \<Rightarrow> test_result \<Rightarrow> reported" where
  "serialize_test_result worker r =
     \<lparr> rep_result = r\<lparr> res_error := map_option plain_error (res_error r),
                       res_first_error := map_option plain_error (res_first_error r),
                       res_warnings := some_warnings (res_warnings r) \<rparr>,
       rep_worker = Some worker \<rparr>"

fun serialize_suite_result :: "nat \<Rightarrow> suite_result \<Rightarrow> reported_suite"
  and serialize_suites :: "nat \<Rightarrow> suite_result list \<Rightarrow> reported_suite list" where
  "serialize_suite_result worker (Suite_Result name ts ss) =
     Reported_Suite name (map (serialize_test_result worker) ts) (serialize_suites worker ss)"
| "serialize_suites worker [] = []"
| "serialize_suites worker (s # ss) = serialize_suite_result worker s # serialize_suites worker ss"

definition deserialize_test_result :: "reported \<Rightarrow> reported" where
  "deserialize_test_result s =
     s\<lparr> rep_result := (rep_result s)\<lparr> res_error := map_option plain_error (res_error (rep_result s)),
                       res_first_error := map_option plain_error (res_first_error (rep_result s)),
                       res_warnings := some_warnings (res_warnings (rep_result s)) \<rparr> \<rparr>"

fun deserialize_suite_result :: "reported_suite \<Rightarrow> reported_suite"
  and deserialize_suites :: "reported_suite list \<Rightarrow> reported_suite list" where
  "deserialize_suite_result (Reported_Suite name ts ss) =
     Reported_Suite name (map deserialize_test_result ts) (deserialize_suites ss)"
| "deserialize_suites [] = []"
| "deserialize_suites (s # ss) = deserialize_suite_result s # deserialize_suites ss"

section \<open>\<open>runFileWithRecovery\<close>\<close>

text \<open>What a run of the file tells the reporter, and its suite or the message of what it threw.\<close>

datatype report = Test_Starts string | Test_Ends test_result

record file_attempt =
  attempt_reports :: "report list"
  attempt_outcome :: "string + suite_result"

record worker_env =
  attempt_of :: "nat \<Rightarrow> file_attempt"
  recovery_of :: "string \<Rightarrow> string option" \<comment> \<open>the error the recovery throws, if it does\<close>

fun find_recoverable_infrastructure_failure :: "test_result list \<Rightarrow> string option" where
  "find_recoverable_infrastructure_failure [] = None"
| "find_recoverable_infrastructure_failure (r # rs) =
     (case (res_status r, res_error r) of
        (Failed, Some e) \<Rightarrow>
          if is_recoverable_infrastructure_error (err_message e) then Some (res_full_name r @ '': '' @ err_message e)
          else find_recoverable_infrastructure_failure rs
      | _ \<Rightarrow> find_recoverable_infrastructure_failure rs)"

fun report_message :: "nat \<Rightarrow> report \<Rightarrow> worker_message" where
  "report_message worker (Test_Starts name) = Msg_Test_Start name"
| "report_message worker (Test_Ends r) = Msg_Test_End (serialize_test_result worker r)"

text \<open>One pass through the loop: the result or the error it ends with, or the error that makes it try again
  with the suite of the discarded run.\<close>

datatype pass = Returns suite_result | Throws string | Retries string "suite_result option"

definition attempt_pass :: "nat \<Rightarrow> suite_result option \<Rightarrow> string + suite_result \<Rightarrow> pass" where
  "attempt_pass attempt first_suite outcome =
     (case outcome of
        Inr suite \<Rightarrow>
          (case find_recoverable_infrastructure_failure (collect_results suite) of
             None \<Rightarrow> Returns (case first_suite of
                               Some first \<Rightarrow> if attempt = 2 then mark_file_retry_flakes first suite else suite
                             | None \<Rightarrow> suite)
           | Some failure \<Rightarrow> if attempt = 2 then Throws failure else Retries failure (Some suite))
      | Inl err \<Rightarrow>
          if \<not> is_recoverable_infrastructure_error err \<or> attempt = 2 then Throws err else Retries err None)"

text \<open>The passes from an attempt on; the number of those left is the fuel of the counting loop.\<close>

fun recovery_loop ::
  "worker_env \<Rightarrow> nat \<Rightarrow> string \<Rightarrow> nat \<Rightarrow> nat \<Rightarrow> suite_result option \<Rightarrow> worker_message list \<times> (string + suite_result)" where
  "recovery_loop env worker path 0 attempt first_suite = ([], Inl ''exhausted recovery attempts'')"
| "recovery_loop env worker path (Suc left) attempt first_suite =
     (let a = attempt_of env attempt; told = map (report_message worker) (attempt_reports a) in
      case attempt_pass attempt first_suite (attempt_outcome a) of
        Returns suite \<Rightarrow> (told, Inr suite)
      | Throws err \<Rightarrow> (told, Inl err)
      | Retries err first' \<Rightarrow>
          (case recovery_of env err of
             Some failed \<Rightarrow> (told @ [Msg_File_Retry path], Inl failed)
           | None \<Rightarrow>
               (let (rest, res) = recovery_loop env worker path left (attempt + 1) first'
                in (told @ Msg_File_Retry path # rest, res))))"

definition run_file_with_recovery :: "worker_env \<Rightarrow> nat \<Rightarrow> string \<Rightarrow> worker_message list \<times> (string + suite_result)" where
  "run_file_with_recovery env worker path = recovery_loop env worker path 2 1 None"

text \<open>\<open>handleRunFile\<close> with the message handler around it, for a worker that is set up.\<close>

definition handle_run_file :: "worker_env \<Rightarrow> nat \<Rightarrow> string \<Rightarrow> worker_message list" where
  "handle_run_file env worker path =
     (let (told, res) = run_file_with_recovery env worker path in
      Msg_File_Start # told @
      (case res of
         Inr suite \<Rightarrow> [Msg_File_Done path (map (serialize_test_result worker) (collect_results suite)) (serialize_suite_result worker suite)]
       | Inl err \<Rightarrow> [Msg_Error err]))"

end
