(* ===== verification/Worker_Safety.thy ===== *)
theory Worker_Safety
  imports Worker_File Dispatch_Safety
begin

text \<open>
  A worker's file as its dispatcher sees it: results survive the channel, a file is reported done only when
  no infrastructure error is among its failures, retried at most once, and the messages are steps the
  dispatch of a wave is proved for.
\<close>

section \<open>Results over the channel\<close>

lemma plain_error_idem [simp]: "plain_error (plain_error e) = plain_error e"
  by (simp add: plain_error_def)

lemma some_warnings_idem [simp]: "some_warnings (some_warnings ws) = some_warnings ws"
  by (simp add: some_warnings_def split: option.splits list.splits)

lemma option_plain_error_idem [simp]: "map_option plain_error (map_option plain_error e) = map_option plain_error e"
  by (cases e) simp_all

lemma deserialize_serialize [simp]:
  "deserialize_test_result (serialize_test_result w r) = serialize_test_result w r"
  by (simp add: deserialize_test_result_def serialize_test_result_def)

lemma deserialize_serialize_suite:
  "deserialize_suite_result (serialize_suite_result w s) = serialize_suite_result w s"
  "deserialize_suites (serialize_suites w ss) = serialize_suites w ss"
  by (induction w s and w ss rule: serialize_suite_result_serialize_suites.induct) simp_all

fun flat_reported :: "reported_suite \<Rightarrow> reported list" and flat_all :: "reported_suite list \<Rightarrow> reported list" where
  "flat_reported (Reported_Suite n ts ss) = ts @ flat_all ss"
| "flat_all [] = []"
| "flat_all (s # ss) = flat_reported s @ flat_all ss"

lemma flat_serialize:
  "flat_reported (serialize_suite_result w s) = map (serialize_test_result w) (collect_results s)"
  "flat_all (serialize_suites w ss) = map (serialize_test_result w) (collect_all ss)"
  by (induction w s and w ss rule: serialize_suite_result_serialize_suites.induct) simp_all

section \<open>Flaky marks\<close>

lemma annotate_collect:
  "collect_results (annotate_suite es ws s) = map (annotate_result es ws) (collect_results s)"
  "collect_all (annotate_all es ws ss) = map (annotate_result es ws) (collect_all ss)"
  by (induction es ws s and es ws ss rule: annotate_suite_annotate_all.induct) simp_all

lemma annotate_result_same [simp]:
  "res_status (annotate_result es ws r) = res_status r" "res_error (annotate_result es ws r) = res_error r"
  "res_full_name (annotate_result es ws r) = res_full_name r" "res_project (annotate_result es ws r) = res_project r"
  by (simp_all add: annotate_result_def Let_def split: option.splits)

lemma mark_flakes_collect:
  "collect_results (mark_file_retry_flakes first s) =
     map (annotate_result (first_errors (collect_results first)) (first_warnings (collect_results first))) (collect_results s)"
proof -
  have "annotate_result [] [] r = r" for r by (simp add: annotate_result_def)
  then show ?thesis by (simp add: mark_file_retry_flakes_def Let_def annotate_collect map_idI)
qed

lemma find_recoverable_None:
  "find_recoverable_infrastructure_failure rs = None \<longleftrightarrow>
     (\<forall>r \<in> set rs. \<forall>e. res_status r = Failed \<and> res_error r = Some e \<longrightarrow> \<not> is_recoverable_infrastructure_error (err_message e))"
  by (induction rs) (auto split: test_status.splits option.splits)

section \<open>The shape of a file's messages\<close>

fun final_message :: "worker_message \<Rightarrow> bool" where
  "final_message (Msg_File_Done p rs s) = True"
| "final_message (Msg_Error e) = True"
| "final_message _ = False"

text \<open>What comes between the start and the end of a file.\<close>

fun told_message :: "string \<Rightarrow> worker_message \<Rightarrow> bool" where
  "told_message path (Msg_Test_Start n) = True"
| "told_message path (Msg_Test_End r) = True"
| "told_message path (Msg_File_Retry p) = (p = path)"
| "told_message path _ = False"

definition retries_told :: "worker_message list \<Rightarrow> nat" where
  "retries_told ms = length (filter (\<lambda>m. case m of Msg_File_Retry _ \<Rightarrow> True | _ \<Rightarrow> False) ms)"

definition told :: "nat \<Rightarrow> file_attempt \<Rightarrow> worker_message list" where
  "told w a = map (report_message w) (attempt_reports a)"

lemma told_messages: "m \<in> set (told w a) \<Longrightarrow> told_message path m"
proof -
  have "told_message path (report_message w r)" for r by (cases r) simp_all
  then show "m \<in> set (told w a) \<Longrightarrow> told_message path m" by (auto simp: told_def)
qed

lemma retries_told_simps [simp]:
  "retries_told [] = 0" "retries_told (xs @ ys) = retries_told xs + retries_told ys"
  "retries_told (Msg_File_Retry p # ms) = Suc (retries_told ms)" "retries_told (told w a) = 0"
proof -
  have "(case report_message w r of Msg_File_Retry _ \<Rightarrow> True | _ \<Rightarrow> False) = False" for r by (cases r) simp_all
  then show "retries_told (told w a) = 0" by (simp add: retries_told_def told_def filter_empty_conv)
qed (simp_all add: retries_told_def)

definition healthy :: "test_result list \<Rightarrow> bool" where
  "healthy rs \<longleftrightarrow> find_recoverable_infrastructure_failure rs = None"

definition end_message :: "nat \<Rightarrow> string \<Rightarrow> string + suite_result \<Rightarrow> worker_message" where
  "end_message w path res =
     (case res of
        Inr suite \<Rightarrow> Msg_File_Done path (map (serialize_test_result w) (collect_results suite)) (serialize_suite_result w suite)
      | Inl err \<Rightarrow> Msg_Error err)"

text \<open>The ways a file can go: one run, a failed recovery, a second run.\<close>

lemma recovery_loop_unfold:
  "recovery_loop env w path (Suc left) k first =
     (case attempt_pass k first (attempt_outcome (attempt_of env k)) of
        Returns suite \<Rightarrow> (told w (attempt_of env k), Inr suite)
      | Throws err \<Rightarrow> (told w (attempt_of env k), Inl err)
      | Retries err first' \<Rightarrow>
          (case recovery_of env err of
             Some failed \<Rightarrow> (told w (attempt_of env k) @ [Msg_File_Retry path], Inl failed)
           | None \<Rightarrow>
               (let (rest, res) = recovery_loop env w path left (k + 1) first'
                in (told w (attempt_of env k) @ Msg_File_Retry path # rest, res))))"
  by (cases "attempt_pass k first (attempt_outcome (attempt_of env k))")
    (simp_all add: told_def Let_def split: option.split)

declare recovery_loop.simps [simp del]

lemma handle_run_file_cases:
  obtains (once) res where "handle_run_file env w path = Msg_File_Start # told w (attempt_of env 1) @ [end_message w path res]"
      "res = attempt_outcome (attempt_of env 1)" "\<forall>s. res = Inr s \<longrightarrow> healthy (collect_results s)"
    | (unrecovered) err failed where
      "handle_run_file env w path = Msg_File_Start # told w (attempt_of env 1) @ [Msg_File_Retry path, Msg_Error failed]"
      "recovery_of env err = Some failed"
    | (twice) res where
      "handle_run_file env w path =
         Msg_File_Start # told w (attempt_of env 1) @ Msg_File_Retry path # told w (attempt_of env 2) @ [end_message w path res]"
      "\<forall>s. res = Inr s \<longrightarrow> (\<exists>s2. attempt_outcome (attempt_of env 2) = Inr s2 \<and> healthy (collect_results s2) \<and>
              s = (case attempt_outcome (attempt_of env 1) of Inr first \<Rightarrow> mark_file_retry_flakes first s2 | Inl _ \<Rightarrow> s2))"
      "\<forall>e. res = Inl e \<longrightarrow> attempt_outcome (attempt_of env 2) = Inl e \<or>
              (\<exists>s2. attempt_outcome (attempt_of env 2) = Inr s2 \<and> find_recoverable_infrastructure_failure (collect_results s2) = Some e)"
proof -
  have two_left: "recovery_loop env w path 2 1 None = recovery_loop env w path (Suc 1) 1 None"
    by (simp only: numeral_2_eq_2 One_nat_def)
  have two: "recovery_loop env w path 2 1 None =
     (case attempt_pass 1 None (attempt_outcome (attempt_of env 1)) of
        Returns suite \<Rightarrow> (told w (attempt_of env 1), Inr suite)
      | Throws err \<Rightarrow> (told w (attempt_of env 1), Inl err)
      | Retries err first' \<Rightarrow>
          (case recovery_of env err of
             Some failed \<Rightarrow> (told w (attempt_of env 1) @ [Msg_File_Retry path], Inl failed)
           | None \<Rightarrow>
               (let (rest, res) = recovery_loop env w path 1 2 first'
                in (told w (attempt_of env 1) @ Msg_File_Retry path # rest, res))))"
    by (simp only: two_left recovery_loop_unfold one_add_one)
  have last_pass: "recovery_loop env w path 1 2 first' =
     (case attempt_pass 2 first' (attempt_outcome (attempt_of env 2)) of
        Returns suite \<Rightarrow> (told w (attempt_of env 2), Inr suite)
      | Throws err \<Rightarrow> (told w (attempt_of env 2), Inl err)
      | Retries err f \<Rightarrow> ([], Inl []))" if "True" for first'
    using that by (auto simp: recovery_loop_unfold recovery_loop.simps(1) attempt_pass_def Let_def split: sum.splits option.splits pass.splits)
  note run = handle_run_file_def run_file_with_recovery_def two [unfolded One_nat_def] last_pass [OF TrueI, unfolded One_nat_def] end_message_def
  show thesis
  proof (cases "attempt_pass 1 None (attempt_outcome (attempt_of env 1))")
    case (Returns s)
    then have "attempt_outcome (attempt_of env 1) = Inr s" "healthy (collect_results s)"
      by (auto simp: attempt_pass_def healthy_def split: sum.splits option.splits if_splits)
    with Returns show thesis by (intro once [of "Inr s"]) (simp_all add: run)
  next
    case (Throws e)
    then have "attempt_outcome (attempt_of env 1) = Inl e"
      by (auto simp: attempt_pass_def split: sum.splits option.splits if_splits)
    with Throws show thesis by (intro once [of "Inl e"]) (simp_all add: run)
  next
    case (Retries e first')
    show thesis
    proof (cases "recovery_of env e")
      case (Some failed)
      with Retries show thesis by (intro unrecovered [of failed e]) (simp_all add: run)
    next
      case None
      have first: "first' = (case attempt_outcome (attempt_of env 1) of Inr f \<Rightarrow> Some f | Inl _ \<Rightarrow> None)"
        using Retries by (auto simp: attempt_pass_def split: sum.splits option.splits if_splits)
      show thesis
      proof (cases "attempt_pass 2 first' (attempt_outcome (attempt_of env 2))")
        case (Returns s)
        then obtain s2 where s2: "attempt_outcome (attempt_of env 2) = Inr s2" "healthy (collect_results s2)"
          "s = (case first' of Some f \<Rightarrow> mark_file_retry_flakes f s2 | None \<Rightarrow> s2)"
          by (auto simp: attempt_pass_def healthy_def split: sum.splits option.splits if_splits)
        then have "s = (case attempt_outcome (attempt_of env 1) of Inr f \<Rightarrow> mark_file_retry_flakes f s2 | Inl _ \<Rightarrow> s2)"
          using first by (simp split: sum.splits)
        with s2 Returns Retries None show thesis by (intro twice [of "Inr s"]) (simp_all add: run)
      next
        case (Throws e2)
        then have "attempt_outcome (attempt_of env 2) = Inl e2 \<or>
            (\<exists>s2. attempt_outcome (attempt_of env 2) = Inr s2 \<and> find_recoverable_infrastructure_failure (collect_results s2) = Some e2)"
          by (auto simp: attempt_pass_def split: sum.splits option.splits if_splits)
        with Throws Retries None show thesis by (intro twice [of "Inl e2"]) (simp_all add: run)
      next
        case (Retries e2 f)
        then show thesis by (auto simp: attempt_pass_def split: sum.splits option.splits if_splits)
      qed
    qed
  qed
qed

lemma end_message_final [simp]: "final_message (end_message w path res)"
  by (simp add: end_message_def split: sum.split)

section \<open>A file is retried once and never done with a lost device\<close>

definition infra_failure :: "reported \<Rightarrow> bool" where
  "infra_failure r \<longleftrightarrow> res_status (rep_result r) = Failed \<and>
     (case res_error (rep_result r) of Some e \<Rightarrow> is_recoverable_infrastructure_error (err_message e) | None \<Rightarrow> False)"

lemma healthy_iff: "healthy rs \<longleftrightarrow> (\<forall>r \<in> set rs. \<not> infra_failure (serialize_test_result w r))"
  by (auto simp: healthy_def find_recoverable_None infra_failure_def serialize_test_result_def plain_error_def
      split: option.splits)

lemma healthy_flakes [simp]: "healthy (collect_results (mark_file_retry_flakes first s)) = healthy (collect_results s)"
  by (auto simp: healthy_def find_recoverable_None mark_flakes_collect)

text \<open>A passing result that failed in the discarded run says so.\<close>

definition flaky_marked :: "test_result list \<Rightarrow> reported \<Rightarrow> bool" where
  "flaky_marked first r \<longleftrightarrow>
     (res_status (rep_result r) = Passed \<and>
      (\<exists>q \<in> set first. res_status q = Failed \<and> res_error q \<noteq> None \<and> res_full_name q = res_full_name (rep_result r)) \<longrightarrow>
      res_retry (rep_result r) \<noteq> None \<and> res_first_error (rep_result r) \<noteq> None)"

lemma map_get_fold_pairs: "k \<in> fst ` set kvs \<or> map_get m k \<noteq> None \<Longrightarrow> map_get (fold (\<lambda>(k, v). map_set k v) kvs m) k \<noteq> None"
  by (induction kvs arbitrary: m) (auto split: prod.splits if_splits)

lemma first_errors_keep:
  assumes "q \<in> set first" and "res_status q = Failed" and "res_error q = Some e"
  shows "map_get (first_errors first) (res_full_name q) \<noteq> None"
proof -
  have "(res_full_name q, e) \<in> set (List.map_filter (\<lambda>r. if res_status r = Failed
       then map_option (\<lambda>e. (res_full_name r, e)) (res_error r) else None) first)"
    using assms by (force simp: List.map_filter_def)
  then show ?thesis
    unfolding first_errors_def map_of_list_def by (intro map_get_fold_pairs) force
qed

lemma flakes_marked:
  assumes "r \<in> set (collect_results (mark_file_retry_flakes first s))"
  shows "flaky_marked (collect_results first) (serialize_test_result w r)"
proof -
  obtain r0 where r: "r = annotate_result (first_errors (collect_results first)) (first_warnings (collect_results first)) r0"
    using assms by (auto simp: mark_flakes_collect)
  show ?thesis
    unfolding flaky_marked_def
  proof (intro impI, elim conjE bexE)
    fix q assume "res_status (rep_result (serialize_test_result w r)) = Passed" "q \<in> set (collect_results first)"
      "res_status q = Failed" "res_error q \<noteq> None" "res_full_name q = res_full_name (rep_result (serialize_test_result w r))"
    then have "res_status r0 = Passed" "map_get (first_errors (collect_results first)) (res_full_name r0) \<noteq> None"
      using first_errors_keep [of q "collect_results first"] r by (auto simp: serialize_test_result_def)
    then show "res_retry (rep_result (serialize_test_result w r)) \<noteq> None \<and> res_first_error (rep_result (serialize_test_result w r)) \<noteq> None"
      by (auto simp: r serialize_test_result_def annotate_result_def Let_def split: option.splits)
  qed
qed

text \<open>Why a file can end with an error.\<close>

definition error_explained :: "worker_env \<Rightarrow> string \<Rightarrow> bool" where
  "error_explained env e \<longleftrightarrow>
     attempt_outcome (attempt_of env 1) = Inl e \<or> (\<exists>err. recovery_of env err = Some e) \<or>
     attempt_outcome (attempt_of env 2) = Inl e \<or>
     (\<exists>s2. attempt_outcome (attempt_of env 2) = Inr s2 \<and> find_recoverable_infrastructure_failure (collect_results s2) = Some e)"

definition done_right :: "worker_env \<Rightarrow> string \<Rightarrow> bool \<Rightarrow> worker_message \<Rightarrow> bool" where
  "done_right env path retried m =
     (case m of
        Msg_File_Done p rs suite \<Rightarrow>
          p = path \<and> rs = flat_reported suite \<and> list_all (\<lambda>r. \<not> infra_failure r) rs \<and>
          (case attempt_outcome (attempt_of env 1) of
             Inr first \<Rightarrow> retried \<longrightarrow> list_all (flaky_marked (collect_results first)) rs
           | Inl _ \<Rightarrow> retried)
      | Msg_Error e \<Rightarrow> error_explained env e
      | _ \<Rightarrow> False)"

lemma end_done_right:
  assumes "\<And>s. res = Inr s \<Longrightarrow> healthy (collect_results s)" and "\<And>e. res = Inl e \<Longrightarrow> error_explained env e"
    and "\<And>s. res = Inr s \<Longrightarrow> (case attempt_outcome (attempt_of env 1) of
             Inr first \<Rightarrow> retried \<longrightarrow> (\<forall>r \<in> set (collect_results s). flaky_marked (collect_results first) (serialize_test_result w r))
           | Inl _ \<Rightarrow> retried)"
  shows "done_right env path retried (end_message w path res)"
proof (cases res)
  case (Inl e)
  then show ?thesis using assms(2) by (simp add: done_right_def end_message_def)
next
  case (Inr s)
  then show ?thesis
    using assms(1) [OF Inr] assms(3) [OF Inr]
    by (simp add: done_right_def end_message_def flat_serialize healthy_iff [of _ w] list_all_iff split: sum.splits)
qed

lemma file_retry_spec:
  "\<exists>ms m. handle_run_file env w path = Msg_File_Start # ms @ [m] \<and> list_all (told_message path) ms \<and> retries_told ms \<le> 1 \<and>
     done_right env path (retries_told ms = 1) m"
proof (cases rule: handle_run_file_cases [of env w path])
  case (once res)
  have "done_right env path False (end_message w path res)"
    by (rule end_done_right) (use once in \<open>auto simp: error_explained_def split: sum.splits\<close>)
  with once show ?thesis
    by (intro exI [of _ "told w (attempt_of env 1)"] exI [of _ "end_message w path res"]) (auto simp: list_all_iff told_messages)
next
  case (unrecovered err failed)
  have "done_right env path True (Msg_Error failed)"
    using unrecovered(2) by (auto simp: done_right_def error_explained_def)
  with unrecovered show ?thesis
    by (intro exI [of _ "told w (attempt_of env 1) @ [Msg_File_Retry path]"] exI [of _ "Msg_Error failed"])
      (auto simp: list_all_iff told_messages)
next
  case (twice res)
  have "done_right env path True (end_message w path res)"
  proof (rule end_done_right)
    fix s assume "res = Inr s"
    then obtain s2 where s2: "healthy (collect_results s2)"
      "s = (case attempt_outcome (attempt_of env 1) of Inr first \<Rightarrow> mark_file_retry_flakes first s2 | Inl _ \<Rightarrow> s2)"
      using twice(2) by blast
    then show "healthy (collect_results s)" by (simp split: sum.splits)
    show "case attempt_outcome (attempt_of env 1) of
             Inr first \<Rightarrow> True \<longrightarrow> (\<forall>r \<in> set (collect_results s). flaky_marked (collect_results first) (serialize_test_result w r))
           | Inl _ \<Rightarrow> True"
      using s2(2) flakes_marked by (simp split: sum.splits)
  next
    fix e assume "res = Inl e"
    then show "error_explained env e" using twice(3) by (auto simp: error_explained_def)
  qed
  with twice(1) show ?thesis
    by (intro exI [of _ "told w (attempt_of env 1) @ Msg_File_Retry path # told w (attempt_of env 2)"] exI [of _ "end_message w path res"])
      (auto simp: list_all_iff told_messages)
qed

section \<open>The messages are steps of the wave\<close>

definition deliver :: "nat option \<Rightarrow> nat \<Rightarrow> worker_message list \<Rightarrow> wave_state \<Rightarrow> wave_state" where
  "deliver base i ms s = fold (on_message base i) ms s"

lemma deliver_simps [simp]:
  "deliver base i [] s = s" "deliver base i (m # ms) s = deliver base i ms (on_message base i m s)"
  "deliver base i (xs @ ys) s = deliver base i ys (deliver base i xs s)"
  by (simp_all add: deliver_def)

lemma on_told_message:
  assumes "told_message path m \<or> m = Msg_File_Start"
  shows "wave_workers (on_message base i m s) = wave_workers s" "has_error (on_message base i m s) = has_error s"
    "all_results (on_message base i m s) = all_results s" "shutting_down (on_message base i m s) = shutting_down s"
    "wave_queue (on_message base i m s) = wave_queue s" "settled (on_message base i m s) = settled s"
  using assms
  by (cases m; simp add: on_message_def Let_def handle_parallel_test_end_def handle_parallel_file_retry_def log_event_def)+

lemma deliver_told:
  assumes "list_all (\<lambda>m. told_message path m \<or> m = Msg_File_Start) ms" and "i < length (wave_workers s)"
  shows "wave_run base s (deliver base i ms s) \<and> wave_workers (deliver base i ms s) = wave_workers s \<and>
         has_error (deliver base i ms s) = has_error s \<and> all_results (deliver base i ms s) = all_results s \<and>
         shutting_down (deliver base i ms s) = shutting_down s"
  using assms(1)
proof (induction ms rule: rev_induct)
  case Nil
  show ?case by (simp add: wave_run.start)
next
  case (snoc m ms)
  let ?t = "deliver base i ms s"
  have m: "told_message path m \<or> m = Msg_File_Start" and IH: "wave_run base s ?t" "wave_workers ?t = wave_workers s"
    "has_error ?t = has_error s" "all_results ?t = all_results s" "shutting_down ?t = shutting_down s"
    using snoc by auto
  have "wave_step base ?t (on_message base i m ?t)"
    using m assms(2) IH(2) by (intro wave_step.message) auto
  with IH(1) have "wave_run base s (on_message base i m ?t)" by (rule wave_run.step)
  with IH on_told_message [OF m, of base i ?t] show ?case by simp
qed

lemma maybe_resolve_results [simp]: "all_results (maybe_resolve s) = all_results s"
  by (simp add: maybe_resolve_def)

lemma dispatch_next_results [simp]: "all_results (dispatch_next i s) = all_results s"
  by (simp add: dispatch_next_def Let_def log_event_def put_worker_def split: list.split)

lemma retire_worker_retired:
  assumes "i < length (wave_workers s)"
  shows "retired (wave_workers (retire_worker i reason s) ! i)"
proof -
  have keep: "retired (wave_workers (dispatch_next j t) ! i)" if "retired (wave_workers t ! i)" "i < length (wave_workers t)" for j t
  proof -
    have "map retired (wave_workers (dispatch_next j t)) ! i = map retired (wave_workers t) ! i"
      by (simp add: dispatch_next_retired)
    with that show ?thesis by simp
  qed
  show ?thesis
    using assms by (auto simp: retire_worker_def Let_def keep split: option.split)
qed

lemma on_file_done_results:
  assumes "\<not> has_error s" and "\<not> retired (wave_workers s ! i)"
  shows "all_results (on_message base i (Msg_File_Done p rs suite) s) = all_results s @ map (apply_worker_index_base base) rs"
  using assms by (simp add: on_message_def Let_def handle_parallel_file_done_def log_event_def put_worker_def)

lemma messages_fit_spec:
  fixes s :: wave_state
  assumes i: "i < length (wave_workers s)" and f: "current_file (wave_workers s ! i) = Some f"
    and live: "\<not> retired (wave_workers s ! i)" "\<not> has_error s"
    and project: "\<And>k suite. attempt_outcome (attempt_of env k) = Inr suite \<Longrightarrow>
      list_all (\<lambda>r. res_project r = file_project f) (collect_results suite)"
  shows "wave_run base s (deliver base i (handle_run_file env w (file_path f)) s) \<and>
     (case last (handle_run_file env w (file_path f)) of
        Msg_File_Done p rs suite \<Rightarrow>
          all_results (deliver base i (handle_run_file env w (file_path f)) s) = all_results s @ map (apply_worker_index_base base) rs
      | _ \<Rightarrow> retired (wave_workers (deliver base i (handle_run_file env w (file_path f)) s) ! i))"
proof -
  have finish: ?thesis
    if h: "handle_run_file env w (file_path f) = Msg_File_Start # ms @ [end_message w (file_path f) res]"
      and ms: "list_all (told_message (file_path f)) ms"
      and p: "\<And>suite. res = Inr suite \<Longrightarrow> list_all (\<lambda>r. res_project r = file_project f) (collect_results suite)" for ms res
  proof -
    let ?t = "deliver base i (Msg_File_Start # ms) s" and ?m = "end_message w (file_path f) res"
    have "list_all (\<lambda>m. told_message (file_path f) m \<or> m = Msg_File_Start) (Msg_File_Start # ms)"
      using ms by (auto simp: list_all_iff)
    note t = deliver_told [OF this i, of base]
    have "wave_step base ?t (on_message base i ?m ?t)"
      using t i f p by (intro wave_step.message) (auto simp: end_message_def serialize_test_result_def list_all_iff split: sum.splits)
    with t have run: "wave_run base s (on_message base i ?m ?t)" by (blast intro: wave_run.step)
    have d: "deliver base i (handle_run_file env w (file_path f)) s = on_message base i ?m ?t" by (simp add: h)
    have l: "last (handle_run_file env w (file_path f)) = ?m" by (simp add: h)
    have "case ?m of Msg_File_Done p rs suite \<Rightarrow> all_results (on_message base i ?m ?t) = all_results s @ map (apply_worker_index_base base) rs
        | _ \<Rightarrow> retired (wave_workers (on_message base i ?m ?t) ! i)"
    proof (cases res)
      case (Inr suite)
      then show ?thesis using on_file_done_results [of ?t i base] t live by (simp add: end_message_def)
    next
      case (Inl e)
      then show ?thesis
        using retire_worker_retired [of i ?t e] t live i by (simp add: end_message_def on_message_def Let_def)
    qed
    with run show ?thesis unfolding d l by blast
  qed
  have flakes: "list_all (\<lambda>r. res_project r = file_project f) (collect_results (mark_file_retry_flakes first s2))"
    if "attempt_outcome (attempt_of env 2) = Inr s2" for first s2
    using project [OF that] by (simp add: mark_flakes_collect list_all_iff)
  show ?thesis
  proof (cases rule: handle_run_file_cases [of env w "file_path f"])
    case (once res)
    show ?thesis
      by (rule finish [OF once(1)]) (use once(2) project [of 1] told_messages in \<open>auto simp: list_all_iff\<close>)
  next
    case (unrecovered err failed)
    then show ?thesis
      using finish [of "told w (attempt_of env 1) @ [Msg_File_Retry (file_path f)]" "Inl failed"] told_messages
      by (simp add: list_all_iff end_message_def)
  next
    case (twice res)
    show ?thesis
    proof (rule finish)
      show "handle_run_file env w (file_path f) =
          Msg_File_Start # (told w (attempt_of env 1) @ Msg_File_Retry (file_path f) # told w (attempt_of env 2)) @
            [end_message w (file_path f) res]"
        using twice(1) by simp
      show "list_all (told_message (file_path f)) (told w (attempt_of env 1) @ Msg_File_Retry (file_path f) # told w (attempt_of env 2))"
        using told_messages by (auto simp: list_all_iff)
      fix suite assume "res = Inr suite"
      with twice(2) obtain s2 where "attempt_outcome (attempt_of env 2) = Inr s2"
        "suite = (case attempt_outcome (attempt_of env 1) of Inr first \<Rightarrow> mark_file_retry_flakes first s2 | Inl _ \<Rightarrow> s2)" by blast
      then show "list_all (\<lambda>r. res_project r = file_project f) (collect_results suite)"
        using flakes project [of 2] by (simp split: sum.splits)
    qed
  qed
qed

text \<open>The results the reporter counts before a retry are the ones it is told to forget.\<close>

fun final_end :: "report \<Rightarrow> bool" where
  "final_end (Test_Ends r) = (\<not> res_will_retry r)"
| "final_end (Test_Starts n) = False"

lemma deliver_counts:
  assumes "\<not> has_error s" and "\<not> retired (wave_workers s ! i)" and "worker_id (wave_workers s ! i) = w"
    and "map_get (test_counts s) w = Some k"
  shows "map_get (test_counts (deliver base i (map (report_message w) rs) s)) w = Some (k + length (filter final_end rs)) \<and>
     \<not> has_error (deliver base i (map (report_message w) rs) s) \<and>
     wave_workers (deliver base i (map (report_message w) rs) s) = wave_workers s"
  using assms
proof (induction rs arbitrary: s k)
  case (Cons r rs)
  let ?t = "on_message base i (report_message w r) s"
  have "told_message [] (report_message w r) \<or> report_message w r = Msg_File_Start" by (cases r) simp_all
  note t = on_told_message [OF this, of base i s]
  have "map_get (test_counts ?t) w = Some (k + (if final_end r then 1 else 0))"
    using Cons.prems by (cases r) (simp_all add: on_message_def Let_def handle_parallel_test_end_def serialize_test_result_def
        apply_worker_index_base_def log_event_def split: option.splits)
  with Cons.IH [of ?t "k + (if final_end r then 1 else 0)"] Cons.prems t show ?case by simp
qed simp

lemma retry_discards_what_was_told:
  assumes "i < length (wave_workers s)" and "\<not> has_error s" and "\<not> retired (wave_workers s ! i)"
    and "worker_id (wave_workers s ! i) = w"
  shows "\<exists>log. wave_log (deliver base i (Msg_File_Start # map (report_message w) rs @ [Msg_File_Retry path]) s) =
     log @ [File_Retried path (length (filter final_end rs))]"
proof -
  let ?s = "on_message base i Msg_File_Start s" and ?t = "deliver base i (map (report_message w) rs) (on_message base i Msg_File_Start s)"
  have s: "wave_workers ?s = wave_workers s" "has_error ?s = has_error s" "map_get (test_counts ?s) w = Some 0"
    using assms by (simp_all add: on_message_def Let_def)
  have "map_get (test_counts ?t) w = Some (length (filter final_end rs))" "\<not> has_error ?t" "wave_workers ?t = wave_workers s"
    using deliver_counts [of ?s i w 0 base rs] s assms by simp_all
  then show ?thesis using assms by (simp add: on_message_def Let_def handle_parallel_file_retry_def log_event_def)
qed

section \<open>The properties\<close>



definition demo_infra_result :: test_result where
  "demo_infra_result = (plain_result ''t'' ''t'' Failed)\<lparr> res_error := Some \<lparr> err_kind = Ordinary_Error, err_message = ''server died'' \<rparr> \<rparr>"

definition demo_worker_env :: worker_env where
  "demo_worker_env =
     \<lparr> attempt_of = (\<lambda>k. \<lparr> attempt_reports = [Test_Starts ''t'', Test_Ends (if k = 1 then demo_infra_result else plain_result ''t'' ''t'' Passed)],
                         attempt_outcome = Inr (Suite_Result [] [if k = 1 then demo_infra_result else plain_result ''t'' ''t'' Passed] []) \<rparr>),
       recovery_of = (\<lambda>_. None) \<rparr>"

lemma demo_infra: "is_recoverable_infrastructure_error ''server died''"
  by code_simp

lemma demo_worker_messages:
  "last (handle_run_file demo_worker_env 0 ''a'') =
     Msg_File_Done ''a''
       [serialize_test_result 0 ((plain_result ''t'' ''t'' Passed)\<lparr> res_retry := Some 1,
          res_first_error := Some \<lparr> err_kind = Ordinary_Error, err_message = ''server died'' \<rparr> \<rparr>)]
       (Reported_Suite [] [serialize_test_result 0 ((plain_result ''t'' ''t'' Passed)\<lparr> res_retry := Some 1,
          res_first_error := Some \<lparr> err_kind = Ordinary_Error, err_message = ''server died'' \<rparr> \<rparr>)] [])"
  by (simp add: handle_run_file_def run_file_with_recovery_def recovery_loop.simps numeral_2_eq_2 demo_worker_env_def attempt_pass_def
      demo_infra_result_def demo_infra mark_file_retry_flakes_def first_errors_def first_warnings_def map_of_list_def
      List.map_filter_def annotate_result_def plain_result_def)


end
