(* ===== verification/Run_Selection.thy ===== *)
theory Run_Selection
  imports Projects
begin

text \<open>
  UI mode's Run all: the tests a filtered tree shows (\<open>ui-mode/run-selection.ts\<close>, the client's half), what
  the server makes of the selection it is sent, and the files it dispatches, in the waves of the
  projects' dependencies (\<open>ui-mode/run-all-plan.ts\<close>). A selection key, the JSON text of a project and a
  file, is the pair of them; what the server receives is any JavaScript value.
\<close>

section \<open>The visible tests\<close>

text \<open>A node of the tree; files and suites are groups.\<close>

datatype tree_node =
    Project_Node string "tree_node list"
  | Group_Node "tree_node list"
  | Test_Node string string \<comment> \<open>file and full name\<close>

type_synonym selection_key = "string option \<times> string"

definition add_visible :: "selection_key \<Rightarrow> string \<Rightarrow> (selection_key, string list) jsmap \<Rightarrow> (selection_key, string list) jsmap" where
  "add_visible key name entries = map_set key (nullish (map_get entries key) [] @ [name]) entries"

fun walk_nodes :: "tree_node list \<Rightarrow> string option \<Rightarrow> (selection_key, string list) jsmap \<Rightarrow> (selection_key, string list) jsmap" where
  "walk_nodes [] project entries = entries"
| "walk_nodes (Project_Node name cs # nodes) project entries = walk_nodes nodes project (walk_nodes cs (Some name) entries)"
| "walk_nodes (Test_Node file name # nodes) project entries = walk_nodes nodes project (add_visible (project, file) name entries)"
| "walk_nodes (Group_Node cs # nodes) project entries = walk_nodes nodes project (walk_nodes cs project entries)"

definition visible_run_selection :: "tree_node list \<Rightarrow> (selection_key, string list) jsmap" where
  "visible_run_selection tree = walk_nodes tree None []"

text \<open>The entries as they cross the socket.\<close>

definition entry_value :: "selection_key \<times> string list \<Rightarrow> js_value" where
  "entry_value e =
     (let ((project, file), names) = e in
      V_Object ([(''filePath'', V_String file)] @ (case project of Some p \<Rightarrow> [(''projectName'', V_String p)] | None \<Rightarrow> []) @
                [(''tests'', V_Array (map V_String names))]))"

definition selection_value :: "(selection_key, string list) jsmap \<Rightarrow> js_value" where
  "selection_value entries = V_Array (map entry_value entries)"

section \<open>\<open>resolveRunSelection\<close>\<close>

record selection_suite =
  suite_files :: "string list"
  suite_projects :: "(string \<times> string list) list option"
  whole_file_name :: "string \<Rightarrow> string \<Rightarrow> bool"

text \<open>Per key the names to run, or none for the whole file.\<close>

type_synonym run_selection = "(selection_key, string list option) jsmap"

definition entry_project :: "selection_suite \<Rightarrow> string \<Rightarrow> js_value \<Rightarrow> string option option" where
  "entry_project suite file v =
     (case suite_projects suite of
        None \<Rightarrow> Some None
      | Some ps \<Rightarrow>
          (case v of
             V_String name \<Rightarrow>
               (case map_get (fold (\<lambda>(n, fs). map_set n fs) ps []) name of
                  Some files \<Rightarrow> if file \<in> set files then Some (Some name) else None
                | None \<Rightarrow> None)
           | _ \<Rightarrow> None))"

definition resolve_tests :: "selection_suite \<Rightarrow> selection_key \<Rightarrow> js_value \<Rightarrow> run_selection \<Rightarrow> run_selection" where
  "resolve_tests suite key tests resolved =
     (case tests of
        V_Undefined \<Rightarrow> map_set key None resolved
      | V_Array vs \<Rightarrow>
          (let names = strings_of (V_Array vs) in
           if names = [] then resolved
           else if list_ex (whole_file_name suite (snd key)) names then map_set key None resolved
           else case map_get resolved key of
               Some None \<Rightarrow> resolved
             | Some (Some prior) \<Rightarrow> map_set key (Some (set_add_all names prior)) resolved
             | None \<Rightarrow> map_set key (Some (set_of_list names)) resolved)
      | _ \<Rightarrow> resolved)"

definition resolve_entry :: "selection_suite \<Rightarrow> js_value \<Rightarrow> run_selection \<Rightarrow> run_selection" where
  "resolve_entry suite raw resolved =
     (case raw of
        V_Object obj \<Rightarrow>
          (case js_get ''filePath'' obj of
             V_String file \<Rightarrow>
               if file \<notin> set (suite_files suite) then resolved
               else (case entry_project suite file (js_get ''projectName'' obj) of
                       None \<Rightarrow> resolved
                     | Some project \<Rightarrow> resolve_tests suite (project, file) (js_get ''tests'' obj) resolved)
           | _ \<Rightarrow> resolved)
      | _ \<Rightarrow> resolved)"

definition resolve_run_selection :: "js_value \<Rightarrow> selection_suite \<Rightarrow> run_selection" where
  "resolve_run_selection entries suite =
     (case entries of V_Array vs \<Rightarrow> fold (resolve_entry suite) vs [] | _ \<Rightarrow> [])"

section \<open>\<open>planRunAll\<close>\<close>

record planned_file =
  pf_path :: string
  pf_use :: "js_object option"
  pf_project :: "string option"
  pf_names :: "string list option"

record planned_project =
  pp_project :: resolved_project
  pp_files :: "planned_file list"

datatype run_all_plan = Plan_Waves "planned_project list list" | Plan_Files "planned_file list"

record run_all_suite =
  all_files :: "string list"
  project_waves_of :: "resolved_project list list option"
  project_for_file :: "string \<Rightarrow> resolved_project option"

definition plan_file :: "string \<Rightarrow> resolved_project option \<Rightarrow> run_selection option \<Rightarrow> planned_file option" where
  "plan_file file project selection =
     (let name = project_label project in
      case selection of
        None \<Rightarrow> Some \<lparr> pf_path = file, pf_use = Option.bind project proj_use, pf_project = name, pf_names = None \<rparr>
      | Some sel \<Rightarrow>
          (case map_get sel (name, file) of
             None \<Rightarrow> None
           | Some names \<Rightarrow> Some \<lparr> pf_path = file, pf_use = Option.bind project proj_use, pf_project = name, pf_names = names \<rparr>))"

definition selected_projects :: "run_selection \<Rightarrow> resolved_project list \<Rightarrow> resolved_project list" where
  "selected_projects sel ps = filter (\<lambda>p. list_ex (\<lambda>f. map_get sel (project_label (Some p), f) \<noteq> None) (test_files p)) ps"

text \<open>The projects that run whole: what the selected ones depend on, when dependencies are run too.\<close>

definition whole_projects :: "run_selection option \<Rightarrow> bool \<Rightarrow> resolved_project list \<Rightarrow> string list option" where
  "whole_projects selection run_deps ps =
     (case selection of
        Some sel \<Rightarrow>
          if run_deps then collect_transitive_deps (set_of_list (concat (map dependencies (selected_projects sel ps)))) ps
          else Some []
      | None \<Rightarrow> Some [])"

definition plan_project :: "run_selection option \<Rightarrow> string list \<Rightarrow> resolved_project \<Rightarrow> planned_project" where
  "plan_project selection whole p =
     \<lparr> pp_project = p,
       pp_files = List.map_filter
         (\<lambda>f. plan_file f (Some p) (if selection = None \<or> proj_name p \<in> set whole then None else selection)) (test_files p) \<rparr>"

definition plan_waves :: "run_selection option \<Rightarrow> string list \<Rightarrow> resolved_project list list \<Rightarrow> planned_project list list" where
  "plan_waves selection whole waves =
     filter (\<lambda>w. w \<noteq> [])
       (map (\<lambda>wave. filter (\<lambda>p. selection = None \<or> pp_files p \<noteq> []) (map (plan_project selection whole) wave)) waves)"

definition plan_run_all :: "run_all_suite \<Rightarrow> run_selection option \<Rightarrow> bool \<Rightarrow> run_all_plan option" where
  "plan_run_all suite selection run_deps =
     (case project_waves_of suite of
        Some waves \<Rightarrow>
          map_option (\<lambda>whole. Plan_Waves (plan_waves selection whole waves)) (whole_projects selection run_deps (concat waves))
      | None \<Rightarrow> Some (Plan_Files (List.map_filter (\<lambda>f. plan_file f (project_for_file suite f) selection) (all_files suite))))"

definition is_planned_test :: "planned_file list \<Rightarrow> string \<Rightarrow> string \<Rightarrow> bool" where
  "is_planned_test files file name =
     list_ex (\<lambda>f. pf_path f = file \<and> (case pf_names f of None \<Rightarrow> True | Some names \<Rightarrow> name \<in> set names)) files"

end
