(* ===== verification/Selection_Safety.thy ===== *)
theory Selection_Safety
  imports Run_Selection Project_Order
begin

text \<open>
  What UI mode's Run all runs: the visible tests of a filtered tree survive the way to the server and into
  the plan, and dependencies are planned whole and earlier.
\<close>

section \<open>The tree's tests\<close>

fun visible_tests :: "tree_node list \<Rightarrow> string option \<Rightarrow> (selection_key \<times> string) list" where
  "visible_tests [] project = []"
| "visible_tests (Project_Node name cs # nodes) project = visible_tests cs (Some name) @ visible_tests nodes project"
| "visible_tests (Test_Node path name # nodes) project = ((project, path), name) # visible_tests nodes project"
| "visible_tests (Group_Node cs # nodes) project = visible_tests cs project @ visible_tests nodes project"

lemma walk_nodes_fold:
  "walk_nodes nodes project entries = fold (\<lambda>(k, n). add_visible k n) (visible_tests nodes project) entries"
  by (induction nodes project entries rule: walk_nodes.induct) simp_all

definition test_names :: "selection_key \<Rightarrow> (selection_key \<times> string) list \<Rightarrow> string list" where
  "test_names k ts = map snd (filter (\<lambda>t. fst t = k) ts)"

lemma test_names_simps [simp]:
  "test_names k [] = []" "test_names k ((k', n) # ts) = (if k' = k then n # test_names k ts else test_names k ts)"
  by (simp_all add: test_names_def)

lemma set_test_names: "n \<in> set (test_names k ts) \<longleftrightarrow> (k, n) \<in> set ts"
  by (cases k) (auto simp: test_names_def image_iff)

lemma fold_visible_get:
  "map_get (fold (\<lambda>(k, n). add_visible k n) ts entries) k =
     (if test_names k ts = [] then map_get entries k else Some (nullish (map_get entries k) [] @ test_names k ts))"
  by (induction ts arbitrary: entries) (auto simp: add_visible_def)

lemma fold_visible_wf: "map_wf (fold (\<lambda>(k, n). add_visible k n) ts entries) = map_wf entries"
  by (induction ts arbitrary: entries) (simp_all add: add_visible_def case_prod_unfold)

lemma visible_selection_get:
  "map_get (visible_run_selection tree) k =
     (if test_names k (visible_tests tree None) = [] then None else Some (test_names k (visible_tests tree None)))"
  by (simp add: visible_run_selection_def walk_nodes_fold fold_visible_get)

lemma visible_selection_wf: "map_wf (visible_run_selection tree)"
  by (simp add: visible_run_selection_def walk_nodes_fold fold_visible_wf)

lemma map_wf_mem: "map_wf m \<Longrightarrow> (k, v) \<in> set m \<longleftrightarrow> map_get m k = Some v"
  by (auto simp: map_wf_def map_keys_def dest: map_of_SomeD)

section \<open>The way to the server\<close>

text \<open>The suite has the file under that project, and the name is one test's.\<close>

definition in_suite :: "selection_suite \<Rightarrow> selection_key \<times> string \<Rightarrow> bool" where
  "in_suite suite t \<longleftrightarrow>
     (let ((project, path), name) = t in
      path \<in> set (suite_files suite) \<and> \<not> whole_file_name suite path name \<and>
      (case suite_projects suite of
         None \<Rightarrow> project = None
       | Some ps \<Rightarrow> (case project of None \<Rightarrow> False | Some p \<Rightarrow> (\<exists>files. (p, files) \<in> set ps \<and> path \<in> set files))))"

definition suite_wf :: "selection_suite \<Rightarrow> bool" where
  "suite_wf suite \<longleftrightarrow> (case suite_projects suite of None \<Rightarrow> True | Some ps \<Rightarrow> distinct (map fst ps))"

lemma fold_map_set_get:
  "distinct (map fst kvs) \<Longrightarrow> map_get (fold (\<lambda>(k, v). map_set k v) kvs m) k = or_else (map_of kvs k) (map_get m k)"
proof (induction kvs arbitrary: m)
  case (Cons kv kvs)
  obtain a b where kv: "kv = (a, b)" by (cases kv)
  with Cons.prems have "map_of kvs a = None" by (auto simp: map_of_eq_None_iff)
  with Cons kv show ?case by (auto simp: or_else_def split: option.splits)
qed simp

lemma strings_of_strings [simp]: "strings_of (V_Array (map V_String names)) = names"
  by (induction names) auto

lemma entry_project_in_suite:
  assumes "suite_wf suite" and "in_suite suite ((project, path), name)"
  shows "entry_project suite path (case project of Some p \<Rightarrow> V_String p | None \<Rightarrow> V_Undefined) = Some project"
proof (cases "suite_projects suite")
  case None
  with assms(2) show ?thesis by (simp add: entry_project_def in_suite_def)
next
  case (Some ps)
  with assms(2) obtain p files where p: "project = Some p" "(p, files) \<in> set ps" "path \<in> set files"
    by (auto simp: in_suite_def split: option.splits)
  have "distinct (map fst ps)" using assms(1) Some by (simp add: suite_wf_def)
  with p(2) have "map_get (fold (\<lambda>(n, fs). map_set n fs) ps []) p = Some files"
    by (simp add: fold_map_set_get or_else_def)
  with Some p show ?thesis by (simp add: entry_project_def)
qed

lemma js_get_simps:
  "js_get k ((k', v) # obj) = (if k' = k then v else js_get k obj)" "js_get k [] = V_Undefined"
  by (simp_all add: js_get_def)

lemma resolve_sent_entry:
  assumes "suite_wf suite" and "names \<noteq> []" and "\<forall>n \<in> set names. in_suite suite (key, n)" and "map_get resolved key = None"
  shows "resolve_entry suite (entry_value (key, names)) resolved = map_set key (Some (set_of_list names)) resolved"
proof -
  obtain project path where key: "key = (project, path)" by (cases key)
  obtain n where n: "n \<in> set names" using assms(2) by (cases names) auto
  then have known: "path \<in> set (suite_files suite)" using assms(3) key by (auto simp: in_suite_def)
  have "entry_project suite path (case project of Some p \<Rightarrow> V_String p | None \<Rightarrow> V_Undefined) = Some project"
    using entry_project_in_suite [OF assms(1), of project path n] assms(3) n key by simp
  moreover have "\<not> list_ex (whole_file_name suite path) names"
    using assms(3) key by (auto simp: in_suite_def list_ex_iff)
  ultimately show ?thesis
    using known assms(2,4) key
    by (cases project)
      (simp_all add: resolve_entry_def entry_value_def js_get_simps resolve_tests_def Let_def del: strings_of.simps)
qed

lemma resolve_sent:
  assumes "suite_wf suite" and "map_wf entries" and "\<forall>(k, names) \<in> set entries. names \<noteq> [] \<and> (\<forall>n \<in> set names. in_suite suite (k, n))"
    and "\<forall>k \<in> set (map_keys entries). map_get resolved k = None"
  shows "map_get (fold (resolve_entry suite) (map entry_value entries) resolved) k =
     (case map_get entries k of Some names \<Rightarrow> Some (Some (set_of_list names)) | None \<Rightarrow> map_get resolved k)"
  using assms(2-4)
proof (induction entries arbitrary: resolved)
  case (Cons e entries)
  obtain key names where e: "e = (key, names)" by (cases e)
  let ?r = "map_set key (Some (set_of_list names)) resolved"
  have step: "resolve_entry suite (entry_value e) resolved = ?r"
    unfolding e by (rule resolve_sent_entry [OF assms(1)]) (use Cons.prems e in \<open>auto simp: map_keys_def\<close>)
  have "key \<notin> set (map_keys entries)" using Cons.prems(1) e by (simp add: map_wf_def map_keys_def)
  moreover from this have "\<forall>k \<in> set (map_keys entries). map_get ?r k = None"
    using Cons.prems(3) by (auto simp: map_keys_def e)
  moreover have "map_wf entries" using Cons.prems(1) by (simp add: map_wf_def map_keys_def)
  ultimately have "map_get (fold (resolve_entry suite) (map entry_value entries) ?r) k =
     (case map_get entries k of Some names \<Rightarrow> Some (Some (set_of_list names)) | None \<Rightarrow> map_get ?r k)"
    using Cons.IH Cons.prems(2) by simp
  with step show ?case
    using \<open>key \<notin> set (map_keys entries)\<close> by (auto simp: e map_keys_iff split: option.splits)
qed simp

lemma visible_resolved:
  assumes "suite_wf suite" and "list_all (in_suite suite) (visible_tests tree None)"
  shows "map_get (resolve_run_selection (selection_value (visible_run_selection tree)) suite) k =
     (let names = test_names k (visible_tests tree None) in if names = [] then None else Some (Some (set_of_list names)))"
proof -
  let ?e = "visible_run_selection tree"
  have "\<forall>(k, names) \<in> set ?e. names \<noteq> [] \<and> (\<forall>n \<in> set names. in_suite suite (k, n))"
  proof (safe, goal_cases)
    case (1 p f)
    then show ?case using map_wf_mem [OF visible_selection_wf, of "(p, f)" "[]"] by (simp add: visible_selection_get split: if_splits)
  next
    case (2 p f names n)
    then have "names = test_names (p, f) (visible_tests tree None)"
      using map_wf_mem [OF visible_selection_wf, of "(p, f)" names] by (simp add: visible_selection_get split: if_splits)
    with 2 assms(2) show ?case by (simp add: set_test_names list_all_iff)
  qed
  from resolve_sent [OF assms(1) visible_selection_wf this, of "[]"] show ?thesis
    by (simp add: resolve_run_selection_def selection_value_def visible_selection_get Let_def)
qed

section \<open>The planned tests\<close>

fun planned_files :: "run_all_plan \<Rightarrow> planned_file list" where
  "planned_files (Plan_Files fs) = fs"
| "planned_files (Plan_Waves ws) = concat (map pp_files (concat ws))"

definition runs_test :: "run_all_plan \<Rightarrow> selection_key \<Rightarrow> string \<Rightarrow> bool" where
  "runs_test plan k name \<longleftrightarrow>
     (\<exists>f \<in> set (planned_files plan). (pf_project f, pf_path f) = k \<and>
        (case pf_names f of None \<Rightarrow> True | Some names \<Rightarrow> name \<in> set names))"

text \<open>What the two halves of the server are given of one session.\<close>

definition suites_agree :: "run_all_suite \<Rightarrow> selection_suite \<Rightarrow> bool" where
  "suites_agree rs suite \<longleftrightarrow>
     suite_files suite = all_files rs \<and>
     (case project_waves_of rs of
        None \<Rightarrow> suite_projects suite = None \<and> (\<forall>f \<in> set (all_files rs). project_label (project_for_file rs f) = None)
      | Some ws \<Rightarrow> (\<exists>ps. suite_projects suite = Some (map (\<lambda>p. (proj_name p, test_files p)) ps) \<and> set ps = set (concat ws)) \<and>
          (\<forall>p \<in> set (concat ws). \<not> synthesized p))"

lemma set_map_filter: "set (List.map_filter f xs) = {y. \<exists>x \<in> set xs. f x = Some y}"
  by (force simp: List.map_filter_def)

lemma concat_nonempty: "concat (filter (\<lambda>w. w \<noteq> []) xs) = concat xs"
  by (induction xs) auto

lemma set_plan_waves:
  "set (planned_files (Plan_Waves (plan_waves selection whole ws))) = (\<Union>p \<in> set (concat ws). set (pp_files (plan_project selection whole p)))"
proof -
  have "concat (plan_waves selection whole ws) =
      filter (\<lambda>pp. selection = None \<or> pp_files pp \<noteq> []) (map (plan_project selection whole) (concat ws))"
    by (simp add: plan_waves_def concat_nonempty filter_concat map_concat comp_def)
  moreover have "set (concat (map pp_files (filter (\<lambda>pp. selection = None \<or> pp_files pp \<noteq> []) (map (plan_project selection whole) ps)))) =
      (\<Union>p \<in> set ps. set (pp_files (plan_project selection whole p)))" for ps
    by (induction ps) auto
  ultimately show ?thesis by (simp only: planned_files.simps)
qed

lemma plan_file_Some:
  "plan_file f project (Some sel) = Some pf \<longleftrightarrow>
     (\<exists>names. map_get sel (project_label project, f) = Some names \<and>
        pf = \<lparr> pf_path = f, pf_use = Option.bind project proj_use, pf_project = project_label project, pf_names = names \<rparr>)"
  by (auto simp: plan_file_def Let_def split: option.splits)

lemma visible_planned_spec:
  assumes suite: "suite_wf suite" "list_all (in_suite suite) (visible_tests tree None)" "suites_agree rs suite"
  defines "sel \<equiv> resolve_run_selection (selection_value (visible_run_selection tree)) suite"
  shows "\<exists>plan. plan_run_all rs (Some sel) False = Some plan \<and>
     (\<forall>k name. runs_test plan k name \<longleftrightarrow> (k, name) \<in> set (visible_tests tree None))"
proof -
  let ?vis = "visible_tests tree None"
  have get: "map_get sel k = Some v \<longleftrightarrow> test_names k ?vis \<noteq> [] \<and> v = Some (set_of_list (test_names k ?vis))" for k v
    unfolding sel_def using visible_resolved [OF suite(1,2), of k] by (auto simp: Let_def)
  have runs: "(\<exists>names. map_get sel k = Some names \<and> (case names of None \<Rightarrow> True | Some ns \<Rightarrow> name \<in> set ns)) \<longleftrightarrow> (k, name) \<in> set ?vis"
    for k name
    unfolding get by (auto simp: set_test_names [symmetric])
  have placed: "in_suite suite t" if "t \<in> set ?vis" for t using that suite(2) by (simp add: list_all_iff)
  show ?thesis
  proof (cases "project_waves_of rs")
    case None
    let ?plan = "Plan_Files (List.map_filter (\<lambda>f. plan_file f (project_for_file rs f) (Some sel)) (all_files rs))"
    have label: "project_label (project_for_file rs f) = None" if "f \<in> set (all_files rs)" for f
      using suite(3) None that by (simp add: suites_agree_def)
    have "runs_test ?plan k name \<longleftrightarrow> (k, name) \<in> set ?vis" for k name
    proof
      assume "runs_test ?plan k name"
      then obtain f where f: "f \<in> set (all_files rs)"
        "\<exists>names. map_get sel (project_label (project_for_file rs f), f) = Some names \<and> (case names of None \<Rightarrow> True | Some ns \<Rightarrow> name \<in> set ns)"
        "k = (project_label (project_for_file rs f), f)"
        by (auto simp: runs_test_def set_map_filter plan_file_Some)
      with runs [of "(project_label (project_for_file rs f), f)" name] show "(k, name) \<in> set ?vis" by blast
    next
      assume v: "(k, name) \<in> set ?vis"
      obtain f where k: "k = (None, f)" "f \<in> set (all_files rs)"
        using placed [OF v] suite(3) None by (cases k) (auto simp: in_suite_def suites_agree_def)
      from v runs obtain names where "map_get sel k = Some names" "case names of None \<Rightarrow> True | Some ns \<Rightarrow> name \<in> set ns" by blast
      with k label [OF k(2)] show "runs_test ?plan k name"
        unfolding runs_test_def by (force simp: set_map_filter plan_file_Some)
    qed
    then show ?thesis using None by (simp add: plan_run_all_def)
  next
    case (Some ws)
    let ?plan = "Plan_Waves (plan_waves (Some sel) [] ws)"
    obtain ps where ps: "suite_projects suite = Some (map (\<lambda>p. (proj_name p, test_files p)) ps)" "set ps = set (concat ws)"
      and real: "\<forall>p \<in> set (concat ws). \<not> synthesized p"
      using suite(3) Some by (auto simp: suites_agree_def)
    have files: "pf \<in> set (planned_files ?plan) \<longleftrightarrow>
        (\<exists>p \<in> set (concat ws). \<exists>f \<in> set (test_files p). plan_file f (Some p) (Some sel) = Some pf)" for pf
      unfolding set_plan_waves by (auto simp: plan_project_def set_map_filter)
    have label: "project_label (Some p) = Some (proj_name p)" if "p \<in> set (concat ws)" for p
      using bspec [OF real that] by (simp add: project_label_def)
    have "runs_test ?plan k name \<longleftrightarrow> (k, name) \<in> set ?vis" for k name
    proof
      assume "runs_test ?plan k name"
      then obtain p f names where "map_get sel (project_label (Some p), f) = Some names"
        "case names of None \<Rightarrow> True | Some ns \<Rightarrow> name \<in> set ns" "k = (project_label (Some p), f)"
        unfolding runs_test_def Bex_def files by (auto simp: plan_file_Some)
      with runs [of "(project_label (Some p), f)" name] show "(k, name) \<in> set ?vis" by blast
    next
      assume v: "(k, name) \<in> set ?vis"
      obtain p f where k: "k = (Some (proj_name p), f)" "p \<in> set (concat ws)" "f \<in> set (test_files p)"
        using placed [OF v] ps by (cases k) (auto simp: in_suite_def split: option.splits)
      from v runs obtain names where names: "map_get sel k = Some names" "case names of None \<Rightarrow> True | Some ns \<Rightarrow> name \<in> set ns" by blast
      let ?pf = "\<lparr> pf_path = f, pf_use = proj_use p, pf_project = Some (proj_name p), pf_names = names \<rparr>"
      have "plan_file f (Some p) (Some sel) = Some ?pf"
        using names(1) k label [OF k(2)] by (simp add: plan_file_Some)
      then have "?pf \<in> set (planned_files ?plan)" unfolding files using k by blast
      with names(2) k(1) show "runs_test ?plan k name" unfolding runs_test_def by (intro bexI [of _ ?pf]) auto
    qed
    then show ?thesis using Some by (simp add: plan_run_all_def whole_projects_def)
  qed
qed

section \<open>Dependencies\<close>

text \<open>The projects a selected one depends on, directly or through others.\<close>

definition depended_on :: "run_selection \<Rightarrow> resolved_project list \<Rightarrow> string \<Rightarrow> bool" where
  "depended_on sel ps name \<longleftrightarrow> (\<exists>s \<in> set (selected_projects sel ps). (name, proj_name s) \<in> (project_edges ps)\<^sup>+)"

definition waves_ordered :: "resolved_project list list \<Rightarrow> bool" where
  "waves_ordered ws \<longleftrightarrow>
     (\<forall>i < length ws. \<forall>p \<in> set (ws ! i). \<forall>q \<in> set (concat ws). proj_name q \<in> set (dependencies p) \<longrightarrow> (\<exists>j < i. q \<in> set (ws ! j)))"

lemma whole_projects_spec:
  assumes "distinct (map proj_name ps)"
  shows "\<exists>whole. whole_projects (Some sel) True ps = Some whole \<and> (\<forall>n. n \<in> set whole \<longleftrightarrow> depended_on sel ps n)"
proof -
  let ?deps = "set_of_list (concat (map dependencies (selected_projects sel ps)))"
  from transitive_deps_spec [OF assms] obtain whole where w: "collect_transitive_deps ?deps ps = Some whole"
    "set whole = {x. \<exists>n \<in> set ?deps. (x, n) \<in> (project_edges ps)\<^sup>*}" by blast
  have "n \<in> set whole \<longleftrightarrow> depended_on sel ps n" for n
  proof
    assume "n \<in> set whole"
    then obtain d s where d: "s \<in> set (selected_projects sel ps)" "d \<in> set (dependencies s)" "(n, d) \<in> (project_edges ps)\<^sup>*"
      using w(2) by auto
    then have "(d, proj_name s) \<in> project_edges ps" by (auto simp: project_edges_def selected_projects_def)
    with d show "depended_on sel ps n" unfolding depended_on_def by (blast intro: rtrancl_into_trancl1)
  next
    assume "depended_on sel ps n"
    then obtain s d where s: "s \<in> set (selected_projects sel ps)" "(n, d) \<in> (project_edges ps)\<^sup>*" "(d, proj_name s) \<in> project_edges ps"
      unfolding depended_on_def by (metis tranclD2)
    from s(3) obtain p where p: "p \<in> set ps" "proj_name p = proj_name s" "d \<in> set (dependencies p)" by (auto simp: project_edges_def)
    have "s \<in> set ps" using s(1) by (simp add: selected_projects_def)
    with p(1,2) assms have "p = s" by (auto simp: distinct_map dest: inj_onD)
    with p(3) s show "n \<in> set whole" using w(2) by auto
  qed
  with w(1) show ?thesis by (auto simp: whole_projects_def)
qed

text \<open>A planned file of project \<open>p\<close>: whole if a selected project depends on \<open>p\<close>, else what is selected of it.\<close>

definition planned_of :: "run_selection \<Rightarrow> resolved_project list \<Rightarrow> resolved_project \<Rightarrow> planned_file \<Rightarrow> bool" where
  "planned_of sel ps p pf \<longleftrightarrow>
     pf_path pf \<in> set (test_files p) \<and> pf_use pf = proj_use p \<and> pf_project pf = Some (proj_name p) \<and>
     (if depended_on sel ps (proj_name p) then pf_names pf = None
      else map_get sel (Some (proj_name p), pf_path pf) = Some (pf_names pf))"

lemma plan_project_files:
  assumes "\<not> synthesized p" and "\<forall>n. n \<in> set whole \<longleftrightarrow> depended_on sel ps n"
  shows "pf \<in> set (pp_files (plan_project (Some sel) whole p)) \<longleftrightarrow> planned_of sel ps p pf"
proof (cases "proj_name p \<in> set whole")
  case True
  with assms show ?thesis
    by (cases pf) (auto simp: plan_project_def set_map_filter plan_file_def Let_def project_label_def planned_of_def)
next
  case False
  with assms show ?thesis
    by (cases pf) (auto simp: plan_project_def set_map_filter plan_file_Some project_label_def planned_of_def)
qed

lemma plan_waves_split:
  assumes "plan_waves selection whole ws = pre @ w # post" and "pp \<in> set w"
  shows "\<exists>i p. i < length ws \<and> p \<in> set (ws ! i) \<and> pp = plan_project selection whole p \<and>
     (\<forall>j < i. \<forall>q \<in> set (ws ! j). selection = None \<or> pp_files (plan_project selection whole q) \<noteq> [] \<longrightarrow>
        (\<exists>v \<in> set pre. plan_project selection whole q \<in> set v))"
  using assms
proof (induction ws arbitrary: pre)
  case Nil
  then show ?case by (simp add: plan_waves_def)
next
  case (Cons x ws)
  let ?x = "filter (\<lambda>p. selection = None \<or> pp_files p \<noteq> []) (map (plan_project selection whole) x)"
  have cons: "plan_waves selection whole (x # ws) = (if ?x = [] then [] else [?x]) @ plan_waves selection whole ws"
    by (simp add: plan_waves_def)
  have here: "plan_project selection whole q \<in> set ?x"
    if "q \<in> set x" "selection = None \<or> pp_files (plan_project selection whole q) \<noteq> []" for q
    using that by auto
  show ?case
  proof (cases "?x \<noteq> [] \<and> pre = []")
    case True
    with Cons.prems(1) cons have "w = ?x" by simp
    with Cons.prems(2) obtain p where "p \<in> set x" "pp = plan_project selection whole p" by auto
    then show ?thesis by (intro exI [of _ 0] exI [of _ p]) simp
  next
    case False
    obtain pre' where pre': "plan_waves selection whole ws = pre' @ w # post" "set pre = (if ?x = [] then {} else {?x}) \<union> set pre'"
    proof (cases "?x = []")
      case True
      with Cons.prems(1) cons show thesis by (intro that [of pre]) simp_all
    next
      case nonempty: False
      with False obtain y ys where "pre = y # ys" by (cases pre) auto
      with Cons.prems(1) cons nonempty show thesis by (intro that [of ys]) simp_all
    qed
    from Cons.IH [OF pre'(1) Cons.prems(2)] obtain i p where i: "i < length ws" "p \<in> set (ws ! i)" "pp = plan_project selection whole p"
      "\<forall>j < i. \<forall>q \<in> set (ws ! j). selection = None \<or> pp_files (plan_project selection whole q) \<noteq> [] \<longrightarrow>
        (\<exists>v \<in> set pre'. plan_project selection whole q \<in> set v)" by blast
    have "\<exists>v \<in> set pre. plan_project selection whole q \<in> set v"
      if j: "j < Suc i" "q \<in> set ((x # ws) ! j)" "selection = None \<or> pp_files (plan_project selection whole q) \<noteq> []" for j q
    proof (cases j)
      case 0
      with j(2) have "q \<in> set x" by simp
      with here [of q] j(3) have "plan_project selection whole q \<in> set ?x" by blast
      then have "?x \<noteq> []" by (cases ?x) auto
      with pre'(2) \<open>plan_project selection whole q \<in> set ?x\<close> show ?thesis by auto
    next
      case (Suc k)
      with j i(4) have "\<exists>v \<in> set pre'. plan_project selection whole q \<in> set v" by auto
      with pre'(2) show ?thesis by auto
    qed
    with i show ?thesis by (intro exI [of _ "Suc i"] exI [of _ p]) auto
  qed
qed

lemma run_deps_spec:
  assumes ws: "project_waves_of rs = Some ws" "distinct (map proj_name (concat ws))" "\<forall>p \<in> set (concat ws). \<not> synthesized p"
    and ordered: "waves_ordered ws"
  shows "\<exists>pws. plan_run_all rs (Some sel) True = Some (Plan_Waves pws) \<and>
     (\<forall>pf. pf \<in> set (planned_files (Plan_Waves pws)) \<longleftrightarrow> (\<exists>p \<in> set (concat ws). planned_of sel (concat ws) p pf)) \<and>
     (\<forall>pre w post pp q. pws = pre @ w # post \<and> pp \<in> set w \<and> q \<in> set (concat ws) \<and>
        proj_name q \<in> set (dependencies (pp_project pp)) \<and> test_files q \<noteq> [] \<longrightarrow>
        (\<exists>v \<in> set pre. \<exists>qq \<in> set v. pp_project qq = q \<and> map pf_path (pp_files qq) = test_files q \<and> list_all (\<lambda>f. pf_names f = None) (pp_files qq)))"
proof -
  let ?ps = "concat ws"
  obtain whole where whole: "whole_projects (Some sel) True ?ps = Some whole" "\<forall>n. n \<in> set whole \<longleftrightarrow> depended_on sel ?ps n"
    using whole_projects_spec [OF ws(2)] by blast
  let ?pws = "plan_waves (Some sel) whole ws"
  have plan: "plan_run_all rs (Some sel) True = Some (Plan_Waves ?pws)" using ws(1) whole(1) by (simp add: plan_run_all_def)
  have files: "pf \<in> set (planned_files (Plan_Waves ?pws)) \<longleftrightarrow> (\<exists>p \<in> set ?ps. planned_of sel ?ps p pf)" for pf
  proof -
    have "pf \<in> set (pp_files (plan_project (Some sel) whole p)) \<longleftrightarrow> planned_of sel ?ps p pf" if "p \<in> set ?ps" for p
      using plan_project_files [OF _ whole(2)] bspec [OF ws(3) that] by blast
    then show ?thesis unfolding set_plan_waves by blast
  qed
  have earlier: "\<exists>v \<in> set pre. \<exists>qq \<in> set v. pp_project qq = q \<and> map pf_path (pp_files qq) = test_files q \<and> list_all (\<lambda>f. pf_names f = None) (pp_files qq)"
    if h: "?pws = pre @ w # post" "pp \<in> set w" "q \<in> set ?ps" "proj_name q \<in> set (dependencies (pp_project pp))" "test_files q \<noteq> []"
    for pre w post pp q
  proof -
    from plan_waves_split [OF h(1,2)] obtain i p where i: "i < length ws" "p \<in> set (ws ! i)" "pp = plan_project (Some sel) whole p"
      and before: "\<forall>j < i. \<forall>q \<in> set (ws ! j). pp_files (plan_project (Some sel) whole q) \<noteq> [] \<longrightarrow>
        (\<exists>v \<in> set pre. plan_project (Some sel) whole q \<in> set v)" by auto
    have p: "p \<in> set ?ps" using i(1,2) by auto
    have dep: "proj_name q \<in> set (dependencies p)" using h(4) i(3) by (simp add: plan_project_def)
    obtain j where j: "j < i" "q \<in> set (ws ! j)" using ordered i(1,2) h(3) dep unfolding waves_ordered_def by blast
    have edge: "(proj_name q, proj_name p) \<in> project_edges ?ps" using dep p unfolding project_edges_def by blast
    have "pp \<in> set (concat ?pws)" using h(1,2) by simp
    then have "pp_files pp \<noteq> []" by (auto simp: plan_waves_def)
    then obtain pf where "pf \<in> set (pp_files pp)" by (cases "pp_files pp") auto
    then have planned: "planned_of sel ?ps p pf"
      using plan_project_files [OF bspec [OF ws(3) p] whole(2)] i(3) by simp
    have "depended_on sel ?ps (proj_name q)"
    proof (cases "depended_on sel ?ps (proj_name p)")
      case True
      with edge show ?thesis unfolding depended_on_def by (meson trancl_into_trancl2)
    next
      case False
      with planned have "map_get sel (Some (proj_name p), pf_path pf) \<noteq> None" "pf_path pf \<in> set (test_files p)"
        by (auto simp: planned_of_def)
      then have "p \<in> set (selected_projects sel ?ps)"
        using p bspec [OF ws(3) p] unfolding selected_projects_def by (auto simp: list_ex_iff project_label_def)
      with edge show ?thesis unfolding depended_on_def by blast
    qed
    then have wq: "proj_name q \<in> set whole" using whole(2) by blast
    let ?qq = "plan_project (Some sel) whole q"
    have qq: "pp_project ?qq = q" "map pf_path (pp_files ?qq) = test_files q" "list_all (\<lambda>f. pf_names f = None) (pp_files ?qq)"
      using wq by (simp_all add: plan_project_def plan_file_def List.map_filter_def comp_def list_all_iff)
    with h(5) have "pp_files ?qq \<noteq> []" by auto
    with before j qq show ?thesis by blast
  qed
  show ?thesis
    by (intro exI [of _ ?pws] conjI allI impI plan files) (use earlier in blast)
qed

section \<open>The properties\<close>


text \<open>One setup project, and an app project with a file of two tests.\<close>

definition demo_waves :: "resolved_project list list" where
  "demo_waves = [[demo_project ''setup'' [] [''s'']], [demo_project ''app'' [''setup''] [''x'']]]"

definition demo_run_all :: run_all_suite where
  "demo_run_all = \<lparr> all_files = [''s'', ''x''], project_waves_of = Some demo_waves, project_for_file = (\<lambda>f. None) \<rparr>"

definition demo_selection_suite :: selection_suite where
  "demo_selection_suite = \<lparr> suite_files = [''s'', ''x''], suite_projects = Some [(''setup'', [''s'']), (''app'', [''x''])],
     whole_file_name = (\<lambda>f n. False) \<rparr>"

lemmas demo_selection_defs = demo_waves_def demo_run_all_def demo_selection_suite_def demo_project_def


text \<open>
  With its dependencies run too, a filtered Run all plans exactly the selected tests and, whole, every
  file of the projects the selected ones depend on, directly or through others; and wherever a project
  is planned, each of its dependencies that has files is planned whole in an earlier wave.
\<close>
theorem dependencies_planned_whole:
  assumes "project_waves_of rs = Some ws" and "distinct (map proj_name (concat ws))" and "list_all (\<lambda>p. \<not> synthesized p) (concat ws)"
    and "waves_ordered ws"
  shows "\<exists>pws. plan_run_all rs (Some sel) True = Some (Plan_Waves pws) \<and>
     (\<forall>pf. pf \<in> set (planned_files (Plan_Waves pws)) \<longleftrightarrow> (\<exists>p \<in> set (concat ws). planned_of sel (concat ws) p pf)) \<and>
     (\<forall>pre w post pp q. pws = pre @ w # post \<and> pp \<in> set w \<and> q \<in> set (concat ws) \<and>
        proj_name q \<in> set (dependencies (pp_project pp)) \<and> test_files q \<noteq> [] \<longrightarrow>
        (\<exists>v \<in> set pre. \<exists>qq \<in> set v. pp_project qq = q \<and> map pf_path (pp_files qq) = test_files q \<and> list_all (\<lambda>f. pf_names f = None) (pp_files qq)))"
  using run_deps_spec [OF assms(1,2) _ assms(4)] assms(3) unfolding list_all_iff by blast

theorem dependencies_planned_whole_witness:
  "\<exists>pws. plan_run_all demo_run_all (Some [((Some ''app'', ''x''), Some [''one''])]) True = Some (Plan_Waves pws) \<and>
     (\<exists>pf \<in> set (planned_files (Plan_Waves pws)). pf_project pf = Some ''setup'' \<and> pf_names pf = None)"
proof -
  let ?sel = "[((Some ''app'', ''x''), Some [''one''])]"
  let ?first = "demo_project ''setup'' [] [''s'']" and ?app = "demo_project ''app'' [''setup''] [''x'']"
  have "project_waves_of demo_run_all = Some demo_waves" "distinct (map proj_name (concat demo_waves))"
    "list_all (\<lambda>p. \<not> synthesized p) (concat demo_waves)"
    by (simp_all add: demo_selection_defs)
  moreover have "waves_ordered demo_waves"
    by (auto simp: waves_ordered_def demo_selection_defs less_Suc_eq nth_Cons')
  ultimately obtain pws where pws: "plan_run_all demo_run_all (Some ?sel) True = Some (Plan_Waves pws)"
    "\<forall>pf. pf \<in> set (planned_files (Plan_Waves pws)) \<longleftrightarrow> (\<exists>p \<in> set (concat demo_waves). planned_of ?sel (concat demo_waves) p pf)"
    using dependencies_planned_whole [of demo_run_all demo_waves ?sel] by blast
  have "?app \<in> set (selected_projects ?sel (concat demo_waves))"
    by (simp add: selected_projects_def demo_selection_defs project_label_def)
  moreover have "(''setup'', proj_name ?app) \<in> (project_edges (concat demo_waves))\<^sup>+"
    by (rule r_into_trancl) (simp add: project_edges_def demo_selection_defs)
  ultimately have "depended_on ?sel (concat demo_waves) ''setup''" unfolding depended_on_def by blast
  then have "planned_of ?sel (concat demo_waves) ?first \<lparr> pf_path = ''s'', pf_use = None, pf_project = Some ''setup'', pf_names = None \<rparr>"
    (is "planned_of _ _ _ ?pf")
    by (simp add: planned_of_def demo_project_def)
  moreover have "?first \<in> set (concat demo_waves)" by (simp add: demo_waves_def)
  ultimately have "?pf \<in> set (planned_files (Plan_Waves pws))" using pws(2) by blast
  moreover have "pf_project ?pf = Some ''setup'' \<and> pf_names ?pf = None" by simp
  ultimately show ?thesis using pws(1) by blast
qed

end
