(* ===== verification/Mcp_Router.thy ===== *)
theory Mcp_Router
  imports TS_Prelude
begin

text \<open>
  The sessions of the MCP server in UI mode (\<open>mcp/http-session-router.ts\<close>, with the client reports of
  \<open>attachMcpClientEventReporting\<close> in \<open>mcp/index.ts\<close>): which request goes to which session, what keeps one
  alive and what removes it. Transport and server are the MCP SDK's: which callbacks a close of one
  makes, in which order, is an argument. Streams are numbered; a session is known by its id, which the
  code draws at random and the steps draw fresh.
\<close>

section \<open>Request bodies\<close>

datatype body_event = Data_Chunk string | Body_End | Body_Error | Body_Closed

datatype 'j body_outcome = Body_Read "'j option" | Payload_Too_Large | Body_Failed

text \<open>\<open>readJsonBody\<close>: the first event that settles the promise, or none. \<open>parse\<close> decodes and parses the bytes.\<close>

fun read_chunks :: "nat \<Rightarrow> (string \<Rightarrow> 'j option) \<Rightarrow> string \<Rightarrow> body_event list \<Rightarrow> 'j body_outcome option" where
  "read_chunks max_bytes parse chunks [] = None"
| "read_chunks max_bytes parse chunks (Data_Chunk c # events) =
     (if length chunks + length c > max_bytes then Some Payload_Too_Large
      else read_chunks max_bytes parse (chunks @ c) events)"
| "read_chunks max_bytes parse chunks (Body_End # events) =
     (if length chunks = 0 then Some (Body_Read None)
      else case parse chunks of Some v \<Rightarrow> Some (Body_Read (Some v)) | None \<Rightarrow> Some Body_Failed)"
| "read_chunks max_bytes parse chunks (Body_Error # events) = Some Body_Failed"
| "read_chunks max_bytes parse chunks (Body_Closed # events) = Some Body_Failed"

definition read_json_body :: "nat \<Rightarrow> (string \<Rightarrow> 'j option) \<Rightarrow> body_event list \<Rightarrow> 'j body_outcome option" where
  "read_json_body max_bytes parse events = read_chunks max_bytes parse [] events"

section \<open>The router\<close>

record router_options =
  session_grace :: nat
  idle_timeout :: nat

definition default_router_options :: router_options where
  "default_router_options = \<lparr> session_grace = 30000, idle_timeout = 120000 \<rparr>"

record mcp_session =
  last_activity :: nat
  standby_res :: "nat option"

text \<open>
  The router with the reports it made, the clock, the servers whose \<open>connected\<close> flag is set and the
  streams that are ended or destroyed.
\<close>

record mcp_router =
  rt_sessions :: "(string, mcp_session) jsmap"
  rt_clients :: "(string, string) jsmap"
  reap_timers :: "(string, nat) jsmap"
  told_clients :: "string list list"
  connected_servers :: "string list"
  ended_streams :: "nat list"
  router_clock :: nat

definition new_router :: mcp_router where
  "new_router = \<lparr> rt_sessions = [], rt_clients = [], reap_timers = [], told_clients = [], connected_servers = [],
     ended_streams = [], router_clock = 0 \<rparr>"

definition client_list :: "mcp_router \<Rightarrow> string list" where
  "client_list r = map snd (rt_clients r)"

definition clients_changed :: "mcp_router \<Rightarrow> mcp_router" where
  "clients_changed r = r\<lparr> told_clients := told_clients r @ [client_list r] \<rparr>"

definition cancel_reap :: "string \<Rightarrow> mcp_router \<Rightarrow> mcp_router" where
  "cancel_reap sid r = r\<lparr> reap_timers := map_del sid (reap_timers r) \<rparr>"

text \<open>What the router does with a server's report of its client.\<close>

definition report_client :: "string \<Rightarrow> string option \<Rightarrow> mcp_router \<Rightarrow> mcp_router" where
  "report_client sid info r =
     clients_changed (case info of
       Some i \<Rightarrow> r\<lparr> rt_clients := map_set sid i (rt_clients r) \<rparr>
     | None \<Rightarrow> r\<lparr> rt_clients := map_del sid (rt_clients r) \<rparr>)"

text \<open>\<open>oninitialized\<close> and \<open>onclose\<close> of a session's server.\<close>

definition server_initialized :: "string \<Rightarrow> string \<Rightarrow> mcp_router \<Rightarrow> mcp_router" where
  "server_initialized sid info r = report_client sid (Some info) (r\<lparr> connected_servers := set_add sid (connected_servers r) \<rparr>)"

definition server_closed :: "string \<Rightarrow> mcp_router \<Rightarrow> mcp_router" where
  "server_closed sid r =
     (if sid \<in> set (connected_servers r)
      then report_client sid None (r\<lparr> connected_servers := set_del sid (connected_servers r) \<rparr>) else r)"

text \<open>The callbacks of a close; once its session is gone, that of the transport only cancels a timer.\<close>

datatype close_callback = Transport_Closes | Server_Closes

fun late_callback :: "string \<Rightarrow> close_callback \<Rightarrow> mcp_router \<Rightarrow> mcp_router" where
  "late_callback sid Transport_Closes r = cancel_reap sid r"
| "late_callback sid Server_Closes r = server_closed sid r"

definition cleanup_session :: "close_callback list \<Rightarrow> string \<Rightarrow> mcp_router \<Rightarrow> mcp_router" where
  "cleanup_session closes sid r =
     (let r1 = cancel_reap sid r in
      case map_get (rt_sessions r1) sid of
        None \<Rightarrow> r1
      | Some session \<Rightarrow>
          clients_changed (fold (late_callback sid) closes
            (r1\<lparr> rt_sessions := map_del sid (rt_sessions r1), rt_clients := map_del sid (rt_clients r1) \<rparr>)))"

fun close_effect :: "close_callback list \<Rightarrow> string \<Rightarrow> close_callback \<Rightarrow> mcp_router \<Rightarrow> mcp_router" where
  "close_effect closes sid Transport_Closes r = cleanup_session closes sid r"
| "close_effect closes sid Server_Closes r = server_closed sid r"

definition reap_session :: "close_callback list \<Rightarrow> string \<Rightarrow> mcp_router \<Rightarrow> mcp_router" where
  "reap_session closes sid r =
     (case map_get (rt_sessions r) sid of
        None \<Rightarrow> r
      | Some session \<Rightarrow> cleanup_session closes sid (fold (close_effect closes sid) closes r))"

definition schedule_reap :: "router_options \<Rightarrow> close_callback list \<Rightarrow> string \<Rightarrow> mcp_router \<Rightarrow> mcp_router" where
  "schedule_reap opts closes sid r =
     (if map_get (rt_sessions r) sid = None then r
      else if session_grace opts = 0 then reap_session closes sid r
      else let r1 = cancel_reap sid r in
        r1\<lparr> reap_timers := map_set sid (router_clock r1 + session_grace opts) (reap_timers r1) \<rparr>)"

definition reap_timer_fires :: "close_callback list \<Rightarrow> string \<Rightarrow> mcp_router \<Rightarrow> mcp_router" where
  "reap_timer_fires closes sid r = reap_session closes sid (cancel_reap sid r)"

section \<open>Streams\<close>

text \<open>A session object outside the map is no longer looked at, so changes of it are dropped.\<close>

definition update_session :: "string \<Rightarrow> (mcp_session \<Rightarrow> mcp_session) \<Rightarrow> mcp_router \<Rightarrow> mcp_router" where
  "update_session sid f r =
     (case map_get (rt_sessions r) sid of
        None \<Rightarrow> r
      | Some s \<Rightarrow> r\<lparr> rt_sessions := map_set sid (f s) (rt_sessions r) \<rparr>)"

definition register_standby_stream :: "string \<Rightarrow> nat \<Rightarrow> mcp_router \<Rightarrow> mcp_router" where
  "register_standby_stream sid res r = update_session sid (\<lambda>s. s\<lparr> standby_res := Some res \<rparr>) r"

text \<open>The \<open>close\<close> event of a stream registered for the session.\<close>

definition standby_closed :: "router_options \<Rightarrow> close_callback list \<Rightarrow> string \<Rightarrow> nat \<Rightarrow> mcp_router \<Rightarrow> mcp_router" where
  "standby_closed opts closes sid res r =
     (case map_get (rt_sessions r) sid of
        None \<Rightarrow> r
      | Some s \<Rightarrow>
          if standby_res s \<noteq> Some res then r
          else schedule_reap opts closes sid (update_session sid (\<lambda>s. s\<lparr> standby_res := None \<rparr>) r))"

definition standby_dead :: "mcp_router \<Rightarrow> mcp_session \<Rightarrow> bool" where
  "standby_dead r s = (case standby_res s of Some res \<Rightarrow> res \<in> set (ended_streams r) | None \<Rightarrow> False)"

definition has_live_standby :: "mcp_router \<Rightarrow> mcp_session \<Rightarrow> bool" where
  "has_live_standby r s \<longleftrightarrow> standby_res s \<noteq> None \<and> \<not> standby_dead r s"

definition idle_expired :: "router_options \<Rightarrow> mcp_router \<Rightarrow> mcp_session \<Rightarrow> bool" where
  "idle_expired opts r s \<longleftrightarrow> idle_timeout opts > 0 \<and> router_clock r - last_activity s > idle_timeout opts"

definition sweep_session :: "router_options \<Rightarrow> close_callback list \<Rightarrow> string \<times> mcp_session \<Rightarrow> mcp_router \<Rightarrow> mcp_router" where
  "sweep_session opts closes entry r =
     (let (sid, s) = entry in
      if has_live_standby r s then r
      else if standby_dead r s \<or> idle_expired opts r s then reap_session closes sid r
      else r)"

definition sweep :: "router_options \<Rightarrow> close_callback list \<Rightarrow> mcp_router \<Rightarrow> mcp_router" where
  "sweep opts closes r = fold (sweep_session opts closes) (rt_sessions r) r"

section \<open>Requests\<close>

datatype http_method = POST | GET | DELETE | Other_Method

datatype router_reply =
    Reply_Parse_Error
  | Reply_Too_Large
  | Reply_No_Session
  | To_Transport string
  | Create_Session

text \<open>The session a request's header names when it arrives; an empty header is none.\<close>

definition session_id_of :: "string option \<Rightarrow> string option" where
  "session_id_of header = (if header = Some [] then None else header)"

definition existing_session :: "string option \<Rightarrow> mcp_router \<Rightarrow> string option" where
  "existing_session header r =
     (case session_id_of header of
        Some sid \<Rightarrow> if map_get (rt_sessions r) sid \<noteq> None then Some sid else None
      | None \<Rightarrow> None)"

text \<open>What follows the body: \<open>existing\<close> is the session found on arrival, \<open>res\<close> the response's stream.\<close>

definition route_request :: "http_method \<Rightarrow> string option \<Rightarrow> string option \<Rightarrow> nat \<Rightarrow> bool \<Rightarrow> mcp_router \<Rightarrow> mcp_router \<times> router_reply" where
  "route_request verb header existing res is_initialize r =
     (case existing of
        Some sid \<Rightarrow>
          (let r1 = cancel_reap sid (update_session sid (\<lambda>s. s\<lparr> last_activity := router_clock r \<rparr>) r) in
           (if verb = GET then register_standby_stream sid res r1 else r1, To_Transport sid))
      | None \<Rightarrow>
          if verb = POST \<and> session_id_of header = None \<and> is_initialize then (r, Create_Session)
          else (r, Reply_No_Session))"

definition handle_request :: "http_method \<Rightarrow> string option \<Rightarrow> string option \<Rightarrow> nat \<Rightarrow> 'j body_outcome \<Rightarrow> ('j option \<Rightarrow> bool) \<Rightarrow>
    mcp_router \<Rightarrow> mcp_router \<times> router_reply" where
  "handle_request verb header existing res body is_initialize r =
     (if verb = POST then
        (case body of
           Payload_Too_Large \<Rightarrow> (r, Reply_Too_Large)
         | Body_Failed \<Rightarrow> (r, Reply_Parse_Error)
         | Body_Read b \<Rightarrow> route_request verb header existing res (is_initialize b) r)
      else route_request verb header existing res False r)"

text \<open>\<open>createSession\<close>: the SDK announces the session's id, or the handling of its request throws.\<close>

definition session_initialized :: "string \<Rightarrow> mcp_router \<Rightarrow> mcp_router" where
  "session_initialized sid r =
     r\<lparr> rt_sessions := map_set sid \<lparr> last_activity = router_clock r, standby_res = None \<rparr> (rt_sessions r) \<rparr>"

definition init_failed :: "close_callback list \<Rightarrow> string option \<Rightarrow> mcp_router \<Rightarrow> mcp_router" where
  "init_failed closes bound r =
     (case bound of
        None \<Rightarrow> r
      | Some sid \<Rightarrow> fold (close_effect closes sid) closes (cleanup_session closes sid (fold (close_effect closes sid) closes r)))"

text \<open>\<open>close\<close>.\<close>

definition close_router :: "close_callback list \<Rightarrow> mcp_router \<Rightarrow> mcp_router" where
  "close_router closes r =
     (let r1 = r\<lparr> reap_timers := [] \<rparr>;
          r2 = fold (\<lambda>(sid, s). fold (close_effect closes sid) (closes @ closes)) (rt_sessions r1) r1
      in r2\<lparr> rt_sessions := [], rt_clients := [] \<rparr>)"

section \<open>The steps of a router's life\<close>

text \<open>
  A POST that waits for its body holds the session it found on arrival. \<open>issued\<close> are the ids drawn so
  far; a stream that closes was opened for some session.
\<close>

record router_world =
  the_router :: mcp_router
  waiting_posts :: "(nat \<times> string option \<times> string option) list" \<comment> \<open>response, header, session found\<close>
  issued_ids :: "string list"

definition new_world :: router_world where
  "new_world = \<lparr> the_router = new_router, waiting_posts = [], issued_ids = [] \<rparr>"

datatype router_event =
    Post_Arrives nat "string option"
  | Body_Arrives nat
  | Plain_Request http_method nat "string option"
  | Session_Announced string
  | Creation_Fails "string option"
  | Server_Initialized string string
  | Transport_Callback string
  | Server_Callback string
  | Stream_Ends nat
  | Stream_Closes string nat
  | Reap_Timer string
  | Sweep_Timer
  | Time_Passes nat

inductive router_step :: "router_options \<Rightarrow> ('j option \<Rightarrow> bool) \<Rightarrow> router_world \<Rightarrow> router_event \<Rightarrow> router_world \<Rightarrow> bool"
  for opts is_init where
  post_arrives: "router_step opts is_init w (Post_Arrives n header)
     (w\<lparr> waiting_posts := (n, header, existing_session header (the_router w)) # waiting_posts w \<rparr>)"
| body_arrives: "(n, header, found) \<in> set (waiting_posts w) \<Longrightarrow>
     router_step opts is_init w (Body_Arrives n)
       (w\<lparr> the_router := fst (handle_request POST header found n body is_init (the_router w)),
           waiting_posts := remove1 (n, header, found) (waiting_posts w) \<rparr>)"
| plain_request: "verb \<noteq> POST \<Longrightarrow>
     router_step opts is_init w (Plain_Request verb res header)
       (w\<lparr> the_router := fst (handle_request verb header (existing_session header (the_router w)) res Body_Failed is_init (the_router w)) \<rparr>)"
| session_announced: "sid \<notin> set (issued_ids w) \<Longrightarrow>
     router_step opts is_init w (Session_Announced sid)
       (w\<lparr> the_router := session_initialized sid (the_router w), issued_ids := sid # issued_ids w \<rparr>)"
| creation_fails: "set_option bound \<subseteq> set (issued_ids w) \<Longrightarrow>
     router_step opts is_init w (Creation_Fails bound) (w\<lparr> the_router := init_failed closes bound (the_router w) \<rparr>)"
| server_initialized: "sid \<in> set (issued_ids w) \<Longrightarrow>
     router_step opts is_init w (Server_Initialized sid info)
     (w\<lparr> the_router := server_initialized sid info (the_router w) \<rparr>)"
| transport_callback: "router_step opts is_init w (Transport_Callback sid) (w\<lparr> the_router := cleanup_session closes sid (the_router w) \<rparr>)"
| server_callback: "router_step opts is_init w (Server_Callback sid) (w\<lparr> the_router := server_closed sid (the_router w) \<rparr>)"
| stream_ends: "router_step opts is_init w (Stream_Ends res)
     (w\<lparr> the_router := (the_router w)\<lparr> ended_streams := set_add res (ended_streams (the_router w)) \<rparr> \<rparr>)"
| stream_closes: "res \<in> set (ended_streams (the_router w)) \<Longrightarrow>
     router_step opts is_init w (Stream_Closes sid res) (w\<lparr> the_router := standby_closed opts closes sid res (the_router w) \<rparr>)"
| reap_timer: "map_get (reap_timers (the_router w)) sid = Some deadline \<Longrightarrow> deadline \<le> router_clock (the_router w) \<Longrightarrow>
     router_step opts is_init w (Reap_Timer sid) (w\<lparr> the_router := reap_timer_fires closes sid (the_router w) \<rparr>)"
| sweep_timer: "idle_timeout opts > 0 \<Longrightarrow>
     router_step opts is_init w Sweep_Timer (w\<lparr> the_router := sweep opts closes (the_router w) \<rparr>)"
| time_passes: "router_step opts is_init w (Time_Passes ms)
     (w\<lparr> the_router := (the_router w)\<lparr> router_clock := router_clock (the_router w) + ms \<rparr> \<rparr>)"

inductive router_run :: "router_options \<Rightarrow> ('j option \<Rightarrow> bool) \<Rightarrow> router_event list \<Rightarrow> router_world \<Rightarrow> bool" for opts is_init where
  run_new: "router_run opts is_init [] new_world"
| run_step: "router_run opts is_init es w \<Longrightarrow> router_step opts is_init w e w' \<Longrightarrow> router_run opts is_init (es @ [e]) w'"

inductive_cases router_stepE: "router_step opts is_init w e w'"

end
