(* ===== verification/Router_Safety.thy ===== *)
theory Router_Safety
  imports Mcp_Router
begin

text \<open>
  What keeps an MCP session alive and what ends it, over every interleaving of requests, bodies, closing
  streams, timers, sweeps and callbacks of the SDK.
\<close>

named_theorems router_fields \<open>effect of the router's operations on its fields\<close>

section \<open>Effects\<close>

lemma map_del_absent: "map_get m k = None \<Longrightarrow> map_del k m = m"
  unfolding map_del_def by (induction m) (auto split: if_splits)

lemma map_del_idem [simp]: "map_del k (map_del k m) = map_del k m"
  by (simp add: map_del_def)

lemma report_client_fields [router_fields]:
  "rt_sessions (report_client sid info r) = rt_sessions r" "reap_timers (report_client sid info r) = reap_timers r"
  "router_clock (report_client sid info r) = router_clock r" "ended_streams (report_client sid info r) = ended_streams r"
  by (cases info; simp add: report_client_def clients_changed_def)+

lemma server_fields [router_fields]:
  "rt_sessions (server_closed sid r) = rt_sessions r" "reap_timers (server_closed sid r) = reap_timers r"
  "router_clock (server_closed sid r) = router_clock r" "ended_streams (server_closed sid r) = ended_streams r"
  "rt_sessions (server_initialized sid info r) = rt_sessions r" "reap_timers (server_initialized sid info r) = reap_timers r"
  "router_clock (server_initialized sid info r) = router_clock r" "ended_streams (server_initialized sid info r) = ended_streams r"
  by (simp_all add: server_closed_def server_initialized_def router_fields)

lemma cancel_reap_fields [router_fields]:
  "rt_sessions (cancel_reap sid r) = rt_sessions r" "reap_timers (cancel_reap sid r) = map_del sid (reap_timers r)"
  "router_clock (cancel_reap sid r) = router_clock r" "ended_streams (cancel_reap sid r) = ended_streams r"
  "rt_clients (cancel_reap sid r) = rt_clients r" "told_clients (cancel_reap sid r) = told_clients r"
  by (simp_all add: cancel_reap_def)

lemma late_callbacks_fields [router_fields]:
  "rt_sessions (fold (late_callback sid) cs r) = rt_sessions r"
  "router_clock (fold (late_callback sid) cs r) = router_clock r" "ended_streams (fold (late_callback sid) cs r) = ended_streams r"
  "map_del sid (reap_timers (fold (late_callback sid) cs r)) = map_del sid (reap_timers r)"
proof -
  have one: "rt_sessions (late_callback sid c r) = rt_sessions r \<and> router_clock (late_callback sid c r) = router_clock r \<and>
      ended_streams (late_callback sid c r) = ended_streams r \<and> map_del sid (reap_timers (late_callback sid c r)) = map_del sid (reap_timers r)" for c r
    by (cases c) (simp_all add: router_fields)
  have "rt_sessions (fold (late_callback sid) cs r) = rt_sessions r \<and> router_clock (fold (late_callback sid) cs r) = router_clock r \<and>
      ended_streams (fold (late_callback sid) cs r) = ended_streams r \<and>
      map_del sid (reap_timers (fold (late_callback sid) cs r)) = map_del sid (reap_timers r)"
    by (induction cs arbitrary: r) (simp_all add: one)
  then show "rt_sessions (fold (late_callback sid) cs r) = rt_sessions r"
    "router_clock (fold (late_callback sid) cs r) = router_clock r" "ended_streams (fold (late_callback sid) cs r) = ended_streams r"
    "map_del sid (reap_timers (fold (late_callback sid) cs r)) = map_del sid (reap_timers r)" by simp_all
qed

lemma late_callbacks_timers:
  "reap_timers r = map_del sid ts \<Longrightarrow> reap_timers (fold (late_callback sid) cs r) = map_del sid ts"
proof (induction cs arbitrary: r)
  case (Cons c cs)
  then show ?case by (cases c) (simp_all add: router_fields)
qed simp

lemma cleanup_fields [router_fields]:
  "rt_sessions (cleanup_session cs sid r) = map_del sid (rt_sessions r)"
  "reap_timers (cleanup_session cs sid r) = map_del sid (reap_timers r)"
  "router_clock (cleanup_session cs sid r) = router_clock r" "ended_streams (cleanup_session cs sid r) = ended_streams r"
  by (auto simp: cleanup_session_def Let_def router_fields clients_changed_def map_del_absent late_callbacks_timers split: option.split)

lemma close_effects_fields [router_fields]:
  "map_del sid (rt_sessions (fold (close_effect cs sid) ds r)) = map_del sid (rt_sessions r)"
  "map_del sid (reap_timers (fold (close_effect cs sid) ds r)) = map_del sid (reap_timers r)"
  "router_clock (fold (close_effect cs sid) ds r) = router_clock r" "ended_streams (fold (close_effect cs sid) ds r) = ended_streams r"
proof -
  have one: "map_del sid (rt_sessions (close_effect cs sid d r)) = map_del sid (rt_sessions r) \<and>
      map_del sid (reap_timers (close_effect cs sid d r)) = map_del sid (reap_timers r) \<and>
      router_clock (close_effect cs sid d r) = router_clock r \<and> ended_streams (close_effect cs sid d r) = ended_streams r" for d r
    by (cases d) (simp_all add: router_fields)
  have "map_del sid (rt_sessions (fold (close_effect cs sid) ds r)) = map_del sid (rt_sessions r) \<and>
      map_del sid (reap_timers (fold (close_effect cs sid) ds r)) = map_del sid (reap_timers r) \<and>
      router_clock (fold (close_effect cs sid) ds r) = router_clock r \<and> ended_streams (fold (close_effect cs sid) ds r) = ended_streams r"
    by (induction ds arbitrary: r) (simp_all add: one)
  then show "map_del sid (rt_sessions (fold (close_effect cs sid) ds r)) = map_del sid (rt_sessions r)"
    "map_del sid (reap_timers (fold (close_effect cs sid) ds r)) = map_del sid (reap_timers r)"
    "router_clock (fold (close_effect cs sid) ds r) = router_clock r" "ended_streams (fold (close_effect cs sid) ds r) = ended_streams r"
    by simp_all
qed

lemma reap_fields [router_fields]:
  "rt_sessions (reap_session cs sid r) = map_del sid (rt_sessions r)"
  "reap_timers (reap_session cs sid r) = (if map_get (rt_sessions r) sid = None then reap_timers r else map_del sid (reap_timers r))"
  "router_clock (reap_session cs sid r) = router_clock r" "ended_streams (reap_session cs sid r) = ended_streams r"
  by (auto simp: reap_session_def router_fields map_del_absent split: option.split)

text \<open>One update of a session, or none.\<close>

lemma update_fields [router_fields]:
  "map_get (rt_sessions (update_session sid f r)) = (map_get (rt_sessions r))(sid := map_option f (map_get (rt_sessions r) sid))"
  "reap_timers (update_session sid f r) = reap_timers r"
  "router_clock (update_session sid f r) = router_clock r" "ended_streams (update_session sid f r) = ended_streams r"
  "map_wf (rt_sessions (update_session sid f r)) = map_wf (rt_sessions r)"
  by (auto simp: update_session_def fun_eq_iff split: option.split)

section \<open>The invariant\<close>

text \<open>
  Sessions are activated in the past; a reap timer belongs to a session without a standby stream and is
  due no earlier than the grace period after its last request.
\<close>

definition timed_well :: "router_options \<Rightarrow> (string \<rightharpoonup> mcp_session) \<Rightarrow> (string \<rightharpoonup> nat) \<Rightarrow> nat \<Rightarrow> bool" where
  "timed_well opts sessions timers clock \<longleftrightarrow>
     (\<forall>sid s. sessions sid = Some s \<longrightarrow> last_activity s \<le> clock) \<and>
     (\<forall>sid d. timers sid = Some d \<longrightarrow> (\<exists>s. sessions sid = Some s \<and> standby_res s = None \<and> last_activity s + session_grace opts \<le> d))"

lemma timed_wellD:
  assumes "timed_well opts sessions timers clock"
  shows "sessions sid = Some s \<Longrightarrow> last_activity s \<le> clock"
    and "timers sid = Some d \<Longrightarrow> \<exists>s. sessions sid = Some s \<and> standby_res s = None \<and> last_activity s + session_grace opts \<le> d"
  using assms unfolding timed_well_def by blast+

lemma timed_well_remove: "timed_well opts S T c \<Longrightarrow> timed_well opts (S(sid := None)) (T(sid := None)) c"
  unfolding timed_well_def by auto

lemma timed_well_cancel: "timed_well opts S T c \<Longrightarrow> timed_well opts S (T(sid := None)) c"
  unfolding timed_well_def by auto

lemma timed_well_later: "timed_well opts S T c \<Longrightarrow> c \<le> c' \<Longrightarrow> timed_well opts S T c'"
  unfolding timed_well_def by (meson order_trans)

lemma timed_well_set: "timed_well opts S T c \<Longrightarrow> T sid = None \<Longrightarrow> last_activity s \<le> c \<Longrightarrow> timed_well opts (S(sid \<mapsto> s)) T c"
  unfolding timed_well_def by auto

lemma timed_well_schedule:
  "timed_well opts S T c \<Longrightarrow> S sid = Some s \<Longrightarrow> standby_res s = None \<Longrightarrow> timed_well opts S (T(sid \<mapsto> c + session_grace opts)) c"
  unfolding timed_well_def by auto

definition router_ok :: "router_options \<Rightarrow> mcp_router \<Rightarrow> bool" where
  "router_ok opts r \<longleftrightarrow> map_wf (rt_sessions r) \<and> timed_well opts (map_get (rt_sessions r)) (map_get (reap_timers r)) (router_clock r)"

lemma map_wf_map_del: "map_wf m \<Longrightarrow> map_wf (map_del k m)"
  by (simp add: map_wf_def distinct_set_del)

lemma cleanup_ok: "router_ok opts r \<Longrightarrow> router_ok opts (cleanup_session cs sid r)"
  by (simp add: router_ok_def router_fields map_wf_map_del timed_well_remove)

lemma server_closed_ok: "router_ok opts r \<Longrightarrow> router_ok opts (server_closed sid r)"
  by (simp add: router_ok_def router_fields)

lemma close_effects_ok: "router_ok opts r \<Longrightarrow> router_ok opts (fold (close_effect cs sid) ds r)"
proof (induction ds arbitrary: r)
  case (Cons d ds)
  then show ?case by (cases d) (simp_all add: cleanup_ok server_closed_ok)
qed simp

lemma reap_ok: "router_ok opts r \<Longrightarrow> router_ok opts (reap_session cs sid r)"
  by (auto simp: reap_session_def cleanup_ok close_effects_ok split: option.split)

lemma cancel_ok: "router_ok opts r \<Longrightarrow> router_ok opts (cancel_reap sid r)"
  by (simp add: router_ok_def router_fields timed_well_cancel)

lemma sweep_ok: "router_ok opts r \<Longrightarrow> router_ok opts (sweep opts cs r)"
proof -
  have "router_ok opts (fold (sweep_session opts cs) es r)" if "router_ok opts r" for es
    using that by (induction es arbitrary: r) (auto simp: sweep_session_def Let_def reap_ok split: prod.split)
  then show "router_ok opts r \<Longrightarrow> router_ok opts (sweep opts cs r)" by (simp add: sweep_def)
qed

lemma update_ok:
  assumes "router_ok opts r" and "map_get (reap_timers r) sid = None"
    and "\<And>s. last_activity s \<le> router_clock r \<Longrightarrow> last_activity (f s) \<le> router_clock r"
  shows "router_ok opts (update_session sid f r)"
proof (cases "map_get (rt_sessions r) sid")
  case None
  with assms(1) show ?thesis by (simp add: update_session_def)
next
  case (Some s)
  then have "last_activity (f s) \<le> router_clock r" using assms(1,3) timed_wellD(1) unfolding router_ok_def by blast
  with assms(1,2) Some show ?thesis by (simp add: router_ok_def router_fields timed_well_set)
qed

lemma cancel_update: "cancel_reap sid (update_session sid f r) = update_session sid f (cancel_reap sid r)"
  by (simp add: cancel_reap_def update_session_def split: option.split)

lemma schedule_ok:
  assumes "router_ok opts r" and "map_get (rt_sessions r) sid = Some s" and "standby_res s = None"
  shows "router_ok opts (schedule_reap opts cs sid r)"
proof (cases "session_grace opts = 0")
  case True
  with assms show ?thesis by (simp add: schedule_reap_def reap_ok)
next
  case False
  with assms timed_well_schedule [OF timed_well_cancel, of opts "map_get (rt_sessions r)" "map_get (reap_timers r)" "router_clock r" sid s sid]
  show ?thesis by (simp add: schedule_reap_def Let_def router_ok_def router_fields)
qed

lemma standby_closed_ok:
  assumes "router_ok opts r"
  shows "router_ok opts (standby_closed opts cs sid res r)"
proof (cases "\<exists>s. map_get (rt_sessions r) sid = Some s \<and> standby_res s = Some res")
  case False
  with assms show ?thesis by (auto simp: standby_closed_def split: option.split)
next
  case True
  then obtain s where s: "map_get (rt_sessions r) sid = Some s" "standby_res s = Some res" by blast
  let ?r = "update_session sid (\<lambda>s. s\<lparr> standby_res := None \<rparr>) r"
  have "map_get (reap_timers r) sid = None"
  proof (rule ccontr)
    assume "map_get (reap_timers r) sid \<noteq> None"
    then obtain d where "map_get (reap_timers r) sid = Some d" by blast
    with assms timed_wellD(2) s show False unfolding router_ok_def by fastforce
  qed
  with assms have "router_ok opts ?r" by (simp add: update_ok)
  then have "router_ok opts (schedule_reap opts cs sid ?r)"
    by (rule schedule_ok [where s = "s\<lparr> standby_res := None \<rparr>"]) (simp_all add: router_fields s)
  with s show ?thesis by (simp add: standby_closed_def)
qed

lemma route_request_ok:
  assumes "router_ok opts r"
  shows "router_ok opts (fst (route_request verb header existing res init r))"
proof (cases existing)
  case None
  with assms show ?thesis by (simp add: route_request_def)
next
  case (Some sid)
  let ?r = "update_session sid (\<lambda>s. s\<lparr> last_activity := router_clock r \<rparr>) (cancel_reap sid r)"
  have ok: "router_ok opts ?r"
    by (rule update_ok [OF cancel_ok [OF assms]]) (simp_all add: router_fields)
  moreover have "router_ok opts (register_standby_stream sid res ?r)"
    unfolding register_standby_stream_def by (rule update_ok [OF ok]) (simp_all add: router_fields)
  ultimately show ?thesis using Some by (simp add: route_request_def Let_def cancel_update)
qed

lemma handle_request_ok:
  "router_ok opts r \<Longrightarrow> router_ok opts (fst (handle_request verb header existing res body init r))"
  by (cases body) (simp_all add: handle_request_def route_request_ok)

text \<open>Sessions have ids that were drawn.\<close>

definition world_ok :: "router_options \<Rightarrow> router_world \<Rightarrow> bool" where
  "world_ok opts w \<longleftrightarrow> router_ok opts (the_router w) \<and>
     (\<forall>sid. map_get (rt_sessions (the_router w)) sid \<noteq> None \<longrightarrow> sid \<in> set (issued_ids w))"

lemma handled_sessions:
  "map_get (rt_sessions (fst (handle_request verb header existing res body init r))) k = None \<longleftrightarrow> map_get (rt_sessions r) k = None"
  by (auto simp: handle_request_def route_request_def register_standby_stream_def Let_def router_fields
      split: body_outcome.split option.split)

lemma close_effects_other:
  assumes "k \<noteq> sid"
  shows "map_get (rt_sessions (fold (close_effect cs sid) ds r)) k = map_get (rt_sessions r) k"
  using arg_cong [OF close_effects_fields(1) [of sid cs ds r], of "\<lambda>m. map_get m k"] assms by simp

lemma close_effects_gone:
  "map_get (rt_sessions r) k = None \<Longrightarrow> map_get (rt_sessions (fold (close_effect cs sid) ds r)) k = None"
proof (induction ds arbitrary: r)
  case (Cons d ds)
  then show ?case by (cases d) (simp_all add: router_fields)
qed simp

lemma init_failed_sessions:
  "map_get (rt_sessions (init_failed cs bound r)) k = (if bound = Some k then None else map_get (rt_sessions r) k)"
proof (cases bound)
  case (Some sid)
  then show ?thesis
    by (cases "k = sid") (simp_all add: init_failed_def close_effects_other close_effects_gone router_fields)
qed (simp add: init_failed_def)

lemma init_failed_ok: "router_ok opts r \<Longrightarrow> router_ok opts (init_failed cs bound r)"
  by (simp add: init_failed_def cleanup_ok close_effects_ok split: option.split)

lemma standby_closed_sessions:
  "map_get (rt_sessions (standby_closed opts cs sid res r)) k = None \<longleftrightarrow>
     map_get (rt_sessions r) k = None \<or>
     (k = sid \<and> session_grace opts = 0 \<and> map_option standby_res (map_get (rt_sessions r) sid) = Some (Some res))"
  by (auto simp: standby_closed_def schedule_reap_def Let_def router_fields split: option.split)

section \<open>The sweep\<close>

text \<open>A sweep reaps a session whose standby stream is dead, and one without a stream that is idle too long.\<close>

definition swept :: "router_options \<Rightarrow> mcp_router \<Rightarrow> mcp_session \<Rightarrow> bool" where
  "swept opts r s \<longleftrightarrow> standby_dead r s \<or> standby_res s = None \<and> idle_expired opts r s"

lemma sweep_session_eq:
  "sweep_session opts cs (sid, s) r = (if swept opts r s then reap_session cs sid r else r)"
  by (auto simp: sweep_session_def swept_def has_live_standby_def standby_dead_def split: option.split)

lemma swept_cong: "router_clock r = router_clock r' \<Longrightarrow> ended_streams r = ended_streams r' \<Longrightarrow> swept opts r = swept opts r'"
  by (auto simp: swept_def standby_dead_def idle_expired_def fun_eq_iff split: option.split)

lemma sweep_fold:
  "rt_sessions (fold (sweep_session opts cs) es r) =
     filter (\<lambda>(k, _). k \<notin> fst ` set (filter (\<lambda>(_, s). swept opts r s) es)) (rt_sessions r)"
proof (induction es arbitrary: r)
  case (Cons e es)
  obtain sid s where e: "e = (sid, s)" by (cases e)
  show ?case
  proof (cases "swept opts r s")
    case True
    have "swept opts (reap_session cs sid r) = swept opts r" by (rule swept_cong) (simp_all add: router_fields)
    with True e Cons [of "reap_session cs sid r"] show ?thesis
      by (simp add: sweep_session_eq router_fields map_del_def case_prod_unfold conj_commute)
  next
    case False
    with e Cons [of r] show ?thesis by (simp add: sweep_session_eq)
  qed
qed simp

lemma sweep_sessions:
  assumes "map_wf (rt_sessions r)"
  shows "rt_sessions (sweep opts cs r) = filter (\<lambda>(_, s). \<not> swept opts r s) (rt_sessions r)"
proof -
  have "k \<in> fst ` set (filter (\<lambda>(_, s). swept opts r s) (rt_sessions r)) \<longleftrightarrow> swept opts r s" if ks: "(k, s) \<in> set (rt_sessions r)" for k s
  proof
    assume "k \<in> fst ` set (filter (\<lambda>(_, s). swept opts r s) (rt_sessions r))"
    then obtain s' where "(k, s') \<in> set (rt_sessions r)" "swept opts r s'" by auto
    with eq_key_imp_eq_value [OF _ ks this(1)] assms show "swept opts r s" by (simp add: map_wf_def map_keys_def)
  next
    assume "swept opts r s"
    with ks have "(k, s) \<in> set (filter (\<lambda>(_, s). swept opts r s) (rt_sessions r))" by simp
    then show "k \<in> fst ` set (filter (\<lambda>(_, s). swept opts r s) (rt_sessions r))" by (rule rev_image_eqI) simp
  qed
  then show ?thesis unfolding sweep_def sweep_fold by (intro filter_cong [OF refl]) (simp add: case_prod_unfold)
qed

lemma map_of_filter_values:
  "map_wf m \<Longrightarrow> map_get (filter (\<lambda>(_, s). P s) m) k = (case map_get m k of Some s \<Rightarrow> if P s then Some s else None | None \<Rightarrow> None)"
proof (induction m)
  case (Cons e m)
  obtain a b where e: "e = (a, b)" by (cases e)
  with Cons.prems have "distinct (map fst ((a, b) # m))" unfolding map_wf_def map_keys_def by blast
  then have wf: "map_wf m" and "a \<notin> fst ` set m" unfolding map_wf_def map_keys_def by auto
  then have a: "map_get m a = None" unfolding map_of_eq_None_iff by blast
  show ?case
  proof (cases "k = a")
    case True
    with e a Cons.IH [OF wf] show ?thesis by simp
  next
    case False
    with e Cons.IH [OF wf] show ?thesis by simp
  qed
qed simp

section \<open>Every run\<close>

lemma world_ok_step:
  assumes "router_step opts is_init w e w'" and "world_ok opts w"
  shows "world_ok opts w'"
  using assms
proof cases
  case (session_announced sid)
  have new: "map_get (rt_sessions (the_router w)) sid = None" using assms(2) session_announced(3) unfolding world_ok_def by blast
  have "map_get (reap_timers (the_router w)) sid = None"
  proof (rule ccontr)
    assume "map_get (reap_timers (the_router w)) sid \<noteq> None"
    with assms(2) new show False unfolding world_ok_def router_ok_def timed_well_def by fastforce
  qed
  with assms(2) session_announced new show ?thesis
    by (auto simp: world_ok_def router_ok_def session_initialized_def intro: timed_well_set)
next
  case (sweep_timer closes)
  have wf: "map_wf (rt_sessions (the_router w))" using assms(2) by (simp add: world_ok_def router_ok_def)
  with sweep_timer assms(2) show ?thesis
    by (auto simp: world_ok_def sweep_sessions map_of_filter_values sweep_ok split: option.splits)
next
  case (stream_ends res)
  with assms(2) show ?thesis by (simp add: world_ok_def router_ok_def)
next
  case (time_passes ms)
  with assms(2) show ?thesis by (auto simp: world_ok_def router_ok_def intro: timed_well_later)
next
  case (server_initialized sid info)
  with assms(2) show ?thesis by (simp add: world_ok_def router_ok_def router_fields)
qed (auto simp: world_ok_def handle_request_ok handled_sessions init_failed_ok init_failed_sessions cleanup_ok server_closed_ok
    standby_closed_ok standby_closed_sessions reap_timer_fires_def reap_ok cancel_ok router_fields split: if_splits)

lemma run_world_ok: "router_run opts is_init es w \<Longrightarrow> world_ok opts w"
proof (induction rule: router_run.induct)
  case run_new
  show ?case by (simp add: new_world_def new_router_def world_ok_def router_ok_def timed_well_def)
next
  case (run_step es w e w')
  then show ?case by (blast intro: world_ok_step)
qed

section \<open>What ends a session\<close>

text \<open>The router gives a session up: what it saw of it at that step.\<close>

definition gives_up :: "router_options \<Rightarrow> mcp_router \<Rightarrow> string \<Rightarrow> mcp_session \<Rightarrow> router_event \<Rightarrow> bool" where
  "gives_up opts r sid s e \<longleftrightarrow>
     (e = Reap_Timer sid \<and> standby_res s = None \<and> last_activity s + session_grace opts \<le> router_clock r) \<or>
     (\<exists>res. e = Stream_Closes sid res \<and> standby_res s = Some res \<and> res \<in> set (ended_streams r) \<and> session_grace opts = 0) \<or>
     (e = Sweep_Timer \<and> (standby_dead r s \<or> standby_res s = None \<and> last_activity s + idle_timeout opts < router_clock r))"

lemma removed_spec:
  assumes "router_step opts is_init w e w'" and ok: "world_ok opts w"
    and s: "map_get (rt_sessions (the_router w)) sid = Some s" and "map_get (rt_sessions (the_router w')) sid = None"
  shows "e = Transport_Callback sid \<or> e = Creation_Fails (Some sid) \<or> gives_up opts (the_router w) sid s e"
  using assms(1,4)
proof cases
  case (reap_timer sid' deadline closes)
  with assms(4) s have sid: "sid' = sid" by (auto simp: reap_timer_fires_def router_fields split: if_splits)
  with reap_timer(3) ok s obtain "standby_res s = None" "last_activity s + session_grace opts \<le> deadline"
    unfolding world_ok_def router_ok_def by (metis timed_wellD(2) option.inject)
  with reap_timer sid show ?thesis by (auto simp: gives_up_def)
next
  case (sweep_timer closes)
  have wf: "map_wf (rt_sessions (the_router w))" using ok by (simp add: world_ok_def router_ok_def)
  with sweep_timer assms(4) s have "swept opts (the_router w) s" by (auto simp: sweep_sessions map_of_filter_values split: if_splits)
  moreover have "last_activity s + idle_timeout opts < router_clock (the_router w)" if "idle_expired opts (the_router w) s"
    using that unfolding idle_expired_def by linarith
  ultimately show ?thesis using sweep_timer(1) by (auto simp: gives_up_def swept_def)
next
  case (stream_closes res sid' closes)
  with assms(4) s show ?thesis by (auto simp: gives_up_def standby_closed_sessions)
qed (use assms(4) s in \<open>auto simp: handled_sessions init_failed_sessions router_fields session_initialized_def split: if_splits\<close>)

section \<open>The client list\<close>

text \<open>No server reports a client after the router has let go of its session.\<close>

inductive orderly_run :: "router_options \<Rightarrow> ('j option \<Rightarrow> bool) \<Rightarrow> router_world \<Rightarrow> bool" for opts is_init where
  orderly_new: "orderly_run opts is_init new_world"
| orderly_step: "orderly_run opts is_init w \<Longrightarrow> router_step opts is_init w e w' \<Longrightarrow>
     (\<forall>sid info. e = Server_Initialized sid info \<longrightarrow> map_get (rt_sessions (the_router w)) sid \<noteq> None) \<Longrightarrow>
     orderly_run opts is_init w'"

definition told_right :: "mcp_router \<Rightarrow> bool" where
  "told_right r \<longleftrightarrow> client_list r = (if told_clients r = [] then [] else List.last (told_clients r))"

definition clients_live :: "mcp_router \<Rightarrow> bool" where
  "clients_live r \<longleftrightarrow> (\<forall>sid. map_get (rt_clients r) sid \<noteq> None \<longrightarrow> map_get (rt_sessions r) sid \<noteq> None)"

definition clients_right :: "mcp_router \<Rightarrow> bool" where
  "clients_right r \<longleftrightarrow> told_right r \<and> clients_live r"

lemma told_changed [simp]: "told_right (clients_changed r)" and live_changed [simp]: "clients_live (clients_changed r) = clients_live r"
  by (simp_all add: told_right_def clients_live_def clients_changed_def client_list_def)

lemma clients_right_same:
  "rt_clients r' = rt_clients r \<Longrightarrow> told_clients r' = told_clients r \<Longrightarrow>
   (\<And>k. map_get (rt_sessions r) k \<noteq> None \<Longrightarrow> map_get (rt_sessions r') k \<noteq> None) \<Longrightarrow> clients_right r \<Longrightarrow> clients_right r'"
  unfolding clients_right_def told_right_def clients_live_def client_list_def by metis

lemma report_clients:
  "rt_clients (report_client sid info r) = (case info of Some i \<Rightarrow> map_set sid i (rt_clients r) | None \<Rightarrow> map_del sid (rt_clients r))"
  by (simp add: report_client_def clients_changed_def split: option.split)

lemma told_report [simp]: "told_right (report_client sid info r)"
  by (simp add: report_client_def)

lemma server_closed_clients: "map_get (rt_clients r) k = None \<Longrightarrow> map_get (rt_clients (server_closed sid r)) k = None"
  by (simp add: server_closed_def report_clients)

lemma server_closed_right: "clients_right r \<Longrightarrow> clients_right (server_closed sid r)"
  unfolding clients_right_def clients_live_def router_fields
  using server_closed_clients [of r _ sid] by (metis server_closed_def told_report)

lemma server_initialized_right:
  "clients_right r \<Longrightarrow> map_get (rt_sessions r) sid \<noteq> None \<Longrightarrow> clients_right (server_initialized sid info r)"
  by (auto simp: clients_right_def clients_live_def server_initialized_def report_clients router_fields)

lemma late_callbacks_clients:
  "map_get (rt_clients r) k = None \<Longrightarrow> map_get (rt_clients (fold (late_callback sid) cs r)) k = None"
proof (induction cs arbitrary: r)
  case (Cons c cs)
  then show ?case by (cases c) (simp_all add: router_fields server_closed_clients)
qed simp

lemma cleanup_right:
  assumes "clients_right r"
  shows "clients_right (cleanup_session cs sid r)"
proof (cases "map_get (rt_sessions r) sid")
  case None
  then have "cleanup_session cs sid r = cancel_reap sid r" by (simp add: cleanup_session_def Let_def router_fields)
  with assms show ?thesis by (auto intro: clients_right_same simp: router_fields)
next
  case (Some s)
  let ?r = "(cancel_reap sid r)\<lparr> rt_sessions := map_del sid (rt_sessions r), rt_clients := map_del sid (rt_clients r) \<rparr>"
  have "cleanup_session cs sid r = clients_changed (fold (late_callback sid) cs ?r)"
    using Some by (simp add: cleanup_session_def Let_def router_fields)
  moreover have "clients_live (fold (late_callback sid) cs ?r)"
    unfolding clients_live_def
  proof (intro allI impI)
    fix k
    assume "map_get (rt_clients (fold (late_callback sid) cs ?r)) k \<noteq> None"
    then have "map_get (rt_clients ?r) k \<noteq> None" by (rule contrapos_nn) (rule late_callbacks_clients)
    with assms show "map_get (rt_sessions (fold (late_callback sid) cs ?r)) k \<noteq> None"
      by (auto simp: clients_right_def clients_live_def router_fields split: if_splits)
  qed
  ultimately show ?thesis by (simp add: clients_right_def)
qed

lemma close_effects_right: "clients_right r \<Longrightarrow> clients_right (fold (close_effect cs sid) ds r)"
proof (induction ds arbitrary: r)
  case (Cons d ds)
  then show ?case by (cases d) (simp_all add: cleanup_right server_closed_right)
qed simp

lemma reap_right: "clients_right r \<Longrightarrow> clients_right (reap_session cs sid r)"
  by (simp add: reap_session_def cleanup_right close_effects_right split: option.split)

lemma cancel_right: "clients_right r \<Longrightarrow> clients_right (cancel_reap sid r)"
  by (erule clients_right_same [rotated -1]) (simp_all add: router_fields)

lemma update_right: "clients_right r \<Longrightarrow> clients_right (update_session sid f r)"
  by (erule clients_right_same [rotated -1]) (auto simp: update_session_def split: option.split)

lemma schedule_right: "clients_right r \<Longrightarrow> clients_right (schedule_reap opts cs sid r)"
  by (auto simp: schedule_reap_def Let_def reap_right router_fields elim!: clients_right_same [rotated -1])

lemma sweep_right: "clients_right r \<Longrightarrow> clients_right (sweep opts cs r)"
proof -
  have "clients_right (fold (sweep_session opts cs) es r)" if "clients_right r" for es
    using that by (induction es arbitrary: r) (auto simp: sweep_session_def Let_def reap_right split: prod.split)
  then show "clients_right r \<Longrightarrow> clients_right (sweep opts cs r)" by (simp add: sweep_def)
qed

lemma handle_request_right: "clients_right r \<Longrightarrow> clients_right (fst (handle_request verb header existing res body init r))"
  by (auto simp: handle_request_def route_request_def register_standby_stream_def Let_def update_right cancel_right
      split: body_outcome.split option.split)

lemma standby_closed_right: "clients_right r \<Longrightarrow> clients_right (standby_closed opts cs sid res r)"
  by (simp add: standby_closed_def schedule_right update_right split: option.split)

lemma clients_right_step:
  assumes "router_step opts is_init w e w'" and "clients_right (the_router w)"
    and "\<And>sid info. e = Server_Initialized sid info \<Longrightarrow> map_get (rt_sessions (the_router w)) sid \<noteq> None"
  shows "clients_right (the_router w')"
  using assms
proof cases
  case (session_announced sid)
  with assms(2) show ?thesis
    by (auto simp: session_initialized_def elim!: clients_right_same [rotated -1])
next
  case (creation_fails bound closes)
  with assms(2) show ?thesis by (simp add: init_failed_def cleanup_right close_effects_right split: option.split)
next
  case (stream_ends res)
  with assms(2) show ?thesis by (auto elim!: clients_right_same [rotated -1])
next
  case (time_passes ms)
  with assms(2) show ?thesis by (auto elim!: clients_right_same [rotated -1])
qed (simp_all add: handle_request_right cleanup_right server_closed_right server_initialized_right standby_closed_right
    reap_timer_fires_def reap_right cancel_right sweep_right)

lemma orderly_clients_right: "orderly_run opts is_init w \<Longrightarrow> clients_right (the_router w)"
proof (induction rule: orderly_run.induct)
  case orderly_new
  show ?case by (simp add: new_world_def new_router_def clients_right_def told_right_def clients_live_def client_list_def)
next
  case (orderly_step w e w')
  then show ?case by (blast intro: clients_right_step)
qed

section \<open>A refused stream\<close>

text \<open>
  A GET that the transport refuses, as the SDK does while the session has a standby stream, has been
  registered as the standby stream by then: its end starts the grace period of a session whose first
  stream is open, and the session is reaped.
\<close>

definition refused_stream_world :: "router_world" where
  "refused_stream_world =
     (let r0 = session_initialized ''a'' new_router;
          get = (\<lambda>res r. fst (handle_request GET (Some ''a'') (existing_session (Some ''a'') r) res (Body_Failed :: unit body_outcome) (\<lambda>_. False) r));
          r1 = get 2 (get 1 r0);
          r2 = standby_closed default_router_options [] ''a'' 2 (r1\<lparr> ended_streams := [2] \<rparr>);
          r3 = r2\<lparr> router_clock := 30000 \<rparr>
      in \<lparr> the_router = reap_timer_fires [] ''a'' r3, waiting_posts = [], issued_ids = [''a''] \<rparr>)"

lemma refused_stream_reaps_session:
  "rt_sessions (the_router refused_stream_world) = []" "1 \<notin> set (ended_streams (the_router refused_stream_world))"
  by (simp_all add: refused_stream_world_def Let_def session_initialized_def new_router_def handle_request_def route_request_def
      existing_session_def session_id_of_def register_standby_stream_def update_session_def cancel_reap_def standby_closed_def
      schedule_reap_def default_router_options_def reap_timer_fires_def reap_session_def cleanup_session_def clients_changed_def
      map_del_def client_list_def)

section \<open>Bodies\<close>

lemma read_chunks_limit:
  "length chunks \<le> max_bytes \<Longrightarrow>
   read_chunks max_bytes parse chunks (map Data_Chunk cs @ [Body_End]) =
     (let body = chunks @ concat cs in
      if length body > max_bytes then Some Payload_Too_Large
      else if body = [] then Some (Body_Read None)
      else (case parse body of Some v \<Rightarrow> Some (Body_Read (Some v)) | None \<Rightarrow> Some Body_Failed))"
  by (induction cs arbitrary: chunks) (simp_all add: Let_def)

text \<open>A body is refused exactly if it is longer than the limit, however it is split into chunks.\<close>

lemma body_limit_exact:
  "read_json_body max_bytes parse (map Data_Chunk cs @ [Body_End]) =
     (let body = concat cs in
      if length body > max_bytes then Some Payload_Too_Large
      else if body = [] then Some (Body_Read None)
      else (case parse body of Some v \<Rightarrow> Some (Body_Read (Some v)) | None \<Rightarrow> Some Body_Failed))"
  unfolding read_json_body_def by (subst read_chunks_limit) simp_all

section \<open>The properties\<close>


text \<open>A session of thirty minutes ago that opened no stream goes at the next sweep.\<close>

definition one_session_world :: router_world where
  "one_session_world = new_world\<lparr> the_router := session_initialized ''a'' new_router, issued_ids := [''a''] \<rparr>"

definition later_world :: router_world where
  "later_world = one_session_world\<lparr> the_router := (the_router one_session_world)\<lparr> router_clock := 1800000 \<rparr> \<rparr>"

lemma one_session_steps:
  "router_step opts is_init new_world (Session_Announced ''a'') one_session_world"
  "router_step opts is_init one_session_world (Time_Passes 1800000) later_world"
  "idle_timeout opts > 0 \<Longrightarrow>
     router_step opts is_init later_world Sweep_Timer (later_world\<lparr> the_router := sweep opts [Transport_Closes] (the_router later_world) \<rparr>)"
  using router_step.session_announced [of "''a''" new_world opts is_init] router_step.time_passes [of opts is_init one_session_world 1800000]
    router_step.sweep_timer [of opts is_init later_world]
  by (simp_all add: one_session_world_def later_world_def new_world_def session_initialized_def new_router_def)

lemma later_run: "router_run opts is_init [Session_Announced ''a'', Time_Passes 1800000] later_world"
  using run_step [OF run_step [OF run_new one_session_steps(1)] one_session_steps(2)] by simp

lemma later_session:
  "map_get (rt_sessions (the_router later_world)) ''a'' = Some \<lparr> last_activity = 0, standby_res = None \<rparr>"
  by (simp add: later_world_def one_session_world_def session_initialized_def new_router_def)


text \<open>
  While servers report their clients before the router lets go of their sessions, the list of connected
  clients names live sessions only, and it is what the last report of a change said.
\<close>
theorem client_list_true:
  assumes "orderly_run opts is_init w"
  shows "fst ` set (rt_clients (the_router w)) \<subseteq> fst ` set (rt_sessions (the_router w)) \<and>
    client_list (the_router w) = (if told_clients (the_router w) = [] then [] else List.last (told_clients (the_router w)))"
proof -
  have right: "told_right (the_router w)" "clients_live (the_router w)"
    using orderly_clients_right [OF assms] by (simp_all add: clients_right_def)
  moreover have "x \<in> fst ` set m \<longleftrightarrow> map_get m x \<noteq> None" for x and m :: "(string, mcp_session) jsmap"
    by (simp add: map_of_eq_None_iff)
  moreover have "x \<in> fst ` set m \<longleftrightarrow> map_get m x \<noteq> None" for x and m :: "(string, string) jsmap"
    by (simp add: map_of_eq_None_iff)
  ultimately show ?thesis unfolding told_right_def clients_live_def by (simp add: subset_iff)
qed

theorem client_list_true_witness:
  "let w = one_session_world\<lparr> the_router := server_initialized ''a'' ''agent'' (the_router one_session_world) \<rparr>
   in client_list (the_router w) = [''agent''] \<and> client_list (the_router w) = List.last (told_clients (the_router w))"
proof -
  let ?w = "one_session_world\<lparr> the_router := server_initialized ''a'' ''agent'' (the_router one_session_world) \<rparr>"
  have defs: "map_get (rt_sessions (the_router one_session_world)) ''a'' \<noteq> None" "''a'' \<in> set (issued_ids one_session_world)"
    by (simp_all add: one_session_world_def session_initialized_def new_router_def)
  have "orderly_run default_router_options (\<lambda>_ :: unit option. False) one_session_world"
    by (rule orderly_step [OF orderly_new one_session_steps(1)]) simp
  then have "orderly_run default_router_options (\<lambda>_ :: unit option. False) ?w"
    by (rule orderly_step [OF _ router_step.server_initialized [OF defs(2)]]) (use defs(1) in simp)
  from client_list_true [OF this] show ?thesis
    by (simp add: Let_def one_session_world_def server_initialized_def report_client_def clients_changed_def client_list_def
        session_initialized_def new_router_def)
qed

end
