(* ===== verification/Readiness_Candidate.thy ===== *)
theory Readiness_Candidate
  imports Device_Readiness Test_Tree
begin

text \<open>
  Which file UI mode prepares a device for, under which policy (\<open>ui-mode/readiness-candidate.ts\<close>), and
  the policy a dispatched file is said to run under (\<open>policyForDispatch\<close> of \<open>ui-mode/ui-server.ts\<close>). The
  isolation options of a file are those discovery records.
\<close>

section \<open>The input\<close>

record candidate_project =
  cp_name :: string
  cp_files :: "string list"
  cp_use :: "use_options option"
  cp_config :: reset_config
  cp_bucket :: "string option"

record candidate_input =
  in_bucket :: "string option"
  in_selected :: "(string \<times> string option) option"
  in_last_run :: "(string \<times> string option) option"
  in_last_run_project :: "string option"
  in_projects :: "candidate_project list"
  in_root_config :: reset_config
  in_tree_files :: "string list"
  in_file_use :: "(string, discovered_use option) jsmap"
  in_capabilities :: "reset_capabilities option"
  in_exclude :: "string list"

definition no_capabilities :: reset_capabilities where
  "no_capabilities = \<lparr> hooks_detected = None, is_physical = None \<rparr>"

definition policy_for_file :: "string \<Rightarrow> string \<Rightarrow> candidate_project option \<Rightarrow> candidate_input \<Rightarrow> reset_policy" where
  "policy_for_file cwd file project input =
     (let use = Option.bind (map_get (in_file_use input) file) id;
          project_use = Option.bind project cp_use;
          config = (case project of Some p \<Rightarrow> cp_config p | None \<Rightarrow> in_root_config input);
          merged = \<lparr> app_reset = or_else (Option.bind use disc_app_reset) (or_else (Option.bind project_use use_app_reset) (app_reset config)),
                     app_reset_scope = or_else (Option.bind use disc_app_reset_scope)
                       (or_else (Option.bind project_use use_app_reset_scope) (app_reset_scope config)),
                     reset_app_deep_link = reset_app_deep_link config, root_dir = root_dir config \<rparr>;
          state = or_else (Option.bind use disc_app_state) (Option.bind project_use use_app_state)
      in resolve_app_reset_policy cwd state merged (nullish (in_capabilities input) no_capabilities))"

definition project_by_name :: "candidate_input \<Rightarrow> string option \<Rightarrow> candidate_project option" where
  "project_by_name input name = (case name of None \<Rightarrow> None | Some n \<Rightarrow> find (\<lambda>p. cp_name p = n) (in_projects input))"

definition servable :: "candidate_input \<Rightarrow> candidate_project option \<Rightarrow> bool" where
  "servable input project =
     (if \<not> truthy_string (in_bucket input) then True
      else if \<not> truthy_string (Option.bind project cp_bucket) then True
      else Option.bind project cp_bucket = in_bucket input)"

definition project_of_file :: "candidate_input \<Rightarrow> string \<Rightarrow> candidate_project option" where
  "project_of_file input file = find (\<lambda>p. file \<in> set (cp_files p)) (in_projects input)"

section \<open>\<open>nextCandidate\<close>\<close>

definition try_file :: "string \<Rightarrow> candidate_input \<Rightarrow> string option \<Rightarrow> string option \<Rightarrow> bool \<Rightarrow> candidate option" where
  "try_file cwd input file project_name high_confidence =
     (case file of
        None \<Rightarrow> None
      | Some f \<Rightarrow>
          if f = [] then None
          else if f \<in> set (in_exclude input) then None
          else
            (let project = or_else (project_by_name input project_name) (project_of_file input f);
                 policy = policy_for_file cwd f project input
             in if \<not> servable input project then None
                else if truthy_string (app_state policy) \<and> \<not> high_confidence then None
                else Some \<lparr> cand_file = f, cand_project = or_else (map_option cp_name project) project_name, cand_policy = policy \<rparr>))"

fun first_tree_candidate :: "string \<Rightarrow> candidate_input \<Rightarrow> string list \<Rightarrow> candidate option" where
  "first_tree_candidate cwd input [] = None"
| "first_tree_candidate cwd input (file # files) =
     (case try_file cwd input (Some file) None False of
        Some c \<Rightarrow> Some c
      | None \<Rightarrow> first_tree_candidate cwd input files)"

definition next_candidate :: "string \<Rightarrow> candidate_input \<Rightarrow> candidate option" where
  "next_candidate cwd input =
     or_else (try_file cwd input (map_option fst (in_selected input)) (Option.bind (in_selected input) snd) True)
     (or_else (try_file cwd input (map_option fst (in_last_run input)) (Option.bind (in_last_run input) snd) True)
     (or_else
        (case project_by_name input (in_last_run_project input) of
           Some p \<Rightarrow> try_file cwd input (case cp_files p of f # _ \<Rightarrow> Some f | [] \<Rightarrow> None) (Some (cp_name p)) True
         | None \<Rightarrow> None)
        (first_tree_candidate cwd input (in_tree_files input))))"

text \<open>\<open>policyForDispatch\<close>: the project of a dispatched file, and its policy.\<close>

definition dispatch_project :: "candidate_input \<Rightarrow> string \<Rightarrow> string option \<Rightarrow> candidate_project option" where
  "dispatch_project input file name =
     or_else (find (\<lambda>p. Some (cp_name p) = name) (in_projects input)) (project_of_file input file)"

definition policy_for_dispatch :: "string \<Rightarrow> candidate_input \<Rightarrow> string \<Rightarrow> string option \<Rightarrow> reset_policy" where
  "policy_for_dispatch cwd input file name = policy_for_file cwd file (dispatch_project input file name) input"

section \<open>\<open>mergeResetCapabilities\<close>\<close>

definition merge_capability :: "bool option \<Rightarrow> bool option \<Rightarrow> bool option" where
  "merge_capability merged value_new = (if value_new = None then merged else if merged = Some True then merged else value_new)"

definition merge_reset_capabilities :: "reset_capabilities option \<Rightarrow> reset_capabilities option \<Rightarrow> reset_capabilities option" where
  "merge_reset_capabilities previous new =
     (case previous of
        None \<Rightarrow> new
      | Some p \<Rightarrow>
          (case new of
             None \<Rightarrow> previous
           | Some n \<Rightarrow> Some \<lparr> hooks_detected = merge_capability (hooks_detected p) (hooks_detected n),
                              is_physical = merge_capability (is_physical p) (is_physical n) \<rparr>))"

end
