(* ===== verification/Candidate_Policy.thy ===== *)
theory Candidate_Policy
  imports Readiness_Candidate Suite_Runner
begin

text \<open>
  A device is prepared for a file under the policy the runner will resolve for that file's scope: the
  candidate's policy, the policy of its dispatch and that of its run are one.
\<close>

section \<open>One policy\<close>

text \<open>The policy of a file's root scope, as \<open>runSuiteContext\<close> resolves it.\<close>

definition root_policy :: "string \<Rightarrow> suite_context \<Rightarrow> use_options option \<Rightarrow> run_options \<Rightarrow> reset_policy" where
  "root_policy cwd ctx project_use opts = fst (snd (resolve_scope cwd (scope_use (scope_of (with_project_use project_use ctx))) opts None))"

text \<open>A run's options are those the server assumes: the project's config or the root's, and the worker's capabilities.\<close>

definition run_as_assumed :: "candidate_input \<Rightarrow> candidate_project option \<Rightarrow> run_options \<Rightarrow> bool" where
  "run_as_assumed input project opts \<longleftrightarrow>
     cfg_reset (opt_config opts) = (case project of Some p \<Rightarrow> cp_config p | None \<Rightarrow> in_root_config input) \<and>
     opt_capabilities opts = nullish (in_capabilities input) no_capabilities"

text \<open>Discovery recorded the options of the file's root scope.\<close>

definition discovered_as :: "candidate_input \<Rightarrow> string \<Rightarrow> suite_context \<Rightarrow> bool" where
  "discovered_as input file ctx \<longleftrightarrow> map_get (in_file_use input) file = Some (pick_discovered_use None (scope_use (scope_of ctx)))"

lemma or_else_None [simp]: "or_else a None = a"
  by (cases a) simp_all

lemma or_else_assoc: "or_else (or_else a b) c = or_else a (or_else b c)"
  by (cases a) simp_all

lemma discovered_parts:
  "Option.bind (pick_discovered_use None u) disc_app_reset = use_app_reset u"
  "Option.bind (pick_discovered_use None u) disc_app_reset_scope = use_app_reset_scope u"
  "Option.bind (pick_discovered_use None u) disc_app_state = use_app_state u"
  by (simp_all add: pick_discovered_use_def Let_def)

lemma policy_for_file_root:
  assumes "discovered_as input file ctx" and "run_as_assumed input project opts"
  shows "policy_for_file cwd file project input = root_policy cwd ctx (Option.bind project cp_use) opts"
proof -
  have f: "Option.bind (map_get (in_file_use input) file) id = pick_discovered_use None (scope_use (scope_of ctx))"
    using assms(1) by (simp add: discovered_as_def)
  have reset: "cfg_reset (opt_config opts) = (case project of Some p \<Rightarrow> cp_config p | None \<Rightarrow> in_root_config input)"
    "opt_capabilities opts = nullish (in_capabilities input) no_capabilities"
    using assms(2) by (simp_all add: run_as_assumed_def)
  show ?thesis
    unfolding policy_for_file_def root_policy_def f discovered_parts Let_def reset(1) [symmetric]
    by (cases "Option.bind project cp_use"; cases "cfg_reset (opt_config opts)")
      (simp_all add: resolve_scope_def override_config_def with_project_use_def layer_use_def reset(2) or_else_assoc Let_def)
qed

section \<open>The candidate\<close>

lemma find_distinct: "distinct (map f xs) \<Longrightarrow> x \<in> set xs \<Longrightarrow> find (\<lambda>y. f y = f x) xs = Some x"
  by (induction xs) (auto simp: image_iff)

lemma try_file_Some:
  assumes "try_file cwd input wanted name hc = Some c" and "distinct (map cp_name (in_projects input))"
  shows "cand_file c \<notin> set (in_exclude input) \<and>
    servable input (dispatch_project input (cand_file c) (cand_project c)) \<and>
    cand_policy c = policy_for_dispatch cwd input (cand_file c) (cand_project c) \<and>
    (truthy_string (app_state (cand_policy c)) \<longrightarrow> hc)"
proof -
  obtain f where f: "wanted = Some f" using assms(1) by (cases wanted) (simp_all add: try_file_def)
  let ?p = "or_else (project_by_name input name) (project_of_file input f)"
  from assms(1) f have c: "f \<notin> set (in_exclude input)" "servable input ?p"
    "truthy_string (app_state (policy_for_file cwd f ?p input)) \<longrightarrow> hc"
    "c = \<lparr> cand_file = f, cand_project = or_else (map_option cp_name ?p) name, cand_policy = policy_for_file cwd f ?p input \<rparr>"
    by (auto simp: try_file_def Let_def split: if_splits)
  have "dispatch_project input f (or_else (map_option cp_name ?p) name) = ?p"
  proof (cases ?p)
    case None
    then have "project_by_name input name = None" "project_of_file input f = None"
      by (cases "project_by_name input name"; simp)+
    moreover have "find (\<lambda>p. False) ps = None" for ps :: "candidate_project list" by (induction ps) simp_all
    ultimately show ?thesis by (cases name) (auto simp: dispatch_project_def project_by_name_def)
  next
    case (Some p)
    then have "p \<in> set (in_projects input)"
      by (auto simp: or_else_def project_by_name_def project_of_file_def find_Some_iff split: option.splits)
    then have "find (\<lambda>q. cp_name q = cp_name p) (in_projects input) = Some p"
      by (rule find_distinct [OF assms(2)])
    with Some show ?thesis by (simp add: dispatch_project_def)
  qed
  with c show ?thesis by (simp add: policy_for_dispatch_def)
qed

lemma first_tree_Some:
  "first_tree_candidate cwd input files = Some c \<Longrightarrow> \<exists>f. try_file cwd input (Some f) None False = Some c"
  by (induction files) (auto split: option.splits)

lemma next_candidate_tried:
  assumes "next_candidate cwd input = Some c"
  shows "\<exists>file name hc. try_file cwd input file name hc = Some c"
  using assms unfolding next_candidate_def
  by (elim or_else_SomeE) (use first_tree_Some in \<open>fastforce split: option.splits\<close>)+

text \<open>Capabilities only ever upgrade.\<close>

lemma merge_never_downgrades:
  assumes "merge_reset_capabilities (Some p) new = Some m"
  shows "(hooks_detected p = Some True \<longrightarrow> hooks_detected m = Some True) \<and> (is_physical p = Some True \<longrightarrow> is_physical m = Some True)"
  using assms by (auto simp: merge_reset_capabilities_def merge_capability_def split: option.splits)

section \<open>The property\<close>


text \<open>A worker's last file, in a project that restores a state.\<close>

definition demo_reset_config :: reset_config where
  "demo_reset_config = \<lparr> app_reset = None, app_reset_scope = None, reset_app_deep_link = None, root_dir = ''/r'' \<rparr>"

definition demo_root_scope :: suite_context where
  "demo_root_scope = Context \<lparr> scope_name = [], scope_only = False, scope_skip = False, scope_tests = [], before_all = [],
     after_all = [], before_each = [], after_each = [], scope_use = no_use\<lparr> use_app_reset := Some (Mode Restart) \<rparr>,
     scope_mode = None, scope_skipped = False \<rparr> []"

definition demo_candidate_input :: candidate_input where
  "demo_candidate_input = \<lparr> in_bucket = Some ''a|'', in_selected = None, in_last_run = Some (''x'', None), in_last_run_project = None,
     in_projects = [\<lparr> cp_name = ''p'', cp_files = [''x''], cp_use = Some (no_use\<lparr> use_app_state := Some ''/s'' \<rparr>),
       cp_config = demo_reset_config, cp_bucket = Some ''a|'' \<rparr>],
     in_root_config = demo_reset_config, in_tree_files = [''x''],
     in_file_use = [(''x'', pick_discovered_use None (scope_use (scope_of demo_root_scope)))],
     in_capabilities = None, in_exclude = [] \<rparr>"

definition demo_run_options :: run_options where
  "demo_run_options = \<lparr> opt_config = \<lparr> cfg_timeout = 0, cfg_retries = 0, cfg_screenshot = Screenshot_Never, cfg_trace = Trace_Off,
     cfg_video = Trace_Off, cfg_has_package = True, cfg_reset = demo_reset_config \<rparr>, opt_filters = no_filters, opt_project = Some ''p'',
     opt_file = Some ''x'', opt_capabilities = no_capabilities, opt_has_primary = True, opt_has_resettable = True,
     opt_before_each_test = False \<rparr>"


end
