(* ===== verification/Response_Limits.thy ===== *)
theory Response_Limits
  imports TS_Prelude "HOL-Library.Word"
begin

text \<open>
  The budgets of an MCP tool response (\<open>mcp/response-limits.ts\<close>): what a text costs in a JSON message, the
  cut of a text that keeps its start and end, and the bound of a whole result. A text is a list of UTF-16
  code units; lone surrogates are allowed, as in JavaScript.
\<close>

type_synonym code_unit = "16 word"
type_synonym units = "code_unit list"

definition ascii :: "string \<Rightarrow> units" where
  "ascii s = map of_char s"

definition mcp_text_budget_bytes :: nat where "mcp_text_budget_bytes = 100 * 1024"
definition mcp_image_budget_bytes :: nat where "mcp_image_budget_bytes = 5 * 1024 * 1024"
definition min_item_bytes :: nat where "min_item_bytes = 256"
definition marker_reserve_bytes :: nat where "marker_reserve_bytes = 1024"

definition truncation_hints :: "string \<Rightarrow> string option" where
  "truncation_hints = map_of [
     (''tapsmith_run_tests'', ''Use tapsmith_list_results (status \"failed\", or test \"<name>\") for each failure, and tapsmith_read_trace on its trace for the full detail.''),
     (''tapsmith_list_results'', ''Narrow it with the status, file or test filters to see the omitted results in full.''),
     (''tapsmith_list_tests'', ''Pass the file paths you need to tapsmith_run_tests, or read them directly, for the omitted part of the tree.''),
     (''tapsmith_suite_status'', ''Pass file to narrow the board; tapsmith_list_results has the latest run'' @ [CHR 0x27] @ ''s results in full.''),
     (''tapsmith_snapshot'', ''The middle of the accessibility tree was omitted; use tapsmith_test_locator to check a specific locator.''),
     (''tapsmith_read_trace'', ''The trace'' @ [CHR 0x27] @ ''s first and last steps are kept, with the Result section at the top; a failed step it names may be in the part left out.'')]"

section \<open>Sizes\<close>

definition is_high_surrogate :: "code_unit \<Rightarrow> bool" where
  "is_high_surrogate u \<longleftrightarrow> 0xD800 \<le> u \<and> u \<le> 0xDBFF"

definition is_low_surrogate :: "code_unit \<Rightarrow> bool" where
  "is_low_surrogate u \<longleftrightarrow> 0xDC00 \<le> u \<and> u \<le> 0xDFFF"

definition is_pair :: "code_unit \<Rightarrow> code_unit \<Rightarrow> bool" where
  "is_pair u v \<longleftrightarrow> is_high_surrogate u \<and> is_low_surrogate v"

text \<open>\<open>codePointAt\<close> at a pair.\<close>

definition pair_code_point :: "code_unit \<Rightarrow> code_unit \<Rightarrow> nat" where
  "pair_code_point u v = (unat u - 0xD800) * 0x400 + (unat v - 0xDC00) + 0x10000"

definition code_point_cost :: "nat \<Rightarrow> nat" where
  "code_point_cost cp =
     (if cp = 0x22 \<or> cp = 0x5C then 2
      else if cp < 0x20 then (if cp = 0x08 \<or> cp = 0x09 \<or> cp = 0x0A \<or> cp = 0x0C \<or> cp = 0x0D then 2 else 6)
      else if cp < 0x80 then 1
      else if cp < 0x800 then 2
      else if 0xD800 \<le> cp \<and> cp \<le> 0xDFFF then 6
      else if cp < 0x10000 then 3
      else 4)"

fun serialized_text_bytes :: "units \<Rightarrow> nat" where
  "serialized_text_bytes [] = 0"
| "serialized_text_bytes [u] = code_point_cost (unat u)"
| "serialized_text_bytes (u # v # us) =
     (if is_pair u v then code_point_cost (pair_code_point u v) + serialized_text_bytes us
      else code_point_cost (unat u) + serialized_text_bytes (v # us))"

fun head_from :: "nat \<Rightarrow> nat \<Rightarrow> units \<Rightarrow> units" where
  "head_from max_bytes used [] = []"
| "head_from max_bytes used [u] = (if used + code_point_cost (unat u) > max_bytes then [] else [u])"
| "head_from max_bytes used (u # v # us) =
     (if is_pair u v then
        (let cost = code_point_cost (pair_code_point u v) in
         if used + cost > max_bytes then [] else u # v # head_from max_bytes (used + cost) us)
      else
        (let cost = code_point_cost (unat u) in
         if used + cost > max_bytes then [] else u # head_from max_bytes (used + cost) (v # us)))"

definition head_within :: "units \<Rightarrow> nat \<Rightarrow> units" where
  "head_within t max_bytes = head_from max_bytes 0 t"

text \<open>The same from the end: the text is read backwards.\<close>

fun tail_from :: "nat \<Rightarrow> nat \<Rightarrow> units \<Rightarrow> units" where
  "tail_from max_bytes used [] = []"
| "tail_from max_bytes used [u] = (if used + code_point_cost (unat u) > max_bytes then [] else [u])"
| "tail_from max_bytes used (v # u # us) =
     (if is_pair u v then
        (let cost = code_point_cost (pair_code_point u v) in
         if used + cost > max_bytes then [] else v # u # tail_from max_bytes (used + cost) us)
      else
        (let cost = code_point_cost (unat v) in
         if used + cost > max_bytes then [] else v # tail_from max_bytes (used + cost) (u # us)))"

definition tail_within :: "units \<Rightarrow> nat \<Rightarrow> units" where
  "tail_within t max_bytes = rev (tail_from max_bytes 0 (rev t))"

text \<open>\<open>toFixed(1)\<close> of a count divided by a power of two, which is exact: tenths, a tie rounded up.\<close>

definition fixed_one :: "nat \<Rightarrow> nat \<Rightarrow> string" where
  "fixed_one n unit_size = (let tenths = (20 * n + unit_size) div (2 * unit_size) in show_nat (tenths div 10) @ ''.'' @ show_nat (tenths mod 10))"

definition format_bytes :: "nat \<Rightarrow> string" where
  "format_bytes bytes =
     (if bytes < 1024 then show_nat bytes @ '' B''
      else if bytes < 1024 * 1024 then fixed_one bytes 1024 @ '' KiB''
      else fixed_one bytes (1024 * 1024) @ '' MiB'')"

section \<open>Cutting a text\<close>

definition hint_suffix :: "string option \<Rightarrow> string" where
  "hint_suffix hint = (case hint of Some h \<Rightarrow> if h = [] then [] else '' '' @ h | None \<Rightarrow> [])"

definition omission_marker :: "string option \<Rightarrow> nat \<Rightarrow> units" where
  "omission_marker hint omitted =
     [10, 10] @ ascii ''['' @ [0x2026] @
     ascii ('' '' @ format_bytes omitted @ '' omitted here: the response exceeded Tapsmith'' @ [CHR 0x27] @ ''s MCP response limit.'' @ hint_suffix hint @ '']'') @
     [10, 10]"

text \<open>One try at \<open>keep\<close> bytes of the text: 60 percent of them from its start.\<close>

definition head_part :: "units \<Rightarrow> nat \<Rightarrow> units" where
  "head_part t keep = head_within t (keep * 3 div 5)"

definition tail_part :: "units \<Rightarrow> nat \<Rightarrow> units" where
  "tail_part t keep =
     (let head = head_part t keep in tail_within (drop (length head) t) (keep - serialized_text_bytes head))"

definition omitted_bytes :: "units \<Rightarrow> nat \<Rightarrow> nat" where
  "omitted_bytes t keep =
     serialized_text_bytes t - serialized_text_bytes (head_part t keep) - serialized_text_bytes (tail_part t keep)"

definition cut_at :: "units \<Rightarrow> string option \<Rightarrow> nat \<Rightarrow> units" where
  "cut_at t hint keep = head_part t keep @ omission_marker hint (omitted_bytes t keep) @ tail_part t keep"

function shrink_cut :: "units \<Rightarrow> nat \<Rightarrow> string option \<Rightarrow> nat \<Rightarrow> units" where
  "shrink_cut t max_bytes hint keep =
     (let cut = cut_at t hint keep in
      if serialized_text_bytes cut \<le> max_bytes then cut
      else if keep = 0 then head_within cut max_bytes
      else shrink_cut t max_bytes hint (keep - (serialized_text_bytes cut - max_bytes)))"
  by pat_completeness auto

termination by (relation "measure (\<lambda>(_, _, _, keep). keep)") (auto simp: Let_def)

declare shrink_cut.simps [simp del]

definition truncate_middle :: "units \<Rightarrow> nat \<Rightarrow> string option \<Rightarrow> units" where
  "truncate_middle t max_bytes hint =
     (let size = serialized_text_bytes t in
      if size \<le> max_bytes then t
      else shrink_cut t max_bytes hint (max_bytes - serialized_text_bytes (omission_marker hint size)))"

text \<open>\<open>clipText\<close> counts code units; the ellipsis is one.\<close>

definition clip_text :: "units \<Rightarrow> nat \<Rightarrow> string option \<Rightarrow> units" where
  "clip_text t max_chars hint =
     (if length t \<le> max_chars then t
      else
        (let cut = (if max_chars > 0 \<and> is_high_surrogate (t ! (max_chars - 1)) then max_chars - 1 else max_chars) in
         take cut t @ [0x2026] @
         ascii ('' ['' @ show_nat (length t - cut) @ '' more characters'' @
           (case hint of Some h \<Rightarrow> if h = [] then [] else ''; '' @ h | None \<Rightarrow> []) @ '']'')))"

section \<open>A whole result\<close>

text \<open>Text, an image or a recording with its base64 data, or something else.\<close>

datatype content_item = Text_Item units | Data_Item units | Other_Item

fun item_text_bytes :: "content_item \<Rightarrow> nat" where
  "item_text_bytes (Text_Item t) = serialized_text_bytes t"
| "item_text_bytes _ = 0"

fun item_data_bytes :: "content_item \<Rightarrow> nat" where
  "item_data_bytes (Data_Item d) = length d"
| "item_data_bytes _ = 0"

fun is_text :: "content_item \<Rightarrow> bool" where
  "is_text (Text_Item _) = True"
| "is_text _ = False"

record bounding =
  text_left :: nat
  text_items_left :: nat
  image_left :: nat
  dropped_images :: nat
  dropped_image_bytes :: nat
  bounded_items :: "content_item list"

definition item_floor :: "nat \<Rightarrow> nat" where
  "item_floor text_count = min min_item_bytes ((mcp_text_budget_bytes - marker_reserve_bytes) div max 1 text_count)"

fun bound_item :: "nat \<Rightarrow> string option \<Rightarrow> content_item \<Rightarrow> bounding \<Rightarrow> bounding" where
  "bound_item flr hint (Text_Item t) b =
     (let items_left = text_items_left b - 1;
          reserve = items_left * flr;
          allowed = max flr (text_left b - reserve);
          size = serialized_text_bytes t
      in if size \<le> allowed then
           b\<lparr> text_items_left := items_left, text_left := text_left b - size, bounded_items := bounded_items b @ [Text_Item t] \<rparr>
         else
           (let cut = (if allowed > marker_reserve_bytes then truncate_middle t allowed hint else head_within t allowed)
            in b\<lparr> text_items_left := items_left, text_left := text_left b - serialized_text_bytes cut,
                  bounded_items := bounded_items b @ [Text_Item cut] \<rparr>))"
| "bound_item flr hint (Data_Item d) b =
     (if length d \<le> image_left b then
        b\<lparr> image_left := image_left b - length d, bounded_items := bounded_items b @ [Data_Item d] \<rparr>
      else b\<lparr> dropped_images := dropped_images b + 1, dropped_image_bytes := dropped_image_bytes b + length d \<rparr>)"
| "bound_item flr hint Other_Item b = b\<lparr> bounded_items := bounded_items b @ [Other_Item] \<rparr>"

definition dropped_note :: "string option \<Rightarrow> nat \<Rightarrow> nat \<Rightarrow> units" where
  "dropped_note hint dropped bytes =
     ascii (''['' @ show_nat dropped @ '' image(s) omitted ('' @ format_bytes bytes @ '' of base64): the response exceeded Tapsmith'' @
       [CHR 0x27] @ ''s '' @ format_bytes mcp_image_budget_bytes @ '' MCP image limit.'' @ hint_suffix hint @ '']'')"

definition start_bounding :: "content_item list \<Rightarrow> bounding" where
  "start_bounding content = \<lparr> text_left = mcp_text_budget_bytes, text_items_left = length (filter is_text content),
     image_left = mcp_image_budget_bytes, dropped_images = 0, dropped_image_bytes = 0, bounded_items = [] \<rparr>"

definition bound_tool_result :: "content_item list \<Rightarrow> string option \<Rightarrow> content_item list" where
  "bound_tool_result content tool =
     (let hint = Option.bind tool truncation_hints in
      if sum_list (map item_text_bytes content) \<le> mcp_text_budget_bytes \<and> sum_list (map item_data_bytes content) \<le> mcp_image_budget_bytes
      then content
      else
        (let b = fold (bound_item (item_floor (length (filter is_text content))) hint) content (start_bounding content) in
         if dropped_images b > 0 then bounded_items b @ [Text_Item (dropped_note hint (dropped_images b) (dropped_image_bytes b))]
         else bounded_items b))"

text \<open>\<open>boundThrownError\<close>, on the message.\<close>

definition bound_thrown_message :: "units \<Rightarrow> units" where
  "bound_thrown_message message =
     (if serialized_text_bytes message > mcp_text_budget_bytes then truncate_middle message mcp_text_budget_bytes None else message)"

end
