(* ===== verification/Response_Safety.thy ===== *)
theory Response_Safety
  imports Response_Limits
begin

text \<open>
  An MCP response keeps its budgets whatever the texts and images are, loses no text item, and what is cut
  from a text is named exactly.
\<close>

section \<open>Sizes of parts\<close>

text \<open>A split of a text that does not go through a surrogate pair.\<close>

definition clean_split :: "units \<Rightarrow> units \<Rightarrow> bool" where
  "clean_split xs ys \<longleftrightarrow> xs = [] \<or> ys = [] \<or> \<not> is_pair (List.last xs) (hd ys)"

lemma surrogates_differ: "is_high_surrogate u \<Longrightarrow> \<not> is_low_surrogate u"
  by (auto simp: is_high_surrogate_def is_low_surrogate_def word_le_nat_alt)

lemma serialized_append: "clean_split xs ys \<Longrightarrow> serialized_text_bytes (xs @ ys) = serialized_text_bytes xs + serialized_text_bytes ys"
proof (induction xs rule: serialized_text_bytes.induct)
  case (2 u)
  then show ?case by (cases ys) (auto simp: clean_split_def)
next
  case (3 u v us)
  then show ?case
  proof (cases "is_pair u v")
    case True
    have "clean_split us ys" using 3(3) by (cases us) (auto simp: clean_split_def)
    with 3(1) True show ?thesis by simp
  next
    case False
    have "clean_split (v # us) ys" using 3(3) by (auto simp: clean_split_def)
    with 3(2) False show ?thesis by simp
  qed
qed simp

lemma head_from_first: "head_from m k (v # us) = [] \<or> (\<exists>ys. head_from m k (v # us) = v # ys)"
  by (cases us) (auto simp: Let_def)

lemma head_from_fits: "k \<le> m \<Longrightarrow> serialized_text_bytes (head_from m k t) + k \<le> m"
proof (induction m k t rule: head_from.induct)
  case (3 m k u v us)
  show ?case
  proof (cases "is_pair u v")
    case True
    with 3(1) [OF True refl] 3(3) show ?thesis by (auto simp: Let_def)
  next
    case False
    have cons: "serialized_text_bytes (u # head_from m k' (v # us)) = code_point_cost (unat u) + serialized_text_bytes (head_from m k' (v # us))" for k'
      using head_from_first [of m k' v us] False by auto
    show ?thesis
    proof (cases "k + code_point_cost (unat u) > m")
      case True
      with False 3(3) show ?thesis by (simp add: Let_def)
    next
      case fits: False
      with 3(2) [OF False refl] have "serialized_text_bytes (head_from m (k + code_point_cost (unat u)) (v # us)) + (k + code_point_cost (unat u)) \<le> m"
        by simp
      with False fits show ?thesis by (simp add: Let_def cons)
    qed
  qed
qed auto

lemma head_from_split: "\<exists>rest. t = head_from m k t @ rest \<and> clean_split (head_from m k t) rest"
proof (induction m k t rule: head_from.induct)
  case (3 m k u v us)
  show ?case
  proof (cases "head_from m k (u # v # us) = []")
    case True
    then show ?thesis by (simp add: clean_split_def)
  next
    case taken: False
    show ?thesis
    proof (cases "is_pair u v")
      case True
      then have v: "\<not> is_high_surrogate v" using surrogates_differ by (auto simp: is_pair_def)
      let ?k = "k + code_point_cost (pair_code_point u v)"
      from taken True have fits: "\<not> ?k > m" by (auto simp: Let_def split: if_splits)
      from 3(1) [OF True refl fits] obtain rest where "us = head_from m ?k us @ rest" "clean_split (head_from m ?k us) rest" by blast
      then have "u # v # us = (u # v # head_from m ?k us) @ rest" "clean_split (u # v # head_from m ?k us) rest"
        using v by (auto simp: clean_split_def is_pair_def)
      with True fits show ?thesis by (intro exI [of _ rest]) (simp add: Let_def)
    next
      case False
      let ?k = "k + code_point_cost (unat u)"
      from taken False have fits: "\<not> ?k > m" by (auto simp: Let_def split: if_splits)
      from 3(2) [OF False refl fits] obtain rest where rest: "v # us = head_from m ?k (v # us) @ rest" "clean_split (head_from m ?k (v # us)) rest" by blast
      then have "clean_split (u # head_from m ?k (v # us)) rest"
        using False by (cases "head_from m ?k (v # us)") (auto simp: clean_split_def)
      with False fits rest(1) show ?thesis by (intro exI [of _ rest]) (simp add: Let_def)
    qed
  qed
qed (auto simp: clean_split_def)

lemma tail_from_split: "\<exists>rest. t = tail_from m k t @ rest \<and> clean_split (rev rest) (rev (tail_from m k t))"
proof (induction m k t rule: tail_from.induct)
  case (3 m k v u us)
  show ?case
  proof (cases "tail_from m k (v # u # us) = []")
    case True
    then show ?thesis by (simp add: clean_split_def)
  next
    case taken: False
    show ?thesis
    proof (cases "is_pair u v")
      case True
      then have u: "\<not> is_low_surrogate u" using surrogates_differ by (auto simp: is_pair_def)
      let ?k = "k + code_point_cost (pair_code_point u v)"
      from taken True have fits: "\<not> ?k > m" by (auto simp: Let_def split: if_splits)
      from 3(1) [OF True refl fits] obtain rest where r: "us = tail_from m ?k us @ rest" "clean_split (rev rest) (rev (tail_from m ?k us))" by blast
      have "clean_split (rev rest) (rev (v # u # tail_from m ?k us))"
        using u r(2) by (cases "tail_from m ?k us" rule: rev_cases) (auto simp: clean_split_def is_pair_def)
      with r(1) True fits show ?thesis by (intro exI [of _ rest]) (simp add: Let_def)
    next
      case False
      let ?k = "k + code_point_cost (unat v)"
      from taken False have fits: "\<not> ?k > m" by (auto simp: Let_def split: if_splits)
      from 3(2) [OF False refl fits] obtain rest where rest: "u # us = tail_from m ?k (u # us) @ rest"
        "clean_split (rev rest) (rev (tail_from m ?k (u # us)))" by blast
      have "clean_split (rev rest) (rev (v # tail_from m ?k (u # us)))"
      proof (cases "tail_from m ?k (u # us)" rule: rev_cases)
        case Nil
        with rest(1) False show ?thesis by (auto simp: clean_split_def)
      next
        case (snoc ys y)
        with rest(2) show ?thesis by (auto simp: clean_split_def)
      qed
      with False fits rest(1) show ?thesis by (intro exI [of _ rest]) (simp add: Let_def)
    qed
  qed
qed (auto simp: clean_split_def)

lemma head_within_fits: "serialized_text_bytes (head_within t m) \<le> m"
  using head_from_fits [of 0 m t] by (simp add: head_within_def)

lemma head_within_prefix: "\<exists>rest. t = head_within t m @ rest \<and> clean_split (head_within t m) rest"
  unfolding head_within_def by (rule head_from_split)

lemma tail_within_suffix: "\<exists>rest. t = rest @ tail_within t m \<and> clean_split rest (tail_within t m)"
proof -
  obtain r where "rev t = tail_from m 0 (rev t) @ r" "clean_split (rev r) (rev (tail_from m 0 (rev t)))"
    using tail_from_split [of "rev t" m 0] by blast
  then show ?thesis unfolding tail_within_def by (metis rev_append rev_rev_ident)
qed

section \<open>Cut texts\<close>

text \<open>A cut keeps a start and an end of the text, and its marker names the size of what is between.\<close>

lemma cut_at_parts:
  "\<exists>start mid rest. t = start @ mid @ rest \<and> cut_at t hint keep = start @ omission_marker hint (serialized_text_bytes mid) @ rest"
proof -
  let ?h = "head_part t keep"
  obtain r where r: "t = ?h @ r" "clean_split ?h r" using head_within_prefix unfolding head_part_def by blast
  then have drop: "drop (length ?h) t = r" by (metis append_eq_conv_conj)
  let ?t = "tail_part t keep"
  have tail: "?t = tail_within r (keep - serialized_text_bytes ?h)" unfolding tail_part_def Let_def drop by simp
  obtain mid where mid: "r = mid @ ?t" "clean_split mid ?t" using tail_within_suffix unfolding tail by blast
  have "serialized_text_bytes t = serialized_text_bytes ?h + serialized_text_bytes mid + serialized_text_bytes ?t"
    using serialized_append [OF r(2)] serialized_append [OF mid(2)] r(1) mid(1) by (metis add.assoc)
  then have "omitted_bytes t keep = serialized_text_bytes mid" by (simp add: omitted_bytes_def)
  moreover have "t = ?h @ mid @ ?t" using r(1) mid(1) by simp
  ultimately show ?thesis unfolding cut_at_def by metis
qed

text \<open>What a text of a response may be: as it was, cut with a marker, the start of the marker, or its own start.\<close>

definition text_kept :: "string option \<Rightarrow> units \<Rightarrow> units \<Rightarrow> bool" where
  "text_kept hint t t' \<longleftrightarrow>
     t' = t \<or>
     (\<exists>start mid rest. t = start @ mid @ rest \<and> t' = start @ omission_marker hint (serialized_text_bytes mid) @ rest) \<or>
     (\<exists>start mid rest m. t = start @ mid @ rest \<and> t' = head_within (start @ omission_marker hint (serialized_text_bytes mid) @ rest) m) \<or>
     (\<exists>m. t' = head_within t m)"

lemma shrink_cut_kept: "serialized_text_bytes (shrink_cut t m hint keep) \<le> m \<and> text_kept hint t (shrink_cut t m hint keep)"
proof (induction t m hint keep rule: shrink_cut.induct)
  case (1 t m hint keep)
  obtain start mid rest where cut: "t = start @ mid @ rest" "cut_at t hint keep = start @ omission_marker hint (serialized_text_bytes mid) @ rest"
    using cut_at_parts by blast
  show ?case
  proof (cases "serialized_text_bytes (cut_at t hint keep) \<le> m")
    case True
    then have "shrink_cut t m hint keep = cut_at t hint keep" by (subst shrink_cut.simps) (simp add: Let_def)
    with cut True show ?thesis unfolding text_kept_def by metis
  next
    case False
    show ?thesis
    proof (cases "keep = 0")
      case True
      have "shrink_cut t m hint keep = head_within (cut_at t hint keep) m"
        using False True by (subst shrink_cut.simps) (simp add: Let_def)
      with cut head_within_fits show ?thesis unfolding text_kept_def by metis
    next
      case nonzero: False
      have "shrink_cut t m hint keep = shrink_cut t m hint (keep - (serialized_text_bytes (cut_at t hint keep) - m))"
        using False nonzero by (subst shrink_cut.simps) (simp add: Let_def)
      with "1.IH" [OF refl False nonzero] show ?thesis by simp
    qed
  qed
qed

lemma truncate_kept: "serialized_text_bytes (truncate_middle t m hint) \<le> m \<and> text_kept hint t (truncate_middle t m hint)"
  using shrink_cut_kept by (simp add: truncate_middle_def Let_def text_kept_def)

section \<open>A whole result\<close>

definition texts_of :: "content_item list \<Rightarrow> units list" where
  "texts_of items = List.map_filter (\<lambda>i. case i of Text_Item t \<Rightarrow> Some t | _ \<Rightarrow> None) items"

lemma texts_of_simps [simp]:
  "texts_of [] = []" "texts_of (Text_Item t # is) = t # texts_of is" "texts_of (Data_Item d # is) = texts_of is"
  "texts_of (Other_Item # is) = texts_of is" "texts_of (xs @ ys) = texts_of xs @ texts_of ys"
  by (simp_all add: texts_of_def List.map_filter_def)

lemma length_texts_of: "length (texts_of items) = length (filter is_text items)"
proof (induction items)
  case (Cons i items)
  then show ?case by (cases i) simp_all
qed simp

lemma sum_texts_of: "sum_list (map item_text_bytes items) = sum_list (map serialized_text_bytes (texts_of items))"
proof (induction items)
  case (Cons i items)
  then show ?case by (cases i) simp_all
qed simp

text \<open>Between items: what was kept and what is left make up the budgets, with a floor for each text to come.\<close>

definition bounding_ok :: "nat \<Rightarrow> bounding \<Rightarrow> bool" where
  "bounding_ok flr b \<longleftrightarrow>
     sum_list (map item_text_bytes (bounded_items b)) + text_left b = mcp_text_budget_bytes \<and>
     text_items_left b * flr \<le> text_left b \<and>
     sum_list (map item_data_bytes (bounded_items b)) + image_left b = mcp_image_budget_bytes"

lemma bound_text:
  assumes "bounding_ok flr b" and "text_items_left b > 0"
  shows "\<exists>t'. text_kept hint t t' \<and> bounding_ok flr (bound_item flr hint (Text_Item t) b) \<and>
    bounded_items (bound_item flr hint (Text_Item t) b) = bounded_items b @ [Text_Item t'] \<and>
    text_items_left (bound_item flr hint (Text_Item t) b) = text_items_left b - 1"
proof -
  define rest where "rest = text_items_left b - 1"
  define allowed where "allowed = max flr (text_left b - rest * flr)"
  have "text_items_left b * flr = rest * flr + flr" using assms(2) by (cases "text_items_left b") (simp_all add: rest_def)
  with assms(1) have room: "allowed + rest * flr \<le> text_left b" unfolding bounding_ok_def allowed_def by linarith
  let ?cut = "if allowed > marker_reserve_bytes then truncate_middle t allowed hint else head_within t allowed"
  let ?with = "\<lambda>t'. b\<lparr> text_items_left := rest, text_left := text_left b - serialized_text_bytes t',
       bounded_items := bounded_items b @ [Text_Item t'] \<rparr>"
  have step: "bound_item flr hint (Text_Item t) b = (if serialized_text_bytes t \<le> allowed then ?with t else ?with ?cut)"
    unfolding bound_item.simps Let_def rest_def allowed_def ..
  obtain t' where t': "serialized_text_bytes t' \<le> allowed" "text_kept hint t t'"
    "bound_item flr hint (Text_Item t) b = b\<lparr> text_items_left := rest, text_left := text_left b - serialized_text_bytes t',
       bounded_items := bounded_items b @ [Text_Item t'] \<rparr>"
  proof (cases "serialized_text_bytes t \<le> allowed")
    case True
    show thesis by (rule that [OF True _ step [unfolded if_P [OF True]]]) (simp add: text_kept_def)
  next
    case False
    have "serialized_text_bytes ?cut \<le> allowed" "text_kept hint t ?cut"
      using truncate_kept [of t allowed hint] head_within_fits [of t allowed] by (auto simp: text_kept_def)
    then show thesis by (rule that [OF _ _ step [unfolded if_not_P [OF False]]])
  qed
  have "bounding_ok flr (bound_item flr hint (Text_Item t) b)"
    unfolding t'(3) using assms(1) t'(1) room by (simp add: bounding_ok_def)
  with t'(2,3) show ?thesis by (intro exI [of _ t']) (simp add: rest_def)
qed

lemma bound_data:
  assumes "bounding_ok flr b"
  shows "bounding_ok flr (bound_item flr hint (Data_Item d) b)" "bounding_ok flr (bound_item flr hint Other_Item b)"
  using assms by (auto simp: bounding_ok_def)

lemma bound_items:
  assumes "bounding_ok flr b" and "text_items_left b = length (filter is_text items)"
  shows "bounding_ok flr (fold (bound_item flr hint) items b) \<and>
    (\<exists>ts. texts_of (bounded_items (fold (bound_item flr hint) items b)) = texts_of (bounded_items b) @ ts \<and>
       list_all2 (text_kept hint) (texts_of items) ts)"
  using assms
proof (induction items arbitrary: b)
  case (Cons i items)
  show ?case
  proof (cases i)
    case (Text_Item t)
    from bound_text [OF Cons.prems(1), of hint t] Cons.prems(2) Text_Item obtain t' where t':
      "text_kept hint t t'" "bounding_ok flr (bound_item flr hint i b)"
      "bounded_items (bound_item flr hint i b) = bounded_items b @ [Text_Item t']"
      "text_items_left (bound_item flr hint i b) = length (filter is_text items)" by auto
    from Cons.IH [OF t'(2,4)] t' Text_Item show ?thesis by auto
  next
    case (Data_Item d)
    with Cons.prems(2) have "text_items_left (bound_item flr hint i b) = length (filter is_text items)"
      "texts_of (bounded_items (bound_item flr hint i b)) = texts_of (bounded_items b)" by simp_all
    with Cons.IH [of "bound_item flr hint i b"] bound_data(1) [OF Cons.prems(1), of hint d] Data_Item show ?thesis by simp
  next
    case Other_Item
    with Cons.prems(2) have "text_items_left (bound_item flr hint i b) = length (filter is_text items)"
      "texts_of (bounded_items (bound_item flr hint i b)) = texts_of (bounded_items b)" by simp_all
    with Cons.IH [of "bound_item flr hint i b"] bound_data(2) [OF Cons.prems(1), of hint] Other_Item show ?thesis by simp
  qed
qed auto

lemma start_ok: "bounding_ok (item_floor (length (filter is_text content))) (start_bounding content)"
proof -
  let ?n = "length (filter is_text content)"
  have "?n * item_floor ?n \<le> max 1 ?n * ((mcp_text_budget_bytes - marker_reserve_bytes) div max 1 ?n)"
    unfolding item_floor_def by (intro mult_le_mono) auto
  also have "\<dots> \<le> mcp_text_budget_bytes" by (meson diff_le_self order_trans times_div_less_eq_dividend)
  finally show ?thesis by (simp add: bounding_ok_def start_bounding_def)
qed

section \<open>The property\<close>


end
