(* ===== verification/Scroll_Container.thy ===== *)
theory Scroll_Container
  imports TS_Prelude
begin

text \<open>
  Where \<open>scrollIntoView\<close> swipes (\<open>scroll-container.ts\<close>): the region of the scroll container picked from a
  parsed hierarchy dump. An entry has the indices of its ancestors, nearest first, for the chain of \<open>parent\<close>
  references; coordinates are integers, and a centre is kept doubled.
\<close>

section \<open>Rectangles\<close>

record rect =
  rc_left :: int
  rc_top :: int
  rc_right :: int
  rc_bottom :: int

definition rect_union :: "rect \<Rightarrow> rect \<Rightarrow> rect" where
  "rect_union a b = \<lparr> rc_left = min (rc_left a) (rc_left b), rc_top = min (rc_top a) (rc_top b),
     rc_right = max (rc_right a) (rc_right b), rc_bottom = max (rc_bottom a) (rc_bottom b) \<rparr>"

definition rect_intersect :: "rect \<Rightarrow> rect \<Rightarrow> rect option" where
  "rect_intersect a b =
     (let r = \<lparr> rc_left = max (rc_left a) (rc_left b), rc_top = max (rc_top a) (rc_top b),
                rc_right = min (rc_right a) (rc_right b), rc_bottom = min (rc_bottom a) (rc_bottom b) \<rparr>
      in if rc_right r > rc_left r \<and> rc_bottom r > rc_top r then Some r else None)"

definition rect_area :: "rect option \<Rightarrow> int" where
  "rect_area r = (case r of Some r \<Rightarrow> (rc_right r - rc_left r) * (rc_bottom r - rc_top r) | None \<Rightarrow> 0)"

definition double_centre :: "rect \<Rightarrow> int \<times> int" where
  "double_centre r = (rc_left r + rc_right r, rc_top r + rc_bottom r)"

definition contains_double :: "rect \<Rightarrow> int \<times> int \<Rightarrow> bool" where
  "contains_double r p \<longleftrightarrow> (let (x, y) = p in x \<ge> 2 * rc_left r \<and> x < 2 * rc_right r \<and> y \<ge> 2 * rc_top r \<and> y < 2 * rc_bottom r)"

definition frame_tolerance :: int where "frame_tolerance = 1"

definition same_frame :: "rect \<Rightarrow> rect \<Rightarrow> bool" where
  "same_frame a b \<longleftrightarrow> \<bar>rc_left a - rc_left b\<bar> \<le> frame_tolerance \<and> \<bar>rc_top a - rc_top b\<bar> \<le> frame_tolerance \<and>
     \<bar>rc_right a - rc_right b\<bar> \<le> frame_tolerance \<and> \<bar>rc_bottom a - rc_bottom b\<bar> \<le> frame_tolerance"

definition trim_edge :: "rect \<Rightarrow> rect \<Rightarrow> rect" where
  "trim_edge r c =
     (if rect_intersect r c = None then r
      else if rc_left c \<le> rc_left r \<and> rc_right c \<ge> rc_right r \<and> rc_top c \<le> rc_top r then
        r\<lparr> rc_top := min (rc_bottom r) (max (rc_top r) (rc_bottom c)) \<rparr>
      else if rc_left c \<le> rc_left r \<and> rc_right c \<ge> rc_right r \<and> rc_bottom c \<ge> rc_bottom r then
        r\<lparr> rc_bottom := max (rc_top r) (min (rc_bottom r) (rc_top c)) \<rparr>
      else if rc_top c \<le> rc_top r \<and> rc_bottom c \<ge> rc_bottom r \<and> rc_left c \<le> rc_left r then
        r\<lparr> rc_left := min (rc_right r) (max (rc_left r) (rc_right c)) \<rparr>
      else if rc_top c \<le> rc_top r \<and> rc_bottom c \<ge> rc_bottom r \<and> rc_right c \<ge> rc_right r then
        r\<lparr> rc_right := max (rc_left r) (min (rc_right r) (rc_left c)) \<rparr>
      else r)"

section \<open>Bounds as text\<close>

definition expect_char :: "char \<Rightarrow> string \<Rightarrow> string option" where
  "expect_char c s = (case s of x # xs \<Rightarrow> if x = c then Some xs else None | [] \<Rightarrow> None)"

definition is_digit_char :: "char \<Rightarrow> bool" where
  "is_digit_char c \<longleftrightarrow> c \<in> set ''0123456789''"

definition digit_value :: "char \<Rightarrow> int" where
  "digit_value c = int (length (takeWhile (\<lambda>x. x \<noteq> c) ''0123456789''))"

definition take_number :: "string \<Rightarrow> (int \<times> string) option" where
  "take_number s =
     (let (negative, body) = (case s of CHR ''-'' # t \<Rightarrow> (True, t) | _ \<Rightarrow> (False, s));
          digits = takeWhile is_digit_char body;
          n = foldl (\<lambda>n c. 10 * n + digit_value c) 0 digits
      in if digits = [] then None else Some (if negative then - n else n, dropWhile is_digit_char body))"

definition take_point :: "string \<Rightarrow> ((int \<times> int) \<times> string) option" where
  "take_point s =
     Option.bind (expect_char (CHR ''['') s) (\<lambda>s1.
     Option.bind (take_number s1) (\<lambda>(x, s2).
     Option.bind (expect_char (CHR '','') s2) (\<lambda>s3.
     Option.bind (take_number s3) (\<lambda>(y, s4).
     Option.bind (expect_char (CHR '']'') s4) (\<lambda>s5. Some ((x, y), s5))))))"

definition parse_bounds :: "string \<Rightarrow> rect option" where
  "parse_bounds s =
     Option.bind (take_point s) (\<lambda>((l, t), s1).
     Option.bind (take_point s1) (\<lambda>((r, b), s2).
       if s2 = [] then Some \<lparr> rc_left = l, rc_top = t, rc_right = r, rc_bottom = b \<rparr> else None))"

section \<open>The tree\<close>

datatype hierarchy_node = Hierarchy_Node string "(string, string) jsmap" nat "hierarchy_node list"

record scroll_entry =
  se_tag :: string
  se_attributes :: "(string, string) jsmap"
  se_depth :: nat
  se_ancestors :: "nat list"
  se_bounds :: "rect option"
  se_non_app :: bool

fun walk_node :: "hierarchy_node \<Rightarrow> nat list \<Rightarrow> bool \<Rightarrow> scroll_entry list \<Rightarrow> scroll_entry list"
  and walk_children :: "hierarchy_node list \<Rightarrow> nat list \<Rightarrow> bool \<Rightarrow> scroll_entry list \<Rightarrow> scroll_entry list" where
  "walk_node (Hierarchy_Node tag attributes depth cs) ancestors outside entries =
     (let non_app = (outside \<or> map_get attributes ''tapsmith-non-app'' = Some ''true'') in
      walk_children cs (length entries # ancestors) non_app
        (entries @ [\<lparr> se_tag = tag, se_attributes = attributes, se_depth = depth, se_ancestors = ancestors,
           se_bounds = parse_bounds (nullish (map_get attributes ''bounds'') []), se_non_app = non_app \<rparr>]))"
| "walk_children [] ancestors outside entries = entries"
| "walk_children (n # ns) ancestors outside entries = walk_children ns ancestors outside (walk_node n ancestors outside entries)"

definition entries_of :: "hierarchy_node list \<Rightarrow> scroll_entry list" where
  "entries_of roots = walk_children roots [] False []"

definition ios_scroll_types :: "string list" where
  "ios_scroll_types = [''XCUIElementTypeScrollView'', ''XCUIElementTypeTable'', ''XCUIElementTypeCollectionView'', ''XCUIElementTypeWebView'']"

definition is_scrollable :: "scroll_entry \<Rightarrow> bool" where
  "is_scrollable e \<longleftrightarrow> map_get (se_attributes e) ''scrollable'' = Some ''true'' \<or>
     nullish (map_get (se_attributes e) ''type'') (se_tag e) \<in> set ios_scroll_types"

definition min_region :: int where "min_region = 48"

text \<open>The windows are the shallowest entries with bounds, the screen is their union.\<close>

definition bounded_entries :: "scroll_entry list \<Rightarrow> nat list" where
  "bounded_entries es = filter (\<lambda>i. se_bounds (es ! i) \<noteq> None) [0..<length es]"

definition window_entries :: "scroll_entry list \<Rightarrow> nat list" where
  "window_entries es =
     (let bounded = bounded_entries es; depths = map (\<lambda>i. se_depth (es ! i)) bounded
      in filter (\<lambda>i. se_depth (es ! i) = fold min depths (hd depths)) bounded)"

definition bounds_at :: "scroll_entry list \<Rightarrow> nat \<Rightarrow> rect list" where
  "bounds_at es i = (case se_bounds (es ! i) of Some b \<Rightarrow> [b] | None \<Rightarrow> [])"

definition screen_of :: "scroll_entry list \<Rightarrow> rect" where
  "screen_of es = (let bs = concat (map (bounds_at es) (window_entries es)) in fold (\<lambda>b acc. rect_union acc b) (tl bs) (hd bs))"

definition window_of :: "scroll_entry list \<Rightarrow> nat \<Rightarrow> nat option" where
  "window_of es i = find (\<lambda>j. j \<in> set (window_entries es)) (i # se_ancestors (es ! i))"

definition window_bounds :: "scroll_entry list \<Rightarrow> nat \<Rightarrow> rect option" where
  "window_bounds es i = Option.bind (window_of es i) (\<lambda>w. se_bounds (es ! w))"

text \<open>The roots of the subtrees that cover the app.\<close>

definition covers_of :: "scroll_entry list \<Rightarrow> rect list" where
  "covers_of es = concat (map (bounds_at es)
     (filter (\<lambda>i. se_non_app (es ! i) \<and> (case se_ancestors (es ! i) of p # _ \<Rightarrow> \<not> se_non_app (es ! p) | [] \<Rightarrow> True)) [0..<length es]))"

section \<open>The region of an entry\<close>

definition scrolls :: "scroll_entry \<Rightarrow> bool" where
  "scrolls e \<longleftrightarrow> se_bounds e \<noteq> None \<and> \<not> se_non_app e \<and> is_scrollable e"

fun clip_ancestors :: "scroll_entry list \<Rightarrow> nat list \<Rightarrow> rect option \<Rightarrow> rect option" where
  "clip_ancestors es [] r = r"
| "clip_ancestors es (a # as) None = None"
| "clip_ancestors es (a # as) (Some r) =
     clip_ancestors es as
       (case se_bounds (es ! a) of
          Some b \<Rightarrow> if \<not> se_non_app (es ! a) \<and> is_scrollable (es ! a) then rect_intersect r b else Some r
        | None \<Rightarrow> Some r)"

text \<open>The part of an entry's bounds that is on the screen and in its window.\<close>

definition shown_bounds :: "scroll_entry list \<Rightarrow> nat \<Rightarrow> rect \<Rightarrow> rect option" where
  "shown_bounds es i b =
     (case rect_intersect b (screen_of es) of
        None \<Rightarrow> None
      | Some r \<Rightarrow> (case window_bounds es i of Some w \<Rightarrow> rect_intersect r w | None \<Rightarrow> Some r))"

definition trim_covers :: "scroll_entry list \<Rightarrow> rect \<Rightarrow> rect" where
  "trim_covers es r = fold (\<lambda>c r. trim_edge r c) (covers_of es) r"

definition region_of :: "scroll_entry list \<Rightarrow> nat \<Rightarrow> rect option" where
  "region_of es i =
     (case se_bounds (es ! i) of
        None \<Rightarrow> None
      | Some b \<Rightarrow>
          if se_non_app (es ! i) \<or> \<not> is_scrollable (es ! i) then None
          else (case clip_ancestors es (se_ancestors (es ! i)) (shown_bounds es i b) of
                  None \<Rightarrow> None
                | Some r2 \<Rightarrow>
                    (let r = trim_covers es r2
                     in if rc_right r - rc_left r \<ge> min_region \<and> rc_bottom r - rc_top r \<ge> min_region then Some r else None)))"

definition scroll_candidates :: "scroll_entry list \<Rightarrow> (nat \<times> rect) list" where
  "scroll_candidates es = List.map_filter (\<lambda>i. map_option (Pair i) (region_of es i)) [0..<length es]"

section \<open>\<open>scrollRegion\<close>\<close>

text \<open>The last entry with the target's frame, and the nearest ancestor of it with a region.\<close>

definition target_entry :: "scroll_entry list \<Rightarrow> rect \<Rightarrow> nat option" where
  "target_entry es frame =
     (case filter (\<lambda>i. \<not> se_non_app (es ! i) \<and> (case se_bounds (es ! i) of Some b \<Rightarrow> same_frame b frame | None \<Rightarrow> False)) [0..<length es] of
        [] \<Rightarrow> None
      | is \<Rightarrow> Some (List.last is))"

fun nearest_region :: "scroll_entry list \<Rightarrow> nat list \<Rightarrow> rect option" where
  "nearest_region es [] = None"
| "nearest_region es (a # as) = (case region_of es a of Some r \<Rightarrow> Some r | None \<Rightarrow> nearest_region es as)"

text \<open>The area of a candidate's window; none is infinite.\<close>

definition window_area :: "scroll_entry list \<Rightarrow> nat \<Rightarrow> int option" where
  "window_area es i = map_option (\<lambda>w. rect_area (rect_intersect w (screen_of es))) (window_bounds es i)"

definition area_le :: "int option \<Rightarrow> int option \<Rightarrow> bool" where
  "area_le a b = (case (a, b) of (_, None) \<Rightarrow> True | (None, Some _) \<Rightarrow> False | (Some x, Some y) \<Rightarrow> x \<le> y)"

definition in_top_window :: "scroll_entry list \<Rightarrow> (nat \<times> rect) list \<Rightarrow> (nat \<times> rect) list" where
  "in_top_window es candidates =
     filter (\<lambda>c. list_all (\<lambda>d. area_le (window_area es (fst c)) (window_area es (fst d))) candidates) candidates"

text \<open>A later scrollable that is not inside it covers its centre.\<close>

definition covered_by :: "scroll_entry list \<Rightarrow> nat \<times> rect \<Rightarrow> nat \<times> rect \<Rightarrow> bool" where
  "covered_by es c d \<longleftrightarrow> fst d > fst c \<and> fst c \<notin> set (se_ancestors (es ! fst d)) \<and> contains_double (snd d) (double_centre (snd c))"

fun largest_candidate :: "(nat \<times> rect) \<Rightarrow> (nat \<times> rect) list \<Rightarrow> nat \<times> rect" where
  "largest_candidate best [] = best"
| "largest_candidate best (c # cs) = largest_candidate (if rect_area (Some (snd c)) > rect_area (Some (snd best)) then c else best) cs"

definition topmost_region :: "scroll_entry list \<Rightarrow> rect option" where
  "topmost_region es =
     (let in_top = in_top_window es (scroll_candidates es);
          shown = filter (\<lambda>c. \<not> list_ex (covered_by es c) in_top) in_top
      in case (if shown = [] then in_top else shown) of [] \<Rightarrow> None | c # cs \<Rightarrow> Some (snd (largest_candidate c cs)))"

definition scroll_region :: "hierarchy_node list \<Rightarrow> rect option \<Rightarrow> rect option \<Rightarrow> rect option" where
  "scroll_region roots frame previous =
     (let es = entries_of roots in
      if bounded_entries es = [] then None
      else
        (let self = Option.bind frame (target_entry es) in
         case Option.bind self (\<lambda>i. nearest_region es (se_ancestors (es ! i))) of
           Some r \<Rightarrow> Some r
         | None \<Rightarrow>
             (case (frame, self, previous) of
                (Some _, None, Some p) \<Rightarrow>
                  if list_ex (\<lambda>c. same_frame (snd c) p) (scroll_candidates es) then Some p else topmost_region es
              | _ \<Rightarrow> topmost_region es)))"

end
