(* ===== verification/Scroll_Safety.thy ===== *)
theory Scroll_Safety
  imports Scroll_Container
begin

text \<open>
  A swipe region lies inside a scroll container, its window, the screen and every scroll view around it, and
  off the bars and keyboards along the screen's edges.
\<close>

section \<open>Rectangles\<close>

definition inside :: "rect \<Rightarrow> rect \<Rightarrow> bool" where
  "inside r b \<longleftrightarrow> rc_left b \<le> rc_left r \<and> rc_top b \<le> rc_top r \<and> rc_right r \<le> rc_right b \<and> rc_bottom r \<le> rc_bottom b"

definition ordered :: "rect \<Rightarrow> bool" where
  "ordered r \<longleftrightarrow> rc_left r \<le> rc_right r \<and> rc_top r \<le> rc_bottom r"

lemma inside_trans: "inside r a \<Longrightarrow> inside a b \<Longrightarrow> inside r b"
  by (auto simp: inside_def)

lemma inside_refl [simp]: "inside r r"
  by (simp add: inside_def)

lemma intersect_Some:
  assumes "rect_intersect a b = Some r"
  shows "inside r a" "inside r b" "ordered r"
  using assms by (auto simp: rect_intersect_def Let_def inside_def ordered_def split: if_splits)

lemma disjoint_mono: "inside r' r \<Longrightarrow> rect_intersect r c = None \<Longrightarrow> rect_intersect r' c = None"
  by (auto simp: rect_intersect_def Let_def inside_def split: if_splits)

lemma trim_inside: "ordered r \<Longrightarrow> inside (trim_edge r c) r \<and> ordered (trim_edge r c)"
  by (auto simp: trim_edge_def inside_def ordered_def)

text \<open>A bar that covers one whole edge of the screen.\<close>

definition spans_edge :: "rect \<Rightarrow> rect \<Rightarrow> bool" where
  "spans_edge s c \<longleftrightarrow>
     (rc_left c \<le> rc_left s \<and> rc_right c \<ge> rc_right s \<and> (rc_top c \<le> rc_top s \<or> rc_bottom c \<ge> rc_bottom s)) \<or>
     (rc_top c \<le> rc_top s \<and> rc_bottom c \<ge> rc_bottom s \<and> (rc_left c \<le> rc_left s \<or> rc_right c \<ge> rc_right s))"

lemma trimmed_disjoint:
  "rect_intersect (r\<lparr> rc_top := min (rc_bottom r) (max (rc_top r) (rc_bottom c)) \<rparr>) c = None"
  "rect_intersect (r\<lparr> rc_bottom := max (rc_top r) (min (rc_bottom r) (rc_top c)) \<rparr>) c = None"
  "rect_intersect (r\<lparr> rc_left := min (rc_right r) (max (rc_left r) (rc_right c)) \<rparr>) c = None"
  "rect_intersect (r\<lparr> rc_right := max (rc_left r) (min (rc_right r) (rc_left c)) \<rparr>) c = None"
  "rect_intersect (r\<lparr> rc_top := rc_bottom r \<rparr>) c = None"
  by (auto simp: rect_intersect_def Let_def)

lemma trim_clears:
  assumes "inside r s" and "spans_edge s c"
  shows "rect_intersect (trim_edge r c) c = None"
proof (cases "rect_intersect r c = None")
  case True
  then show ?thesis by (simp add: trim_edge_def)
next
  case False
  have "(rc_left c \<le> rc_left r \<and> rc_right c \<ge> rc_right r \<and> (rc_top c \<le> rc_top r \<or> rc_bottom c \<ge> rc_bottom r)) \<or>
     (rc_top c \<le> rc_top r \<and> rc_bottom c \<ge> rc_bottom r \<and> (rc_left c \<le> rc_left r \<or> rc_right c \<ge> rc_right r))"
    using assms unfolding spans_edge_def inside_def by linarith
  with False show ?thesis unfolding trim_edge_def by (elim disjE conjE) (simp_all add: trimmed_disjoint)
qed

lemma trims_clear:
  assumes "inside r s" and "ordered r"
  shows "inside (fold (\<lambda>c r. trim_edge r c) cs r) r \<and>
    (\<forall>c \<in> set cs. spans_edge s c \<longrightarrow> rect_intersect (fold (\<lambda>c r. trim_edge r c) cs r) c = None)"
  using assms
proof (induction cs arbitrary: r)
  case (Cons c cs)
  have t: "inside (trim_edge r c) r" "ordered (trim_edge r c)" using trim_inside [OF Cons.prems(2)] by blast+
  let ?r = "fold (\<lambda>c r. trim_edge r c) cs (trim_edge r c)"
  from Cons.IH [OF inside_trans [OF t(1) Cons.prems(1)] t(2)] have rest: "inside ?r (trim_edge r c)"
    "\<forall>c \<in> set cs. spans_edge s c \<longrightarrow> rect_intersect ?r c = None" by blast+
  with t(1) trim_clears [OF Cons.prems(1)] disjoint_mono [OF rest(1)] show ?case by (auto intro: inside_trans)
qed simp

section \<open>A container's region\<close>

definition swipe_safe :: "scroll_entry list \<Rightarrow> nat \<Rightarrow> rect \<Rightarrow> bool" where
  "swipe_safe es i r \<longleftrightarrow>
     scrolls (es ! i) \<and> (\<exists>b. se_bounds (es ! i) = Some b \<and> inside r b) \<and> inside r (screen_of es) \<and>
     (\<forall>w. window_bounds es i = Some w \<longrightarrow> inside r w) \<and>
     (\<forall>a \<in> set (se_ancestors (es ! i)). \<forall>b. scrolls (es ! a) \<and> se_bounds (es ! a) = Some b \<longrightarrow> inside r b) \<and>
     rc_right r - rc_left r \<ge> min_region \<and> rc_bottom r - rc_top r \<ge> min_region \<and>
     (\<forall>c \<in> set (covers_of es). spans_edge (screen_of es) c \<longrightarrow> rect_intersect r c = None)"

lemma clip_inside:
  "clip_ancestors es as (Some r) = Some r' \<Longrightarrow> ordered r \<Longrightarrow>
   inside r' r \<and> ordered r' \<and> (\<forall>a \<in> set as. \<forall>b. scrolls (es ! a) \<and> se_bounds (es ! a) = Some b \<longrightarrow> inside r' b)"
proof (induction as arbitrary: r)
  case (Cons a as)
  show ?case
  proof (cases "scrolls (es ! a)")
    case True
    then obtain b where b: "se_bounds (es ! a) = Some b" "\<not> se_non_app (es ! a)" "is_scrollable (es ! a)" by (auto simp: scrolls_def)
    with Cons.prems(1) have clip: "clip_ancestors es as (rect_intersect r b) = Some r'" by simp
    then obtain s where s: "rect_intersect r b = Some s" by (cases "rect_intersect r b"; cases as) auto
    with Cons.IH [of s] clip intersect_Some [OF s] b show ?thesis by (auto intro: inside_trans)
  next
    case False
    then have "clip_ancestors es as (Some r) = Some r'" using Cons.prems(1) by (auto simp: scrolls_def split: option.splits if_splits)
    with Cons.IH Cons.prems(2) False show ?thesis by auto
  qed
qed simp

lemma shown_inside:
  assumes "shown_bounds es i b = Some s"
  shows "inside s b \<and> inside s (screen_of es) \<and> ordered s \<and> (\<forall>w. window_bounds es i = Some w \<longrightarrow> inside s w)"
proof -
  obtain r where r: "rect_intersect b (screen_of es) = Some r" using assms by (auto simp: shown_bounds_def split: option.splits)
  show ?thesis
  proof (cases "window_bounds es i")
    case None
    with assms r have "s = r" by (simp add: shown_bounds_def)
    with None intersect_Some [OF r] show ?thesis by simp
  next
    case (Some w)
    with assms r have "rect_intersect r w = Some s" by (simp add: shown_bounds_def)
    with Some intersect_Some [OF r] intersect_Some [OF this] show ?thesis by (auto intro: inside_trans)
  qed
qed

lemma region_safe:
  assumes "region_of es i = Some r"
  shows "swipe_safe es i r"
proof -
  obtain b r2 where b: "se_bounds (es ! i) = Some b" "scrolls (es ! i)"
    and r2: "clip_ancestors es (se_ancestors (es ! i)) (shown_bounds es i b) = Some r2"
      "r = trim_covers es r2" "rc_right r - rc_left r \<ge> min_region" "rc_bottom r - rc_top r \<ge> min_region"
    using assms by (auto simp: region_of_def scrolls_def Let_def split: option.splits if_splits)
  then obtain s where s: "shown_bounds es i b = Some s"
    by (cases "shown_bounds es i b"; cases "se_ancestors (es ! i)") auto
  note shown = shown_inside [OF s]
  have clip: "inside r2 s \<and> ordered r2 \<and> (\<forall>a \<in> set (se_ancestors (es ! i)). \<forall>b. scrolls (es ! a) \<and> se_bounds (es ! a) = Some b \<longrightarrow> inside r2 b)"
    using clip_inside r2(1) s shown by simp
  have "inside r r2 \<and> (\<forall>c \<in> set (covers_of es). spans_edge (screen_of es) c \<longrightarrow> rect_intersect r c = None)"
    unfolding r2(2) trim_covers_def using trims_clear [of r2 "screen_of es"] clip shown inside_trans by blast
  with clip shown b r2(3,4) show ?thesis unfolding swipe_safe_def by (meson inside_trans)
qed

section \<open>The choice\<close>

lemma candidate_region: "(i, r) \<in> set (scroll_candidates es) \<longleftrightarrow> i < length es \<and> region_of es i = Some r"
  by (force simp: scroll_candidates_def List.map_filter_def)

lemma target_entry_less:
  assumes "target_entry es frame = Some i"
  shows "i < length es"
proof -
  let ?is = "filter (\<lambda>i. \<not> se_non_app (es ! i) \<and> (case se_bounds (es ! i) of Some b \<Rightarrow> same_frame b frame | None \<Rightarrow> False)) [0..<length es]"
  have "?is \<noteq> []" "i = List.last ?is" using assms by (auto simp: target_entry_def split: list.splits)
  then have "i \<in> set ?is" using last_in_set by blast
  then show ?thesis by simp
qed

lemma nearest_region_Some: "nearest_region es as = Some r \<Longrightarrow> \<exists>a \<in> set as. region_of es a = Some r"
  by (induction as) (auto split: option.splits)

lemma largest_mem: "largest_candidate c cs \<in> set (c # cs)"
proof (induction cs arbitrary: c)
  case (Cons d cs)
  from Cons [of d] Cons [of c] show ?case by auto
qed simp

lemma topmost_Some:
  assumes "topmost_region es = Some r"
  shows "\<exists>i. i < length es \<and> region_of es i = Some r \<and>
    (\<forall>j r'. j < length es \<and> region_of es j = Some r' \<longrightarrow> area_le (window_area es i) (window_area es j))"
proof -
  let ?top = "in_top_window es (scroll_candidates es)"
  let ?pool = "let shown = filter (\<lambda>c. \<not> list_ex (covered_by es c) ?top) ?top in if shown = [] then ?top else shown"
  obtain c cs where c: "?pool = c # cs" "r = snd (largest_candidate c cs)"
    using assms by (auto simp: topmost_region_def Let_def split: list.splits)
  let ?w = "largest_candidate c cs"
  have "set ?pool \<subseteq> set ?top" by (auto simp: Let_def)
  then have "?w \<in> set ?top" unfolding c(1) using largest_mem [of c cs] by blast
  then have w: "?w \<in> set (scroll_candidates es)" "\<forall>d \<in> set (scroll_candidates es). area_le (window_area es (fst ?w)) (window_area es (fst d))"
    by (auto simp: in_top_window_def list_all_iff)
  have "fst ?w < length es \<and> region_of es (fst ?w) = Some r" using w(1) c(2) candidate_region [of "fst ?w" "snd ?w" es] by simp
  moreover have "area_le (window_area es (fst ?w)) (window_area es j)" if "j < length es \<and> region_of es j = Some r'" for j r'
    using w(2) that candidate_region [of j r' es] by fastforce
  ultimately show ?thesis by blast
qed

text \<open>Ancestors are entries.\<close>

lemma walk_ancestors:
  "\<forall>e \<in> set entries. set (se_ancestors e) \<subseteq> {..<length entries} \<Longrightarrow> set ancestors \<subseteq> {..<length entries} \<Longrightarrow>
   (\<forall>e \<in> set (walk_node n ancestors outside entries). set (se_ancestors e) \<subseteq> {..<length (walk_node n ancestors outside entries)}) \<and>
   length entries \<le> length (walk_node n ancestors outside entries)"
  "\<forall>e \<in> set entries. set (se_ancestors e) \<subseteq> {..<length entries} \<Longrightarrow> set ancestors \<subseteq> {..<length entries} \<Longrightarrow>
   (\<forall>e \<in> set (walk_children ns ancestors outside entries). set (se_ancestors e) \<subseteq> {..<length (walk_children ns ancestors outside entries)}) \<and>
   length entries \<le> length (walk_children ns ancestors outside entries)"
proof (induction n ancestors outside entries and ns ancestors outside entries rule: walk_node_walk_children.induct)
  case (1 tag attributes depth cs ancestors outside entries)
  let ?non_app = "outside \<or> map_get attributes ''tapsmith-non-app'' = Some ''true''"
  let ?es = "entries @ [\<lparr> se_tag = tag, se_attributes = attributes, se_depth = depth, se_ancestors = ancestors,
           se_bounds = parse_bounds (nullish (map_get attributes ''bounds'') []), se_non_app = ?non_app \<rparr>]"
  have "\<forall>e \<in> set ?es. set (se_ancestors e) \<subseteq> {..<length ?es}" "set (length entries # ancestors) \<subseteq> {..<length ?es}"
    using 1(2,3) by (fastforce simp: less_Suc_eq)+
  from 1(1) [OF refl this] show ?case by (auto simp: Let_def)
next
  case (3 n ns ancestors outside entries)
  from 3(1) [OF 3(3,4)] have n: "\<forall>e \<in> set (walk_node n ancestors outside entries). set (se_ancestors e) \<subseteq> {..<length (walk_node n ancestors outside entries)}"
    "length entries \<le> length (walk_node n ancestors outside entries)" by blast+
  have "set ancestors \<subseteq> {..<length (walk_node n ancestors outside entries)}" using 3(4) n(2) by auto
  from 3(2) [OF n(1) this] n(2) show ?case by auto
qed auto

lemma ancestor_is_entry:
  assumes "i < length (entries_of roots)" and "a \<in> set (se_ancestors (entries_of roots ! i))"
  shows "a < length (entries_of roots)"
  using walk_ancestors(2) [of "[]" "[]" roots False] assms unfolding entries_of_def by (auto dest!: nth_mem)

section \<open>The property\<close>

text \<open>
  C33. A swipe region is inside the on-screen part of a scroll container and of every scroll view around it, in
  the container's own window, at least 48 each way and off every bar that covers an edge of the screen (or
  it is the region of the last swipe, within a unit of such a one). Without a frame of the element, no
  smaller window on the screen has a region: a swipe does not start outside a dialog that scrolls.
\<close>
theorem swipe_region_safe:
  assumes "scroll_region roots frame previous = Some r"
  shows "\<exists>i r'. i < length (entries_of roots) \<and> swipe_safe (entries_of roots) i r' \<and>
    (r = r' \<or> previous = Some r \<and> same_frame r' r) \<and>
    (frame = None \<longrightarrow> (\<forall>j s. j < length (entries_of roots) \<and> region_of (entries_of roots) j = Some s \<longrightarrow>
       area_le (window_area (entries_of roots) i) (window_area (entries_of roots) j)))"
proof -
  let ?es = "entries_of roots"
  consider (near) self where "frame \<noteq> None" "Option.bind frame (target_entry ?es) = Some self"
      "nearest_region ?es (se_ancestors (?es ! self)) = Some r"
    | (kept) "frame \<noteq> None" "previous = Some r" "list_ex (\<lambda>c. same_frame (snd c) r) (scroll_candidates ?es)"
    | (top) "topmost_region ?es = Some r"
    using assms by (cases frame; cases previous) (auto simp: scroll_region_def Let_def bind_eq_Some_conv split: option.splits if_splits)
  then show ?thesis
  proof cases
    case near
    from near(2) obtain f where "target_entry ?es f = Some self" by (auto simp: bind_eq_Some_conv)
    then have "self < length ?es" by (rule target_entry_less)
    moreover obtain a where "a \<in> set (se_ancestors (?es ! self))" "region_of ?es a = Some r" using nearest_region_Some [OF near(3)] by blast
    ultimately show ?thesis using ancestor_is_entry region_safe near(1) by blast
  next
    case kept
    then obtain i r' where "(i, r') \<in> set (scroll_candidates ?es)" "same_frame r' r" by (auto simp: list_ex_iff)
    with kept(1,2) region_safe candidate_region show ?thesis by blast
  next
    case top
    from topmost_Some [OF this] region_safe show ?thesis by blast
  qed
qed

text \<open>A list of an app under a status bar.\<close>

definition demo_dump :: "hierarchy_node list" where
  "demo_dump = [Hierarchy_Node ''hierarchy'' [] 0
     [Hierarchy_Node ''app'' [(''bounds'', ''[0,0][400,800]'')] 1
        [Hierarchy_Node ''list'' [(''bounds'', ''[0,0][400,900]''), (''scrollable'', ''true'')] 2 [],
         Hierarchy_Node ''bar'' [(''bounds'', ''[0,0][400,50]''), (''tapsmith-non-app'', ''true'')] 2 []]]]"

definition demo_entries :: "scroll_entry list" where
  "demo_entries =
     [\<lparr> se_tag = ''hierarchy'', se_attributes = [], se_depth = 0, se_ancestors = [], se_bounds = None, se_non_app = False \<rparr>,
      \<lparr> se_tag = ''app'', se_attributes = [(''bounds'', ''[0,0][400,800]'')], se_depth = 1, se_ancestors = [0],
        se_bounds = Some \<lparr> rc_left = 0, rc_top = 0, rc_right = 400, rc_bottom = 800 \<rparr>, se_non_app = False \<rparr>,
      \<lparr> se_tag = ''list'', se_attributes = [(''bounds'', ''[0,0][400,900]''), (''scrollable'', ''true'')], se_depth = 2, se_ancestors = [1, 0],
        se_bounds = Some \<lparr> rc_left = 0, rc_top = 0, rc_right = 400, rc_bottom = 900 \<rparr>, se_non_app = False \<rparr>,
      \<lparr> se_tag = ''bar'', se_attributes = [(''bounds'', ''[0,0][400,50]''), (''tapsmith-non-app'', ''true'')], se_depth = 2, se_ancestors = [1, 0],
        se_bounds = Some \<lparr> rc_left = 0, rc_top = 0, rc_right = 400, rc_bottom = 50 \<rparr>, se_non_app = True \<rparr>]"

lemma demo_bounds:
  "parse_bounds ''[0,0][400,800]'' = Some \<lparr> rc_left = 0, rc_top = 0, rc_right = 400, rc_bottom = 800 \<rparr>"
  "parse_bounds ''[0,0][400,900]'' = Some \<lparr> rc_left = 0, rc_top = 0, rc_right = 400, rc_bottom = 900 \<rparr>"
  "parse_bounds ''[0,0][400,50]'' = Some \<lparr> rc_left = 0, rc_top = 0, rc_right = 400, rc_bottom = 50 \<rparr>"
  "parse_bounds [] = None"
  by (simp_all add: parse_bounds_def take_point_def expect_char_def take_number_def is_digit_char_def digit_value_def Let_def)

lemma demo_entries_of: "entries_of demo_dump = demo_entries"
  by (simp add: entries_of_def demo_dump_def demo_entries_def Let_def demo_bounds)

lemma demo_swipe:
  "scroll_region demo_dump None None = Some \<lparr> rc_left = 0, rc_top = 50, rc_right = 400, rc_bottom = 800 \<rparr>"
proof -
  have bounded: "bounded_entries demo_entries = [1, 2, 3]" by (simp add: bounded_entries_def demo_entries_def upt_rec)
  have windows: "window_entries demo_entries = [1]" by (simp add: window_entries_def bounded Let_def) (simp add: demo_entries_def)
  have screen: "screen_of demo_entries = \<lparr> rc_left = 0, rc_top = 0, rc_right = 400, rc_bottom = 800 \<rparr>"
    by (simp add: screen_of_def windows bounds_at_def) (simp add: demo_entries_def)
  have covers: "covers_of demo_entries = [\<lparr> rc_left = 0, rc_top = 0, rc_right = 400, rc_bottom = 50 \<rparr>]"
    by (simp add: covers_of_def bounds_at_def demo_entries_def upt_rec)
  have window: "window_bounds demo_entries 2 = Some \<lparr> rc_left = 0, rc_top = 0, rc_right = 400, rc_bottom = 800 \<rparr>"
    by (simp add: window_bounds_def window_of_def windows) (simp add: demo_entries_def)
  have list_entry: "se_bounds (demo_entries ! 2) = Some \<lparr> rc_left = 0, rc_top = 0, rc_right = 400, rc_bottom = 900 \<rparr>"
    "\<not> se_non_app (demo_entries ! 2)" "is_scrollable (demo_entries ! 2)" "se_ancestors (demo_entries ! 2) = [1, 0]"
    by (simp_all add: demo_entries_def is_scrollable_def)
  have unscrolled: "\<not> is_scrollable (demo_entries ! 1)" "\<not> is_scrollable (demo_entries ! 0)"
    by (simp_all add: demo_entries_def is_scrollable_def ios_scroll_types_def)
  have shown: "shown_bounds demo_entries 2 \<lparr> rc_left = 0, rc_top = 0, rc_right = 400, rc_bottom = 900 \<rparr> =
      Some \<lparr> rc_left = 0, rc_top = 0, rc_right = 400, rc_bottom = 800 \<rparr>"
    by (simp add: shown_bounds_def screen window rect_intersect_def Let_def)
  have clip: "clip_ancestors demo_entries [1, 0] (Some r) = Some r" for r
    using unscrolled by (simp split: option.split)
  have trim: "trim_covers demo_entries \<lparr> rc_left = 0, rc_top = 0, rc_right = 400, rc_bottom = 800 \<rparr> =
      \<lparr> rc_left = 0, rc_top = 50, rc_right = 400, rc_bottom = 800 \<rparr>"
    by (simp add: trim_covers_def covers trim_edge_def rect_intersect_def Let_def)
  have region: "region_of demo_entries 2 = Some \<lparr> rc_left = 0, rc_top = 50, rc_right = 400, rc_bottom = 800 \<rparr>"
    unfolding region_of_def list_entry(1,4) option.case shown clip trim Let_def using list_entry(2,3) by (simp add: min_region_def)
  have others: "region_of demo_entries 0 = None" "region_of demo_entries 1 = None" "region_of demo_entries 3 = None"
    by (simp_all add: region_of_def demo_entries_def is_scrollable_def ios_scroll_types_def)
  have indices: "[0..<length demo_entries] = [0, 1, 2, 3]" by (simp add: demo_entries_def upt_rec)
  have "scroll_candidates demo_entries = [(2, \<lparr> rc_left = 0, rc_top = 50, rc_right = 400, rc_bottom = 800 \<rparr>)]"
    unfolding scroll_candidates_def indices by (simp add: List.map_filter_def region others others(2) [unfolded One_nat_def])
  then have "topmost_region demo_entries = Some \<lparr> rc_left = 0, rc_top = 50, rc_right = 400, rc_bottom = 800 \<rparr>"
    by (simp add: topmost_region_def in_top_window_def area_le_def covered_by_def window_area_def window)
  then show ?thesis by (simp add: scroll_region_def demo_entries_of bounded)
qed

theorem swipe_region_safe_witness:
  "\<exists>i. swipe_safe (entries_of demo_dump) i \<lparr> rc_left = 0, rc_top = 50, rc_right = 400, rc_bottom = 800 \<rparr>"
  using swipe_region_safe [OF demo_swipe] by (elim exE conjE) (auto simp: same_frame_def)

end
