(* ===== verification/Locators.thy ===== *)
theory Locators
  imports Test_Filter Scroll_Container
begin

text \<open>
  Locators (\<open>element-handle.ts\<close>): how a handle is built by \<open>getBy*\<close>, \<open>nth\<close>, \<open>filter\<close>, \<open>and\<close> and \<open>or\<close>, and which
  elements it resolves to. What a device answers to a \<open>findElements\<close> is an argument that depends on the place
  of the read in the handle, so that every read may see another screen; of two reads that run at once and
  both fail, the model reports the left one's error. A \<open>RegExp\<close> is its test of a text, for those without the
  flags \<open>g\<close> and \<open>y\<close>.
\<close>

section \<open>Elements\<close>

text \<open>The fields of \<open>ElementInfo\<close> that resolution reads, and the identity of the object.\<close>

record element_info =
  el_object :: nat
  el_id :: string
  el_class :: string
  el_text :: string
  el_description :: string
  el_resource :: string
  el_bounds :: "rect option"
  el_in_alert :: bool
  el_enabled :: bool
  el_visible :: bool

definition usable_rect :: "rect \<Rightarrow> bool" where
  "usable_rect b \<longleftrightarrow> rc_right b - rc_left b > 0 \<and> rc_bottom b - rc_top b > 0"

definition has_usable_geometry :: "element_info \<Rightarrow> bool" where
  "has_usable_geometry e \<longleftrightarrow> (case el_bounds e of Some b \<Rightarrow> usable_rect b | None \<Rightarrow> False)"

text \<open>\<open>sameTargetKey\<close>: a text whose three forms never coincide.\<close>

datatype target_key = Key_At rect string | Key_Id string | Key_Object nat

definition same_target_key :: "element_info \<Rightarrow> target_key" where
  "same_target_key e =
     (case el_bounds e of
        Some b \<Rightarrow> if usable_rect b then Key_At b (el_text e)
                  else if el_id e \<noteq> [] then Key_Id (el_id e) else Key_Object (el_object e)
      | None \<Rightarrow> if el_id e \<noteq> [] then Key_Id (el_id e) else Key_Object (el_object e))"

fun collapse_from :: "target_key list \<Rightarrow> element_info list \<Rightarrow> element_info list" where
  "collapse_from seen [] = []"
| "collapse_from seen (e # es) =
     (if \<not> has_usable_geometry e then e # collapse_from seen es
      else if same_target_key e \<in> set seen then collapse_from seen es
      else e # collapse_from (set_add (same_target_key e) seen) es)"

definition collapse_same_target_duplicates :: "element_info list \<Rightarrow> element_info list" where
  "collapse_same_target_duplicates es = (if length es < 2 then es else collapse_from [] es)"

section \<open>Scope\<close>

definition same_alert_side :: "element_info \<Rightarrow> element_info \<Rightarrow> bool" where
  "same_alert_side p c \<longleftrightarrow> el_in_alert p = el_in_alert c"

datatype containment = Contained | Not_Contained | Indeterminate

definition bounds_contain :: "element_info \<Rightarrow> element_info \<Rightarrow> containment" where
  "bounds_contain parent child =
     (case (el_bounds parent, el_bounds child) of
        (Some p, Some c) \<Rightarrow>
          if \<not> same_alert_side parent child then Not_Contained
          else if rc_left c \<ge> rc_left p \<and> rc_top c \<ge> rc_top p \<and> rc_right c \<le> rc_right p \<and> rc_bottom c \<le> rc_bottom p
            then Contained else Not_Contained
      | _ \<Rightarrow> Indeterminate)"

text \<open>The centre is compared doubled.\<close>

definition in_scope_of :: "element_info \<Rightarrow> element_info \<Rightarrow> bool" where
  "in_scope_of parent child =
     (case (el_bounds parent, el_bounds child) of
        (Some p, Some c) \<Rightarrow>
          if \<not> has_usable_geometry child \<or> \<not> same_alert_side parent child then False
          else
            (let encloses = (rc_left c \<le> rc_left p \<and> rc_top c \<le> rc_top p \<and> rc_right c \<ge> rc_right p \<and> rc_bottom c \<ge> rc_bottom p);
                 same_rect = (rc_left c = rc_left p \<and> rc_top c = rc_top p \<and> rc_right c = rc_right p \<and> rc_bottom c = rc_bottom p);
                 (cx, cy) = double_centre c
             in if encloses \<and> \<not> same_rect then False
                else cx \<ge> 2 * rc_left p \<and> cx \<le> 2 * rc_right p \<and> cy \<ge> 2 * rc_top p \<and> cy \<le> 2 * rc_bottom p)
      | _ \<Rightarrow> False)"

definition is_same_element :: "element_info \<Rightarrow> element_info \<Rightarrow> bool" where
  "is_same_element parent child \<longleftrightarrow> same_target_key child = same_target_key parent \<and> el_class child = el_class parent \<and>
     el_resource child = el_resource parent \<and> el_description child = el_description parent"

definition scope_matches :: "element_info list \<Rightarrow> bool \<Rightarrow> element_info \<Rightarrow> element_info list" where
  "scope_matches elements parent_fallback p =
     (let within = filter (\<lambda>c. in_scope_of p c \<and> \<not> is_same_element p c) elements
      in if within \<noteq> [] \<or> \<not> parent_fallback then within else filter (is_same_element p) elements)"

definition scope_to_parents :: "element_info list \<Rightarrow> element_info list \<Rightarrow> bool \<Rightarrow> element_info list" where
  "scope_to_parents parents elements parent_fallback =
     (let kept = set_of_list (concat (map (scope_matches elements parent_fallback) parents))
      in filter (\<lambda>c. c \<in> set kept) elements)"

section \<open>Handles\<close>

datatype selector = Selector (kind_type: string) (kind_detail: string) (parent_selector: "selector option")

definition with_parent :: "selector \<Rightarrow> selector \<Rightarrow> selector" where
  "with_parent child parent = Selector (kind_type child) (kind_detail child) (Some parent)"

datatype text_match = Includes string | Regex "string \<Rightarrow> bool"

datatype locator =
    Locator (loc_selector: selector) (nth_index: "int option") (loc_filters: "filter_options list") (loc_post: "post_step list")
      (loc_composition: composition)
  and composition = Plain | And_Of locator locator | Or_Of locator locator | Scoped_To locator
  and filter_options =
    Filter (has_text: "text_match option") (has_not_text: "text_match option") (has_child: "locator option") (has_not_child: "locator option")
  and post_step = Nth_Step int | Filter_Step filter_options

text \<open>\<open>new ElementHandle(client, selector, timeout)\<close>, and the builders; \<open>and\<close> and \<open>or\<close> refuse an xpath operand.\<close>

definition plain_locator :: "selector \<Rightarrow> locator" where
  "plain_locator sel = Locator sel None [] [] Plain"

definition scoped_child :: "locator \<Rightarrow> selector \<Rightarrow> locator" where
  "scoped_child l child = Locator child None [] [] (Scoped_To l)"

definition nth_of :: "locator \<Rightarrow> int \<Rightarrow> locator" where
  "nth_of l index =
     (if nth_index l \<noteq> None
      then Locator (loc_selector l) (nth_index l) (loc_filters l) (loc_post l @ [Nth_Step index]) (loc_composition l)
      else Locator (loc_selector l) (Some index) (loc_filters l) (loc_post l) (loc_composition l))"

definition first_of :: "locator \<Rightarrow> locator" where "first_of l = nth_of l 0"
definition last_of :: "locator \<Rightarrow> locator" where "last_of l = nth_of l (- 1)"

definition filter_of :: "locator \<Rightarrow> filter_options \<Rightarrow> locator" where
  "filter_of l criteria =
     (if nth_index l \<noteq> None
      then Locator (loc_selector l) (nth_index l) (loc_filters l) (loc_post l @ [Filter_Step criteria]) (loc_composition l)
      else Locator (loc_selector l) (nth_index l) (loc_filters l @ [criteria]) (loc_post l) (loc_composition l))"

fun selector_xpath :: "selector \<Rightarrow> bool" where
  "selector_xpath (Selector t d parent) = (t = ''xpath'' \<or> (case parent of Some p \<Rightarrow> selector_xpath p | None \<Rightarrow> False))"

fun find_xpath :: "locator \<Rightarrow> bool" where
  "find_xpath (Locator sel n fs post Plain) = selector_xpath sel"
| "find_xpath (Locator sel n fs post (Scoped_To l)) = (selector_xpath sel \<or> find_xpath l)"
| "find_xpath (Locator sel n fs post (And_Of l r)) = (selector_xpath sel \<or> find_xpath l \<or> find_xpath r)"
| "find_xpath (Locator sel n fs post (Or_Of l r)) = (selector_xpath sel \<or> find_xpath l \<or> find_xpath r)"

definition and_of :: "locator \<Rightarrow> locator \<Rightarrow> locator option" where
  "and_of l r = (if find_xpath l \<or> find_xpath r then None else Some (Locator (loc_selector l) None [] [] (And_Of l r)))"

definition or_of :: "locator \<Rightarrow> locator \<Rightarrow> locator option" where
  "or_of l r = (if find_xpath l \<or> find_xpath r then None else Some (Locator (loc_selector l) None [] [] (Or_Of l r)))"

section \<open>Resolution\<close>

datatype resolution_error =
    Find_Failed string
  | Positional_Miss int nat nat \<comment> \<open>index, expected at least, found\<close>
  | Not_Found
  | Strict_Violation "element_info list"

type_synonym 'a resolution = "resolution_error + 'a"

definition resolved_then :: "'a resolution \<Rightarrow> ('a \<Rightarrow> 'b resolution) \<Rightarrow> 'b resolution" where
  "resolved_then r f = (case r of Inl e \<Rightarrow> Inl e | Inr x \<Rightarrow> f x)"

type_synonym reader = "nat list \<Rightarrow> selector \<Rightarrow> string + element_info list"

definition find_elements :: "reader \<Rightarrow> nat list \<Rightarrow> selector \<Rightarrow> element_info list resolution" where
  "find_elements read path sel = (case read path sel of Inl message \<Rightarrow> Inl (Find_Failed message) | Inr es \<Rightarrow> Inr es)"

fun matches_text :: "text_match \<Rightarrow> string \<Rightarrow> bool" where
  "matches_text (Includes s) t = includes_str t s"
| "matches_text (Regex test) t = test t"

definition keeps_child :: "element_info list \<Rightarrow> element_info \<Rightarrow> bool" where
  "keeps_child children parent =
     (if el_bounds parent = None then False
      else
        (let results = map (bounds_contain parent) children
         in if Contained \<in> set results then True
            else results \<noteq> [] \<and> list_all (\<lambda>r. r = Indeterminate) results))"

definition keeps_without :: "element_info list \<Rightarrow> element_info \<Rightarrow> bool" where
  "keeps_without children parent =
     (if el_bounds parent = None then True
      else
        (let results = map (bounds_contain parent) children
         in if Contained \<in> set results then False
            else \<not> (results \<noteq> [] \<and> list_all (\<lambda>r. r = Indeterminate) results)))"

definition text_kept_by :: "filter_options \<Rightarrow> element_info \<Rightarrow> bool" where
  "text_kept_by f e \<longleftrightarrow>
     (case has_text f of Some m \<Rightarrow> matches_text m (el_text e) | None \<Rightarrow> True) \<and>
     (case has_not_text f of Some m \<Rightarrow> \<not> matches_text m (el_text e) | None \<Rightarrow> True)"

definition apply_filter :: "reader \<Rightarrow> nat list \<Rightarrow> selector \<Rightarrow> filter_options \<Rightarrow> element_info list \<Rightarrow> element_info list resolution" where
  "apply_filter read path sel f elements =
     (if elements = [] then Inr elements
      else
        (let result = filter (text_kept_by f) elements in
         resolved_then
           (case has_child f of
              None \<Rightarrow> Inr result
            | Some child \<Rightarrow> resolved_then (find_elements read (path @ [0]) (with_parent (loc_selector child) sel))
                (\<lambda>children. Inr (filter (keeps_child children) result)))
           (\<lambda>result. case has_not_child f of
              None \<Rightarrow> Inr result
            | Some child \<Rightarrow> resolved_then (find_elements read (path @ [1]) (with_parent (loc_selector child) sel))
                (\<lambda>children. Inr (filter (keeps_without children) result)))))"

fun apply_filters :: "reader \<Rightarrow> nat list \<Rightarrow> selector \<Rightarrow> filter_options list \<Rightarrow> nat \<Rightarrow> element_info list \<Rightarrow> element_info list resolution" where
  "apply_filters read path sel [] i elements = Inr elements"
| "apply_filters read path sel (f # fs) i elements =
     resolved_then (apply_filter read (path @ [2, i]) sel f elements) (apply_filters read path sel fs (i + 1))"

definition select_nth :: "element_info list \<Rightarrow> int \<Rightarrow> element_info list" where
  "select_nth elements n =
     (let idx = (if n < 0 then int (length elements) + n else n)
      in if idx \<ge> 0 \<and> idx < int (length elements) then [elements ! nat idx] else [])"

fun apply_step :: "reader \<Rightarrow> nat list \<Rightarrow> selector \<Rightarrow> post_step \<Rightarrow> element_info list \<Rightarrow> element_info list resolution" where
  "apply_step read path sel (Nth_Step n) elements = Inr (select_nth elements n)"
| "apply_step read path sel (Filter_Step f) elements = apply_filter read path sel f elements"

fun apply_steps :: "reader \<Rightarrow> nat list \<Rightarrow> selector \<Rightarrow> post_step list \<Rightarrow> nat \<Rightarrow> element_info list \<Rightarrow> element_info list resolution" where
  "apply_steps read path sel [] i elements = Inr elements"
| "apply_steps read path sel (s # ss) i elements =
     resolved_then (apply_step read (path @ [3, i]) sel s elements) (apply_steps read path sel ss (i + 1))"

text \<open>\<open>_select\<close>.\<close>

definition select_matches :: "reader \<Rightarrow> nat list \<Rightarrow> locator \<Rightarrow> element_info list \<Rightarrow> element_info list resolution" where
  "select_matches read path l elements =
     (case nth_index l of
        None \<Rightarrow> Inr elements
      | Some n \<Rightarrow> apply_steps read path (loc_selector l) (loc_post l) 0 (select_nth elements n))"

text \<open>The order of a union: by top and left, elements without a place last.\<close>

definition screen_le :: "element_info \<Rightarrow> element_info \<Rightarrow> bool" where
  "screen_le a b =
     (if has_usable_geometry a \<and> has_usable_geometry b then
        (case (el_bounds a, el_bounds b) of
           (Some p, Some q) \<Rightarrow> rc_top p < rc_top q \<or> rc_top p = rc_top q \<and> rc_left p \<le> rc_left q
         | _ \<Rightarrow> True)
      else if has_usable_geometry a \<noteq> has_usable_geometry b then has_usable_geometry a
      else True)"

definition intersect_matches :: "element_info list \<Rightarrow> element_info list \<Rightarrow> element_info list" where
  "intersect_matches left_els right_els = filter (\<lambda>e. same_target_key e \<in> same_target_key ` set right_els) left_els"

definition unite_matches :: "element_info list \<Rightarrow> element_info list \<Rightarrow> element_info list" where
  "unite_matches left_els right_els =
     sort_by screen_le (left_els @ filter (\<lambda>e. same_target_key e \<notin> same_target_key ` set left_els) right_els)"

fun resolve_all :: "reader \<Rightarrow> bool \<Rightarrow> nat list \<Rightarrow> locator \<Rightarrow> element_info list resolution" where
  "resolve_all read ios path (Locator sel n fs post Plain) =
     resolved_then (find_elements read path sel)
       (\<lambda>es. apply_filters read path sel fs 0 (collapse_same_target_duplicates es))"
| "resolve_all read ios path (Locator sel n fs post (Scoped_To parent)) =
     resolved_then (resolved_then (resolve_all read ios (path @ [1]) parent) (select_matches read (path @ [1]) parent))
       (\<lambda>parents. resolved_then (find_elements read path sel)
         (\<lambda>es. apply_filters read path sel fs 0 (collapse_same_target_duplicates (scope_to_parents parents es ios))))"
| "resolve_all read ios path (Locator sel n fs post (And_Of l r)) =
     resolved_then (resolved_then (resolve_all read ios (path @ [0]) l) (select_matches read (path @ [0]) l))
       (\<lambda>ls. resolved_then (resolved_then (resolve_all read ios (path @ [1]) r) (select_matches read (path @ [1]) r))
         (\<lambda>rs. apply_filters read path sel fs 0 (intersect_matches ls rs)))"
| "resolve_all read ios path (Locator sel n fs post (Or_Of l r)) =
     resolved_then (resolved_then (resolve_all read ios (path @ [0]) l) (select_matches read (path @ [0]) l))
       (\<lambda>ls. resolved_then (resolved_then (resolve_all read ios (path @ [1]) r) (select_matches read (path @ [1]) r))
         (\<lambda>rs. apply_filters read path sel fs 0 (unite_matches ls rs)))"

text \<open>One read of the matches, as \<open>count\<close>, \<open>all\<close> and the waits make it.\<close>

definition read_matches :: "reader \<Rightarrow> bool \<Rightarrow> nat list \<Rightarrow> locator \<Rightarrow> element_info list resolution" where
  "read_matches read ios path l = resolved_then (resolve_all read ios path l) (select_matches read path l)"

definition count_matches :: "reader \<Rightarrow> bool \<Rightarrow> locator \<Rightarrow> nat resolution" where
  "count_matches read ios l = map_sum id length (read_matches read ios [] l)"

definition all_handles :: "reader \<Rightarrow> bool \<Rightarrow> locator \<Rightarrow> locator list resolution" where
  "all_handles read ios l =
     map_sum id (\<lambda>es.
       if nth_index l \<noteq> None then (if length es > 0 then [l] else [])
       else map (\<lambda>i. Locator (loc_selector l) (Some (int i)) (loc_filters l) (loc_post l) (loc_composition l)) [0..<length es])
       (read_matches read ios [] l)"

text \<open>\<open>_resolveOne\<close>: the walk of a positional handle names the step that lost the element.\<close>

fun walk_steps :: "reader \<Rightarrow> nat list \<Rightarrow> selector \<Rightarrow> post_step list \<Rightarrow> nat \<Rightarrow> element_info list \<Rightarrow> element_info list resolution" where
  "walk_steps read path sel [] i selected = Inr selected"
| "walk_steps read path sel (s # ss) i selected =
     resolved_then (apply_step read (path @ [3, i]) sel s selected)
       (\<lambda>es. if es = [] then
               (case s of
                  Nth_Step n \<Rightarrow> Inl (Positional_Miss n (if n \<ge> 0 then nat (n + 1) else nat (- n)) (length selected))
                | Filter_Step _ \<Rightarrow> Inl Not_Found)
             else walk_steps read path sel ss (i + 1) es)"

definition resolve_one :: "reader \<Rightarrow> bool \<Rightarrow> nat list \<Rightarrow> locator \<Rightarrow> element_info resolution" where
  "resolve_one read ios path l =
     resolved_then (resolve_all read ios path l)
       (\<lambda>es. case nth_index l of
          Some n \<Rightarrow>
            (let first_pick = select_nth es n in
             if first_pick = [] then Inl (Positional_Miss n (if n \<ge> 0 then nat (n + 1) else nat (- n)) (length es))
             else resolved_then (walk_steps read path (loc_selector l) (loc_post l) 0 first_pick) (\<lambda>es. Inr (hd es)))
        | None \<Rightarrow>
            (case es of
               [] \<Rightarrow> Inl Not_Found
             | [e] \<Rightarrow> Inr e
             | _ \<Rightarrow> Inl (Strict_Violation es)))"

section \<open>A stateful expression\<close>

text \<open>
  The filters call \<open>test\<close> of the given \<open>RegExp\<close> itself. With the flag \<open>g\<close> it starts at \<open>lastIndex\<close> and moves it:
  \<open>match_from\<close> is the end of the first match at or after an index.
\<close>

fun global_regex_filter :: "(string \<Rightarrow> nat \<Rightarrow> nat option) \<Rightarrow> nat \<Rightarrow> element_info list \<Rightarrow> element_info list" where
  "global_regex_filter match_from last_index [] = []"
| "global_regex_filter match_from last_index (e # es) =
     (case (if last_index > length (el_text e) then None else match_from (el_text e) last_index) of
        Some i \<Rightarrow> e # global_regex_filter match_from i es
      | None \<Rightarrow> global_regex_filter match_from 0 es)"

end
