(* ===== verification/Auto_Wait.thy ===== *)
theory Auto_Wait
  imports Locators Retry_Schedule
begin

text \<open>
  Waiting (\<open>element-handle.ts\<close>): how a failed read is classified, the three kinds of tick, and the loops that
  read again: the auto-wait of actions, \<open>waitFor\<close>, \<open>count\<close>/\<open>all\<close> and the presence probes. The clock moves in
  reads and sleeps only; how long the k-th read takes and answers, how late the k-th sleep ends and
  whether the run is stopped in it are arguments. The texts of messages are an argument too, for the
  classification reads them.
\<close>

section \<open>Errors\<close>

text \<open>A thrown value: a strict mode violation or a user stop (both by their brand), another \<open>Error\<close>, or none.\<close>

datatype thrown_value = Strict_Error string | Abort_Error string | Plain_Error string | Not_An_Error

fun error_text :: "thrown_value \<Rightarrow> string option" where
  "error_text (Strict_Error m) = Some m"
| "error_text (Abort_Error m) = Some m"
| "error_text (Plain_Error m) = Some m"
| "error_text Not_An_Error = None"

definition is_strict_violation :: "thrown_value \<Rightarrow> bool" where
  "is_strict_violation e = (case e of Strict_Error _ \<Rightarrow> True | _ \<Rightarrow> False)"

definition is_abort_error :: "thrown_value \<Rightarrow> bool" where
  "is_abort_error e = (case e of Abort_Error _ \<Rightarrow> True | _ \<Rightarrow> False)"

definition stale_snapshot_signature :: string where
  "stale_snapshot_signature = ''is stale (UI changed)''"

definition agent_timeout_signature :: string where
  "agent_timeout_signature = ''Agent command timed out''"

definition is_stale_snapshot_error :: "thrown_value \<Rightarrow> bool" where
  "is_stale_snapshot_error e = (case error_text e of Some m \<Rightarrow> includes_str m stale_snapshot_signature | None \<Rightarrow> False)"

definition is_transient_agent_error :: "thrown_value \<Rightarrow> bool" where
  "is_transient_agent_error e = (case error_text e of Some m \<Rightarrow> includes_str m agent_timeout_signature | None \<Rightarrow> False)"

definition is_pollable_not_found_error :: "thrown_value \<Rightarrow> bool" where
  "is_pollable_not_found_error e =
     (if is_strict_violation e then False
      else if is_abort_error e then False
      else case error_text e of
        None \<Rightarrow> False
      | Some m \<Rightarrow> starts_with m ''Element not found:'' \<or> starts_with m ''nth('' \<or> is_stale_snapshot_error e)"

definition is_retryable_resolution_error :: "thrown_value \<Rightarrow> bool" where
  "is_retryable_resolution_error e =
     (if is_strict_violation e \<or> is_abort_error e then False
      else if is_transient_agent_error e then True
      else if is_stale_snapshot_error e then False
      else case error_text e of
        None \<Rightarrow> False
      | Some m \<Rightarrow> starts_with m ''findElement failed:'' \<or> starts_with m ''findElements failed:'')"

datatype resolution_class = Class_Stale | Class_Fault | Class_Miss | Class_Fatal

definition classify_resolution_error :: "thrown_value \<Rightarrow> resolution_class" where
  "classify_resolution_error e =
     (if is_stale_snapshot_error e then Class_Stale
      else if is_retryable_resolution_error e then Class_Fault
      else if is_pollable_not_found_error e then Class_Miss
      else Class_Fatal)"

text \<open>The texts: how a handle describes itself, and the strictness error over the elements it met.\<close>

record wording =
  describe :: "locator \<Rightarrow> string"
  strict_text :: "locator \<Rightarrow> element_info list \<Rightarrow> string"

definition show_int :: "int \<Rightarrow> string" where
  "show_int i = (if i < 0 then ''-'' @ show_nat (nat (- i)) else show_nat (nat i))"

fun thrown_of :: "wording \<Rightarrow> locator \<Rightarrow> resolution_error \<Rightarrow> thrown_value" where
  "thrown_of wd l (Find_Failed m) = Plain_Error (''findElements failed: '' @ m)"
| "thrown_of wd l (Positional_Miss n expected found) =
     Plain_Error (''nth('' @ show_int n @ ''): expected at least '' @ show_nat expected @ '' element(s), but found '' @ show_nat found)"
| "thrown_of wd l Not_Found = Plain_Error (''Element not found: '' @ describe wd l)"
| "thrown_of wd l (Strict_Violation es) = Strict_Error (strict_text wd l es)"

section \<open>Ticks\<close>

datatype tick_outcome = Tick_Found element_info | Tick_Miss "string option" | Tick_Stale | Tick_Fault thrown_value

text \<open>\<open>_classifyTickError\<close>: the tick a failed read amounts to, or the error again.\<close>

definition classify_tick_error :: "thrown_value \<Rightarrow> thrown_value + tick_outcome" where
  "classify_tick_error e =
     (case classify_resolution_error e of
        Class_Stale \<Rightarrow> Inr Tick_Stale
      | Class_Fault \<Rightarrow> Inr (Tick_Fault e)
      | Class_Miss \<Rightarrow> Inr (Tick_Miss (case error_text e of Some m \<Rightarrow> if starts_with m ''nth('' then Some m else None | None \<Rightarrow> None))
      | Class_Fatal \<Rightarrow> Inl e)"

definition has_modifiers :: "locator \<Rightarrow> bool" where
  "has_modifiers l \<longleftrightarrow> nth_index l \<noteq> None \<or> loc_filters l \<noteq> [] \<or> loc_composition l \<noteq> Plain"

definition find_one_strict :: "reader \<Rightarrow> locator \<Rightarrow> element_info option resolution" where
  "find_one_strict read l =
     resolved_then (find_elements read [] (loc_selector l))
       (\<lambda>found. let elements = collapse_same_target_duplicates found in
         if length elements > 1 then Inl (Strict_Violation elements)
         else Inr (case elements of [] \<Rightarrow> None | e # _ \<Rightarrow> Some e))"

text \<open>What one tick meets: a call that throws (a transport failure, a user stop), or a device that answers.\<close>

type_synonym answer = "thrown_value + reader"

definition resolve_tick :: "wording \<Rightarrow> bool \<Rightarrow> locator \<Rightarrow> answer \<Rightarrow> thrown_value + tick_outcome" where
  "resolve_tick wd ios l a =
     (case a of
        Inl e \<Rightarrow> classify_tick_error e
      | Inr read \<Rightarrow>
          (case (if has_modifiers l then map_sum id Some (resolve_one read ios [] l) else find_one_strict read l) of
             Inl err \<Rightarrow> classify_tick_error (thrown_of wd l err)
           | Inr (Some e) \<Rightarrow> Inr (Tick_Found e)
           | Inr None \<Rightarrow> Inr (Tick_Miss None)))"

definition resolve_for_assertion :: "reader \<Rightarrow> bool \<Rightarrow> locator \<Rightarrow> bool \<Rightarrow> element_info list resolution" where
  "resolve_for_assertion read ios l strict =
     resolved_then
       (if loc_filters l \<noteq> [] \<or> loc_composition l \<noteq> Plain
        then resolve_all read ios [] (Locator (loc_selector l) None (loc_filters l) [] (loc_composition l))
        else resolved_then (find_elements read [] (loc_selector l)) (\<lambda>es. Inr (collapse_same_target_duplicates es)))
       (\<lambda>elements. if nth_index l \<noteq> None then select_matches read [] l elements
                   else if strict \<and> length elements > 1 then Inl (Strict_Violation elements)
                   else Inr elements)"

definition exists_tick :: "wording \<Rightarrow> bool \<Rightarrow> locator \<Rightarrow> answer \<Rightarrow> thrown_value + tick_outcome" where
  "exists_tick wd ios l a =
     (case a of
        Inl e \<Rightarrow> classify_tick_error e
      | Inr read \<Rightarrow>
          (case resolve_for_assertion read ios l False of
             Inl err \<Rightarrow> classify_tick_error (thrown_of wd l err)
           | Inr [] \<Rightarrow> Inr (Tick_Miss None)
           | Inr (e # _) \<Rightarrow> Inr (Tick_Found e)))"

text \<open>\<open>None\<close> is a tick to be read again.\<close>

definition failed_wait_tick :: "thrown_value \<Rightarrow> thrown_value + element_info list option" where
  "failed_wait_tick e =
     (case classify_resolution_error e of Class_Stale \<Rightarrow> Inr None | Class_Miss \<Rightarrow> Inr (Some []) | _ \<Rightarrow> Inl e)"

definition resolve_for_wait_tick :: "wording \<Rightarrow> bool \<Rightarrow> locator \<Rightarrow> answer \<Rightarrow> thrown_value + element_info list option" where
  "resolve_for_wait_tick wd ios l a =
     (case a of
        Inl e \<Rightarrow> failed_wait_tick e
      | Inr read \<Rightarrow>
          (case (if has_modifiers l
                 then resolved_then (resolve_all read ios [] l)
                        (\<lambda>es. if nth_index l \<noteq> None then select_matches read [] l es else Inr es)
                 else resolved_then (find_elements read [] (loc_selector l)) (\<lambda>es. Inr (collapse_same_target_duplicates es))) of
             Inl err \<Rightarrow> failed_wait_tick (thrown_of wd l err)
           | Inr es \<Rightarrow> Inr (Some es)))"

section \<open>The loops\<close>

definition tick_read_budget_ms :: int where "tick_read_budget_ms = 250"
definition wait_read_budget_ms :: int where "wait_read_budget_ms = 500"
definition min_action_budget_ms :: int where "min_action_budget_ms = 1000"
definition probe_fault_retry_window_ms :: int where "probe_fault_retry_window_ms = 2000"
definition probe_miss_confirm_idle_ms :: int where "probe_miss_confirm_idle_ms = 1500"

text \<open>
  The surroundings of a wait: the answer of the k-th read (issued at a time with a budget) and how long it takes,
  how late the k-th sleep ends and whether the run is stopped in it, and the idle wait of a probe with the error it may throw.
\<close>

record surroundings =
  answers :: "nat \<Rightarrow> int \<Rightarrow> int \<Rightarrow> answer"
  takes :: "nat \<Rightarrow> nat"
  late :: "nat \<Rightarrow> nat"
  stopped :: "nat \<Rightarrow> bool"
  idle_wait :: "int \<Rightarrow> nat \<times> thrown_value option"

definition stopped_by_user :: thrown_value where
  "stopped_by_user = Abort_Error ''Stopped by user''"

definition tick_budget :: "int \<Rightarrow> int \<Rightarrow> int" where
  "tick_budget deadline now = min tick_read_budget_ms (max 1 (deadline - now))"

text \<open>The \<open>k\<close>-th call of \<open>backoff(ACTION_RETRY_DELAYS_MS)\<close>.\<close>

definition action_delay :: "nat \<Rightarrow> int \<Rightarrow> int \<Rightarrow> int" where
  "action_delay k deadline now =
     snd (next_delay (Some deadline) now \<lparr> schedule = action_retry_delays_ms, retry_count = k \<rparr>)"

lemma action_delay_nonneg: "0 \<le> action_delay k deadline now"
proof -
  have "0 \<le> delay_at action_retry_delays_ms k" by (rule delay_at_nonneg) (simp_all add: action_retry_delays_ms_def)
  then show ?thesis by (simp add: action_delay_def next_delay_def Let_def)
qed

lemma action_delay_pos:
  assumes "0 < k" and "now < deadline"
  shows "0 < action_delay k deadline now"
proof -
  obtain j where j: "min k 4 = Suc j" "j < 4" using assms(1) by (cases k) auto
  have "0 < delay_at action_retry_delays_ms k" using j
    by (auto simp: delay_at_def action_retry_delays_ms_def less_Suc_eq numeral_eq_Suc)
  with assms(2) show ?thesis by (simp add: action_delay_def next_delay_def Let_def)
qed

text \<open>How a wait fails.\<close>

datatype wait_failure =
    Raised thrown_value
  | Was_Not_Found int "string option"
  | Is_Disabled int
  | Is_Off_Screen int rect
  | State_Not_Reached int bool
  | Could_Not_Read nat nat

text \<open>
  The skeleton the loops share: read, and be done or go on with a new state; at the deadline fail with what the
  state remembers; else sleep by the schedule, which a stop ends. \<open>guarded\<close>: a sleep of 0 is left out.
\<close>

datatype ('r, 's) verdict = Done "wait_failure + 'r" | Again 's

function poll ::
  "surroundings \<Rightarrow> bool \<Rightarrow> (nat \<Rightarrow> int \<Rightarrow> 't) \<Rightarrow> (int \<Rightarrow> 's \<Rightarrow> 't \<Rightarrow> ('r, 's) verdict) \<Rightarrow> ('s \<Rightarrow> wait_failure) \<Rightarrow>
   int \<Rightarrow> nat \<Rightarrow> int \<Rightarrow> 's \<Rightarrow> (wait_failure + 'r) \<times> int" where
  "poll w guarded ask decide expire deadline k now s =
     (let read_at = now + int (takes w k) in
      case decide read_at s (ask k now) of
        Done r \<Rightarrow> (r, read_at)
      | Again s' \<Rightarrow>
          if deadline \<le> read_at then (Inl (expire s'), read_at)
          else
            (let p = action_delay k deadline read_at in
             if guarded \<and> p = 0 then poll w guarded ask decide expire deadline (k + 1) read_at s'
             else if stopped w k then (Inl (Raised stopped_by_user), read_at)
             else poll w guarded ask decide expire deadline (k + 1) (read_at + p + int (late w k)) s'))"
  by pat_completeness auto
termination
proof (relation "measure (\<lambda>(w, g, ask, decide, expire, deadline, k, now, s). nat (deadline - now) + (if k = 0 then 1 else 0))", goal_cases)
  case 1
  show ?case by simp
next
  case (2 w g ask decide expire deadline k now s r x p)
  then have "k = 0" using action_delay_pos [of k "now + int (takes w k)" deadline] by (cases "k = 0") auto
  with 2 show ?case by auto
next
  case (3 w g ask decide expire deadline k now s r x p)
  then show ?case
    using action_delay_pos [of k "now + int (takes w k)" deadline] action_delay_nonneg [of k deadline "now + int (takes w k)"]
    by (cases "k = 0") auto
qed

declare poll.simps [simp del]

section \<open>Auto-wait\<close>

definition remaining_budget :: "int \<Rightarrow> int \<Rightarrow> int \<Rightarrow> int" where
  "remaining_budget timeout deadline now = min timeout (max (max 0 (deadline - now)) min_action_budget_ms)"

text \<open>\<open>_strictResolve\<close>. Its state: the most recent fault and the last positional miss.\<close>

type_synonym strict_state = "thrown_value option \<times> string option"

fun decide_strict :: "int \<Rightarrow> int \<Rightarrow> int \<Rightarrow> strict_state \<Rightarrow> thrown_value + tick_outcome \<Rightarrow> (element_info option \<times> int, strict_state) verdict" where
  "decide_strict timeout deadline now s (Inl e) = Done (Inl (Raised e))"
| "decide_strict timeout deadline now (fault, miss) (Inr (Tick_Fault e)) = Again (Some e, miss)"
| "decide_strict timeout deadline now (fault, miss) (Inr (Tick_Miss detail)) = Again (None, detail)"
| "decide_strict timeout deadline now (fault, miss) (Inr Tick_Stale) = Again (None, miss)"
| "decide_strict timeout deadline now s (Inr (Tick_Found e)) = Done (Inr (Some e, remaining_budget timeout deadline now))"

fun expire_strict :: "int \<Rightarrow> strict_state \<Rightarrow> wait_failure" where
  "expire_strict timeout (Some e, miss) = Raised e"
| "expire_strict timeout (None, miss) = Was_Not_Found timeout miss"

definition tick_of_read :: "surroundings \<Rightarrow> wording \<Rightarrow> bool \<Rightarrow> locator \<Rightarrow> int \<Rightarrow> nat \<Rightarrow> int \<Rightarrow> thrown_value + tick_outcome" where
  "tick_of_read w wd ios l deadline k now = resolve_tick wd ios l (answers w k now (tick_budget deadline now))"

definition strict_resolve ::
  "surroundings \<Rightarrow> wording \<Rightarrow> bool \<Rightarrow> locator \<Rightarrow> int \<Rightarrow> int \<Rightarrow> (wait_failure + element_info option \<times> int) \<times> int" where
  "strict_resolve w wd ios l timeout start =
     (if timeout = 0 then (Inr (None, 0), start)
      else
        (let deadline = start + timeout in
         poll w True (tick_of_read w wd ios l deadline) (decide_strict timeout deadline) (expire_strict timeout)
           deadline 0 start (None, None)))"

text \<open>\<open>_waitForEnabled\<close>: an element that is disabled, or entirely off screen, is waited for.\<close>

definition is_off_screen :: "element_info \<Rightarrow> bool" where
  "is_off_screen e \<longleftrightarrow> \<not> el_visible e \<and> (case el_bounds e of Some b \<Rightarrow> rc_right b > rc_left b \<and> rc_bottom b > rc_top b | None \<Rightarrow> False)"

record enabled_state =
  last_fault :: "thrown_value option"
  last_miss :: "string option"
  seen_disabled :: bool
  seen_off_screen :: "rect option"

fun decide_enabled ::
  "(element_info \<Rightarrow> bool) \<Rightarrow> int \<Rightarrow> int \<Rightarrow> int \<Rightarrow> enabled_state \<Rightarrow> thrown_value + tick_outcome \<Rightarrow>
   (element_info option \<times> int, enabled_state) verdict" where
  "decide_enabled off_ok timeout deadline now s (Inl e) = Done (Inl (Raised e))"
| "decide_enabled off_ok timeout deadline now s (Inr (Tick_Fault e)) = Again (s\<lparr>last_fault := Some e\<rparr>)"
| "decide_enabled off_ok timeout deadline now s (Inr Tick_Stale) = Again (s\<lparr>last_fault := None\<rparr>)"
| "decide_enabled off_ok timeout deadline now s (Inr (Tick_Miss detail)) =
     Again (s\<lparr>last_fault := None, last_miss := detail, seen_disabled := False, seen_off_screen := None\<rparr>)"
| "decide_enabled off_ok timeout deadline now s (Inr (Tick_Found e)) =
     (let off = (if el_enabled e \<and> is_off_screen e \<and> \<not> off_ok e then el_bounds e else None) in
      if el_enabled e \<and> off = None then Done (Inr (Some e, remaining_budget timeout deadline now))
      else Again (s\<lparr>last_fault := None, last_miss := None, seen_disabled := \<not> el_enabled e, seen_off_screen := off\<rparr>))"

definition expire_enabled :: "int \<Rightarrow> enabled_state \<Rightarrow> wait_failure" where
  "expire_enabled timeout s =
     (case last_fault s of
        Some e \<Rightarrow> Raised e
      | None \<Rightarrow>
          (case seen_off_screen s of
             Some b \<Rightarrow> Is_Off_Screen timeout b
           | None \<Rightarrow> if seen_disabled s then Is_Disabled timeout else Was_Not_Found timeout (last_miss s)))"

definition wait_for_enabled ::
  "surroundings \<Rightarrow> wording \<Rightarrow> bool \<Rightarrow> locator \<Rightarrow> (element_info \<Rightarrow> bool) \<Rightarrow> int option \<Rightarrow> int \<Rightarrow> int \<Rightarrow>
   (wait_failure + element_info option \<times> int) \<times> int" where
  "wait_for_enabled w wd ios l off_ok pinned timeout start =
     (if timeout = 0 then (Inr (None, 0), start)
      else
        (let deadline = (case pinned of Some d \<Rightarrow> d | None \<Rightarrow> start + timeout) in
         poll w True (tick_of_read w wd ios l deadline) (decide_enabled off_ok timeout deadline) (expire_enabled timeout)
           deadline 0 start \<lparr>last_fault = None, last_miss = None, seen_disabled = False, seen_off_screen = None\<rparr>))"

section \<open>\<open>waitFor\<close>\<close>

datatype wait_state = Wait_Visible | Wait_Hidden | Wait_Attached | Wait_Detached

definition state_reached :: "wait_state \<Rightarrow> element_info list \<Rightarrow> bool" where
  "state_reached st es =
     (let attached = es \<noteq> []; visible = attached \<and> list_ex el_visible es
      in case st of Wait_Visible \<Rightarrow> visible | Wait_Hidden \<Rightarrow> \<not> visible | Wait_Attached \<Rightarrow> attached | Wait_Detached \<Rightarrow> \<not> attached)"

text \<open>Its state: the most recent fault, and whether the last answered tick found anything.\<close>

fun decide_wait ::
  "wording \<Rightarrow> locator \<Rightarrow> wait_state \<Rightarrow> int \<Rightarrow> thrown_value option \<times> bool \<Rightarrow> thrown_value + element_info list option \<Rightarrow>
   (unit, thrown_value option \<times> bool) verdict" where
  "decide_wait wd l st now (fault, attached) (Inl e) =
     (if \<not> is_retryable_resolution_error e then Done (Inl (Raised e)) else Again (Some e, attached))"
| "decide_wait wd l st now (fault, attached) (Inr None) = Again (None, attached)"
| "decide_wait wd l st now (fault, attached) (Inr (Some es)) =
     (if nth_index l = None \<and> (st = Wait_Visible \<or> st = Wait_Attached) \<and> length es > 1
      then
        (let e = Strict_Error (strict_text wd l es) in
         if \<not> is_retryable_resolution_error e then Done (Inl (Raised e)) else Again (Some e, attached))
      else if state_reached st es then Done (Inr ())
      else Again (None, es \<noteq> []))"

fun expire_wait :: "int \<Rightarrow> wait_state \<Rightarrow> thrown_value option \<times> bool \<Rightarrow> wait_failure" where
  "expire_wait timeout st (Some e, attached) = Raised e"
| "expire_wait timeout st (None, attached) = State_Not_Reached timeout ((st = Wait_Visible \<or> st = Wait_Attached) \<and> \<not> attached)"

definition wait_tick_of_read ::
  "surroundings \<Rightarrow> wording \<Rightarrow> bool \<Rightarrow> locator \<Rightarrow> int \<Rightarrow> nat \<Rightarrow> int \<Rightarrow> thrown_value + element_info list option" where
  "wait_tick_of_read w wd ios l deadline k now =
     resolve_for_wait_tick wd ios l (answers w k now (min wait_read_budget_ms (max 1 (deadline - now))))"

definition wait_for :: "surroundings \<Rightarrow> wording \<Rightarrow> bool \<Rightarrow> locator \<Rightarrow> wait_state \<Rightarrow> int \<Rightarrow> int \<Rightarrow> (wait_failure + unit) \<times> int" where
  "wait_for w wd ios l st timeout start =
     (let deadline = start + timeout in
      poll w True (wait_tick_of_read w wd ios l deadline) (decide_wait wd l st) (expire_wait timeout st) deadline 0 start (None, False))"

section \<open>The reads of \<open>count\<close> and \<open>all\<close>\<close>

definition read_once :: "wording \<Rightarrow> bool \<Rightarrow> locator \<Rightarrow> answer \<Rightarrow> thrown_value + element_info list" where
  "read_once wd ios l a =
     (case a of
        Inl e \<Rightarrow> Inl e
      | Inr read \<Rightarrow> (case read_matches read ios [] l of Inl err \<Rightarrow> Inl (thrown_of wd l err) | Inr es \<Rightarrow> Inr es))"

text \<open>
  Its state: the end of the window of a fault, and the error at hand. At the deadline an error is thrown as it
  is, whatever its class, as \<open>poll\<close> does after a verdict to go on.
\<close>

fun decide_matches ::
  "int \<Rightarrow> int \<Rightarrow> int option \<times> thrown_value \<Rightarrow> thrown_value + element_info list \<Rightarrow> (element_info list, int option \<times> thrown_value) verdict" where
  "decide_matches timeout now s (Inr es) = Done (Inr es)"
| "decide_matches timeout now (fault_deadline, _) (Inl e) =
     (if is_stale_snapshot_error e \<or> is_transient_agent_error e then Again (None, e)
      else if is_retryable_resolution_error e then
        (let until = (case fault_deadline of Some d \<Rightarrow> d | None \<Rightarrow> now + min probe_fault_retry_window_ms timeout) in
         if until \<le> now then Done (Inl (Raised e)) else Again (Some until, e))
      else Done (Inl (Raised e)))"

definition read_match_set ::
  "surroundings \<Rightarrow> wording \<Rightarrow> bool \<Rightarrow> locator \<Rightarrow> int \<Rightarrow> int \<Rightarrow> (wait_failure + element_info list) \<times> int" where
  "read_match_set w wd ios l timeout start =
     (if timeout = 0 then
        ((case read_once wd ios l (answers w 0 start 0) of Inl e \<Rightarrow> Inl (Raised e) | Inr es \<Rightarrow> Inr es), start + int (takes w 0))
      else
        (let deadline = start + timeout in
         poll w False (\<lambda>k now. read_once wd ios l (answers w k now (tick_budget deadline now))) (decide_matches timeout)
           (\<lambda>(_, e). Raised e) deadline 0 start (None, Not_An_Error)))"

section \<open>Presence probes\<close>

text \<open>The locals of \<open>_probeOnce\<close>.\<close>

record probe_state =
  fault_deadline :: "int option"
  probe_fault :: "thrown_value option"
  stale_reads :: nat
  fault_reads :: nat
  miss_confirmed :: bool
  confirm_deadline :: "int option"

definition fresh_probe :: probe_state where
  "fresh_probe = \<lparr>fault_deadline = None, probe_fault = None, stale_reads = 0, fault_reads = 0, miss_confirmed = False, confirm_deadline = None\<rparr>"

definition after_stale :: "probe_state \<Rightarrow> probe_state" where
  "after_stale s = s\<lparr>stale_reads := stale_reads s + 1, probe_fault := None, fault_deadline := None\<rparr>"

definition after_fault :: "int \<Rightarrow> int \<Rightarrow> thrown_value \<Rightarrow> probe_state \<Rightarrow> probe_state" where
  "after_fault fault_window now e s =
     (let s' = s\<lparr>fault_reads := fault_reads s + 1, probe_fault := Some e\<rparr> in
      if is_transient_agent_error e then s'\<lparr>fault_deadline := None\<rparr>
      else if fault_deadline s' = None then s'\<lparr>fault_deadline := Some (now + fault_window)\<rparr>
      else s')"

definition nearest_deadline :: "int \<Rightarrow> probe_state \<Rightarrow> int" where
  "nearest_deadline deadline s =
     (case (probe_fault s, fault_deadline s) of
        (Some _, Some d) \<Rightarrow> min deadline d
      | (Some _, None) \<Rightarrow> deadline
      | (None, _) \<Rightarrow> (case confirm_deadline s of Some d \<Rightarrow> min deadline d | None \<Rightarrow> deadline))"

lemma probe_state_facts [simp]:
  "miss_confirmed (after_stale s) = miss_confirmed s"
  "miss_confirmed (after_fault fw now e s) = miss_confirmed s"
  "nearest_deadline deadline s \<le> deadline"
  by (simp_all add: after_stale_def after_fault_def Let_def nearest_deadline_def split: option.split)

lemma probe_sleep_shortens:
  assumes "tick_read_budget_ms \<le> nearest_deadline deadline s - read_at" and "now \<le> read_at"
  shows "nat (deadline - (read_at + action_delay r (nearest_deadline deadline s) read_at + int l)) <
    nat (deadline - now) + (if r = 0 then 1 else 0)"
proof -
  obtain d where d: "nearest_deadline deadline s = d" "d \<le> deadline" using probe_state_facts(3) by blast
  then have "read_at + 250 \<le> d" using assms(1) by (simp add: tick_read_budget_ms_def)
  moreover have "0 < r \<Longrightarrow> 0 < action_delay r d read_at" "0 \<le> action_delay r d read_at"
    using calculation by (auto intro: action_delay_pos action_delay_nonneg)
  ultimately show ?thesis using d assms(2) by auto
qed

text \<open>Only a stop ends the idle wait with an error of its own.\<close>

definition idle_aborts :: "thrown_value option \<Rightarrow> bool" where
  "idle_aborts e = (case e of Some e \<Rightarrow> is_abort_error e | None \<Rightarrow> False)"

text \<open>
  \<open>n\<close> counts the reads, \<open>r\<close> the sleeps. Of the error text of a probe that never got an answer the model keeps the
  number of stale and of faulty reads.
\<close>

function probe_loop ::
  "surroundings \<Rightarrow> (nat \<Rightarrow> int \<Rightarrow> thrown_value + tick_outcome) \<Rightarrow> int \<Rightarrow> int \<Rightarrow> nat \<Rightarrow> nat \<Rightarrow> int \<Rightarrow> probe_state \<Rightarrow>
   (wait_failure + element_info option) \<times> int" where
  "probe_loop w ask timeout deadline n r now s =
     (let read_at = now + int (takes w n); fault_window = min probe_fault_retry_window_ms timeout in
      case ask n now of
        Inl e \<Rightarrow> (Inl (Raised e), read_at)
      | Inr (Tick_Found e) \<Rightarrow> (Inr (Some e), read_at)
      | Inr (Tick_Miss _) \<Rightarrow>
          if miss_confirmed s \<or> timeout = 0 then (Inr None, read_at)
          else
            (let (idle_ms, idle_error) = idle_wait w (min probe_miss_confirm_idle_ms timeout);
                 idle_at = read_at + int idle_ms;
                 s' = s\<lparr>probe_fault := None, fault_deadline := None, miss_confirmed := True, confirm_deadline := Some (idle_at + fault_window)\<rparr>
             in if idle_aborts idle_error then (Inl (Raised (the idle_error)), idle_at)
                else probe_loop w ask timeout deadline (n + 1) r idle_at s')
      | Inr unreliable \<Rightarrow>
          (let s' = (case unreliable of Tick_Fault e \<Rightarrow> after_fault fault_window read_at e s | _ \<Rightarrow> after_stale s);
               nearest = nearest_deadline deadline s'
           in if nearest - read_at < tick_read_budget_ms then
                ((case probe_fault s' of
                    Some e \<Rightarrow> Inl (Raised e)
                  | None \<Rightarrow> if confirm_deadline s' \<noteq> None then Inr None else Inl (Could_Not_Read (stale_reads s') (fault_reads s'))),
                 read_at)
              else if stopped w r then (Inl (Raised stopped_by_user), read_at)
              else probe_loop w ask timeout deadline (n + 1) (r + 1)
                     (read_at + action_delay r nearest read_at + int (late w r)) s'))"
  by pat_completeness auto
termination
proof (relation "measure (\<lambda>(w, ask, timeout, deadline, n, r, now, s).
    nat (deadline - now) + (if r = 0 then 1 else 0) + (if miss_confirmed s then 0 else 1))", goal_cases)
  case 1
  show ?case by simp
next
  case (2 w ask timeout deadline n r now s)
  then show ?case by auto
next
  case (3 w ask timeout deadline n r now s)
  then show ?case using probe_sleep_shortens [where s = "after_stale s" and read_at = "now + int (takes w n)"] by simp
next
  case (4 w ask timeout deadline n r now s x xa b e)
  then show ?case
    using probe_sleep_shortens [where s = "after_fault (min probe_fault_retry_window_ms timeout) (now + int (takes w n)) e s"
        and read_at = "now + int (takes w n)"] by simp
qed

declare probe_loop.simps [simp del]

definition probe_once ::
  "surroundings \<Rightarrow> (answer \<Rightarrow> thrown_value + tick_outcome) \<Rightarrow> int \<Rightarrow> int \<Rightarrow> (wait_failure + element_info option) \<times> int" where
  "probe_once w tick timeout start =
     (let deadline = start + timeout in
      probe_loop w (\<lambda>n now. tick (answers w n now (if timeout = 0 then 0 else tick_budget deadline now)))
        timeout deadline 0 0 start fresh_probe)"

definition is_visible :: "surroundings \<Rightarrow> wording \<Rightarrow> bool \<Rightarrow> locator \<Rightarrow> int \<Rightarrow> int \<Rightarrow> wait_failure + bool" where
  "is_visible w wd ios l timeout start =
     map_sum id (\<lambda>info. case info of Some e \<Rightarrow> el_visible e | None \<Rightarrow> False) (fst (probe_once w (resolve_tick wd ios l) timeout start))"

definition is_hidden :: "surroundings \<Rightarrow> wording \<Rightarrow> bool \<Rightarrow> locator \<Rightarrow> int \<Rightarrow> int \<Rightarrow> wait_failure + bool" where
  "is_hidden w wd ios l timeout start =
     map_sum id (\<lambda>info. \<not> (case info of Some e \<Rightarrow> el_visible e | None \<Rightarrow> False)) (fst (probe_once w (resolve_tick wd ios l) timeout start))"

definition exists_now :: "surroundings \<Rightarrow> wording \<Rightarrow> bool \<Rightarrow> locator \<Rightarrow> int \<Rightarrow> int \<Rightarrow> wait_failure + bool" where
  "exists_now w wd ios l timeout start =
     map_sum id (\<lambda>info. info \<noteq> None) (fst (probe_once w (exists_tick wd ios l) timeout start))"

end
