(* ===== verification/Locator_Safety.thy ===== *)
theory Locator_Safety
  imports Locators "HOL-Library.Multiset"
begin

text \<open>
  What a locator means: on a screen that stands still its modifiers compose in the order of the calls, and
  every reader agrees with it. Strictness: one target, or an error that says why not.
\<close>

section \<open>Results\<close>

lemma resolved_then_simps [simp]: "resolved_then (Inl e) f = Inl e" "resolved_then (Inr x) f = f x"
  by (simp_all add: resolved_then_def)

lemma resolved_then_assoc: "resolved_then (resolved_then r f) g = resolved_then r (\<lambda>x. resolved_then (f x) g)"
  by (cases r) simp_all

lemma resolved_then_Inr [simp]: "resolved_then r Inr = r"
  by (cases r) simp_all

lemma resolved_then_map: "map_sum id f r = resolved_then r (\<lambda>x. Inr (f x))"
  by (cases r) simp_all

section \<open>A still screen\<close>

text \<open>Every read of a selector gives one answer.\<close>

definition still :: "(selector \<Rightarrow> string + element_info list) \<Rightarrow> reader" where
  "still screen = (\<lambda>path. screen)"

definition matches :: "(selector \<Rightarrow> string + element_info list) \<Rightarrow> bool \<Rightarrow> locator \<Rightarrow> element_info list resolution" where
  "matches screen ios l = read_matches (still screen) ios [] l"

definition found :: "(selector \<Rightarrow> string + element_info list) \<Rightarrow> selector \<Rightarrow> element_info list resolution" where
  "found screen sel = find_elements (still screen) [] sel"

definition filtered :: "(selector \<Rightarrow> string + element_info list) \<Rightarrow> selector \<Rightarrow> filter_options \<Rightarrow> element_info list \<Rightarrow> element_info list resolution" where
  "filtered screen sel f = apply_filter (still screen) [] sel f"

lemma find_still: "find_elements (still screen) path sel = found screen sel"
  by (simp add: find_elements_def found_def still_def)

lemma filter_still: "apply_filter (still screen) path sel f = filtered screen sel f"
  by (rule ext) (cases "has_child f"; cases "has_not_child f"; simp add: apply_filter_def filtered_def find_still)

lemma filters_still:
  "apply_filters (still screen) path sel fs i es = apply_filters (still screen) [] sel fs 0 es"
proof (induction fs arbitrary: i es path)
  case (Cons f fs)
  have "apply_filters (still screen) path sel fs (i + 1) = apply_filters (still screen) [] sel fs 1"
    using Cons.IH [of path "i + 1"] Cons.IH [of "[]" 1] by (simp add: fun_eq_iff)
  then show ?case by (simp add: filter_still)
qed simp

lemma step_forms:
  "apply_step (still screen) path sel (Nth_Step k) = (\<lambda>es. Inr (select_nth es k))"
  "apply_step (still screen) path sel (Filter_Step f) = filtered screen sel f"
  by (rule ext, simp add: filter_still)+

lemma step_still: "apply_step (still screen) path sel s = apply_step (still screen) [] sel s"
  by (rule ext) (cases s; simp add: filter_still)

lemma steps_still:
  "apply_steps (still screen) path sel ss i es = apply_steps (still screen) [] sel ss 0 es"
proof (induction ss arbitrary: i es path)
  case (Cons s ss)
  have "apply_steps (still screen) path sel ss (i + 1) = apply_steps (still screen) [] sel ss 1"
    using Cons.IH [of path "i + 1"] Cons.IH [of "[]" 1] by (simp add: fun_eq_iff)
  then show ?case using step_still [of screen "path @ [3, i]" sel s] step_still [of screen "[3, 0]" sel s] by simp
qed simp

lemma select_still: "select_matches (still screen) path l = select_matches (still screen) [] l"
  by (rule ext) (simp add: select_matches_def steps_still [of screen path] split: option.split)

lemma resolve_any_path: "resolve_all (still screen) ios path l = resolve_all (still screen) ios path' l"
proof (induction "still screen" ios path l arbitrary: path' rule: resolve_all.induct)
  case (1 ios path sel n fs post)
  show ?case by (simp add: find_still filters_still [of screen path] filters_still [of screen path'])
next
  case (2 ios path sel n fs post parent)
  from 2 [of "path' @ [1]"] show ?case
    by (simp add: find_still filters_still [of screen path] filters_still [of screen path']
        select_still [of screen "path @ _"] select_still [of screen "path' @ _"])
next
  case (3 ios path sel n fs post l r)
  from 3(1) [of "path' @ [0]"] 3(2) [of "path' @ [1]"] show ?case
    by (simp add: filters_still [of screen path] filters_still [of screen path']
        select_still [of screen "path @ _"] select_still [of screen "path' @ _"])
next
  case (4 ios path sel n fs post l r)
  from 4(1) [of "path' @ [0]"] 4(2) [of "path' @ [1]"] show ?case
    by (simp add: filters_still [of screen path] filters_still [of screen path']
        select_still [of screen "path @ _"] select_still [of screen "path' @ _"])
qed

lemmas resolve_still = resolve_any_path [where path' = "[]"]

lemma operand_still:
  "resolved_then (resolve_all (still screen) ios path l) (select_matches (still screen) path l) = matches screen ios l"
  using resolve_still [of screen ios path l] by (simp add: matches_def read_matches_def select_still [of screen path])

section \<open>Later modifiers\<close>

lemma no_steps: "apply_filters read path sel [] i = Inr" "apply_steps read path sel [] i = Inr"
  by (rule ext, simp)+

lemma filters_append:
  "apply_filters (still screen) path sel (fs @ [f]) i es = resolved_then (apply_filters (still screen) path sel fs i es) (filtered screen sel f)"
proof (induction fs arbitrary: i es)
  case (Cons g fs)
  then have "apply_filters (still screen) path sel (fs @ [f]) (i + 1) =
      (\<lambda>x. resolved_then (apply_filters (still screen) path sel fs (i + 1) x) (filtered screen sel f))"
    by (simp add: fun_eq_iff)
  then show ?case by (simp add: resolved_then_assoc)
qed (simp add: filter_still no_steps)

lemma steps_append:
  "apply_steps (still screen) path sel (ss @ [s]) i es = resolved_then (apply_steps (still screen) path sel ss i es) (apply_step (still screen) [] sel s)"
proof (induction ss arbitrary: i es)
  case Nil
  have "apply_step (still screen) (path @ [3, i]) sel s = apply_step (still screen) [] sel s" by (rule step_still)
  then show ?case by (simp add: no_steps)
next
  case (Cons t ss)
  then have "apply_steps (still screen) path sel (ss @ [s]) (i + 1) =
      (\<lambda>x. resolved_then (apply_steps (still screen) path sel ss (i + 1) x) (apply_step (still screen) [] sel s))"
    by (simp add: fun_eq_iff)
  then show ?case by (simp add: resolved_then_assoc)
qed

text \<open>A handle without an index with one more filter.\<close>

lemma resolve_more_filter:
  "resolve_all (still screen) ios path (Locator sel n (fs @ [f]) post cmp) =
     resolved_then (resolve_all (still screen) ios path (Locator sel n fs post cmp)) (filtered screen sel f)"
  by (cases cmp) (simp_all add: filters_append resolved_then_assoc)

text \<open>The index does not matter for the set it is applied to.\<close>

lemma resolve_index: "resolve_all read ios path (Locator sel n fs post cmp) = resolve_all read ios path (Locator sel m fs post' cmp)"
  by (cases cmp) simp_all

section \<open>Built handles\<close>

inductive built :: "locator \<Rightarrow> bool" where
  built_plain: "built (plain_locator sel)"
| built_scoped: "built l \<Longrightarrow> built (scoped_child l sel)"
| built_nth: "built l \<Longrightarrow> built (nth_of l k)"
| built_filter: "built l \<Longrightarrow> built (filter_of l f)"
| built_and: "built l \<Longrightarrow> built r \<Longrightarrow> and_of l r = Some c \<Longrightarrow> built c"
| built_or: "built l \<Longrightarrow> built r \<Longrightarrow> or_of l r = Some c \<Longrightarrow> built c"

lemma built_post: "built l \<Longrightarrow> nth_index l = None \<Longrightarrow> loc_post l = []"
  by (induction rule: built.induct)
    (auto simp: plain_locator_def scoped_child_def nth_of_def filter_of_def and_of_def or_of_def split: if_splits)

lemma nth_matches:
  assumes "built l"
  shows "matches screen ios (nth_of l k) = map_sum id (\<lambda>es. select_nth es k) (matches screen ios l)"
proof (cases l)
  case (Locator sel n fs post cmp)
  show ?thesis
  proof (cases n)
    case None
    with built_post [OF assms] Locator have "post = []" by simp
    with None Locator resolve_index [of "still screen" ios "[]" sel "Some k" fs "[]" cmp None "[]"] show ?thesis
      by (simp add: matches_def read_matches_def nth_of_def select_matches_def [abs_def] resolved_then_map resolved_then_assoc)
  next
    case (Some m)
    with Locator resolve_index [of "still screen" ios "[]" sel n fs "post @ [Nth_Step k]" cmp n post] show ?thesis
      by (simp add: matches_def read_matches_def nth_of_def select_matches_def [abs_def] resolved_then_map resolved_then_assoc steps_append step_forms)
  qed
qed

lemma filter_matches:
  assumes "built l"
  shows "matches screen ios (filter_of l f) = resolved_then (matches screen ios l) (filtered screen (loc_selector l) f)"
proof (cases l)
  case (Locator sel n fs post cmp)
  show ?thesis
  proof (cases n)
    case None
    with Locator show ?thesis
      by (simp add: matches_def read_matches_def filter_of_def select_matches_def [abs_def] resolve_more_filter)
  next
    case (Some m)
    with Locator resolve_index [of "still screen" ios "[]" sel n fs "post @ [Filter_Step f]" cmp n post] show ?thesis
      by (simp add: matches_def read_matches_def filter_of_def select_matches_def [abs_def] resolved_then_assoc steps_append step_forms)
  qed
qed

lemma unselected: "nth_index l = None \<Longrightarrow> read_matches read ios path l = resolve_all read ios path l"
  by (simp add: read_matches_def select_matches_def [abs_def])

lemma scoped_matches:
  "matches screen ios (scoped_child l sel) =
     resolved_then (matches screen ios l) (\<lambda>ps. resolved_then (found screen sel)
       (\<lambda>es. Inr (collapse_same_target_duplicates (scope_to_parents ps es ios))))"
  using operand_still [of screen ios "[1]" l]
  by (simp add: matches_def unselected scoped_child_def find_still)

lemma combined_matches:
  "if find_xpath l \<or> find_xpath r then and_of l r = None \<and> or_of l r = None
   else map_option (matches screen ios) (and_of l r) =
          Some (resolved_then (matches screen ios l) (\<lambda>a. resolved_then (matches screen ios r) (\<lambda>b. Inr (intersect_matches a b)))) \<and>
        map_option (matches screen ios) (or_of l r) =
          Some (resolved_then (matches screen ios l) (\<lambda>a. resolved_then (matches screen ios r) (\<lambda>b. Inr (unite_matches a b))))"
  using operand_still [of screen ios "[0]" l] operand_still [of screen ios "[1]" r]
  by (simp add: matches_def unselected and_of_def or_of_def)

section \<open>One target\<close>

lemma select_nth_short: "length (select_nth es n) \<le> Suc 0"
  by (simp add: select_nth_def Let_def)

lemma apply_filter_length: "apply_filter read path sel f es = Inr es' \<Longrightarrow> length es' \<le> length es"
proof -
  have le: "length (filter P (filter Q (filter R es))) \<le> length es" "length (filter Q (filter R es)) \<le> length es" for P Q R
    by (meson length_filter_le order_trans)+
  show "apply_filter read path sel f es = Inr es' \<Longrightarrow> length es' \<le> length es"
    by (cases "has_child f"; cases "has_not_child f"; cases "find_elements read (path @ [0]) (with_parent (loc_selector (the (has_child f))) sel)";
        cases "find_elements read (path @ [1]) (with_parent (loc_selector (the (has_not_child f))) sel)")
      (auto simp: apply_filter_def Let_def le split: if_splits)
qed

lemma step_length: "apply_step read path sel s es = Inr es' \<Longrightarrow> length es \<le> 1 \<Longrightarrow> length es' \<le> 1"
  by (cases s) (auto simp: select_nth_short dest: apply_filter_length)

lemma empty_steps [simp]: "apply_steps read path sel ss i [] = Inr []"
  by (induction ss arbitrary: i) (simp, rename_tac s ss i, case_tac s, simp_all add: apply_filter_def select_nth_def)

definition lost :: "'a resolution \<Rightarrow> bool" where
  "lost r \<longleftrightarrow> (case r of Inl (Positional_Miss _ _ _) \<Rightarrow> True | Inl Not_Found \<Rightarrow> True | _ \<Rightarrow> False)"

lemma lost_resolved_then: "lost r \<Longrightarrow> lost (resolved_then r f)"
  by (auto simp: lost_def split: sum.splits)

text \<open>The walk and the selection lose the element at the same step.\<close>

lemma walk_select:
  "length es \<le> 1 \<Longrightarrow> es \<noteq> [] \<Longrightarrow>
   (case apply_steps read path sel ss i es of
      Inl e \<Rightarrow> walk_steps read path sel ss i es = Inl e
    | Inr es' \<Rightarrow> length es' \<le> 1 \<and>
        (if es' = [] then lost (walk_steps read path sel ss i es)
         else walk_steps read path sel ss i es = Inr es'))"
proof (induction ss arbitrary: i es)
  case (Cons s ss)
  show ?case
  proof (cases "apply_step read (path @ [3, i]) sel s es")
    case (Inl e)
    then show ?thesis by simp
  next
    case (Inr es1)
    show ?thesis
    proof (cases "es1 = []")
      case True
      with Inr show ?thesis by (cases s) (auto simp: lost_def)
    next
      case False
      with Cons.IH [of es1 "i + 1"] step_length [OF Inr Cons.prems(1)] Inr show ?thesis
        by (cases "apply_steps read path sel ss (i + 1) es1") (simp_all split: if_splits)
    qed
  qed
qed simp

lemma one_target:
  "case read_matches read ios path l of
     Inl e \<Rightarrow> resolve_one read ios path l = Inl e
   | Inr [] \<Rightarrow> lost (resolve_one read ios path l)
   | Inr [e] \<Rightarrow> resolve_one read ios path l = Inr e
   | Inr es \<Rightarrow> nth_index l = None \<and> resolve_one read ios path l = Inl (Strict_Violation es)"
proof (cases "resolve_all read ios path l")
  case (Inl e)
  then show ?thesis by (simp add: read_matches_def resolve_one_def)
next
  case (Inr es)
  show ?thesis
  proof (cases "nth_index l")
    case None
    with Inr show ?thesis by (simp add: unselected resolve_one_def lost_def split: list.split)
  next
    case (Some n)
    show ?thesis
    proof (cases "select_nth es n = []")
      case True
      with Inr Some show ?thesis by (simp add: read_matches_def select_matches_def resolve_one_def lost_def)
    next
      case False
      define walk where "walk = walk_steps read path (loc_selector l) (loc_post l) 0 (select_nth es n)"
      have one: "resolve_one read ios path l = resolved_then walk (\<lambda>es. Inr (hd es))"
        using Inr Some False by (simp add: resolve_one_def walk_def Let_def)
      have sel: "read_matches read ios path l = apply_steps read path (loc_selector l) (loc_post l) 0 (select_nth es n)"
        using Inr Some by (simp add: read_matches_def select_matches_def)
      show ?thesis
      proof (cases "apply_steps read path (loc_selector l) (loc_post l) 0 (select_nth es n)")
        case (Inl e)
        with walk_select [of "select_nth es n" read path "loc_selector l" "loc_post l" 0] False select_nth_short [of es n] one sel
        show ?thesis by (simp add: walk_def [symmetric])
      next
        case (Inr es')
        with walk_select [of "select_nth es n" read path "loc_selector l" "loc_post l" 0] False select_nth_short [of es n]
        have w: "length es' \<le> 1" "es' = [] \<Longrightarrow> lost walk" "es' \<noteq> [] \<Longrightarrow> walk = Inr es'"
          by (simp_all add: walk_def [symmetric] split: if_splits)
        with one sel Inr show ?thesis
          by (cases es') (auto simp: lost_resolved_then)
      qed
    qed
  qed
qed

lemma each_handle:
  assumes "built l" and "matches screen ios l = Inr es" and "i < length es"
  shows "resolve_one (still screen) ios [] (nth_of l (int i)) = Inr (es ! i)"
  using one_target [of "still screen" ios "[]" "nth_of l (int i)"] nth_matches [OF assms(1), of screen ios "int i"] assms(2,3)
  by (simp add: matches_def select_nth_def)

lemma all_handles_are_nth:
  assumes "built l" and "nth_index l = None"
  shows "all_handles (still screen) ios l =
     map_sum id (\<lambda>es. map (\<lambda>i. nth_of l (int i)) [0..<length es]) (matches screen ios l)"
  using assms(2) by (simp add: all_handles_def matches_def nth_of_def)

section \<open>The properties\<close>


definition some_element :: "nat \<Rightarrow> int \<Rightarrow> string \<Rightarrow> element_info" where
  "some_element i y t = \<lparr>el_object = i, el_id = [], el_class = ''android.widget.TextView'', el_text = t, el_description = [],
     el_resource = [], el_bounds = Some \<lparr>rc_left = 0, rc_top = y, rc_right = 100, rc_bottom = y + 40\<rparr>, el_in_alert = False, el_enabled = True, el_visible = True\<rparr>"

text \<open>Three rows, of which the second says something else; the filter comes after the index.\<close>

definition some_rows :: "selector \<Rightarrow> string + element_info list" where
  "some_rows sel = Inr [some_element 0 0 ''Row'', some_element 1 40 ''Other'', some_element 2 80 ''Row'']"

definition some_row :: locator where
  "some_row = plain_locator (Selector ''className'' ''android.widget.TextView'' None)"

lemma some_rows_seen:
  "matches some_rows False some_row = Inr [some_element 0 0 ''Row'', some_element 1 40 ''Other'', some_element 2 80 ''Row'']"
  by (simp add: matches_def read_matches_def some_row_def plain_locator_def select_matches_def find_elements_def still_def some_rows_def
      collapse_same_target_duplicates_def has_usable_geometry_def usable_rect_def same_target_key_def some_element_def set_add_def)

lemma some_row_built: "built some_row"
  by (simp add: some_row_def built_plain)


text \<open>C35. Strictness, whatever the device answers and however the handle is built: the element an action gets is
  the one match that reading the handle gives. No match is an error that says so (the positional step that
  missed, or not found), several are the strictness error with all of them, and only a handle without an index
  can meet it; a failed read is reported as it is.\<close>

theorem one_target_strict:
  "case read_matches read ios path l of
     Inl e \<Rightarrow> resolve_one read ios path l = Inl e
   | Inr [] \<Rightarrow> lost (resolve_one read ios path l)
   | Inr [e] \<Rightarrow> resolve_one read ios path l = Inr e
   | Inr es \<Rightarrow> nth_index l = None \<and> resolve_one read ios path l = Inl (Strict_Violation es)"
  by (rule one_target)

section \<open>Unions\<close>

lemma screen_le_total: "screen_le a b \<or> screen_le b a"
  by (auto simp: screen_le_def has_usable_geometry_def split: option.splits)

lemma screen_le_trans: "screen_le a b \<Longrightarrow> screen_le b c \<Longrightarrow> screen_le a c"
  by (auto simp: screen_le_def has_usable_geometry_def split: option.splits if_splits)

lemma mset_insert_by: "mset (insert_by le x xs) = add_mset x (mset xs)"
  by (induction xs) auto

lemma mset_sort_by: "mset (sort_by le xs) = mset xs"
  by (induction xs) (simp_all add: mset_insert_by)

text \<open>A union keeps every match of its left operand and each of the right one that the left has not, in screen order.\<close>

lemma union_is_ordered:
  "sorted_wrt screen_le (unite_matches a b) \<and>
   mset (unite_matches a b) = mset a + mset (filter (\<lambda>e. same_target_key e \<notin> same_target_key ` set a) b)"
  unfolding unite_matches_def
proof
  show "sorted_wrt screen_le (sort_by screen_le (a @ filter (\<lambda>e. same_target_key e \<notin> same_target_key ` set a) b))"
    by (rule sorted_wrt_sort_by [OF screen_le_total screen_le_trans])
qed (simp add: mset_sort_by)

section \<open>The child of a filter\<close>

text \<open>Of the locators given as \<open>has\<close> and \<open>hasNot\<close> only the selector matters: their own modifiers are not applied.\<close>

lemma child_modifiers_ignored:
  assumes "loc_selector c = loc_selector d"
  shows "apply_filter read path sel (Filter t u (Some c) h) es = apply_filter read path sel (Filter t u (Some d) h) es"
    "apply_filter read path sel (Filter t u h (Some c)) es = apply_filter read path sel (Filter t u h (Some d)) es"
  using assms by (simp_all add: apply_filter_def text_kept_by_def [abs_def])

section \<open>A stateful expression\<close>

text \<open>With the flag \<open>g\<close> the filter drops every second of three elements that all match.\<close>

definition global_a :: "string \<Rightarrow> nat \<Rightarrow> nat option" where
  "global_a t i = (if i < length t \<and> t ! i = CHR ''a'' then Some (i + 1) else None)"

lemma global_filter_skips:
  "global_regex_filter global_a 0 [some_element 0 0 ''a'', some_element 1 40 ''a'', some_element 2 80 ''a''] =
     [some_element 0 0 ''a'', some_element 2 80 ''a'']"
  by (simp add: global_a_def some_element_def)

end
