(* ===== verification/Wait_Safety.thy ===== *)
theory Wait_Safety
  imports Auto_Wait Locator_Safety
begin

text \<open>
  What the waits promise. Every reader sees one match set; an auto-wait ends with what its first conclusive read
  says, or at its deadline with the reason; an action gets the one, enabled match; \<open>waitFor\<close> and the presence
  probes never take an unreliable read for an answer.
\<close>

section \<open>Readers\<close>

lemma plain_handle: "\<not> has_modifiers l \<Longrightarrow> nth_index l = None \<and> loc_filters l = [] \<and> loc_composition l = Plain"
  by (simp add: has_modifiers_def)

lemma plain_matches:
  assumes "loc_filters l = []" and "loc_composition l = Plain"
  shows "resolve_all read ios path l = resolved_then (find_elements read path (loc_selector l)) (\<lambda>es. Inr (collapse_same_target_duplicates es))"
  using assms by (cases l) simp

lemma selecting:
  "(if nth_index l \<noteq> None then select_matches read path l es else Inr es) = select_matches read path l es"
  by (auto simp: select_matches_def)

lemma selecting_none: "nth_index l = None \<Longrightarrow> select_matches read path l = Inr"
  by (rule ext) (simp add: select_matches_def)

lemma assertion_matches: "resolve_for_assertion read ios l False = read_matches read ios [] l"
proof -
  have "resolve_all read ios [] (Locator (loc_selector l) None (loc_filters l) [] (loc_composition l)) = resolve_all read ios [] l"
    by (cases l) (simp only: locator.sel, rule resolve_index)
  then have all: "(if loc_filters l \<noteq> [] \<or> loc_composition l \<noteq> Plain
        then resolve_all read ios [] (Locator (loc_selector l) None (loc_filters l) [] (loc_composition l))
        else resolved_then (find_elements read [] (loc_selector l)) (\<lambda>es. Inr (collapse_same_target_duplicates es))) =
      resolve_all read ios [] l"
    using plain_matches [of l read ios "[]"] by auto
  have one: "(\<lambda>elements. if nth_index l \<noteq> None then select_matches read [] l elements
        else if False \<and> length elements > 1 then Inl (Strict_Violation elements) else Inr elements) = select_matches read [] l"
    by (rule ext) (auto simp: select_matches_def)
  show ?thesis unfolding resolve_for_assertion_def all one read_matches_def ..
qed

lemma strict_assertion_matches:
  "resolve_for_assertion read ios l True =
     resolved_then (read_matches read ios [] l)
       (\<lambda>es. if nth_index l = None \<and> length es > 1 then Inl (Strict_Violation es) else Inr es)"
proof (cases "nth_index l")
  case None
  then have "resolve_for_assertion read ios l True =
      resolved_then (resolve_for_assertion read ios l False) (\<lambda>es. if length es > 1 then Inl (Strict_Violation es) else Inr es)"
    by (simp add: resolve_for_assertion_def resolved_then_assoc)
  with None show ?thesis by (simp add: assertion_matches)
next
  case (Some n)
  then have "resolve_for_assertion read ios l True = resolve_for_assertion read ios l False"
    by (simp add: resolve_for_assertion_def)
  with Some show ?thesis by (simp add: assertion_matches)
qed

lemma wait_tick_matches:
  "resolve_for_wait_tick wd ios l (Inr read) =
     (case read_matches read ios [] l of Inl err \<Rightarrow> failed_wait_tick (thrown_of wd l err) | Inr es \<Rightarrow> Inr (Some es))"
proof -
  have one: "(\<lambda>es. if nth_index l \<noteq> None then select_matches read [] l es else Inr es) = select_matches read [] l"
    by (rule ext) (rule selecting)
  have "(if has_modifiers l
         then resolved_then (resolve_all read ios [] l) (\<lambda>es. if nth_index l \<noteq> None then select_matches read [] l es else Inr es)
         else resolved_then (find_elements read [] (loc_selector l)) (\<lambda>es. Inr (collapse_same_target_duplicates es))) =
        read_matches read ios [] l"
    unfolding one using plain_matches [of l read ios "[]"] plain_handle [of l] by (auto simp: read_matches_def selecting_none)
  then show ?thesis by (simp only: resolve_for_wait_tick_def sum.case)
qed

lemma exists_tick_matches:
  "exists_tick wd ios l (Inr read) =
     (case read_matches read ios [] l of
        Inl err \<Rightarrow> classify_tick_error (thrown_of wd l err)
      | Inr [] \<Rightarrow> Inr (Tick_Miss None)
      | Inr (e # _) \<Rightarrow> Inr (Tick_Found e))"
  by (simp add: exists_tick_def assertion_matches)

lemma classify_never_finds: "classify_tick_error e \<noteq> Inr (Tick_Found x)"
  by (simp add: classify_tick_error_def split: resolution_class.split)

lemma plain_one:
  assumes "\<not> has_modifiers l"
  shows "find_one_strict read l =
     (case read_matches read ios [] l of
        Inl err \<Rightarrow> Inl err | Inr [] \<Rightarrow> Inr None | Inr [e] \<Rightarrow> Inr (Some e) | Inr es \<Rightarrow> Inl (Strict_Violation es))"
  using plain_handle [OF assms] plain_matches [of l read ios "[]"]
  by (auto simp: find_one_strict_def unselected resolved_then_def Let_def split: sum.split list.split)

text \<open>The strict tick.\<close>

lemma tick_matches:
  "case read_matches read ios [] l of
     Inl err \<Rightarrow> resolve_tick wd ios l (Inr read) = classify_tick_error (thrown_of wd l err)
   | Inr [] \<Rightarrow> \<not> (\<exists>e. resolve_tick wd ios l (Inr read) = Inr (Tick_Found e))
   | Inr [e] \<Rightarrow> resolve_tick wd ios l (Inr read) = Inr (Tick_Found e)
   | Inr es \<Rightarrow> resolve_tick wd ios l (Inr read) = classify_tick_error (Strict_Error (strict_text wd l es))"
proof (cases "has_modifiers l")
  case True
  with one_target [of read ios "[]" l] show ?thesis
    by (auto simp: resolve_tick_def lost_def classify_never_finds split: sum.splits list.splits)
next
  case False
  with plain_one [OF False, of read ios] show ?thesis
    by (auto simp: resolve_tick_def split: sum.splits list.splits)
qed

section \<open>A loop and its reads\<close>

text \<open>When the \<open>k\<close>-th read of a loop starts and ends if the loop gets that far, and what the loop knows then.\<close>

primrec read_start :: "surroundings \<Rightarrow> bool \<Rightarrow> int \<Rightarrow> int \<Rightarrow> nat \<Rightarrow> int" where
  "read_start w guarded deadline start 0 = start"
| "read_start w guarded deadline start (Suc k) =
     (let e = read_start w guarded deadline start k + int (takes w k);
          p = action_delay k deadline e
      in if guarded \<and> p = 0 then e else e + p + int (late w k))"

definition read_end :: "surroundings \<Rightarrow> bool \<Rightarrow> int \<Rightarrow> int \<Rightarrow> nat \<Rightarrow> int" where
  "read_end w guarded deadline start k = read_start w guarded deadline start k + int (takes w k)"

text \<open>The sleep after a read that is not the last is not left out and the run is stopped in it.\<close>

definition stopped_after :: "surroundings \<Rightarrow> bool \<Rightarrow> int \<Rightarrow> int \<Rightarrow> nat \<Rightarrow> bool" where
  "stopped_after w guarded deadline start k \<longleftrightarrow>
     \<not> (guarded \<and> action_delay k deadline (read_end w guarded deadline start k) = 0) \<and> stopped w k"

primrec known ::
  "surroundings \<Rightarrow> bool \<Rightarrow> (nat \<Rightarrow> int \<Rightarrow> 't) \<Rightarrow> (int \<Rightarrow> 's \<Rightarrow> 't \<Rightarrow> ('r, 's) verdict) \<Rightarrow> int \<Rightarrow> int \<Rightarrow> 's \<Rightarrow> nat \<Rightarrow> 's" where
  "known w guarded ask decide deadline start s0 0 = s0"
| "known w guarded ask decide deadline start s0 (Suc k) =
     (case decide (read_end w guarded deadline start k) (known w guarded ask decide deadline start s0 k)
             (ask k (read_start w guarded deadline start k)) of
        Again s \<Rightarrow> s | Done _ \<Rightarrow> known w guarded ask decide deadline start s0 k)"

definition verdict_at ::
  "surroundings \<Rightarrow> bool \<Rightarrow> (nat \<Rightarrow> int \<Rightarrow> 't) \<Rightarrow> (int \<Rightarrow> 's \<Rightarrow> 't \<Rightarrow> ('r, 's) verdict) \<Rightarrow> int \<Rightarrow> int \<Rightarrow> 's \<Rightarrow> nat \<Rightarrow> ('r, 's) verdict" where
  "verdict_at w guarded ask decide deadline start s0 k =
     decide (read_end w guarded deadline start k) (known w guarded ask decide deadline start s0 k)
       (ask k (read_start w guarded deadline start k))"

definition goes_on ::
  "surroundings \<Rightarrow> bool \<Rightarrow> (nat \<Rightarrow> int \<Rightarrow> 't) \<Rightarrow> (int \<Rightarrow> 's \<Rightarrow> 't \<Rightarrow> ('r, 's) verdict) \<Rightarrow> int \<Rightarrow> int \<Rightarrow> 's \<Rightarrow> nat \<Rightarrow> bool" where
  "goes_on w guarded ask decide deadline start s0 k \<longleftrightarrow>
     (\<exists>s. verdict_at w guarded ask decide deadline start s0 k = Again s) \<and>
     read_end w guarded deadline start k < deadline \<and> \<not> stopped_after w guarded deadline start k"

text \<open>A loop ends: its result is what the first read that does not go on says.\<close>

lemma poll_from:
  assumes "now = read_start w guarded deadline start k" and "s = known w guarded ask decide deadline start s0 k"
  shows "\<exists>n\<ge>k. (\<forall>j. k \<le> j \<and> j < n \<longrightarrow> goes_on w guarded ask decide deadline start s0 j) \<and>
    \<not> goes_on w guarded ask decide deadline start s0 n \<and>
    poll w guarded ask decide expire deadline k now s =
      (case verdict_at w guarded ask decide deadline start s0 n of
         Done r \<Rightarrow> (r, read_end w guarded deadline start n)
       | Again s' \<Rightarrow>
           if deadline \<le> read_end w guarded deadline start n then (Inl (expire s'), read_end w guarded deadline start n)
           else (Inl (Raised stopped_by_user), read_end w guarded deadline start n))"
  using assms
proof (induction w guarded ask decide expire deadline k now s rule: poll.induct)
  case (1 w guarded ask decide expire deadline k now s)
  let ?fin = "read_end w guarded deadline start k" and ?p = "action_delay k deadline (read_end w guarded deadline start k)"
  have at: "now + int (takes w k) = ?fin" using "1.prems" by (simp add: read_end_def)
  have v: "verdict_at w guarded ask decide deadline start s0 k = decide ?fin s (ask k now)"
    using "1.prems" by (simp add: verdict_at_def)
  have unroll: "poll w guarded ask decide expire deadline k now s =
      (case decide ?fin s (ask k now) of
         Done r \<Rightarrow> (r, ?fin)
       | Again s' \<Rightarrow>
           if deadline \<le> ?fin then (Inl (expire s'), ?fin)
           else if guarded \<and> ?p = 0 then poll w guarded ask decide expire deadline (k + 1) ?fin s'
           else if stopped w k then (Inl (Raised stopped_by_user), ?fin)
           else poll w guarded ask decide expire deadline (k + 1) (?fin + ?p + int (late w k)) s')"
    by (subst poll.simps) (simp only: at Let_def)
  show ?case
  proof (cases "goes_on w guarded ask decide deadline start s0 k")
    case False
    then have "poll w guarded ask decide expire deadline k now s =
      (case verdict_at w guarded ask decide deadline start s0 k of
         Done r \<Rightarrow> (r, ?fin)
       | Again s' \<Rightarrow> if deadline \<le> ?fin then (Inl (expire s'), ?fin) else (Inl (Raised stopped_by_user), ?fin))"
      by (cases "decide ?fin s (ask k now)") (auto simp: unroll v goes_on_def stopped_after_def)
    with False show ?thesis by (intro exI [of _ k]) auto
  next
    case True
    then obtain s' where s': "decide ?fin s (ask k now) = Again s'" and before: "?fin < deadline"
      and quiet: "\<not> stopped_after w guarded deadline start k" by (auto simp: goes_on_def v)
    have next_s: "s' = known w guarded ask decide deadline start s0 (Suc k)" using s' "1.prems" by simp
    have next_now: "read_start w guarded deadline start (Suc k) = (if guarded \<and> ?p = 0 then ?fin else ?fin + ?p + int (late w k))"
      by (simp only: read_start.simps read_end_def Let_def)
    have nd: "\<not> deadline \<le> ?fin" using before by simp
    have step: "poll w guarded ask decide expire deadline k now s =
        poll w guarded ask decide expire deadline (Suc k) (read_start w guarded deadline start (Suc k)) s'"
      using s' before quiet unfolding next_now unroll by (auto simp: stopped_after_def)
    have "\<exists>n\<ge>Suc k. (\<forall>j. Suc k \<le> j \<and> j < n \<longrightarrow> goes_on w guarded ask decide deadline start s0 j) \<and>
      \<not> goes_on w guarded ask decide deadline start s0 n \<and>
      poll w guarded ask decide expire deadline (Suc k) (read_start w guarded deadline start (Suc k)) s' =
      (case verdict_at w guarded ask decide deadline start s0 n of
         Done r \<Rightarrow> (r, read_end w guarded deadline start n)
       | Again s' \<Rightarrow>
           if deadline \<le> read_end w guarded deadline start n then (Inl (expire s'), read_end w guarded deadline start n)
           else (Inl (Raised stopped_by_user), read_end w guarded deadline start n))"
    proof (cases "guarded \<and> ?p = 0")
      case True
      then have nn: "?fin = read_start w guarded deadline start (Suc k)" unfolding next_now by (rule if_P [symmetric])
      from "1.IH"(1) [OF at [symmetric] s' nd refl True, unfolded Suc_eq_plus1 [symmetric], OF nn next_s] show ?thesis
        by (simp only: nn)
    next
      case False
      then have nn: "?fin + ?p + int (late w k) = read_start w guarded deadline start (Suc k)"
        unfolding next_now by (rule if_not_P [symmetric])
      from False quiet have "\<not> stopped w k" by (simp add: stopped_after_def)
      from "1.IH"(2) [OF at [symmetric] s' nd refl False this, unfolded Suc_eq_plus1 [symmetric], OF nn next_s] show ?thesis
        by (simp only: nn)
    qed
    then obtain n where "n \<ge> Suc k" and n: "\<forall>j. Suc k \<le> j \<and> j < n \<longrightarrow> goes_on w guarded ask decide deadline start s0 j"
      "\<not> goes_on w guarded ask decide deadline start s0 n"
      "poll w guarded ask decide expire deadline k now s =
      (case verdict_at w guarded ask decide deadline start s0 n of
         Done r \<Rightarrow> (r, read_end w guarded deadline start n)
       | Again s' \<Rightarrow>
           if deadline \<le> read_end w guarded deadline start n then (Inl (expire s'), read_end w guarded deadline start n)
           else (Inl (Raised stopped_by_user), read_end w guarded deadline start n))"
      unfolding step by blast
    moreover have "goes_on w guarded ask decide deadline start s0 j" if "k \<le> j" "j < n" for j
      using that n(1) True by (cases "j = k") auto
    ultimately show ?thesis by (intro exI [of _ n]) auto
  qed
qed

lemma poll_outcome:
  obtains n where "\<forall>j<n. goes_on w guarded ask decide deadline start s0 j"
    and "\<not> goes_on w guarded ask decide deadline start s0 n"
    and "poll w guarded ask decide expire deadline 0 start s0 =
      (case verdict_at w guarded ask decide deadline start s0 n of
         Done r \<Rightarrow> (r, read_end w guarded deadline start n)
       | Again s' \<Rightarrow>
           if deadline \<le> read_end w guarded deadline start n then (Inl (expire s'), read_end w guarded deadline start n)
           else (Inl (Raised stopped_by_user), read_end w guarded deadline start n))"
  using poll_from [of start w guarded deadline start 0 s0 ask decide s0 expire] by auto

section \<open>When the reads are\<close>

declare read_start.simps(2) [simp del]

lemma delay_nonneg: "0 \<le> delay_at action_retry_delays_ms k"
  by (rule delay_at_nonneg) (simp_all add: action_retry_delays_ms_def)

lemma action_delay_cap: "action_delay k deadline now = min (delay_at action_retry_delays_ms k) (max 0 (deadline - now))"
  by (simp add: action_delay_def next_delay_def Let_def)

lemma read_start_Suc_bounds:
  "read_end w guarded deadline start k \<le> read_start w guarded deadline start (Suc k)"
  "read_end w guarded deadline start k < deadline \<Longrightarrow> read_start w guarded deadline start (Suc k) \<le> deadline + int (late w k)"
  "read_end w guarded deadline start k < deadline \<Longrightarrow>
     min deadline (read_end w guarded deadline start k + delay_at action_retry_delays_ms k) \<le> read_start w guarded deadline start (Suc k)"
  using action_delay_nonneg [of k deadline "read_end w guarded deadline start k"] delay_nonneg [of k]
  by (auto simp: read_end_def read_start.simps(2) Let_def action_delay_cap min_def max_def split: if_splits)

text \<open>The reads before the last are no more than the schedule fits into the timeout.\<close>

lemma reads_fit:
  assumes "\<And>j. j < n \<Longrightarrow> read_end w guarded deadline start j < deadline" and "k < n"
  shows "start + read_time action_retry_delays_ms k \<le> read_start w guarded deadline start k"
  using assms(2)
proof (induction k)
  case (Suc k)
  have "read_start w guarded deadline start (Suc k) < deadline"
    using assms(1) [of "Suc k"] Suc.prems by (simp add: read_end_def)
  moreover have "read_start w guarded deadline start k \<le> read_end w guarded deadline start k" by (simp add: read_end_def)
  moreover have "read_end w guarded deadline start k < deadline" using assms(1) [of k] Suc.prems by simp
  ultimately show ?case using read_start_Suc_bounds(3) [of w guarded deadline start k] Suc
    by (simp add: read_time_Suc min_def split: if_splits)
qed (simp add: read_time_def)

section \<open>Auto-wait\<close>

definition conclusive :: "thrown_value + tick_outcome \<Rightarrow> bool" where
  "conclusive t \<longleftrightarrow> (case t of Inl _ \<Rightarrow> True | Inr (Tick_Found _) \<Rightarrow> True | _ \<Rightarrow> False)"

definition wait_over :: "surroundings \<Rightarrow> (nat \<Rightarrow> int \<Rightarrow> thrown_value + tick_outcome) \<Rightarrow> int \<Rightarrow> int \<Rightarrow> nat \<Rightarrow> bool" where
  "wait_over w ask deadline start k \<longleftrightarrow>
     conclusive (ask k (read_start w True deadline start k)) \<or> deadline \<le> read_end w True deadline start k \<or>
     stopped_after w True deadline start k"

text \<open>The detail of the last miss up to read \<open>n\<close>.\<close>

definition last_detail :: "surroundings \<Rightarrow> (nat \<Rightarrow> int \<Rightarrow> thrown_value + tick_outcome) \<Rightarrow> int \<Rightarrow> int \<Rightarrow> nat \<Rightarrow> string option" where
  "last_detail w ask deadline start n =
     (case rev (concat (map (\<lambda>k. case ask k (read_start w True deadline start k) of Inr (Tick_Miss d) \<Rightarrow> [d] | _ \<Rightarrow> []) [0..<Suc n])) of
        [] \<Rightarrow> None | d # _ \<Rightarrow> d)"

lemma last_detail_simps:
  "last_detail w ask deadline start 0 = (case ask 0 start of Inr (Tick_Miss d) \<Rightarrow> d | _ \<Rightarrow> None)"
  "last_detail w ask deadline start (Suc n) =
     (case ask (Suc n) (read_start w True deadline start (Suc n)) of Inr (Tick_Miss d) \<Rightarrow> d | _ \<Rightarrow> last_detail w ask deadline start n)"
  by (auto simp: last_detail_def split: sum.split tick_outcome.split list.split)

text \<open>What an auto-wait should do, said of its reads: the first read that ends it decides.\<close>

definition auto_wait ::
  "surroundings \<Rightarrow> (nat \<Rightarrow> int \<Rightarrow> thrown_value + tick_outcome) \<Rightarrow> int \<Rightarrow> int \<Rightarrow> (wait_failure + element_info option \<times> int) \<times> int" where
  "auto_wait w ask timeout start =
     (let deadline = start + timeout; n = (LEAST k. wait_over w ask deadline start k);
          at = read_end w True deadline start n
      in ((case ask n (read_start w True deadline start n) of
             Inl e \<Rightarrow> Inl (Raised e)
           | Inr (Tick_Found e) \<Rightarrow> Inr (Some e, remaining_budget timeout deadline at)
           | Inr t \<Rightarrow>
               if at < deadline then Inl (Raised stopped_by_user)
               else Inl (case t of Tick_Fault e \<Rightarrow> Raised e | _ \<Rightarrow> Was_Not_Found timeout (last_detail w ask deadline start n))),
          at))"

lemma decide_strict_again: "(\<exists>s'. decide_strict timeout deadline now s t = Again s') \<longleftrightarrow> \<not> conclusive t"
  by (cases "(timeout, deadline, now, s, t)" rule: decide_strict.cases) (simp_all add: conclusive_def)

definition fault_of :: "thrown_value + tick_outcome \<Rightarrow> thrown_value option" where
  "fault_of t = (case t of Inr (Tick_Fault e) \<Rightarrow> Some e | _ \<Rightarrow> None)"

lemma decide_strict_inconclusive:
  "\<not> conclusive t \<Longrightarrow> decide_strict timeout deadline now (f, m) t =
     Again (fault_of t, case t of Inr (Tick_Miss d) \<Rightarrow> d | _ \<Rightarrow> m)"
  by (auto simp: conclusive_def fault_of_def split: sum.splits tick_outcome.splits)

lemma strict_known:
  assumes "\<And>j. j \<le> k \<Longrightarrow> \<not> conclusive (ask j (read_start w True deadline start j))"
  shows "known w True ask (decide_strict timeout deadline) deadline start (None, None) (Suc k) =
    (fault_of (ask k (read_start w True deadline start k)), last_detail w ask deadline start k)"
  using assms
proof (induction k)
  case 0
  from decide_strict_inconclusive [OF 0 [OF order_refl]] show ?case by (simp add: last_detail_simps)
next
  case (Suc k)
  then have "known w True ask (decide_strict timeout deadline) deadline start (None, None) (Suc k) =
    (fault_of (ask k (read_start w True deadline start k)), last_detail w ask deadline start k)" by simp
  then show ?case
    by (subst known.simps(2)) (simp add: decide_strict_inconclusive [OF Suc.prems [OF order_refl]] last_detail_simps del: known.simps)
qed

lemma strict_goes_on:
  "goes_on w True ask (decide_strict timeout deadline) deadline start s0 k \<longleftrightarrow> \<not> wait_over w ask deadline start k"
  unfolding goes_on_def verdict_at_def decide_strict_again wait_over_def by auto

lemma strict_poll_is_auto_wait:
  "(\<exists>n. wait_over w ask (start + timeout) start n) \<and>
   {..< LEAST n. wait_over w ask (start + timeout) start n} \<subseteq> {k. read_time action_retry_delays_ms k < timeout} \<and>
   poll w True ask (decide_strict timeout (start + timeout)) (expire_strict timeout) (start + timeout) 0 start (None, None) =
     auto_wait w ask timeout start"
proof -
  let ?d = "start + timeout"
  obtain n where before: "\<forall>j<n. goes_on w True ask (decide_strict timeout ?d) ?d start (None, None) j"
    and over: "\<not> goes_on w True ask (decide_strict timeout ?d) ?d start (None, None) n"
    and result: "poll w True ask (decide_strict timeout ?d) (expire_strict timeout) ?d 0 start (None, None) =
      (case verdict_at w True ask (decide_strict timeout ?d) ?d start (None, None) n of
         Done r \<Rightarrow> (r, read_end w True ?d start n)
       | Again s' \<Rightarrow>
           if ?d \<le> read_end w True ?d start n then (Inl (expire_strict timeout s'), read_end w True ?d start n)
           else (Inl (Raised stopped_by_user), read_end w True ?d start n))"
    by (rule poll_outcome [of w True ask "decide_strict timeout ?d" ?d start "(None, None)" "expire_strict timeout"])
  have least: "(LEAST k. wait_over w ask ?d start k) = n"
  proof (rule Least_equality)
    show "wait_over w ask ?d start n" using over by (simp add: strict_goes_on)
    show "n \<le> k" if "wait_over w ask ?d start k" for k
      using that before by (auto simp: strict_goes_on leI not_less [symmetric])
  qed
  have early: "\<not> conclusive (ask j (read_start w True ?d start j))" "read_end w True ?d start j < ?d" if "j < n" for j
    using before that by (auto simp: strict_goes_on wait_over_def)
  have "read_time action_retry_delays_ms k < timeout" if "k < n" for k
    using reads_fit [of n w True ?d start k, OF early(2) that] early(2) [OF that] by (simp add: read_end_def)
  then have fit: "{..<n} \<subseteq> {k. read_time action_retry_delays_ms k < timeout}" by auto
  let ?t = "ask n (read_start w True ?d start n)"
  have "poll w True ask (decide_strict timeout ?d) (expire_strict timeout) ?d 0 start (None, None) = auto_wait w ask timeout start"
  proof (cases "conclusive ?t")
    case True
    then show ?thesis unfolding result verdict_at_def auto_wait_def least Let_def
      by (auto simp: conclusive_def split: sum.splits tick_outcome.splits)
  next
    case False
    have all: "\<not> conclusive (ask j (read_start w True ?d start j))" if "j \<le> n" for j
      using that early(1) [of j] False by (cases "j = n") auto
    obtain f m where fm: "known w True ask (decide_strict timeout ?d) ?d start (None, None) n = (f, m)" by (meson surj_pair)
    have "verdict_at w True ask (decide_strict timeout ?d) ?d start (None, None) n = Again (fault_of ?t, last_detail w ask ?d start n)"
      using strict_known [of n ask w ?d start timeout, OF all] decide_strict_inconclusive [OF False]
      unfolding verdict_at_def fm by (simp add: fm)
    with False show ?thesis unfolding result auto_wait_def least Let_def
      by (auto simp: conclusive_def fault_of_def split: sum.splits tick_outcome.splits)
  qed
  moreover have "wait_over w ask ?d start n" using over by (simp add: strict_goes_on)
  ultimately show ?thesis using fit least by auto
qed

section \<open>Successful waits\<close>

lemma poll_success:
  assumes "poll w guarded ask decide expire deadline 0 start s0 = (Inr r, t)"
  shows "\<exists>k now s. decide t s (ask k now) = Done (Inr r) \<and> t = now + int (takes w k)"
proof -
  obtain n where "poll w guarded ask decide expire deadline 0 start s0 =
      (case verdict_at w guarded ask decide deadline start s0 n of
         Done r \<Rightarrow> (r, read_end w guarded deadline start n)
       | Again s' \<Rightarrow>
           if deadline \<le> read_end w guarded deadline start n then (Inl (expire s'), read_end w guarded deadline start n)
           else (Inl (Raised stopped_by_user), read_end w guarded deadline start n))"
    by (rule poll_outcome [of w guarded ask decide deadline start s0 expire])
  with assms have "verdict_at w guarded ask decide deadline start s0 n = Done (Inr r)" "t = read_end w guarded deadline start n"
    by (auto split: verdict.splits if_splits)
  then show ?thesis unfolding verdict_at_def read_end_def by blast
qed

lemma tick_found:
  assumes "resolve_tick wd ios l a = Inr (Tick_Found e)"
  shows "\<exists>read. a = Inr read \<and> read_matches read ios [] l = Inr [e]"
proof (cases a)
  case (Inl x)
  with assms show ?thesis by (simp add: resolve_tick_def classify_never_finds)
next
  case (Inr read)
  with assms tick_matches [where read = read and ios = ios and l = l and wd = wd] show ?thesis
    by (auto simp: classify_never_finds split: sum.splits list.splits)
qed

lemma remaining_bounds: "min timeout 1000 \<le> remaining_budget timeout deadline now" "remaining_budget timeout deadline now \<le> timeout"
  by (simp_all add: remaining_budget_def min_action_budget_ms_def)

lemma decide_strict_done:
  "decide_strict timeout deadline now s t = Done (Inr (target, rem)) \<Longrightarrow>
     \<exists>e. t = Inr (Tick_Found e) \<and> target = Some e \<and> rem = remaining_budget timeout deadline now"
  by (cases "(timeout, deadline, now, s, t)" rule: decide_strict.cases) auto

lemma decide_enabled_done:
  "decide_enabled off_ok timeout deadline now s t = Done (Inr (target, rem)) \<Longrightarrow>
     \<exists>e. t = Inr (Tick_Found e) \<and> target = Some e \<and> el_enabled e \<and> (is_off_screen e \<longrightarrow> off_ok e) \<and>
       rem = remaining_budget timeout deadline now"
  by (cases "(off_ok, timeout, deadline, now, s, t)" rule: decide_enabled.cases)
    (auto simp: Let_def is_off_screen_def split: if_splits option.splits)

lemma strict_target:
  assumes "strict_resolve w wd ios l timeout start = (Inr (Some e, rem), t)"
  shows "(\<exists>k now budget read. answers w k now budget = Inr read \<and> read_matches read ios [] l = Inr [e] \<and> t = now + int (takes w k)) \<and>
    min timeout 1000 \<le> rem \<and> rem \<le> timeout"
proof -
  from assms have "poll w True (tick_of_read w wd ios l (start + timeout)) (decide_strict timeout (start + timeout)) (expire_strict timeout)
      (start + timeout) 0 start (None, None) = (Inr (Some e, rem), t)"
    by (simp add: strict_resolve_def Let_def split: if_splits)
  from poll_success [OF this] obtain k now s where
    d: "decide_strict timeout (start + timeout) t s (tick_of_read w wd ios l (start + timeout) k now) = Done (Inr (Some e, rem))"
    and t: "t = now + int (takes w k)" by blast
  from decide_strict_done [OF d] have "tick_of_read w wd ios l (start + timeout) k now = Inr (Tick_Found e)"
    and "rem = remaining_budget timeout (start + timeout) t" by auto
  with tick_found remaining_bounds t show ?thesis unfolding tick_of_read_def by blast
qed

lemma enabled_target:
  assumes "wait_for_enabled w wd ios l off_ok pinned timeout start = (Inr (Some e, rem), t)"
  shows "(\<exists>k now budget read. answers w k now budget = Inr read \<and> read_matches read ios [] l = Inr [e] \<and> t = now + int (takes w k)) \<and>
    el_enabled e \<and> (is_off_screen e \<longrightarrow> off_ok e) \<and> min timeout 1000 \<le> rem \<and> rem \<le> timeout"
proof -
  define deadline where "deadline = (case pinned of Some d \<Rightarrow> d | None \<Rightarrow> start + timeout)"
  from assms have "poll w True (tick_of_read w wd ios l deadline) (decide_enabled off_ok timeout deadline) (expire_enabled timeout)
      deadline 0 start \<lparr>last_fault = None, last_miss = None, seen_disabled = False, seen_off_screen = None\<rparr> = (Inr (Some e, rem), t)"
    by (simp add: wait_for_enabled_def Let_def deadline_def split: if_splits)
  from poll_success [OF this] obtain k now s where
    d: "decide_enabled off_ok timeout deadline t s (tick_of_read w wd ios l deadline k now) = Done (Inr (Some e, rem))"
    and t: "t = now + int (takes w k)" by blast
  from decide_enabled_done [OF d] have "tick_of_read w wd ios l deadline k now = Inr (Tick_Found e)"
    and "rem = remaining_budget timeout deadline t" and "el_enabled e" "is_off_screen e \<longrightarrow> off_ok e" by auto
  with tick_found remaining_bounds t show ?thesis unfolding tick_of_read_def by blast
qed

section \<open>\<open>waitFor\<close>\<close>

definition find_failure :: "'a resolution \<Rightarrow> bool" where
  "find_failure r \<longleftrightarrow> (case r of Inl (Find_Failed _) \<Rightarrow> True | Inl _ \<Rightarrow> False | Inr _ \<Rightarrow> True)"

lemma find_failure_then: "find_failure r \<Longrightarrow> (\<And>x. find_failure (f x)) \<Longrightarrow> find_failure (resolved_then r f)"
  by (cases r) (auto simp: find_failure_def)

lemma find_failure_reads [intro!]:
  "find_failure (find_elements read path sel)" "find_failure (Inr x)"
  by (simp_all add: find_failure_def find_elements_def split: sum.split)

lemma find_failure_filter [intro!]: "find_failure (apply_filter read path sel f es)"
  unfolding apply_filter_def Let_def
  by (auto intro!: find_failure_then split: option.split)

lemma find_failure_steps [intro!]:
  "find_failure (apply_filters read path sel fs i es)" "find_failure (apply_steps read path sel ss i es)"
proof -
  show "find_failure (apply_filters read path sel fs i es)"
    by (induction fs arbitrary: i es) (auto intro!: find_failure_then)
  have "find_failure (apply_step read path sel s es)" for path s es by (cases s) auto
  then show "find_failure (apply_steps read path sel ss i es)"
    by (induction ss arbitrary: i es) (auto intro!: find_failure_then)
qed

lemma find_failure_matches: "find_failure (read_matches read ios path l)"
proof -
  have select: "find_failure (select_matches read path l es)" for read path l es
    by (auto simp: select_matches_def split: option.split)
  have "find_failure (resolve_all read ios path l)"
    by (induction read ios path l rule: resolve_all.induct) (auto intro!: find_failure_then select)
  with select show ?thesis by (auto simp: read_matches_def intro!: find_failure_then)
qed

lemma find_failed_is_no_miss: "failed_wait_tick (thrown_of wd l (Find_Failed m)) \<noteq> Inr (Some es)"
  by (simp add: failed_wait_tick_def classify_resolution_error_def is_pollable_not_found_error_def is_strict_violation_def
      is_abort_error_def split: resolution_class.split)

lemma wait_tick_seen:
  assumes "resolve_for_wait_tick wd ios l a = Inr (Some es)"
  shows "(\<exists>read. a = Inr read \<and> read_matches read ios [] l = Inr es) \<or>
    (\<exists>e. a = Inl e \<and> classify_resolution_error e = Class_Miss \<and> es = [])"
proof (cases a)
  case (Inl e)
  with assms show ?thesis by (auto simp: resolve_for_wait_tick_def failed_wait_tick_def split: resolution_class.splits)
next
  case (Inr read)
  with assms find_failure_matches [of read ios "[]" l] find_failed_is_no_miss show ?thesis
    by (auto simp: wait_tick_matches find_failure_def split: sum.splits resolution_error.splits)
qed

lemma decide_wait_done:
  assumes "decide_wait wd l st now s t = Done (Inr ())"
  shows "\<exists>es. t = Inr (Some es) \<and> state_reached st es \<and>
    (nth_index l = None \<and> (st = Wait_Visible \<or> st = Wait_Attached) \<longrightarrow> length es = 1)"
proof (cases "(wd, l, st, now, s, t)" rule: decide_wait.cases)
  case (3 wd' l' st' now' fault attached es)
  with assms have "state_reached st es" "\<not> (nth_index l = None \<and> (st = Wait_Visible \<or> st = Wait_Attached) \<and> length es > 1)"
    by (auto simp: Let_def split: if_splits)
  moreover from this have "st = Wait_Visible \<or> st = Wait_Attached \<longrightarrow> es \<noteq> []" by (auto simp: state_reached_def)
  ultimately have "nth_index l = None \<and> (st = Wait_Visible \<or> st = Wait_Attached) \<longrightarrow> length es = 1"
    by (cases es) auto
  with 3 \<open>state_reached st es\<close> show ?thesis by auto
qed (use assms in \<open>auto split: if_splits\<close>)

lemma wait_for_seen:
  assumes "wait_for w wd ios l st timeout start = (Inr (), t)"
  shows "\<exists>k now budget es. t = now + int (takes w k) \<and>
    ((\<exists>read. answers w k now budget = Inr read \<and> read_matches read ios [] l = Inr es) \<or>
     (\<exists>e. answers w k now budget = Inl e \<and> classify_resolution_error e = Class_Miss \<and> es = [])) \<and>
    state_reached st es \<and> (nth_index l = None \<and> (st = Wait_Visible \<or> st = Wait_Attached) \<longrightarrow> length es = 1)"
proof -
  from assms have "poll w True (wait_tick_of_read w wd ios l (start + timeout)) (decide_wait wd l st) (expire_wait timeout st)
      (start + timeout) 0 start (None, False) = (Inr (), t)" by (simp add: wait_for_def Let_def)
  from poll_success [OF this] obtain k now s where
    d: "decide_wait wd l st t s (wait_tick_of_read w wd ios l (start + timeout) k now) = Done (Inr ())"
    and t: "t = now + int (takes w k)" by blast
  from decide_wait_done [OF d] obtain es where es: "wait_tick_of_read w wd ios l (start + timeout) k now = Inr (Some es)"
    "state_reached st es" "nth_index l = None \<and> (st = Wait_Visible \<or> st = Wait_Attached) \<longrightarrow> length es = 1" by blast
  from wait_tick_seen [OF es(1) [unfolded wait_tick_of_read_def]] es(2,3) t show ?thesis by blast
qed

section \<open>Presence probes\<close>

definition unreliable :: "thrown_value + tick_outcome \<Rightarrow> bool" where
  "unreliable t \<longleftrightarrow> (case t of Inr Tick_Stale \<Rightarrow> True | Inr (Tick_Fault _) \<Rightarrow> True | _ \<Rightarrow> False)"

definition missed :: "thrown_value + tick_outcome \<Rightarrow> bool" where
  "missed t \<longleftrightarrow> (case t of Inr (Tick_Miss _) \<Rightarrow> True | _ \<Rightarrow> False)"

text \<open>What the locals of a probe say of the reads so far.\<close>

definition probe_inv :: "(nat \<Rightarrow> int \<Rightarrow> thrown_value + tick_outcome) \<Rightarrow> nat \<Rightarrow> int \<Rightarrow> probe_state \<Rightarrow> bool" where
  "probe_inv ask n now s \<longleftrightarrow>
     (miss_confirmed s \<longleftrightarrow> confirm_deadline s \<noteq> None) \<and>
     (confirm_deadline s \<noteq> None \<longrightarrow> (\<exists>i<n. \<exists>at\<le>now. missed (ask i at))) \<and>
     (confirm_deadline s = None \<longrightarrow> stale_reads s + fault_reads s = n \<and> (\<exists>at. \<forall>k<n. unreliable (ask k (at k))))"

text \<open>What the end of a probe says of them, the last read being the one that ends at \<open>t\<close>.\<close>

definition probe_answer_sound ::
  "surroundings \<Rightarrow> (nat \<Rightarrow> int \<Rightarrow> thrown_value + tick_outcome) \<Rightarrow> int \<Rightarrow> (wait_failure + element_info option) \<times> int \<Rightarrow> bool" where
  "probe_answer_sound w ask timeout result \<longleftrightarrow>
     (case result of
        (Inr (Some e), t) \<Rightarrow> \<exists>j now. t = now + int (takes w j) \<and> ask j now = Inr (Tick_Found e)
      | (Inr None, t) \<Rightarrow>
          (\<exists>j now. t = now + int (takes w j) \<and>
             (timeout = 0 \<and> missed (ask j now) \<or>
              (missed (ask j now) \<or> ask j now = Inr Tick_Stale) \<and> (\<exists>i<j. \<exists>at\<le>now. missed (ask i at))))
      | (Inl (Raised e), t) \<Rightarrow>
          (\<exists>j now. ask j now = Inl e \<or> ask j now = Inr (Tick_Fault e)) \<or> e = stopped_by_user \<or>
          is_abort_error e \<and> snd (idle_wait w (min probe_miss_confirm_idle_ms timeout)) = Some e
      | (Inl (Could_Not_Read stale faulty), t) \<Rightarrow>
          (\<exists>at. (\<forall>k < stale + faulty. unreliable (ask k (at k))) \<and> 0 < stale + faulty \<and> ask (stale + faulty - 1) (at (stale + faulty - 1)) = Inr Tick_Stale)
      | _ \<Rightarrow> False)"

lemma unreliable_upto:
  assumes "\<exists>at. \<forall>k<n. unreliable (ask k (at k))" and "unreliable (ask n now)"
  shows "\<exists>at. at n = now \<and> (\<forall>k<Suc n. unreliable (ask k (at k)))"
proof -
  from assms(1) obtain at where "\<forall>k<n. unreliable (ask k (at k))" by blast
  with assms(2) show ?thesis by (intro exI [of _ "at(n := now)"]) (auto simp: less_Suc_eq)
qed

lemma probe_inv_earlier: "probe_inv ask n now s \<Longrightarrow> confirm_deadline s \<noteq> None \<Longrightarrow> \<exists>i<n. \<exists>at\<le>now. missed (ask i at)"
  by (simp add: probe_inv_def)

lemma probe_inv_unreliable:
  assumes "probe_inv ask n now s" and "unreliable (ask n now)" and "now \<le> now'"
    and "miss_confirmed s' = miss_confirmed s" "confirm_deadline s' = confirm_deadline s"
    and "stale_reads s' + fault_reads s' = Suc (stale_reads s + fault_reads s)"
  shows "probe_inv ask (Suc n) now' s'"
proof -
  have "\<exists>i<Suc n. \<exists>at\<le>now'. missed (ask i at)" if "confirm_deadline s \<noteq> None"
    using probe_inv_earlier [OF assms(1) that] assms(3) by (meson less_Suc_eq order_trans)
  moreover have "\<exists>at. \<forall>k<Suc n. unreliable (ask k (at k))" if "confirm_deadline s = None"
    using unreliable_upto [of n ask now] assms(1,2) that unfolding probe_inv_def by blast
  ultimately show ?thesis using assms by (simp add: probe_inv_def)
qed

lemma probe_inv_miss:
  assumes "missed (ask n now)" and "now \<le> now'"
  shows "probe_inv ask (Suc n) now' (s\<lparr>probe_fault := None, fault_deadline := None, miss_confirmed := True, confirm_deadline := Some d\<rparr>)"
  using assms by (auto simp: probe_inv_def)

lemma after_unreliable_counts [simp]:
  "confirm_deadline (after_stale s) = confirm_deadline s" "stale_reads (after_stale s) = Suc (stale_reads s)"
  "fault_reads (after_stale s) = fault_reads s" "probe_fault (after_stale s) = None"
  "confirm_deadline (after_fault fw now e s) = confirm_deadline s" "stale_reads (after_fault fw now e s) = stale_reads s"
  "fault_reads (after_fault fw now e s) = Suc (fault_reads s)" "probe_fault (after_fault fw now e s) = Some e"
  by (simp_all add: after_stale_def after_fault_def Let_def)

text \<open>The ends of a probe after a miss and after a stale snapshot.\<close>

lemma miss_end_sound:
  assumes "probe_inv ask n now s" and "missed (ask n now)" and "miss_confirmed s \<or> timeout = 0"
  shows "probe_answer_sound w ask timeout (Inr None, now + int (takes w n))"
proof -
  have "timeout = 0 \<or> (\<exists>i<n. \<exists>at\<le>now. missed (ask i at))" using assms(1,3) unfolding probe_inv_def by blast
  with assms(2) show ?thesis unfolding probe_answer_sound_def by auto
qed

lemma stale_end_sound:
  assumes "probe_inv ask n now s" and "ask n now = Inr Tick_Stale"
  shows "probe_answer_sound w ask timeout
    (if confirm_deadline s \<noteq> None then Inr None else Inl (Could_Not_Read (Suc (stale_reads s)) (fault_reads s)), now + int (takes w n))"
proof (cases "confirm_deadline s = None")
  case True
  then have n: "stale_reads s + fault_reads s = n" and "\<exists>at. \<forall>k<n. unreliable (ask k (at k))"
    using assms(1) by (simp_all add: probe_inv_def)
  from unreliable_upto [of n ask now, OF this(2)] assms(2) n
  have "\<exists>at. (\<forall>k<Suc (stale_reads s) + fault_reads s. unreliable (ask k (at k))) \<and> ask n (at n) = Inr Tick_Stale"
    by (auto simp: unreliable_def)
  with True n show ?thesis by (auto simp: probe_answer_sound_def)
next
  case False
  with probe_inv_earlier [OF assms(1) False] assms(2) show ?thesis by (auto simp: probe_answer_sound_def)
qed

lemma probe_loop_sound:
  assumes "probe_inv ask n now s"
  shows "probe_answer_sound w ask timeout (probe_loop w ask timeout deadline n r now s)"
  using assms
proof (induction w ask timeout deadline n r now s rule: probe_loop.induct)
  case (1 w ask timeout deadline n r now s)
  note unroll = probe_loop.simps [of w ask timeout deadline n r now s, unfolded Let_def]
  show ?case
  proof (cases "ask n now")
    case (Inl e)
    then show ?thesis unfolding unroll by (auto simp: probe_answer_sound_def)
  next
    case (Inr tick)
    show ?thesis
    proof (cases tick)
      case (Tick_Found e)
      with Inr show ?thesis unfolding unroll by (auto simp: probe_answer_sound_def)
    next
      case (Tick_Miss d)
      then have missed: "missed (ask n now)" using Inr by (simp add: missed_def)
      obtain ms ie where idle: "idle_wait w (min probe_miss_confirm_idle_ms timeout) = (ms, ie)" by (cases "idle_wait w (min probe_miss_confirm_idle_ms timeout)")
      show ?thesis
      proof (cases "miss_confirmed s \<or> timeout = 0")
        case True
        with miss_end_sound [OF "1.prems" missed True, of w] Inr Tick_Miss show ?thesis unfolding unroll by simp
      next
        case False
        show ?thesis
        proof (cases "idle_aborts ie")
          case True
          then have "probe_answer_sound w ask timeout (Inl (Raised (the ie)), now + int (takes w n) + int ms)"
            using idle by (auto simp: probe_answer_sound_def idle_aborts_def split: option.splits)
          with True False Inr Tick_Miss idle show ?thesis unfolding unroll by simp
        next
          case no_abort: False
          from "1.IH"(1) [OF refl refl Inr Tick_Miss False refl idle [symmetric] refl refl no_abort]
            probe_inv_miss [of ask n now, OF missed] have "probe_answer_sound w ask timeout
              (probe_loop w ask timeout deadline (n + 1) r (now + int (takes w n) + int ms)
                (s\<lparr>probe_fault := None, fault_deadline := None, miss_confirmed := True,
                   confirm_deadline := Some (now + int (takes w n) + int ms + min probe_fault_retry_window_ms timeout)\<rparr>))"
            by simp
          with no_abort False Inr Tick_Miss idle show ?thesis unfolding unroll by simp
        qed
      qed
    next
      case Tick_Stale
      then have u: "unreliable (ask n now)" using Inr by (simp add: unreliable_def)
      let ?s = "after_stale s" and ?at = "now + int (takes w n)"
      show ?thesis
      proof (cases "nearest_deadline deadline ?s - ?at < tick_read_budget_ms")
        case True
        with stale_end_sound [OF "1.prems", of w timeout] Inr Tick_Stale show ?thesis
          unfolding unroll by (simp split: if_splits)
      next
        case False
        show ?thesis
        proof (cases "stopped w r")
          case True
          with False Inr Tick_Stale show ?thesis unfolding unroll by (simp add: probe_answer_sound_def)
        next
          case go: False
          let ?p = "action_delay r (nearest_deadline deadline ?s) ?at"
          have "now \<le> ?at + ?p + int (late w r)" using action_delay_nonneg [of r "nearest_deadline deadline ?s" ?at] by simp
          from probe_inv_unreliable [OF "1.prems" u this, of ?s]
          have "probe_inv ask (n + 1) (?at + ?p + int (late w r)) ?s" by simp
          with "1.IH"(2) [OF refl refl Inr Tick_Stale refl refl] False go
          have "probe_answer_sound w ask timeout (probe_loop w ask timeout deadline (n + 1) (r + 1) (?at + ?p + int (late w r)) ?s)" by simp
          with False go Inr Tick_Stale show ?thesis unfolding unroll by simp
        qed
      qed
    next
      case (Tick_Fault e)
      then have u: "unreliable (ask n now)" using Inr by (simp add: unreliable_def)
      let ?at = "now + int (takes w n)"
      let ?s = "after_fault (min probe_fault_retry_window_ms timeout) ?at e s"
      show ?thesis
      proof (cases "nearest_deadline deadline ?s - ?at < tick_read_budget_ms")
        case True
        have "probe_answer_sound w ask timeout (Inl (Raised e), ?at)" using Inr Tick_Fault by (auto simp: probe_answer_sound_def)
        with True Inr Tick_Fault show ?thesis unfolding unroll by simp
      next
        case False
        show ?thesis
        proof (cases "stopped w r")
          case True
          with False Inr Tick_Fault show ?thesis unfolding unroll by (simp add: probe_answer_sound_def)
        next
          case go: False
          let ?p = "action_delay r (nearest_deadline deadline ?s) ?at"
          have "now \<le> ?at + ?p + int (late w r)" using action_delay_nonneg [of r "nearest_deadline deadline ?s" ?at] by simp
          from probe_inv_unreliable [OF "1.prems" u this, of ?s]
          have "probe_inv ask (n + 1) (?at + ?p + int (late w r)) ?s" by simp
          with "1.IH"(3) [OF refl refl Inr Tick_Fault refl refl] False go
          have "probe_answer_sound w ask timeout (probe_loop w ask timeout deadline (n + 1) (r + 1) (?at + ?p + int (late w r)) ?s)" by simp
          with False go Inr Tick_Fault show ?thesis unfolding unroll by simp
        qed
      qed
    qed
  qed
qed

section \<open>The properties\<close>

text \<open>C36. Every reader of a handle sees one match set, the one \<open>count\<close> and \<open>all\<close> read, for every answer of the
  device: the assertion poller (strict or not), \<open>waitFor\<close>, \<open>exists\<close> and the strict read of actions and probes, on
  plain handles, which are sent to the device as they are, as on modified ones. The strict read finds an
  element exactly when it is the only match, and refuses several.\<close>

theorem readers_agree:
  "resolve_for_assertion read ios l False = read_matches read ios [] l \<and>
   resolve_for_assertion read ios l True =
     resolved_then (read_matches read ios [] l)
       (\<lambda>es. if nth_index l = None \<and> length es > 1 then Inl (Strict_Violation es) else Inr es) \<and>
   resolve_for_wait_tick wd ios l (Inr read) =
     (case read_matches read ios [] l of Inl err \<Rightarrow> failed_wait_tick (thrown_of wd l err) | Inr es \<Rightarrow> Inr (Some es)) \<and>
   exists_tick wd ios l (Inr read) =
     (case read_matches read ios [] l of
        Inl err \<Rightarrow> classify_tick_error (thrown_of wd l err)
      | Inr [] \<Rightarrow> Inr (Tick_Miss None)
      | Inr (e # _) \<Rightarrow> Inr (Tick_Found e)) \<and>
   (case read_matches read ios [] l of
      Inl err \<Rightarrow> resolve_tick wd ios l (Inr read) = classify_tick_error (thrown_of wd l err)
    | Inr [] \<Rightarrow> \<not> (\<exists>e. resolve_tick wd ios l (Inr read) = Inr (Tick_Found e))
    | Inr [e] \<Rightarrow> resolve_tick wd ios l (Inr read) = Inr (Tick_Found e)
    | Inr es \<Rightarrow> resolve_tick wd ios l (Inr read) = classify_tick_error (Strict_Error (strict_text wd l es)))"
  by (intro conjI assertion_matches strict_assertion_matches wait_tick_matches exists_tick_matches tick_matches)


text \<open>C38. The element that a tap waits for is, in the last read it made, the one match of the handle, enabled, and on screen
  unless the action allows otherwise; the time left for the action is at most its timeout and at least the smaller of
  the timeout and one second.\<close>

theorem tap_gets_the_enabled_match:
  assumes "wait_for_enabled w wd ios l off_ok pinned timeout start = (Inr (Some e, rem), t)"
  shows "(\<exists>k now budget read. answers w k now budget = Inr read \<and> read_matches read ios [] l = Inr [e] \<and> t = now + int (takes w k)) \<and>
    el_enabled e \<and> (is_off_screen e \<longrightarrow> off_ok e) \<and> min timeout 1000 \<le> rem \<and> rem \<le> timeout"
  using assms by (rule enabled_target)

text \<open>A device that is busy in the first read and then shows the three rows.\<close>

definition some_device :: surroundings where
  "some_device =
     \<lparr>answers = (\<lambda>k now budget. if k = 0 then Inl (Plain_Error ''findElements failed: Element is stale (UI changed)'') else Inr (still some_rows)),
      takes = (\<lambda>k. 40), late = (\<lambda>k. 0), stopped = (\<lambda>k. False), idle_wait = (\<lambda>ms. (0, None))\<rparr>"

definition some_wording :: wording where
  "some_wording = \<lparr>describe = (\<lambda>l. ''row''), strict_text = (\<lambda>l es. ''several rows'')\<rparr>"

lemma some_device_waited:
  "wait_for_enabled some_device some_wording False (nth_of some_row 1) (\<lambda>e. False) None 5000 0 =
     (Inr (Some (some_element 1 40 ''Other''), 4920), 80)"
proof -
  let ?l = "nth_of some_row 1"
  have busy: "tick_of_read some_device some_wording False ?l 5000 0 0 = Inr Tick_Stale"
    by (simp add: tick_of_read_def some_device_def resolve_tick_def classify_tick_error_def classify_resolution_error_def
        is_stale_snapshot_error_def stale_snapshot_signature_def)
  have "resolve_one (still some_rows) False [] ?l = Inr (some_element 1 40 ''Other'')"
    using each_handle [OF some_row_built some_rows_seen, of 1] by simp
  then have row: "tick_of_read some_device some_wording False ?l 5000 (Suc 0) 40 = Inr (Tick_Found (some_element 1 40 ''Other''))"
    using tick_matches [where read = "still some_rows" and ios = False and l = ?l and wd = some_wording] nth_matches [OF some_row_built, of some_rows False 1]
    by (simp add: tick_of_read_def some_device_def some_rows_seen matches_def [symmetric] select_nth_def)
  have "takes some_device = (\<lambda>k. 40)" by (simp add: some_device_def)
  then show ?thesis
    by (simp add: wait_for_enabled_def, subst poll.simps, simp add: busy action_delay_cap delay_at_def action_retry_delays_ms_def,
        subst poll.simps, simp add: row Let_def is_off_screen_def some_element_def remaining_budget_def min_action_budget_ms_def)
qed

lemma tap_gets_the_enabled_match_witness:
  "el_enabled (some_element 1 40 ''Other'') \<and> min 5000 1000 \<le> (4920 :: int)"
  using tap_gets_the_enabled_match [OF some_device_waited] by simp

text \<open>C39. \<open>waitFor\<close> returns only on a state it has seen: in its last read the device answered and the matches are in the
  state asked for (a call that failed with a not-found error of its own counts as no match); \<open>visible\<close> and
  \<open>attached\<close> without an index mean exactly one match. A stale snapshot, a fault or an agent timeout never pass for absence.\<close>

theorem wait_for_sees_the_state:
  assumes "wait_for w wd ios l st timeout start = (Inr (), t)"
  shows "\<exists>k now budget es. t = now + int (takes w k) \<and>
    ((\<exists>read. answers w k now budget = Inr read \<and> read_matches read ios [] l = Inr es) \<or>
     (\<exists>e. answers w k now budget = Inl e \<and> classify_resolution_error e = Class_Miss \<and> es = [])) \<and>
    state_reached st es \<and> (nth_index l = None \<and> (st = Wait_Visible \<or> st = Wait_Attached) \<longrightarrow> length es = 1)"
  using assms by (rule wait_for_seen)

text \<open>The second row is there; the busy first read is no answer.\<close>

lemma some_device_seen:
  "wait_for some_device some_wording False (nth_of some_row 1) Wait_Visible 5000 0 = (Inr (), 80)"
proof -
  let ?l = "nth_of some_row 1"
  have busy: "wait_tick_of_read some_device some_wording False ?l 5000 0 0 = Inr None"
    by (simp add: wait_tick_of_read_def some_device_def resolve_for_wait_tick_def failed_wait_tick_def classify_resolution_error_def
        is_stale_snapshot_error_def stale_snapshot_signature_def)
  have row: "wait_tick_of_read some_device some_wording False ?l 5000 (Suc 0) 40 = Inr (Some [some_element 1 40 ''Other''])"
    using wait_tick_matches [where read = "still some_rows" and ios = False and l = ?l and wd = some_wording]
      nth_matches [OF some_row_built, of some_rows False 1]
    by (simp add: wait_tick_of_read_def some_device_def some_rows_seen matches_def [symmetric] select_nth_def)
  have "takes some_device = (\<lambda>k. 40)" by (simp add: some_device_def)
  then show ?thesis
    by (simp add: wait_for_def, subst poll.simps, simp add: busy action_delay_cap delay_at_def action_retry_delays_ms_def,
        subst poll.simps, simp add: row Let_def state_reached_def some_element_def)
qed

lemma wait_for_sees_the_state_witness:
  "\<exists>k now budget es. (80 :: int) = now + int (takes some_device k) \<and>
    ((\<exists>read. answers some_device k now budget = Inr read \<and> read_matches read False [] (nth_of some_row 1) = Inr es) \<or>
     (\<exists>e. answers some_device k now budget = Inl e \<and> classify_resolution_error e = Class_Miss \<and> es = [])) \<and> state_reached Wait_Visible es"
  using wait_for_sees_the_state [OF some_device_seen] by blast


section \<open>A text that is taken for a fault\<close>

text \<open>
  The error of a handle with a filter that matches nothing carries the handle's text, and the classification looks for
  the agent's message anywhere in an error's text: a locator of that very text is read as a fault, not as a miss.
\<close>

lemma agent_timeout_text_is_a_fault:
  "classify_resolution_error (Plain_Error ''Element not found: device.getByText(Agent command timed out).filter(1)'') = Class_Fault"
  by code_simp

end
