(* ===== verification/Spec2Isabelle.thy ===== *)
theory Spec2Isabelle
  imports Readiness_Safety Claim_Safety Group_Safety Config_Safety Project_Order Sharding Allocation_Safety Run_Queue
    Startup_Gate Bounded_Run Suite_Safety Suite_Results Wave_Order Barrier_Safety
    Fixture_Safety Fixture_Names Grpc_Safety Worker_Safety Selection_Safety Router_Safety Candidate_Policy
    Response_Safety Scroll_Safety Wait_Safety
begin

text \<open>
  Tapsmith runs end-to-end tests of mobile apps. The program modelled here is its TypeScript package
  (\<open>src/packages/tapsmith/src/\<close>; file names below are relative to it). A run loads a config, resolves its
  projects into waves and device targets, splits the worker budget over the targets, claims devices
  against other sessions on the machine, starts a bucket of workers per target behind one barrier,
  dispatches the files of each wave to the workers, and each worker runs its file's tree of scopes and
  tests. UI and watch mode keep such a session alive and prepare devices in advance. Every definition is
  executable; calls to the world (devices, processes, files, clocks) are events of step relations or
  arguments of the definitions.

  \<^bold>\<open>Shared vocabulary.\<close> \<open>TS_Prelude\<close>: JavaScript's option operators, numbers as text, insertion-ordered sets
  and maps (with the locale of the maps' laws and its interpretation), stable sorting.

  \<^bold>\<open>Configuration\<close> (\<open>config.ts\<close>). \<open>Config_Shape\<close> has the values a module can export and the checks of every
  key; \<open>Config_Load\<close> the defaults, \<open>defineConfig\<close>, \<open>loadConfigFile\<close> and the merge of a project's \<open>use\<close>;
  \<open>Device_Groups\<close> the \<open>devices\<close> option, device signatures and the group that projects of one target share.
  \<open>Config_Safety\<close> and \<open>Group_Safety\<close> show what a loaded config guarantees its readers, that an accepted \<open>use\<close>
  merges, and which groups come out of validation. \<open>App_Reset\<close> (\<open>app-reset.ts\<close>) is the reset policy.

  \<^bold>\<open>Projects\<close> (\<open>project.ts\<close>). \<open>Projects\<close> has validation, \<open>findCycle\<close>, \<open>topologicalSort\<close>,
  \<open>collectTransitiveDeps\<close>, sharding and the buckets; \<open>Worker_Allocation\<close> the split of the worker budget.
  \<open>Project_Graph\<close>, \<open>Project_Order\<close>, \<open>Sharding\<close> and \<open>Allocation_Safety\<close> show that cycles are found exactly, waves
  respect and exhaust the dependencies, shards partition the files, and the allocation meets the budget.

  \<^bold>\<open>Device claims\<close> (\<open>device-claims.ts\<close>). \<open>Device_Claims\<close> has the records and operations over the registry's
  files, \<open>Claim_Names\<close> the file names, \<open>Claim_Store\<close> the interface the operations rely on, as locales
  interpreted on the registry; \<open>Claim_Protocol\<close> and \<open>Claim_Safety\<close> show that two live sessions never hold one
  device, over every interleaving of any number of processes that each take the registry's lock.

  \<^bold>\<open>A parallel run\<close> (\<open>dispatcher.ts\<close>). \<open>Bucket_Plan\<close> is the plan of a run over several device targets
  (\<open>planMultiBucket\<close>), the merged result and the results of targets that cannot start; \<open>Bucket_Barrier\<close> the
  launch barrier (\<open>coordinateBuckets\<close>); \<open>Project_Waves\<close> the loop over the waves of projects in \<open>runParallel\<close>;
  \<open>Dispatch_Wave\<close> the dispatch of one wave (\<open>dispatchWaveInner\<close>) with every message of \<open>worker-protocol.ts\<close>,
  exits, broken channels and shutdown. \<open>Bucket_Safety\<close>, \<open>Barrier_Safety\<close>, \<open>Dispatch_Safety\<close> and \<open>Wave_Order\<close>
  show that no file is lost or planned twice, ports and worker numbers do not overlap, no bucket starts
  early or waits for ever, a wave never stalls, and dependencies run first. \<open>Error_Detail\<close>
  (\<open>error-detail.ts\<close>) is how their messages nest. \<open>Worker_File\<close> is a worker's side of a file
  (\<open>worker-runner.ts\<close>): its run with one retry and the messages it sends; \<open>Worker_Safety\<close> shows what a
  finished file says and that its messages are steps of the dispatch.

  \<^bold>\<open>The runner\<close> (\<open>runner.ts\<close>, \<open>unhandled-errors.ts\<close>, \<open>test-filter.ts\<close>). \<open>Test_Tree\<close> has scopes, tests and results,
  \<open>Test_Filter\<close> the selection, \<open>Suite_Runner\<close> the whole of \<open>runSuiteContext\<close>: resets, hooks, attempts, retries,
  serial groups, skips. The calls it makes are a parameter that answers each call from the calls before
  it. \<open>Suite_Attempts\<close>, \<open>Suite_Safety\<close> and \<open>Suite_Results\<close> show the order of the calls of an attempt, the meaning
  of a final result, that a file with nothing to run touches nothing, and that every selected test has
  one result. \<open>Bounded_Run\<close> (\<open>run-bounded.ts\<close>, \<open>attempt-fence.ts\<close>) is the test timeout, \<open>Retry_Schedule\<close>
  (\<open>retry-schedule.ts\<close>, \<open>trace/trace-mode.ts\<close>) the pace of retry loops and the recording of attempts.

  \<^bold>\<open>Fixtures\<close> (\<open>fixtures.ts\<close>). \<open>Fixture_Parsing\<close> reads the names a function asks for off its source text,
  \<open>Fixtures\<close> has the registry, \<open>collectDeps\<close> and the setup and teardown over the outcomes of the fixture
  functions. \<open>Fixture_Names\<close> shows that declared names are read back, \<open>Fixture_Safety\<close> that the order is the
  dependencies' own, that cycles are found exactly, and that what is set up is torn down.

  \<^bold>\<open>Captured traffic\<close> (\<open>trace/grpc-protobuf.ts\<close>). \<open>Grpc_Wire\<close> decodes gRPC frames and protobuf messages from bytes
  (8-bit words), with the schema table as an argument. \<open>Grpc_Safety\<close> has a reference encoder and shows that
  a body is split into exactly its frames, that what a schema describes is read back, and the bounds.

  \<^bold>\<open>Run all\<close> (\<open>ui-mode/run-selection.ts\<close>, \<open>ui-mode/run-all-plan.ts\<close>). \<open>Run_Selection\<close> has the tests a filtered
  tree shows, the check of the selection the server receives and the plan of files in waves;
  \<open>Selection_Safety\<close> shows that exactly the visible tests are planned and that dependencies run whole, earlier.

  \<^bold>\<open>MCP sessions\<close> (\<open>mcp/http-session-router.ts\<close>). \<open>Mcp_Router\<close> routes requests to sessions and reaps them;
  the SDK's callbacks, request bodies, streams and time are steps. \<open>Router_Safety\<close> shows what can end a
  session, what a sweep leaves, and that the list of clients is true. \<open>Response_Limits\<close> (\<open>mcp/response-limits.ts\<close>)
  cuts texts and whole tool results to their budgets, over UTF-16 code units (16-bit words);
  \<open>Response_Safety\<close> shows that the budgets are kept and that a cut names exactly what it left out.

  \<^bold>\<open>Scrolling\<close> (\<open>scroll-container.ts\<close>). \<open>Scroll_Container\<close> picks the region that \<open>scrollIntoView\<close> swipes in from a
  hierarchy dump; \<open>Scroll_Safety\<close> shows that it is inside its container, window and screen.

  \<^bold>\<open>Locators\<close> (\<open>element-handle.ts\<close>). \<open>Locators\<close> has the handles that \<open>getBy*\<close>, \<open>nth\<close>, \<open>filter\<close>, \<open>and\<close> and \<open>or\<close>
  build, and what they resolve to; what a device answers to a read is an argument. \<open>Locator_Safety\<close> gives a handle
  its meaning on a still screen, shows that the modifiers compose in call order, and strictness. \<open>Auto_Wait\<close> has
  the loops that read again until an element is there, enabled or in a state, and the presence probes; time, the
  device's answers and the stop are arguments, and each loop is a total function, for its delays grow to a deadline.
  \<open>Wait_Safety\<close> shows that all readers see one match set and that no unreliable read passes for an answer.

  \<^bold>\<open>Sessions\<close>. \<open>Device_Readiness\<close> (\<open>ui-mode/device-readiness.ts\<close>) is the machine that prepares devices in the
  background, \<open>Readiness_Safety\<close> its safety; \<open>Readiness_Candidate\<close> (\<open>ui-mode/readiness-candidate.ts\<close>) picks the
  file to prepare for, and \<open>Candidate_Policy\<close> shows that its policy is the one the runner will resolve.
  \<open>Startup_Gate\<close> (\<open>ui-mode/worker-startup.ts\<close>) holds a run while workers start; \<open>Run_Queue\<close>
  (\<open>watch-queue.ts\<close>) is watch mode's queue.

  \<^bold>\<open>Bounds.\<close> \<open>findCycle\<close>, \<open>collectDeps\<close> and \<open>collectTransitiveDeps\<close> take as fuel one more than the longest path or the
  number of names they can visit, and \<open>shardProjects\<close> one pass per project; each is proved to be enough.
  \<open>estimateAttempts\<close> is a partial function, proved to return on schedules with a positive repeated delay.
  The other loops are recursive functions with a termination proof.

  \<^bold>\<open>Not modelled.\<close> Devices, emulators, simulators, the daemon (Rust), the agents (Kotlin, Swift), sockets,
  processes, the file system and the terminal; traces, network capture and reporters' output; the
  user-facing API over the device (the actions of \<open>element-handle.ts\<close>, \<open>expect.ts\<close>, \<open>device.ts\<close>), whose effects are calls
  to the daemon; the web interface. Error messages are data unless their text is itself the contract.
  Strings are lists of characters below 256; a TypeScript number that counts or indexes is a natural
  number or an integer, as none of the modelled code depends on rounding.
\<close>

end
